(* ===== verification/Sky_Prelude.thy ===== *)
theory Sky_Prelude
  imports Main "HOL-Library.Word"
begin

unbundle bit_operations_syntax

text \<open>
  Prelude of the Skybolt development: the integer types of inc/types.h, the state-and-error
  monad in which the kernel's C functions are written, the loop combinators, and the lemmas on
  words, lists and searches that every component shares.

  A kernel function that reads or writes kernel state is a \<open>kop\<close>: it takes the state and
  either stops with an error or returns a value and the new state. There are three ways to stop:
  \<open>Panic\<close> is a call of the kernel's own \<open>panic\<close> (or a failed \<open>assert\<close>), \<open>Fault\<close> is a
  step to which C or the CPU gives no meaning here (a NULL dereference, an index outside an array,
  a shift wider than the operand), and \<open>Hang\<close> is a loop that does not end.
\<close>

section \<open>Types\<close>

type_synonym u8 = "8 word"
type_synonym u16 = "16 word"
type_synonym u32 = "32 word"
type_synonym u64 = "64 word"
type_synonym usize = u64
type_synonym virt_t = u64
type_synonym phys_t = u64

datatype kerr = Panic string | Fault string | Hang string

type_synonym ('s, 'a) kop = "'s \<Rightarrow> kerr + ('a \<times> 's)"

section \<open>The kernel monad\<close>

definition kreturn :: "'a \<Rightarrow> ('s, 'a) kop" where
  "kreturn a s = Inr (a, s)"

definition kbind :: "('s, 'a) kop \<Rightarrow> ('a \<Rightarrow> ('s, 'b) kop) \<Rightarrow> ('s, 'b) kop" where
  "kbind m f s = (case m s of Inl e \<Rightarrow> Inl e | Inr (a, s') \<Rightarrow> f a s')"

definition kseq :: "('s, 'a) kop \<Rightarrow> ('s, 'b) kop \<Rightarrow> ('s, 'b) kop" where
  "kseq m n = kbind m (\<lambda>_. n)"

definition kgets :: "('s \<Rightarrow> 'a) \<Rightarrow> ('s, 'a) kop" where
  "kgets f s = Inr (f s, s)"

definition kmodify :: "('s \<Rightarrow> 's) \<Rightarrow> ('s, unit) kop" where
  "kmodify f s = Inr ((), f s)"

definition kpanic :: "string \<Rightarrow> ('s, 'a) kop" where
  "kpanic msg s = Inl (Panic msg)"

definition kfault :: "string \<Rightarrow> ('s, 'a) kop" where
  "kfault msg s = Inl (Fault msg)"

definition kassert :: "bool \<Rightarrow> string \<Rightarrow> ('s, unit) kop" where
  "kassert b msg = (if b then kreturn () else kpanic msg)"

definition kwhen :: "bool \<Rightarrow> ('s, unit) kop \<Rightarrow> ('s, unit) kop" where
  "kwhen b m = (if b then m else kreturn ())"

text \<open>A pure computation that may stop, run inside the monad.\<close>

definition klift :: "kerr + 'a \<Rightarrow> ('s, 'a) kop" where
  "klift r s = (case r of Inl e \<Rightarrow> Inl e | Inr a \<Rightarrow> Inr (a, s))"

text \<open>A loop that may run forever: not returning is the error \<open>Hang\<close>.\<close>

definition kloop :: "string \<Rightarrow> ('s \<Rightarrow> 'a option) \<Rightarrow> ('s, 'a) kop" where
  "kloop msg f s = (case f s of None \<Rightarrow> Inl (Hang msg) | Some a \<Rightarrow> Inr (a, s))"

text \<open>A counting loop, \<open>for (i = lo; i < hi; i++) body\<close>, over the list of its indices.\<close>

primrec kfor :: "'i list \<Rightarrow> ('i \<Rightarrow> ('s, unit) kop) \<Rightarrow> ('s, unit) kop" where
  "kfor [] f = kreturn ()"
| "kfor (i # is) f = kseq (f i) (kfor is f)"

text \<open>
  The search loop of the allocators: the first index among \<open>i, i + 1, \<dots>, i + n - 1\<close> that
  satisfies the test.
\<close>

primrec find_from :: "(nat \<Rightarrow> bool) \<Rightarrow> nat \<Rightarrow> nat \<Rightarrow> nat option" where
  "find_from p i 0 = None"
| "find_from p i (Suc n) = (if p i then Some i else find_from p (Suc i) n)"

section \<open>Reasoning about the monad\<close>

named_theorems kop_defs \<open>definitions of the basic operations of the kernel monad\<close>
named_theorems kop_simps \<open>equations that run the basic operations on a state\<close>

lemmas [kop_defs] =
  kreturn_def kbind_def kseq_def kgets_def kmodify_def kpanic_def kfault_def kassert_def
  kwhen_def klift_def kloop_def

lemma kreturn_run [kop_simps]: "kreturn a s = Inr (a, s)"
  by (simp add: kop_defs)

lemma kgets_run [kop_simps]: "kgets f s = Inr (f s, s)"
  by (simp add: kop_defs)

lemma kmodify_run [kop_simps]: "kmodify f s = Inr ((), f s)"
  by (simp add: kop_defs)

lemma kpanic_run [kop_simps]: "kpanic msg s = Inl (Panic msg)"
  by (simp add: kop_defs)

lemma kfault_run [kop_simps]: "kfault msg s = Inl (Fault msg)"
  by (simp add: kop_defs)

lemma kassert_run [kop_simps]:
  "kassert b msg s = (if b then Inr ((), s) else Inl (Panic msg))"
  by (simp add: kop_defs)

lemma kwhen_run [kop_simps]: "kwhen b m s = (if b then m s else Inr ((), s))"
  by (simp add: kop_defs)

lemma klift_run [kop_simps]: "klift (Inl e) s = Inl e" "klift (Inr a) s = Inr (a, s)"
  by (simp_all add: kop_defs)

lemma kbind_Inl [kop_simps]: "m s = Inl e \<Longrightarrow> kbind m f s = Inl e"
  by (simp add: kbind_def)

lemma kbind_Inr [kop_simps]: "m s = Inr (a, s') \<Longrightarrow> kbind m f s = f a s'"
  by (simp add: kbind_def)

lemma kseq_Inl [kop_simps]: "m s = Inl e \<Longrightarrow> kseq m n s = Inl e"
  by (simp add: kseq_def kbind_def)

lemma kseq_Inr [kop_simps]: "m s = Inr (a, s') \<Longrightarrow> kseq m n s = n s'"
  by (simp add: kseq_def kbind_def)

lemma kbind_InrE:
  assumes "kbind m f s = Inr (b, t)"
  obtains a s' where "m s = Inr (a, s')" and "f a s' = Inr (b, t)"
  using assms by (auto simp: kbind_def split: sum.splits)

lemma kseq_InrE:
  assumes "kseq m n s = Inr (b, t)"
  obtains a s' where "m s = Inr (a, s')" and "n s' = Inr (b, t)"
  using assms by (auto simp: kseq_def elim: kbind_InrE)

lemma kbind_assoc: "kbind (kbind m f) g = kbind m (\<lambda>a. kbind (f a) g)"
  by (rule ext) (simp add: kbind_def split: sum.splits)

text \<open>
  Total correctness: \<open>runs m s Q\<close> says that \<open>m\<close> returns from \<open>s\<close>, without an error, and that
  the value and the new state satisfy \<open>Q\<close>. The rules below compute it along the program.
\<close>

definition runs :: "('s, 'a) kop \<Rightarrow> 's \<Rightarrow> ('a \<Rightarrow> 's \<Rightarrow> bool) \<Rightarrow> bool" where
  "runs m s Q \<longleftrightarrow> (\<exists>a s'. m s = Inr (a, s') \<and> Q a s')"

named_theorems runs_simps \<open>the weakest precondition of each operation\<close>

lemma runs_kreturn [runs_simps, simp]: "runs (kreturn a) s Q \<longleftrightarrow> Q a s"
  by (simp add: runs_def kop_simps)

lemma runs_kbind [runs_simps, simp]: "runs (kbind m f) s Q \<longleftrightarrow> runs m s (\<lambda>a s'. runs (f a) s' Q)"
  by (auto simp: runs_def kbind_def split: sum.splits)

lemma runs_kseq [runs_simps, simp]: "runs (kseq m n) s Q \<longleftrightarrow> runs m s (\<lambda>_ s'. runs n s' Q)"
  by (simp add: kseq_def)

lemma runs_kgets [runs_simps, simp]: "runs (kgets f) s Q \<longleftrightarrow> Q (f s) s"
  by (simp add: runs_def kop_simps)

lemma runs_kmodify [runs_simps, simp]: "runs (kmodify f) s Q \<longleftrightarrow> Q () (f s)"
  by (simp add: runs_def kop_simps)

lemma runs_kpanic [runs_simps, simp]: "\<not> runs (kpanic msg) s Q"
  by (simp add: runs_def kop_simps)

lemma runs_kfault [runs_simps, simp]: "\<not> runs (kfault msg) s Q"
  by (simp add: runs_def kop_simps)

lemma runs_kassert [runs_simps, simp]: "runs (kassert b msg) s Q \<longleftrightarrow> b \<and> Q () s"
  by (simp add: runs_def kop_simps)

lemma runs_kwhen [runs_simps, simp]: "runs (kwhen b m) s Q \<longleftrightarrow> (if b then runs m s Q else Q () s)"
  by (simp add: runs_def kop_simps)

lemma runs_klift [runs_simps, simp]:
  "runs (klift r) s Q \<longleftrightarrow> (case r of Inl e \<Rightarrow> False | Inr a \<Rightarrow> Q a s)"
  by (simp add: runs_def klift_def split: sum.splits)

lemma runs_if [runs_simps]: "runs (if b then m else n) s Q \<longleftrightarrow> (if b then runs m s Q else runs n s Q)"
  by simp

lemma runs_mono: "runs m s Q \<Longrightarrow> (\<And>a s'. Q a s' \<Longrightarrow> R a s') \<Longrightarrow> runs m s R"
  by (auto simp: runs_def)

lemma runs_InrI: "m s = Inr (a, s') \<Longrightarrow> Q a s' \<Longrightarrow> runs m s Q"
  by (auto simp: runs_def)

lemma runs_InrD: "runs m s Q \<Longrightarrow> m s = Inr (a, s') \<Longrightarrow> Q a s'"
  by (auto simp: runs_def)

lemma runs_seqI:
  "runs m s P \<Longrightarrow> (\<And>a s'. P a s' \<Longrightarrow> runs n s' Q) \<Longrightarrow> runs (kseq m n) s Q"
  by (auto intro: runs_mono)

lemma kseq_assoc: "kseq (kseq a b) c = kseq a (kseq b c)"
  by (simp add: kseq_def kbind_assoc)

lemma kfor_append: "kfor (xs @ ys) f = kseq (kfor xs f) (kfor ys f)"
  by (induction xs) (simp_all add: kseq_assoc, simp add: kseq_def kbind_def kreturn_def fun_eq_iff)

text \<open>\<open>keeps g m\<close>: when \<open>m\<close> returns, the part \<open>g\<close> of the state is as before.\<close>

definition keeps :: "('s \<Rightarrow> 'b) \<Rightarrow> ('s, 'a) kop \<Rightarrow> bool" where
  "keeps g m \<longleftrightarrow> (\<forall>s a s'. m s = Inr (a, s') \<longrightarrow> g s' = g s)"

named_theorems keeps_intros \<open>rules for what an operation leaves unchanged\<close>

lemma keepsD: "keeps g m \<Longrightarrow> m s = Inr (a, s') \<Longrightarrow> g s' = g s"
  by (simp add: keeps_def)

lemma keeps_basic [keeps_intros]:
  "keeps g (kreturn a)" "keeps g (kgets f)" "keeps g (kpanic msg)" "keeps g (kfault msg)" "keeps g (kassert b msg)"
  "keeps g (klift r)" "keeps g (kloop msg l)"
  by (auto simp: keeps_def kop_defs split: if_splits sum.splits option.splits)

lemma keeps_kmodify [keeps_intros]: "(\<And>s. g (f s) = g s) \<Longrightarrow> keeps g (kmodify f)"
  by (simp add: keeps_def kop_simps)

lemma keeps_kbind [keeps_intros]: "keeps g m \<Longrightarrow> (\<And>a. keeps g (f a)) \<Longrightarrow> keeps g (kbind m f)"
  by (auto simp: keeps_def elim!: kbind_InrE)

lemma keeps_kseq [keeps_intros]: "keeps g m \<Longrightarrow> keeps g n \<Longrightarrow> keeps g (kseq m n)"
  by (auto simp: keeps_def elim!: kseq_InrE)

lemma keeps_kwhen [keeps_intros]: "keeps g m \<Longrightarrow> keeps g (kwhen b m)"
  by (simp add: keeps_def kop_defs)

lemma keeps_if [keeps_intros]: "keeps g m \<Longrightarrow> keeps g n \<Longrightarrow> keeps g (if b then m else n)"
  by simp

lemma keeps_option [keeps_intros]:
  "keeps g m \<Longrightarrow> (\<And>x. keeps g (n x)) \<Longrightarrow> keeps g (case v of None \<Rightarrow> m | Some x \<Rightarrow> n x)"
  by (simp split: option.split)

lemma keeps_kfor [keeps_intros]: "(\<And>i. keeps g (f i)) \<Longrightarrow> keeps g (kfor is f)"
  by (induction "is") (auto intro: keeps_intros)

text \<open>The loop rule: an invariant over the indices that remain.\<close>

lemma runs_kfor:
  assumes "I is s"
    and "\<And>i is' s. I (i # is') s \<Longrightarrow> runs (f i) s (\<lambda>_ s'. I is' s')"
    and "\<And>s. I [] s \<Longrightarrow> Q () s"
  shows "runs (kfor is f) s Q"
  using assms(1)
proof (induction "is" arbitrary: s)
  case Nil
  then show ?case by (simp add: assms(3))
next
  case (Cons i "is")
  show ?case
    using assms(2) [OF Cons.prems] by (auto intro: runs_mono Cons.IH)
qed

text \<open>A loop over \<open>0, \<dots>, n - 1\<close> with an invariant that counts the rounds.\<close>

lemma runs_kfor_upt:
  assumes "I 0 s" and "\<And>i t. i < n \<Longrightarrow> I i t \<Longrightarrow> runs (f i) t (\<lambda>_. I (Suc i))"
  shows "runs (kfor [0..<n] f) s (\<lambda>_. I n)"
proof (rule runs_kfor [where I = "\<lambda>is t. \<exists>i. i \<le> n \<and> is = [i..<n] \<and> I i t"])
  show "\<exists>i. i \<le> n \<and> [0..<n] = [i..<n] \<and> I i s" using assms(1) by (intro exI [of _ 0]) simp
  show "I n t" if "\<exists>i. i \<le> n \<and> [] = [i..<n] \<and> I i t" for t
    using that by (auto simp: upt_rec split: if_splits)
  show "runs (f i) t (\<lambda>_ t'. \<exists>j. j \<le> n \<and> is' = [j..<n] \<and> I j t')"
    if "\<exists>j. j \<le> n \<and> i # is' = [j..<n] \<and> I j t" for i is' t
  proof -
    from that obtain j where "j \<le> n" "i # is' = [j..<n]" "I j t" by blast
    then have j: "j = i" "i < n" "is' = [Suc i..<n]" by (auto simp: upt_rec [of j] split: if_splits)
    show ?thesis
      by (rule runs_mono [OF assms(2) [OF j(2)]]) (use j \<open>I j t\<close> in \<open>auto intro: exI [of _ "Suc i"]\<close>)
  qed
qed

text \<open>A loop of plain state updates is a fold.\<close>

lemma kfor_kmodify: "kfor is (\<lambda>i. kmodify (g i)) s = Inr ((), fold g is s)"
  by (induction "is" arbitrary: s) (simp_all add: kop_simps)

section \<open>Searches\<close>

lemma find_from_None_iff: "find_from p i n = None \<longleftrightarrow> (\<forall>j. i \<le> j \<and> j < i + n \<longrightarrow> \<not> p j)"
proof (induction n arbitrary: i)
  case 0
  show ?case by auto
next
  case (Suc n)
  have "(\<forall>j. i \<le> j \<and> j < i + Suc n \<longrightarrow> \<not> p j) \<longleftrightarrow>
      \<not> p i \<and> (\<forall>j. Suc i \<le> j \<and> j < Suc i + n \<longrightarrow> \<not> p j)"
  proof -
    have "i \<le> j \<longleftrightarrow> j = i \<or> Suc i \<le> j" for j by auto
    then show ?thesis by auto
  qed
  with Suc.IH show ?case by simp
qed

lemma find_from_Some:
  "find_from p i n = Some k \<Longrightarrow> i \<le> k \<and> k < i + n \<and> p k \<and> (\<forall>j. i \<le> j \<and> j < k \<longrightarrow> \<not> p j)"
proof (induction n arbitrary: i)
  case 0
  then show ?case by simp
next
  case (Suc n)
  show ?case
  proof (cases "p i")
    case True
    with Suc.prems show ?thesis by auto
  next
    case False
    with Suc.prems have "find_from p (Suc i) n = Some k" by simp
    from Suc.IH [OF this] False show ?thesis
      by (metis Suc_leD Suc_leI add_Suc_shift le_neq_implies_less)
  qed
qed

lemma find_from_SomeI:
  "i \<le> k \<Longrightarrow> k < i + n \<Longrightarrow> p k \<Longrightarrow> (\<forall>j. i \<le> j \<and> j < k \<longrightarrow> \<not> p j) \<Longrightarrow> find_from p i n = Some k"
proof (cases "find_from p i n")
  case None
  assume "i \<le> k" "k < i + n" "p k"
  with None show ?thesis by (auto simp: find_from_None_iff)
next
  case (Some k')
  assume "i \<le> k" "k < i + n" "p k" "\<forall>j. i \<le> j \<and> j < k \<longrightarrow> \<not> p j"
  with find_from_Some [OF Some] have "k = k'" by (metis linorder_neqE_nat)
  with Some show ?thesis by simp
qed

lemma nat_div_iff: "0 < (b :: nat) \<Longrightarrow> i * b \<le> d \<and> d < i * b + b \<longleftrightarrow> i = d div b"
proof
  assume "i * b \<le> d \<and> d < i * b + b"
  then show "i = d div b" by (intro div_nat_eqI [symmetric]) (simp_all add: mult.commute)
next
  assume "0 < b" and "i = d div b"
  moreover have "d mod b < b" using \<open>0 < b\<close> by simp
  ultimately show "i * b \<le> d \<and> d < i * b + b"
    using div_mult_mod_eq [of d b] by (metis add_less_cancel_left le_add1)
qed

section \<open>Words\<close>

lemma of_nat_inj_64: "i < 2 ^ 64 \<Longrightarrow> j < 2 ^ 64 \<Longrightarrow> (of_nat i :: u64) = of_nat j \<longleftrightarrow> i = j"
  by (simp add: word_of_nat_eq_iff take_bit_nat_eq_self_iff [THEN iffD2])

lemma unat_of_nat_64: "i < 2 ^ 64 \<Longrightarrow> unat (of_nat i :: u64) = i"
  by (simp add: unat_of_nat take_bit_nat_eq_self)

lemma unat_bound_64: "unat (a :: u64) < 2 ^ 64"
  using unsigned_less [of a] by simp

lemma add_of_nat_diff: "(a :: u64) = b + of_nat (unat (a - b))"
  by simp

lemma unat_add_of_nat: "unat (a :: u64) + k < 2 ^ 64 \<Longrightarrow> unat (a + of_nat k) = unat a + k"
  by (simp add: unat_word_ariths unat_of_nat_64)

lemma offset_iff: "i < 2 ^ 64 \<Longrightarrow> (a :: u64) = b + of_nat i \<longleftrightarrow> unat (a - b) = i"
proof
  assume "i < 2 ^ 64" and "a = b + of_nat i"
  then show "unat (a - b) = i" by (simp add: unat_of_nat_64)
next
  assume "unat (a - b) = i"
  then show "a = b + of_nat i" using add_of_nat_diff [of a b] by simp
qed

text \<open>An address lies in a run of \<open>n\<close> bytes from \<open>b\<close> exactly when it is \<open>b\<close> plus a small offset.\<close>

lemma in_run_iff:
  assumes "n \<le> 2 ^ 64"
  shows "unat ((a :: u64) - b) < n \<longleftrightarrow> (\<exists>i < n. a = b + of_nat i)"
proof
  assume "unat (a - b) < n"
  then show "\<exists>i < n. a = b + of_nat i" by (intro exI [of _ "unat (a - b)"]) simp
next
  assume "\<exists>i < n. a = b + of_nat i"
  then obtain i where "i < n" "a = b + of_nat i" by blast
  with assms show "unat (a - b) < n" by (simp add: unat_of_nat_64)
qed

end
