(* ===== verification/Sky_Defs.thy ===== *)
theory Sky_Defs
  imports Sky_Prelude
begin

text \<open>
  The address arithmetic of inc/defs.h: bit masks, page sizes, alignment tests, the rounding
  macros and the translation between physical addresses and the kernel's linear maps. Every macro
  is a function on 64-bit words, so the wrap-around of C's unsigned arithmetic is kept.
\<close>

section \<open>Macros of inc/defs.h\<close>

definition BIT :: "nat \<Rightarrow> u64" where
  "BIT n = push_bit n 1"

definition MASK :: "nat \<Rightarrow> u64" where
  "MASK n = BIT n - 1"

definition KERNEL_LINK_ADDRESS :: u64 where
  "KERNEL_LINK_ADDRESS = 0xFFFFFF0000000000"

definition KERNEL_DEVICE_MAP :: u64 where
  "KERNEL_DEVICE_MAP = 0xFFFFDD0000000000"

definition WRITE_COMB_MAP :: u64 where
  "WRITE_COMB_MAP = 0xFFFFCC0000000000"

definition ONE_KB :: u64 where "ONE_KB = BIT 10"
definition ONE_MB :: u64 where "ONE_MB = BIT 20"
definition ONE_GB :: u64 where "ONE_GB = BIT 30"

definition SMALL_PAGE_SIZE :: u64 where "SMALL_PAGE_SIZE = 4 * ONE_KB"
definition LARGE_PAGE_SIZE :: u64 where "LARGE_PAGE_SIZE = 2 * ONE_MB"
definition GIANT_PAGE_SIZE :: u64 where "GIANT_PAGE_SIZE = 1 * ONE_GB"
definition SUPER_PAGE_SIZE :: u64 where "SUPER_PAGE_SIZE = 512 * ONE_GB"

definition KHEAP_NUM_LARGE_PAGES :: nat where "KHEAP_NUM_LARGE_PAGES = 256"
definition KHEAP_NUM_SMALL_PAGES :: nat where "KHEAP_NUM_SMALL_PAGES = 1024"

definition IS_ALIGNED_SMALL :: "u64 \<Rightarrow> bool" where
  "IS_ALIGNED_SMALL x \<longleftrightarrow> 0 = x AND (SMALL_PAGE_SIZE - 1)"

definition IS_ALIGNED_LARGE :: "u64 \<Rightarrow> bool" where
  "IS_ALIGNED_LARGE x \<longleftrightarrow> 0 = x AND (LARGE_PAGE_SIZE - 1)"

definition IS_ALIGNED_GIANT :: "u64 \<Rightarrow> bool" where
  "IS_ALIGNED_GIANT x \<longleftrightarrow> 0 = x AND (GIANT_PAGE_SIZE - 1)"

definition IS_ALIGNED_SUPER :: "u64 \<Rightarrow> bool" where
  "IS_ALIGNED_SUPER x \<longleftrightarrow> 0 = x AND (SUPER_PAGE_SIZE - 1)"

definition PAGE_BITS_PER_LEVEL :: nat where "PAGE_BITS_PER_LEVEL = 9"
definition PAGE_OFFSET_BITS :: nat where "PAGE_OFFSET_BITS = 12"
definition NUM_PT_ENTRIES :: nat where "NUM_PT_ENTRIES = unat (SMALL_PAGE_SIZE div 8)"

definition KERN_V2P :: "u64 \<Rightarrow> u64" where "KERN_V2P x = x AND NOT KERNEL_LINK_ADDRESS"
definition KERN_P2V :: "u64 \<Rightarrow> u64" where "KERN_P2V x = x OR KERNEL_LINK_ADDRESS"
definition KERN_DV2P :: "u64 \<Rightarrow> u64" where "KERN_DV2P x = x AND NOT KERNEL_DEVICE_MAP"
definition KERN_P2DV :: "u64 \<Rightarrow> u64" where "KERN_P2DV x = x OR KERNEL_DEVICE_MAP"
definition KERN_WC2P :: "u64 \<Rightarrow> u64" where "KERN_WC2P x = x AND NOT WRITE_COMB_MAP"
definition KERN_P2WC :: "u64 \<Rightarrow> u64" where "KERN_P2WC x = x OR WRITE_COMB_MAP"

definition ROUND_DOWN_POW2 :: "u64 \<Rightarrow> u64 \<Rightarrow> u64" where
  "ROUND_DOWN_POW2 x sz = x AND NOT (sz - 1)"

definition ROUND_UP_POW2 :: "u64 \<Rightarrow> u64 \<Rightarrow> u64" where
  "ROUND_UP_POW2 x sz = (x + (sz - 1)) AND NOT (sz - 1)"

definition ALIGN_SMALL_PAGE :: "u64 \<Rightarrow> u64" where
  "ALIGN_SMALL_PAGE x = ROUND_DOWN_POW2 x SMALL_PAGE_SIZE"

definition ALIGN_LARGE_PAGE :: "u64 \<Rightarrow> u64" where
  "ALIGN_LARGE_PAGE x = ROUND_DOWN_POW2 x LARGE_PAGE_SIZE"

definition ALIGN_GIANT_PAGE :: "u64 \<Rightarrow> u64" where
  "ALIGN_GIANT_PAGE x = ROUND_DOWN_POW2 x GIANT_PAGE_SIZE"

definition ALIGN_SUPER_PAGE :: "u64 \<Rightarrow> u64" where
  "ALIGN_SUPER_PAGE x = ROUND_DOWN_POW2 x SUPER_PAGE_SIZE"

definition STACK_BOTTOM :: "u64 \<Rightarrow> u64" where
  "STACK_BOTTOM x = x + (SMALL_PAGE_SIZE - 0x10)"

definition MAX_INITRD_SIZE :: u64 where "MAX_INITRD_SIZE = 128 * ONE_MB"

section \<open>The constants as numbers\<close>

named_theorems size_consts \<open>the page sizes and heap sizes as numerals\<close>

lemma ONE_KB_eq [size_consts]: "ONE_KB = 1024" by (simp add: ONE_KB_def BIT_def)
lemma ONE_MB_eq [size_consts]: "ONE_MB = 1048576" by (simp add: ONE_MB_def BIT_def)
lemma ONE_GB_eq [size_consts]: "ONE_GB = 1073741824" by (simp add: ONE_GB_def BIT_def)

lemma page_sizes [size_consts]:
  "SMALL_PAGE_SIZE = 4096" "LARGE_PAGE_SIZE = 2097152"
  "GIANT_PAGE_SIZE = 1073741824" "SUPER_PAGE_SIZE = 549755813888"
  by (simp_all add: SMALL_PAGE_SIZE_def LARGE_PAGE_SIZE_def GIANT_PAGE_SIZE_def
      SUPER_PAGE_SIZE_def size_consts)

lemma page_sizes_exp:
  "SMALL_PAGE_SIZE = 2 ^ 12" "LARGE_PAGE_SIZE = 2 ^ 21"
  "GIANT_PAGE_SIZE = 2 ^ 30" "SUPER_PAGE_SIZE = 2 ^ 39"
  by (simp_all add: size_consts)

lemma NUM_PT_ENTRIES_eq [size_consts]: "NUM_PT_ENTRIES = 512"
  by (simp add: NUM_PT_ENTRIES_def size_consts)

lemmas kheap_sizes [size_consts] = KHEAP_NUM_LARGE_PAGES_def KHEAP_NUM_SMALL_PAGES_def

lemma MASK_eq_mask: "n < 64 \<Longrightarrow> MASK n = mask n"
  by (simp add: MASK_def BIT_def mask_eq_exp_minus_1 push_bit_eq_mult)

lemma bit_BIT: "bit (BIT n) k \<longleftrightarrow> k = n \<and> n < 64"
  by (auto simp: BIT_def bit_simps)

section \<open>Alignment\<close>

lemma exp_minus_1_mask: "(2 :: u64) ^ n - 1 = mask n"
  by (simp add: mask_eq_exp_minus_1)

lemma aligned_iff_take_bit:
  "IS_ALIGNED_SMALL x \<longleftrightarrow> take_bit 12 x = 0" "IS_ALIGNED_LARGE x \<longleftrightarrow> take_bit 21 x = 0"
  "IS_ALIGNED_GIANT x \<longleftrightarrow> take_bit 30 x = 0" "IS_ALIGNED_SUPER x \<longleftrightarrow> take_bit 39 x = 0"
  unfolding IS_ALIGNED_SMALL_def IS_ALIGNED_LARGE_def IS_ALIGNED_GIANT_def IS_ALIGNED_SUPER_def
    page_sizes_exp exp_minus_1_mask
  by (auto simp: take_bit_eq_mask)

lemma take_bit_eq_0_iff_unat: "take_bit n (x :: u64) = 0 \<longleftrightarrow> 2 ^ n dvd unat x"
proof -
  have "take_bit n x = 0 \<longleftrightarrow> unat (take_bit n x) = 0" by (simp add: unat_eq_0)
  also have "unat (take_bit n x) = take_bit n (unat x)" by (simp add: unsigned_take_bit_eq)
  finally show ?thesis by (simp add: take_bit_eq_mod mod_eq_0_iff_dvd)
qed

lemma aligned_iff_dvd:
  "IS_ALIGNED_SMALL x \<longleftrightarrow> 2 ^ 12 dvd unat x" "IS_ALIGNED_LARGE x \<longleftrightarrow> 2 ^ 21 dvd unat x"
  "IS_ALIGNED_GIANT x \<longleftrightarrow> 2 ^ 30 dvd unat x" "IS_ALIGNED_SUPER x \<longleftrightarrow> 2 ^ 39 dvd unat x"
  by (simp_all only: aligned_iff_take_bit take_bit_eq_0_iff_unat)

lemma aligned_large_small: "IS_ALIGNED_LARGE x \<Longrightarrow> IS_ALIGNED_SMALL x"
  unfolding aligned_iff_dvd using dvd_trans [of "2 ^ 12" "2 ^ 21" "unat x"] by simp

section \<open>Rounding\<close>

lemma unat_drop_bit_64: "unat (drop_bit n (x :: u64)) = unat x div 2 ^ n"
proof -
  have "unat (drop_bit n x) = drop_bit n (take_bit 64 (unat x))"
    by (simp add: unsigned_drop_bit_eq)
  then show ?thesis using unat_bound_64 [of x] by (simp add: drop_bit_eq_div take_bit_nat_eq_self)
qed

lemma unat_exp_64: "n < 64 \<Longrightarrow> unat (2 ^ n :: u64) = 2 ^ n"
  using unat_of_nat_64 [of "2 ^ n"] power_strict_increasing [of n 64 "2 :: nat"] by simp

lemma unat_and_not_mask: "unat ((x :: u64) AND NOT (mask n)) = unat x div 2 ^ n * 2 ^ n"
proof -
  have "x AND NOT (mask n) = push_bit n (drop_bit n x)"
    by (rule bit_word_eqI) (auto simp: bit_simps)
  moreover have "unat (push_bit n (drop_bit n x)) = take_bit 64 (unat x div 2 ^ n * 2 ^ n)"
    by (simp only: unsigned_push_bit_eq unat_drop_bit_64) (simp add: push_bit_eq_mult)
  moreover have "unat x div 2 ^ n * 2 ^ n \<le> unat x"
    by (simp add: mult.commute)
  then have "unat x div 2 ^ n * 2 ^ n < 2 ^ 64"
    using unat_bound_64 [of x] by (rule le_less_trans)
  ultimately show ?thesis by (simp add: take_bit_nat_eq_self)
qed

lemma round_down_unat:
  "n < 64 \<Longrightarrow> unat (ROUND_DOWN_POW2 x (2 ^ n)) = unat x div 2 ^ n * 2 ^ n"
  by (simp add: ROUND_DOWN_POW2_def exp_minus_1_mask unat_and_not_mask)

lemma unat_mask_64: "n < 64 \<Longrightarrow> unat (mask n :: u64) = 2 ^ n - 1"
  by (simp only: mask_eq_exp_minus_1 unat_sub_if_size) (simp add: word_size unat_exp_64)

lemma round_up_unat:
  assumes "n < 64" and "unat x + (2 ^ n - 1) < 2 ^ 64"
  shows "unat (ROUND_UP_POW2 x (2 ^ n)) = (unat x + (2 ^ n - 1)) div 2 ^ n * 2 ^ n"
proof -
  have "unat (x + mask n) = unat x + (2 ^ n - 1)"
    using assms by (simp add: unat_word_ariths unat_mask_64)
  then show ?thesis
    by (simp add: ROUND_UP_POW2_def exp_minus_1_mask unat_and_not_mask)
qed

lemma nat_round_up_least:
  fixes x b :: nat
  assumes "0 < b"
  defines "r \<equiv> (x + (b - 1)) div b * b"
  shows "x \<le> r" and "r < x + b" and "b dvd r" and "b dvd y \<Longrightarrow> x \<le> y \<Longrightarrow> r \<le> y"
proof -
  have split: "(x + (b - 1)) div b * b + (x + (b - 1)) mod b = x + (b - 1)"
    by (rule div_mult_mod_eq)
  have "(x + (b - 1)) mod b < b" using assms(1) by simp
  with split show "x \<le> r" and "r < x + b"
    unfolding r_def using assms(1) by linarith+
  show "r \<le> y" if "b dvd y" "x \<le> y"
  proof -
    from \<open>b dvd y\<close> obtain k where k: "y = b * k" ..
    have "(x + (b - 1)) div b \<le> (b * k + (b - 1)) div b"
      using that(2) k by (intro div_le_mono) simp
    also have "\<dots> = k"
      using assms(1) by (simp only: div_mult_self4 [OF less_imp_neq [THEN not_sym]]) simp
    finally show ?thesis unfolding r_def k by (simp only: mult.commute [of b] mult_le_mono1)
  qed
  show "b dvd r" by (simp add: r_def)
qed

section \<open>The linear map\<close>

lemma bit_KLA: "bit KERNEL_LINK_ADDRESS n \<longleftrightarrow> 40 \<le> n \<and> n < 64"
proof -
  have "KERNEL_LINK_ADDRESS = push_bit 40 (mask 24)"
    by (simp add: KERNEL_LINK_ADDRESS_def mask_eq_exp_minus_1)
  then have "bit KERNEL_LINK_ADDRESS n = bit (push_bit 40 (mask 24) :: u64) n" by simp
  then show ?thesis by (auto simp: bit_push_bit_iff bit_mask_iff)
qed

lemma KERN_V2P_take_bit: "KERN_V2P x = take_bit 40 x"
  by (rule bit_word_eqI) (auto simp: KERN_V2P_def bit_simps bit_KLA)

lemma KERN_V2P_P2V: "KERN_V2P (KERN_P2V x) = KERN_V2P x"
  by (rule bit_word_eqI) (auto simp: KERN_V2P_def KERN_P2V_def bit_simps bit_KLA)

lemma KERN_P2V_V2P: "KERN_P2V (KERN_V2P x) = KERN_P2V x"
  by (rule bit_word_eqI) (auto simp: KERN_V2P_def KERN_P2V_def bit_simps bit_KLA)

text \<open>A kernel address is one inside the linear map: its upper 24 bits are all ones.\<close>

definition kern_addr :: "u64 \<Rightarrow> bool" where
  "kern_addr x \<longleftrightarrow> KERN_P2V x = x"

lemma kern_addr_iff: "kern_addr x \<longleftrightarrow> KERNEL_LINK_ADDRESS \<le> x"
proof -
  have "KERN_P2V x = x \<longleftrightarrow> drop_bit 40 x = mask 24"
  proof
    assume eq: "KERN_P2V x = x"
    show "drop_bit 40 x = mask 24"
    proof (rule bit_word_eqI)
      fix n assume "n < LENGTH(64)"
      have "bit (KERN_P2V x) (40 + n) = bit x (40 + n)" using eq by simp
      then show "bit (drop_bit 40 x) n = bit (mask 24 :: u64) n"
        using bit_imp_le_length [of x "40 + n"]
        by (auto simp: KERN_P2V_def bit_simps bit_KLA)
    qed
  next
    assume eq: "drop_bit 40 x = mask 24"
    show "KERN_P2V x = x"
    proof (rule bit_word_eqI)
      fix n assume n: "n < LENGTH(64)"
      have "bit (drop_bit 40 x) (n - 40) = bit (mask 24 :: u64) (n - 40)" using eq by simp
      with n show "bit (KERN_P2V x) n = bit x n"
        by (cases "40 \<le> n") (auto simp: KERN_P2V_def bit_simps bit_KLA)
    qed
  qed
  also have "\<dots> \<longleftrightarrow> unat x div 2 ^ 40 = 2 ^ 24 - 1"
  proof -
    have "drop_bit 40 x = mask 24 \<longleftrightarrow> unat (drop_bit 40 x) = unat (mask 24 :: u64)"
      by (simp add: word_unat_eq_iff)
    moreover have "unat (drop_bit 40 x) = unat x div 2 ^ 40"
      by (rule unat_drop_bit_64)
    ultimately show ?thesis by (simp only: unat_mask_64)
  qed
  also have "\<dots> \<longleftrightarrow> (2 ^ 24 - 1) * 2 ^ 40 \<le> unat x"
    using unat_bound_64 [of x] by (auto simp: div_nat_eqI)
  also have "\<dots> \<longleftrightarrow> KERNEL_LINK_ADDRESS \<le> x"
    by (simp add: word_le_nat_alt KERNEL_LINK_ADDRESS_def)
  finally show ?thesis by (simp add: kern_addr_def)
qed

lemma kern_addr_P2V [simp]: "kern_addr (KERN_P2V x)"
  by (simp add: kern_addr_def KERN_P2V_def)

lemma kern_addr_back: "kern_addr x \<Longrightarrow> KERN_P2V (KERN_V2P x) = x"
  by (simp add: kern_addr_def KERN_P2V_V2P)

end
