(* ===== verification/Sky_Lib.thy ===== *)
theory Sky_Lib
  imports Sky_Defs
begin

text \<open>
  Memory and the C library of the kernel (src/kernel/lib.c).

  Memory is a total function from 64-bit addresses to bytes, indexed by the virtual address the
  kernel uses; wider loads and stores are little-endian, as on all three ISAs. The routines of
  lib.c are functions on such memories: \<open>memset\<close> and \<open>memcpy\<close> are the loops of the source,
  byte by byte and in the source's order, and the closed forms are lemmas about them.

  A \<open>char *\<close> that is only read is a \<open>csrc\<close>: either a pointer into memory (\<open>ptr\<close>) or one of
  the program's string literals (\<open>lit\<close>). The loops that stop at a terminator are partial
  functions: \<open>None\<close> is a scan that never meets one.
\<close>

section \<open>Memory\<close>

type_synonym memory = "u64 \<Rightarrow> u8"

record machine =
  mem :: memory
  ints_on :: bool

primrec le_load :: "nat \<Rightarrow> memory \<Rightarrow> u64 \<Rightarrow> u64" where
  "le_load 0 m a = 0"
| "le_load (Suc n) m a = ucast (m a) OR push_bit 8 (le_load n m (a + 1))"

primrec le_store :: "nat \<Rightarrow> memory \<Rightarrow> u64 \<Rightarrow> u64 \<Rightarrow> memory" where
  "le_store 0 m a v = m"
| "le_store (Suc n) m a v = le_store n (m(a := ucast v)) (a + 1) (drop_bit 8 v)"

definition load16 :: "memory \<Rightarrow> u64 \<Rightarrow> u16" where "load16 m a = ucast (le_load 2 m a)"
definition load32 :: "memory \<Rightarrow> u64 \<Rightarrow> u32" where "load32 m a = ucast (le_load 4 m a)"
definition load64 :: "memory \<Rightarrow> u64 \<Rightarrow> u64" where "load64 m a = le_load 8 m a"
definition store64 :: "memory \<Rightarrow> u64 \<Rightarrow> u64 \<Rightarrow> memory" where "store64 m a v = le_store 8 m a v"

section \<open>src/kernel/lib.c\<close>

definition memset :: "u64 \<Rightarrow> u8 \<Rightarrow> usize \<Rightarrow> memory \<Rightarrow> memory" where
  "memset b c len m = fold (\<lambda>i m. m(b + of_nat i := c)) [0..<unat len] m"

definition memcpy :: "u64 \<Rightarrow> u64 \<Rightarrow> usize \<Rightarrow> memory \<Rightarrow> memory" where
  "memcpy dst src len m = fold (\<lambda>i m. m(dst + of_nat i := m (src + of_nat i))) [0..<unat len] m"

type_synonym csrc = "memory \<Rightarrow> nat \<Rightarrow> u8"

definition ptr :: "u64 \<Rightarrow> csrc" where
  "ptr a m i = m (a + of_nat i)"

definition lit :: "string \<Rightarrow> csrc" where
  "lit s m i = (if i < length s then of_char (s ! i) else 0)"

primrec strncpy_loop :: "nat \<Rightarrow> nat \<Rightarrow> u64 \<Rightarrow> csrc \<Rightarrow> memory \<Rightarrow> memory" where
  "strncpy_loop 0 i dst src m = m"
| "strncpy_loop (Suc n) i dst src m =
     (let m' = m(dst + of_nat i := src m i)
      in if 0 = src m' i then m' else strncpy_loop n (Suc i) dst src m')"

definition strncpy :: "u64 \<Rightarrow> csrc \<Rightarrow> usize \<Rightarrow> memory \<Rightarrow> memory" where
  "strncpy dst src len m = strncpy_loop (unat len) 0 dst src m"

partial_function (option) strlen_loop :: "csrc \<Rightarrow> memory \<Rightarrow> nat \<Rightarrow> nat option" where
  "strlen_loop s m cursor = (if s m cursor = 0 then Some cursor else strlen_loop s m (Suc cursor))"

definition strlen :: "csrc \<Rightarrow> memory \<Rightarrow> usize option" where
  "strlen s m = map_option of_nat (strlen_loop s m 0)"

primrec memequal_loop :: "nat \<Rightarrow> nat \<Rightarrow> csrc \<Rightarrow> csrc \<Rightarrow> memory \<Rightarrow> bool" where
  "memequal_loop 0 i a b m = True"
| "memequal_loop (Suc n) i a b m =
     (if a m i \<noteq> b m i then False else memequal_loop n (Suc i) a b m)"

definition memequal :: "csrc \<Rightarrow> csrc \<Rightarrow> usize \<Rightarrow> memory \<Rightarrow> bool" where
  "memequal a b len m = memequal_loop (unat len) 0 a b m"

definition strprefix :: "csrc \<Rightarrow> csrc \<Rightarrow> memory \<Rightarrow> bool option" where
  "strprefix s prefix m = map_option (\<lambda>n. memequal prefix s n m) (strlen prefix m)"

partial_function (option) strequal_loop :: "csrc \<Rightarrow> csrc \<Rightarrow> memory \<Rightarrow> nat \<Rightarrow> bool option" where
  "strequal_loop a b m i =
     (if a m i \<noteq> 0 \<and> b m i \<noteq> 0
      then (if a m i \<noteq> b m i then Some False else strequal_loop a b m (Suc i))
      else Some (a m i = b m i))"

definition strequal :: "csrc \<Rightarrow> csrc \<Rightarrow> memory \<Rightarrow> bool option" where
  "strequal a b m = strequal_loop a b m 0"

text \<open>\<open>min\<close> and \<open>max\<close> of inc/lib.h.\<close>

definition min_u64 :: "u64 \<Rightarrow> u64 \<Rightarrow> u64" where
  "min_u64 a b = (if a < b then a else b)"

definition max_u64 :: "u64 \<Rightarrow> u64 \<Rightarrow> u64" where
  "max_u64 a b = (if a > b then a else b)"

text \<open>
  \<open>uname\<close> fills the five fields of \<open>struct utsname\<close>, 64 bytes each; the build supplies the
  variant and the architecture name.
\<close>

definition UTSNAMELEN :: u64 where "UTSNAMELEN = 64"

definition uname :: "string \<Rightarrow> string \<Rightarrow> u64 \<Rightarrow> memory \<Rightarrow> memory" where
  "uname kernel_variant arch_name u m =
     (let m = strncpy u (lit ''skybolt'') UTSNAMELEN m;
          m = strncpy (u + 64) (lit '''') UTSNAMELEN m;
          m = strncpy (u + 128) (lit kernel_variant) UTSNAMELEN m;
          m = strncpy (u + 192) (lit ''1.0.0'') UTSNAMELEN m
      in strncpy (u + 256) (lit arch_name) UTSNAMELEN m)"

section \<open>Loads and stores\<close>

lemma le_store_other:
  assumes "n \<le> unat (b - a)"
  shows "le_store n m a v b = m b"
  using assms
proof (induction n arbitrary: m a v)
  case 0
  then show ?case by simp
next
  case (Suc n)
  have "b \<noteq> a" using Suc.prems by auto
  have "unat (b - (a + 1)) = unat (b - a) - 1"
  proof -
    have "1 \<le> b - a" using Suc.prems by (simp add: word_le_nat_alt)
    then have "unat (b - a - 1) = unat (b - a) - unat (1 :: u64)" by (rule unat_sub)
    then show ?thesis by (simp add: diff_diff_eq)
  qed
  with Suc.prems have "n \<le> unat (b - (a + 1))" by simp
  with Suc.IH \<open>b \<noteq> a\<close> show ?case by simp
qed

lemma le_load_cong:
  assumes "\<And>i. i < n \<Longrightarrow> m (a + of_nat i) = m' (a + of_nat i)"
  shows "le_load n m a = le_load n m' a"
  using assms
proof (induction n arbitrary: a)
  case 0
  then show ?case by simp
next
  case (Suc n)
  have "m (a + 1 + of_nat i) = m' (a + 1 + of_nat i)" if "i < n" for i
    using Suc.prems [of "Suc i"] that by (simp add: add.assoc)
  then have "le_load n m (a + 1) = le_load n m' (a + 1)" by (rule Suc.IH)
  moreover have "m a = m' a" using Suc.prems [of 0] by simp
  ultimately show ?case by simp
qed

lemma le_load_store:
  assumes "n \<le> 2 ^ 64"
  shows "le_load n (le_store n m a v) a = take_bit (8 * n) v"
  using assms
proof (induction n arbitrary: m a v)
  case 0
  then show ?case by simp
next
  case (Suc n)
  have "unat (a - (a + 1)) = 2 ^ 64 - 1"
    by (simp add: unsigned_minus_1_eq_mask mask_eq_exp_minus_1)
  then have low: "le_store n (m(a := ucast v)) (a + 1) (drop_bit 8 v) a = ucast v"
    using Suc.prems by (simp add: le_store_other)
  have IH: "le_load n (le_store n (m(a := ucast v)) (a + 1) (drop_bit 8 v)) (a + 1) =
      take_bit (8 * n) (drop_bit 8 v)"
    using Suc.IH Suc.prems by simp
  have "ucast (ucast v :: u8) OR push_bit 8 (take_bit (8 * n) (drop_bit 8 v)) =
      take_bit (8 * Suc n) v"
    by (rule bit_word_eqI) (auto simp: bit_simps)
  with low IH show ?case by simp
qed

lemma load64_store64 [simp]: "load64 (store64 m a v) a = v"
  by (simp add: load64_def store64_def le_load_store take_bit_word_eq_self)

lemma le_store_apply:
  assumes "n \<le> 2 ^ 64"
  shows "le_store n m a v b = (if unat (b - a) < n then ucast (drop_bit (8 * unat (b - a)) v) else m b)"
  using assms
proof (induction n arbitrary: m a v)
  case 0
  then show ?case by simp
next
  case (Suc n)
  show ?case
  proof (cases "b = a")
    case True
    have "unat (a - (a + 1)) = 2 ^ 64 - 1"
      by (simp add: unsigned_minus_1_eq_mask mask_eq_exp_minus_1)
    then show ?thesis using Suc.prems True by (simp add: le_store_other)
  next
    case False
    then have "1 \<le> b - a" by (simp add: word_le_nat_alt Suc_le_eq unat_gt_0)
    then have "unat (b - a - 1) = unat (b - a) - unat (1 :: u64)" by (rule unat_sub)
    moreover have "0 < unat (b - a)" using False by (simp add: unat_gt_0)
    ultimately obtain k where k: "unat (b - a) = Suc k" "unat (b - (a + 1)) = k"
      by (cases "unat (b - a)") (simp_all add: diff_diff_eq)
    then show ?thesis using Suc False by (simp add: add.commute)
  qed
qed

lemma store64_store64 [simp]: "store64 (store64 m a x) a y = store64 m a y"
  by (rule ext) (simp add: store64_def le_store_apply)

lemma store64_other: "8 \<le> unat (b - a) \<Longrightarrow> store64 m a v b = m b"
  by (simp add: store64_def le_store_other)

lemma load64_cong:
  "(\<And>i. i < 8 \<Longrightarrow> m (a + of_nat i) = m' (a + of_nat i)) \<Longrightarrow> load64 m a = load64 m' a"
  unfolding load64_def by (rule le_load_cong)

lemma load64_zero: "(\<And>i. i < 8 \<Longrightarrow> m (a + of_nat i) = 0) \<Longrightarrow> load64 m a = 0"
proof -
  assume "\<And>i. i < 8 \<Longrightarrow> m (a + of_nat i) = 0"
  then have "load64 m a = load64 (\<lambda>_. 0) a" by (intro load64_cong) simp
  moreover have "le_load n (\<lambda>_. 0) a = 0" for n a by (induction n arbitrary: a) simp_all
  ultimately show ?thesis by (simp add: load64_def)
qed

section \<open>Block operations\<close>

text \<open>The invariant of the \<open>memset\<close> loop: after \<open>n\<close> rounds the first \<open>n\<close> bytes are set.\<close>

lemma memset_fold:
  fixes b :: u64
  assumes "n \<le> 2 ^ 64"
  shows "fold (\<lambda>i m. m(b + of_nat i := c)) [0..<n] m =
    (\<lambda>a. if unat (a - b) < n then c else m a)"
  using assms
proof (induction n)
  case 0
  then show ?case by simp
next
  case (Suc n)
  have "a = b + of_nat n \<longleftrightarrow> unat (a - b) = n" for a
    by (rule offset_iff) (use Suc.prems in simp)
  with Suc show ?case by (auto simp: fun_eq_iff)
qed

lemma memset_apply: "memset b c len m a = (if unat (a - b) < unat len then c else m a)"
  using unat_bound_64 [of len] by (simp add: memset_def memset_fold)

text \<open>
  A forward copy is exact unless the destination starts strictly inside the source: copying to a
  lower address that overlaps is fine (\<open>display_scroll_up\<close> relies on that).
\<close>

definition copy_ok :: "u64 \<Rightarrow> u64 \<Rightarrow> usize \<Rightarrow> bool" where
  "copy_ok dst src len \<longleftrightarrow> dst = src \<or> unat len \<le> unat (dst - src)"

lemma memcpy_fold:
  fixes dst :: u64
  assumes "n \<le> 2 ^ 64" and ok: "dst = src \<or> n \<le> unat (dst - src)"
  shows "fold (\<lambda>i m. m(dst + of_nat i := m (src + of_nat i))) [0..<n] m =
    (\<lambda>a. if unat (a - dst) < n then m (src + (a - dst)) else m a)"
  using assms
proof (induction n)
  case 0
  then show ?case by simp
next
  case (Suc n)
  let ?m = "\<lambda>a. if unat (a - dst) < n then m (src + (a - dst)) else m a"
  have IH: "fold (\<lambda>i m. m(dst + of_nat i := m (src + of_nat i))) [0..<n] m = ?m"
    by (rule Suc.IH) (use Suc.prems in auto)
  have at: "a = dst + of_nat n \<longleftrightarrow> unat (a - dst) = n" for a
    by (rule offset_iff) (use Suc.prems in simp)
  have src: "?m (src + of_nat n) = m (src + of_nat n)"
  proof (cases "dst = src")
    case True
    then show ?thesis by simp
  next
    case False
    with Suc.prems have le: "Suc n \<le> unat (dst - src)" by simp
    have "\<not> unat (src + of_nat n - dst) < n"
    proof
      assume "unat (src + of_nat n - dst) < n"
      then obtain i where "i < n" and i: "src + of_nat n - dst = of_nat i"
        using add_of_nat_diff [of "src + of_nat n - dst" 0] by auto
      from i have "dst - src = of_nat n - of_nat i" by (simp add: algebra_simps)
      also have "\<dots> = of_nat (n - i)" using \<open>i < n\<close> by simp
      finally have "unat (dst - src) = n - i"
        using Suc.prems(1) by (simp add: unat_of_nat_64)
      with le \<open>i < n\<close> show False by simp
    qed
    then show ?thesis by simp
  qed
  have "fold (\<lambda>i m. m(dst + of_nat i := m (src + of_nat i))) [0..<Suc n] m =
      ?m(dst + of_nat n := ?m (src + of_nat n))"
    by (simp only: upt_Suc_append fold_append comp_apply le0 fold.simps id_apply IH)
  also have "\<dots> = (\<lambda>a. if unat (a - dst) < Suc n then m (src + (a - dst)) else m a)"
    unfolding src by (rule ext) (auto simp: at less_Suc_eq fun_upd_apply)
  finally show ?case .
qed

lemma memcpy_apply:
  assumes "copy_ok dst src len"
  shows "memcpy dst src len m a =
    (if unat (a - dst) < unat len then m (src + (a - dst)) else m a)"
  using assms unat_bound_64 [of len] memcpy_fold [of "unat len" dst src m]
  by (simp add: memcpy_def copy_ok_def)

lemma memcpy_frame: "unat len \<le> unat (a - dst) \<Longrightarrow> memcpy dst src len m a = m a"
proof -
  assume out: "unat len \<le> unat (a - dst)"
  have "fold (\<lambda>i m. m(dst + of_nat i := m (src + of_nat i))) [0..<n] m a = m a" if "n \<le> unat len" for n
    using that
  proof (induction n)
    case 0
    then show ?case by simp
  next
    case (Suc n)
    then have "a \<noteq> dst + of_nat n"
      using out unat_bound_64 [of len] by (auto simp: unat_of_nat_64)
    with Suc show ?case by simp
  qed
  then show ?thesis by (simp add: memcpy_def)
qed

section \<open>C strings\<close>

text \<open>\<open>cstr s m xs\<close>: the characters read from \<open>s\<close> are \<open>xs\<close>, none of them NUL, then a NUL.\<close>

definition cstr :: "csrc \<Rightarrow> memory \<Rightarrow> u8 list \<Rightarrow> bool" where
  "cstr s m xs \<longleftrightarrow> (\<forall>i < length xs. s m i = xs ! i \<and> xs ! i \<noteq> 0) \<and> s m (length xs) = 0"

lemma cstr_nth: "cstr s m xs \<Longrightarrow> i < length xs \<Longrightarrow> s m i = xs ! i \<and> xs ! i \<noteq> 0"
  by (simp add: cstr_def)

lemma cstr_end: "cstr s m xs \<Longrightarrow> s m (length xs) = 0"
  by (simp add: cstr_def)

lemma of_char_u8_inject: "(of_char c :: u8) = of_char d \<longleftrightarrow> c = d"
proof
  assume "(of_char c :: u8) = of_char d"
  then have "(of_nat (of_char c) :: u8) = of_nat (of_char d)" by (simp only: of_nat_of_char)
  then have "take_bit 8 (of_char c :: nat) = take_bit 8 (of_char d)"
    by (simp add: word_of_nat_eq_iff)
  then have "(of_char c :: nat) = of_char d" by (simp add: take_bit_eq_mod)
  then show "c = d" by simp
qed simp

lemma of_char_u8_eq_0: "(of_char c :: u8) = 0 \<longleftrightarrow> c = CHR 0x00"
  using of_char_u8_inject [of c "CHR 0x00"] by simp

lemma lit_cstr: "CHR 0x00 \<notin> set s \<Longrightarrow> cstr (lit s) m (map of_char s)"
  by (auto simp: cstr_def lit_def of_char_u8_eq_0) (metis nth_mem)

lemma strlen_loop_Some:
  assumes "j \<le> k" and "\<And>i. i < k \<Longrightarrow> s m i \<noteq> 0" and "s m k = 0"
  shows "strlen_loop s m j = Some k"
  using assms(1)
proof (induction "k - j" arbitrary: j)
  case 0
  then show ?case using assms(3) by (simp add: strlen_loop.simps)
next
  case (Suc n)
  then have "strlen_loop s m (Suc j) = Some k" and "j < k" by auto
  with assms(2) show ?case by (simp add: strlen_loop.simps [of s m j])
qed

lemma strlen_cstr: "cstr s m xs \<Longrightarrow> strlen s m = Some (of_nat (length xs))"
  using strlen_loop_Some [of 0 "length xs" s m]
  by (simp add: strlen_def cstr_def)

lemma strequal_loop_cstr:
  assumes "cstr a m xs" and "cstr b m ys" and "i \<le> length xs" and "i \<le> length ys"
  shows "strequal_loop a b m i = Some (drop i xs = drop i ys)"
  using assms(3,4)
proof (induction "length xs - i" arbitrary: i)
  case 0
  then have "i = length xs" by simp
  with "0.prems" cstr_end [OF assms(1)] cstr_end [OF assms(2)] cstr_nth [OF assms(2), of i]
  show ?case by (cases "i = length ys") (auto simp: strequal_loop.simps [of a b m "length xs"])
next
  case (Suc n)
  then have i: "i < length xs" by simp
  note ai = cstr_nth [OF assms(1) i]
  show ?case
  proof (cases "i < length ys")
    case True
    note bi = cstr_nth [OF assms(2) True]
    have "strequal_loop a b m (Suc i) = Some (drop (Suc i) xs = drop (Suc i) ys)"
      using Suc i True by auto
    moreover have "drop i xs = drop i ys \<longleftrightarrow> xs ! i = ys ! i \<and> drop (Suc i) xs = drop (Suc i) ys"
      using i True by (simp flip: Cons_nth_drop_Suc)
    ultimately show ?thesis using ai bi by (auto simp: strequal_loop.simps [of a b m i])
  next
    case False
    with Suc.prems have "i = length ys" by simp
    with ai i cstr_end [OF assms(2)] show ?thesis
      by (simp add: strequal_loop.simps [of a b m "length ys"])
  qed
qed

lemma memequal_loop_iff: "memequal_loop n i a b m \<longleftrightarrow> (\<forall>j. i \<le> j \<and> j < i + n \<longrightarrow> a m j = b m j)"
proof (induction n arbitrary: i)
  case 0
  show ?case by auto
next
  case (Suc n)
  have "(\<forall>j. i \<le> j \<and> j < i + Suc n \<longrightarrow> a m j = b m j) \<longleftrightarrow>
      a m i = b m i \<and> (\<forall>j. Suc i \<le> j \<and> j < Suc i + n \<longrightarrow> a m j = b m j)"
  proof -
    have "i \<le> j \<longleftrightarrow> j = i \<or> Suc i \<le> j" for j by auto
    then show ?thesis by auto
  qed
  with Suc.IH show ?case by simp
qed

lemma memequal_iff: "memequal a b len m \<longleftrightarrow> (\<forall>j < unat len. a m j = b m j)"
  by (simp add: memequal_def memequal_loop_iff)

lemma strncpy_loop_frame:
  assumes "i + n \<le> 2 ^ 64" and "unat (a - dst) < i \<or> i + n \<le> unat (a - dst)"
  shows "strncpy_loop n i dst src m a = m a"
  using assms
proof (induction n arbitrary: i m)
  case 0
  then show ?case by simp
next
  case (Suc n)
  have "a \<noteq> dst + of_nat i"
    using offset_iff [of i a dst] Suc.prems by auto
  moreover have "strncpy_loop n (Suc i) dst src m' a = m' a" for m'
    using Suc.prems by (intro Suc.IH) auto
  ultimately show ?case by (simp add: Let_def)
qed

text \<open>
  Copying a string whose characters do not depend on the bytes being written: exactly the string
  and its terminator when they fit, the first \<open>n\<close> characters without a terminator when not.
\<close>

lemma strncpy_loop_cstr:
  assumes "\<And>m'. (\<And>a. n + k \<le> unat (a - dst) \<Longrightarrow> m' a = m a) \<Longrightarrow> cstr src m' xs"
    and "k \<le> length xs" and "k + n < 2 ^ 64"
    and "\<And>a. n + k \<le> unat (a - dst) \<Longrightarrow> m1 a = m a"
  shows "strncpy_loop n k dst src m1 a =
    (if k \<le> unat (a - dst) \<and> unat (a - dst) < k + n \<and> unat (a - dst) \<le> length xs
     then (if unat (a - dst) < length xs then xs ! unat (a - dst) else 0) else m1 a)"
  using assms
proof (induction n arbitrary: k m1)
  case 0
  then show ?case by auto
next
  case (Suc n)
  let ?d = "unat (a - dst)"
  let ?c = "src m1 k"
  let ?m = "m1(dst + of_nat k := ?c)"
  have at: "b = dst + of_nat k \<longleftrightarrow> unat (b - dst) = k" for b
    by (rule offset_iff) (use Suc.prems in simp)
  have m_out: "?m a = m a" if "Suc n + k \<le> unat (a - dst)" for a
    using that Suc.prems(4) at [of a] by auto
  have src1: "cstr src m1 xs" using Suc.prems(1,4) by blast
  have src2: "cstr src ?m xs" by (rule Suc.prems(1)) (rule m_out)
  show ?case
  proof (cases "k < length xs")
    case True
    then have c: "?c = xs ! k" "src ?m k \<noteq> 0"
      using cstr_nth [OF src1, of k] cstr_nth [OF src2, of k] by simp_all
    have "strncpy_loop n (Suc k) dst src ?m a =
      (if Suc k \<le> ?d \<and> ?d < Suc k + n \<and> ?d \<le> length xs
       then (if ?d < length xs then xs ! ?d else 0) else ?m a)"
      using Suc.prems True m_out by (intro Suc.IH) auto
    then show ?thesis
      using c True at [of a] by (auto simp: Let_def)
  next
    case False
    with Suc.prems(2) have k: "k = length xs" by simp
    have "?c = 0" "src ?m k = 0" using cstr_end [OF src1] cstr_end [OF src2] k by auto
    then show ?thesis using k at [of a] by (auto simp: Let_def)
  qed
qed

end
