(* ===== verification/Sky_Kheap.thy ===== *)
theory Sky_Kheap
  imports Sky_Lib
begin

text \<open>
  The page allocator (src/kernel/kheap.c): two heaps, one of 4 KB pages and one of 2 MB pages,
  each a run of pages with a boolean per page. The state extends the machine by the two heaps; the
  static arrays \<open>small_alloc_map\<close> and \<open>large_alloc_map\<close> are the \<open>alloc_map\<close> lists.

  The locale \<open>page_allocator\<close> is the contract the rest of the kernel relies on, over the set of
  pages in use; it is interpreted for both heaps.
\<close>

section \<open>State\<close>

datatype pagesize = PAGE_SMALL | PAGE_LARGE | PAGE_GIANT | PAGE_SUPER | N_PAGETABLE_LEVELS

record kheap_t =
  start :: u64
  heap_end :: u64
  page_size :: usize
  num_pages :: usize
  alloc_map :: "bool list"

record kheap_state = machine +
  small_kheap :: kheap_t
  large_kheap :: kheap_t

section \<open>Operations\<close>

definition get_heap_for_type :: "pagesize \<Rightarrow> ('z kheap_state_scheme, kheap_t) kop" where
  "get_heap_for_type kind =
     (case kind of
        PAGE_SMALL \<Rightarrow> kgets small_kheap
      | PAGE_LARGE \<Rightarrow> kgets large_kheap
      | _ \<Rightarrow> kpanic ''get_heap_for_type: unsupported page kind'')"

text \<open>Writing \<open>kheap->alloc_map[i] = v\<close> through the pointer \<open>get_heap_for_type\<close> returned.\<close>

definition set_alloc_map :: "pagesize \<Rightarrow> nat \<Rightarrow> bool \<Rightarrow> 'z kheap_state_scheme \<Rightarrow> 'z kheap_state_scheme" where
  "set_alloc_map kind i v s =
     (if kind = PAGE_SMALL
      then s\<lparr>small_kheap := (small_kheap s)\<lparr>alloc_map := (alloc_map (small_kheap s))[i := v]\<rparr>\<rparr>
      else s\<lparr>large_kheap := (large_kheap s)\<lparr>alloc_map := (alloc_map (large_kheap s))[i := v]\<rparr>\<rparr>)"

definition init_kheap :: "u64 \<Rightarrow> ('z kheap_state_scheme, unit) kop" where
  "init_kheap g_kheap =
     kseq (kmodify (\<lambda>s. s\<lparr>small_kheap := (small_kheap s)
         \<lparr>start := g_kheap, page_size := SMALL_PAGE_SIZE,
          num_pages := of_nat KHEAP_NUM_SMALL_PAGES,
          heap_end := g_kheap + SMALL_PAGE_SIZE * of_nat KHEAP_NUM_SMALL_PAGES\<rparr>\<rparr>))
    (kseq (kmodify (\<lambda>s. s\<lparr>large_kheap := (large_kheap s)
         \<lparr>start := heap_end (small_kheap s), page_size := LARGE_PAGE_SIZE,
          num_pages := of_nat KHEAP_NUM_LARGE_PAGES,
          heap_end := heap_end (small_kheap s) + LARGE_PAGE_SIZE * of_nat KHEAP_NUM_LARGE_PAGES\<rparr>\<rparr>))
    (kbind (kgets (\<lambda>s. (start (small_kheap s), start (large_kheap s)))) (\<lambda>(small, large).
     if \<not> IS_ALIGNED_SMALL small then kpanic ''kheap: small kheap top is not aligned''
     else if \<not> IS_ALIGNED_LARGE large then kpanic ''kheap: large kheap top is not aligned''
     else kseq (kmodify (\<lambda>s. s\<lparr>large_kheap := (large_kheap s)
           \<lparr>alloc_map := map (\<lambda>_. False) [0..<KHEAP_NUM_LARGE_PAGES]\<rparr>\<rparr>))
       (kmodify (\<lambda>s. s\<lparr>small_kheap := (small_kheap s)
           \<lparr>alloc_map := map (\<lambda>_. False) [0..<KHEAP_NUM_SMALL_PAGES]\<rparr>\<rparr>)))))"

definition alloc_page :: "pagesize \<Rightarrow> ('z kheap_state_scheme, u64) kop" where
  "alloc_page kind =
     kbind (get_heap_for_type kind) (\<lambda>kheap.
       case find_from (\<lambda>i. length (alloc_map kheap) \<le> i \<or> \<not> alloc_map kheap ! i) 0
              (unat (num_pages kheap)) of
         None \<Rightarrow> kpanic ''alloc_page: out of memory''
       | Some i \<Rightarrow>
           if length (alloc_map kheap) \<le> i then kfault ''alloc_page: alloc_map index''
           else kseq (kmodify (set_alloc_map kind i True))
             (kreturn (start kheap + page_size kheap * of_nat i)))"

definition free_page :: "u64 \<Rightarrow> pagesize \<Rightarrow> ('z kheap_state_scheme, unit) kop" where
  "free_page p kind =
     kbind (get_heap_for_type kind) (\<lambda>kheap.
       if page_size kheap = 0 then kfault ''free_page: division by zero''
       else let heap_idx = (p - start kheap) div page_size kheap in
         if p < start kheap \<or> p \<ge> heap_end kheap
           then kpanic ''free_page: tried to free an out of bounds page''
         else if heap_idx > num_pages kheap
           then kpanic ''free_page: heap_idx is out of bounds for the given heap''
         else if length (alloc_map kheap) \<le> unat heap_idx
           then kfault ''free_page: alloc_map index''
         else if \<not> alloc_map kheap ! unat heap_idx
           then kpanic ''free_page: tried to free an already freed page''
         else kmodify (set_alloc_map kind (unat heap_idx) False))"

section \<open>Well-formed heaps\<close>

definition heap_ok :: "nat \<Rightarrow> nat \<Rightarrow> kheap_t \<Rightarrow> bool" where
  "heap_ok bits n h \<longleftrightarrow>
     page_size h = 2 ^ bits \<and> num_pages h = of_nat n \<and> length (alloc_map h) = n \<and>
     2 ^ bits dvd unat (start h) \<and> unat (start h) + n * 2 ^ bits < 2 ^ 64 \<and>
     heap_end h = start h + 2 ^ bits * of_nat n \<and> kern_addr (start h)"

definition wf_kheap :: "'z kheap_state_scheme \<Rightarrow> bool" where
  "wf_kheap s \<longleftrightarrow>
     heap_ok 12 KHEAP_NUM_SMALL_PAGES (small_kheap s) \<and>
     heap_ok 21 KHEAP_NUM_LARGE_PAGES (large_kheap s) \<and>
     start (large_kheap s) = heap_end (small_kheap s)"

definition heap_page :: "kheap_t \<Rightarrow> nat \<Rightarrow> u64" where
  "heap_page h i = start h + page_size h * of_nat i"

definition heap_pages :: "kheap_t \<Rightarrow> u64 set" where
  "heap_pages h = heap_page h ` {i. i < length (alloc_map h)}"

definition used_pages :: "kheap_t \<Rightarrow> u64 set" where
  "used_pages h = heap_page h ` {i. i < length (alloc_map h) \<and> alloc_map h ! i}"

lemma heap_okD:
  assumes "heap_ok bits n h"
  shows "page_size h = 2 ^ bits" "num_pages h = of_nat n" "length (alloc_map h) = n"
    "2 ^ bits dvd unat (start h)" "unat (start h) + n * 2 ^ bits < 2 ^ 64"
    "heap_end h = start h + 2 ^ bits * of_nat n" "kern_addr (start h)"
  using assms by (simp_all add: heap_ok_def)

lemma heap_ok_n: "heap_ok bits n h \<Longrightarrow> n < 2 ^ 64"
proof -
  assume "heap_ok bits n h"
  then have "n * 2 ^ bits < 2 ^ 64" by (simp add: heap_ok_def)
  moreover have "n \<le> n * 2 ^ bits" by simp
  ultimately show ?thesis by (rule le_less_trans [rotated])
qed

lemma heap_ok_num: "heap_ok bits n h \<Longrightarrow> unat (num_pages h) = n"
  by (metis heap_okD(2) heap_ok_n unat_of_nat_64)

lemma heap_page_unat:
  assumes "heap_ok bits n h" and "bits < 64" and "i \<le> n"
  shows "unat (heap_page h i) = unat (start h) + i * 2 ^ bits"
proof -
  have le: "i * 2 ^ bits \<le> n * 2 ^ bits" using assms(3) by simp
  then have lt: "unat (start h) + i * 2 ^ bits < 2 ^ 64"
    using heap_okD(5) [OF assms(1)] by linarith
  have "heap_page h i = start h + of_nat (i * 2 ^ bits)"
    by (simp add: heap_page_def heap_okD [OF assms(1)] mult.commute)
  then show ?thesis by (simp only: unat_add_of_nat [OF lt])
qed

lemma heap_page_inj:
  assumes "heap_ok bits n h" and "bits < 64" and "i < n" and "j < n"
    and "heap_page h i = heap_page h j"
  shows "i = j"
proof -
  have "unat (start h) + i * 2 ^ bits = unat (heap_page h i)"
    using heap_page_unat [OF assms(1,2), of i] assms(3) by simp
  also have "\<dots> = unat (heap_page h j)" by (simp only: assms(5))
  also have "\<dots> = unat (start h) + j * 2 ^ bits"
    using heap_page_unat [OF assms(1,2), of j] assms(4) by simp
  finally show ?thesis by simp
qed

lemma heap_page_aligned:
  assumes "heap_ok bits n h" and "bits < 64" and "i \<le> n"
  shows "2 ^ bits dvd unat (heap_page h i)"
  using heap_page_unat [OF assms] heap_okD(4) [OF assms(1)] by simp

lemma heap_page_kern:
  assumes "heap_ok bits n h" and "bits < 64" and "i \<le> n"
  shows "kern_addr (heap_page h i)"
  using heap_page_unat [OF assms] heap_okD(7) [OF assms(1)]
  by (simp add: kern_addr_iff word_le_nat_alt)

lemma heap_page_bounds:
  assumes "heap_ok bits n h" and "bits < 64" and "i < n"
  shows "start h \<le> heap_page h i" and "heap_page h i < heap_end h"
proof -
  have e: "heap_end h = heap_page h n"
    by (simp add: heap_page_def heap_okD [OF assms(1)])
  have "i * 2 ^ bits < n * 2 ^ bits" using assms(3) by simp
  then show "start h \<le> heap_page h i" and "heap_page h i < heap_end h"
    using heap_page_unat [OF assms(1,2), of i] heap_page_unat [OF assms(1,2), of n] assms(3)
    by (simp_all add: e word_le_nat_alt word_less_nat_alt)
qed

text \<open>The index \<open>free_page\<close> computes from an address inside page \<open>i\<close> is \<open>i\<close>.\<close>

lemma heap_index:
  assumes "heap_ok bits n h" and "bits < 64" and "i < n"
  shows "unat ((heap_page h i - start h) div page_size h) = i"
proof -
  have "start h \<le> heap_page h i" using heap_page_bounds [OF assms] by simp
  then have "unat (heap_page h i - start h) = i * 2 ^ bits"
    using heap_page_unat [OF assms(1,2), of i] assms(3) by (simp add: unat_sub)
  then show ?thesis by (simp add: unat_div heap_okD [OF assms(1)] unat_exp_64 assms(2))
qed

lemma heap_index_bound:
  assumes "heap_ok bits n h" and "bits < 64" and "start h \<le> p" and "p < heap_end h"
  shows "unat ((p - start h) div page_size h) < n"
proof -
  have "heap_end h = heap_page h n"
    by (simp add: heap_page_def heap_okD [OF assms(1)])
  then have "unat p < unat (start h) + n * 2 ^ bits"
    using assms heap_page_unat [OF assms(1,2), of n] by (simp add: word_less_nat_alt)
  then have "unat (p - start h) < n * 2 ^ bits"
    using assms(3) by (simp add: unat_sub word_le_nat_alt)
  then show ?thesis
    by (simp add: unat_div heap_okD [OF assms(1)] unat_exp_64 assms(2) less_mult_imp_div_less)
qed

lemma heap_ok_update [simp]:
  "heap_ok bits n (h\<lparr>alloc_map := (alloc_map h)[i := v]\<rparr>) \<longleftrightarrow> heap_ok bits n h"
  by (simp add: heap_ok_def)

lemma heap_page_update [simp]: "heap_page (h\<lparr>alloc_map := a\<rparr>) i = heap_page h i"
  by (simp add: heap_page_def)

lemma used_pages_insert:
  "i < length (alloc_map h) \<Longrightarrow>
    used_pages (h\<lparr>alloc_map := (alloc_map h)[i := True]\<rparr>) = insert (heap_page h i) (used_pages h)"
  by (auto simp: used_pages_def nth_list_update)

lemma used_pages_remove:
  assumes "heap_ok bits n h" and "bits < 64" and "i < n"
  shows "used_pages (h\<lparr>alloc_map := (alloc_map h)[i := False]\<rparr>) = used_pages h - {heap_page h i}"
proof -
  have len: "length (alloc_map h) = n" using heap_okD [OF assms(1)] by simp
  show ?thesis
    using heap_page_inj [OF assms(1,2)] assms(3)
    by (auto simp: used_pages_def nth_list_update len image_iff)
qed

lemma heap_page_in_pages: "i < length (alloc_map h) \<Longrightarrow> heap_page h i \<in> heap_pages h"
  by (simp add: heap_pages_def)

lemma heap_page_used_iff:
  assumes "heap_ok bits n h" and "bits < 64" and "i < n"
  shows "heap_page h i \<in> used_pages h \<longleftrightarrow> alloc_map h ! i"
  using heap_page_inj [OF assms(1,2)] assms(3) heap_okD(3) [OF assms(1)]
  by (auto simp: used_pages_def)

lemma heap_pages_update [simp]: "heap_pages (h\<lparr>alloc_map := (alloc_map h)[i := v]\<rparr>) = heap_pages h"
  by (simp add: heap_pages_def)

section \<open>The operations on well-formed heaps\<close>

definition heap_of :: "pagesize \<Rightarrow> 'z kheap_state_scheme \<Rightarrow> kheap_t" where
  "heap_of kind s = (if kind = PAGE_SMALL then small_kheap s else large_kheap s)"

definition heap_bits :: "pagesize \<Rightarrow> nat" where
  "heap_bits kind = (if kind = PAGE_SMALL then 12 else 21)"

definition heap_count :: "pagesize \<Rightarrow> nat" where
  "heap_count kind = (if kind = PAGE_SMALL then KHEAP_NUM_SMALL_PAGES else KHEAP_NUM_LARGE_PAGES)"

abbreviation heap_kind :: "pagesize \<Rightarrow> bool" where
  "heap_kind kind \<equiv> kind = PAGE_SMALL \<or> kind = PAGE_LARGE"

lemma heap_bits_lt [simp]: "heap_bits kind < 64"
  by (simp add: heap_bits_def)

lemma wf_heap_of: "wf_kheap s \<Longrightarrow> heap_ok (heap_bits kind) (heap_count kind) (heap_of kind s)"
  by (simp add: wf_kheap_def heap_of_def heap_bits_def heap_count_def)

lemma get_heap_run: "heap_kind kind \<Longrightarrow> get_heap_for_type kind s = Inr (heap_of kind s, s)"
  by (auto simp: get_heap_for_type_def heap_of_def kop_simps)

lemma heap_of_set [simp]:
  "heap_kind kind \<Longrightarrow> heap_of kind (set_alloc_map kind i v s) =
    (heap_of kind s)\<lparr>alloc_map := (alloc_map (heap_of kind s))[i := v]\<rparr>"
  by (auto simp: heap_of_def set_alloc_map_def)

lemma set_alloc_map_frame [simp]:
  "mem (set_alloc_map kind i v s) = mem s" "ints_on (set_alloc_map kind i v s) = ints_on s"
  "kheap_state.more (set_alloc_map kind i v s) = kheap_state.more s"
  by (simp_all add: set_alloc_map_def)

lemma heap_of_set_other:
  "heap_kind kind \<Longrightarrow> heap_kind kind' \<Longrightarrow> kind' \<noteq> kind \<Longrightarrow>
    heap_of kind' (set_alloc_map kind i v s) = heap_of kind' s"
  by (auto simp: heap_of_def set_alloc_map_def)

lemma set_alloc_map_other:
  "kind = PAGE_SMALL \<Longrightarrow> large_kheap (set_alloc_map kind i v s) = large_kheap s"
  "kind = PAGE_LARGE \<Longrightarrow> small_kheap (set_alloc_map kind i v s) = small_kheap s"
  by (simp_all add: set_alloc_map_def)

lemma wf_set_alloc_map [simp]: "wf_kheap (set_alloc_map kind i v s) \<longleftrightarrow> wf_kheap s"
  by (simp add: wf_kheap_def set_alloc_map_def)

lemma set_alloc_map_undo:
  assumes "\<not> alloc_map (heap_of kind s) ! i" and "heap_kind kind"
  shows "set_alloc_map kind i False (set_alloc_map kind i True s) = s"
proof -
  have "(alloc_map (heap_of kind s))[i := False] = alloc_map (heap_of kind s)"
    using assms(1) list_update_id [of "alloc_map (heap_of kind s)" i] by simp
  with assms(2) show ?thesis by (auto simp: set_alloc_map_def heap_of_def)
qed

definition first_free :: "kheap_t \<Rightarrow> nat option" where
  "first_free h = find_from (\<lambda>i. \<not> alloc_map h ! i) 0 (length (alloc_map h))"

lemma find_from_cong:
  "(\<And>j. i \<le> j \<Longrightarrow> j < i + n \<Longrightarrow> p j = q j) \<Longrightarrow> find_from p i n = find_from q i n"
proof (induction n arbitrary: i)
  case 0
  then show ?case by simp
next
  case (Suc n)
  have "find_from p (Suc i) n = find_from q (Suc i) n" by (rule Suc.IH) (simp add: Suc.prems)
  moreover have "p i = q i" by (rule Suc.prems) simp_all
  ultimately show ?case by simp
qed

lemma alloc_page_run:
  assumes "wf_kheap s" and "heap_kind kind"
  shows "alloc_page kind s =
    (case first_free (heap_of kind s) of
       None \<Rightarrow> Inl (Panic ''alloc_page: out of memory'')
     | Some i \<Rightarrow> Inr (heap_page (heap_of kind s) i, set_alloc_map kind i True s))"
proof -
  let ?h = "heap_of kind s"
  note ok = wf_heap_of [OF assms(1), of kind]
  have n: "unat (num_pages ?h) = length (alloc_map ?h)"
    by (simp add: heap_ok_num [OF ok] heap_okD(3) [OF ok])
  have "find_from (\<lambda>i. length (alloc_map ?h) \<le> i \<or> \<not> alloc_map ?h ! i) 0 (length (alloc_map ?h)) =
      first_free ?h"
    unfolding first_free_def by (rule find_from_cong) auto
  then have eq: "alloc_page kind s =
      (case first_free ?h of
         None \<Rightarrow> kpanic ''alloc_page: out of memory''
       | Some i \<Rightarrow>
           if length (alloc_map ?h) \<le> i then kfault ''alloc_page: alloc_map index''
           else kseq (kmodify (set_alloc_map kind i True))
             (kreturn (start ?h + page_size ?h * of_nat i))) s"
    by (simp add: alloc_page_def kbind_Inr [OF get_heap_run [OF assms(2)]] n)
  show ?thesis
  proof (cases "first_free ?h")
    case None
    with eq show ?thesis by (simp add: kop_simps)
  next
    case (Some i)
    then have "i < length (alloc_map ?h)"
      unfolding first_free_def by (auto dest: find_from_Some)
    with eq Some show ?thesis by (simp add: kop_simps heap_page_def)
  qed
qed

lemma first_free_None: "first_free h = None \<longleftrightarrow> used_pages h = heap_pages h"
  if "heap_ok bits n h" and "bits < 64"
proof -
  have "first_free h = None \<longleftrightarrow> (\<forall>i < n. alloc_map h ! i)"
    by (simp add: first_free_def find_from_None_iff heap_okD(3) [OF that(1)])
  also have "\<dots> \<longleftrightarrow> used_pages h = heap_pages h"
  proof
    assume "\<forall>i < n. alloc_map h ! i"
    then show "used_pages h = heap_pages h"
      by (auto simp: used_pages_def heap_pages_def heap_okD(3) [OF that(1)])
  next
    assume eq: "used_pages h = heap_pages h"
    show "\<forall>i < n. alloc_map h ! i"
    proof (intro allI impI)
      fix i assume i: "i < n"
      then have "heap_page h i \<in> used_pages h"
        using heap_page_in_pages [of i h] eq heap_okD(3) [OF that(1)] by simp
      then show "alloc_map h ! i" using heap_page_used_iff [OF that i] by simp
    qed
  qed
  finally show ?thesis by simp
qed

lemma first_free_Some:
  "first_free h = Some i \<Longrightarrow> i < length (alloc_map h) \<and> \<not> alloc_map h ! i"
  unfolding first_free_def by (drule find_from_Some) simp

text \<open>What \<open>free_page\<close> does with any address, on every branch.\<close>

lemma free_page_run:
  assumes "wf_kheap s" and "heap_kind kind"
  defines "h \<equiv> heap_of kind s"
  shows "free_page p kind s =
    (if p < start h \<or> heap_end h \<le> p
     then Inl (Panic ''free_page: tried to free an out of bounds page'')
     else if alloc_map h ! unat ((p - start h) div page_size h)
     then Inr ((), set_alloc_map kind (unat ((p - start h) div page_size h)) False s)
     else Inl (Panic ''free_page: tried to free an already freed page''))"
proof -
  note ok = wf_heap_of [OF assms(1), of kind, folded h_def]
  have ps: "page_size h \<noteq> 0"
    using heap_okD(1) [OF ok] by (simp add: word_unat_eq_iff unat_exp_64)
  show ?thesis
  proof (cases "p < start h \<or> heap_end h \<le> p")
    case True
    then show ?thesis
      using ps by (simp add: free_page_def kbind_Inr [OF get_heap_run [OF assms(2)]] kop_simps
          flip: h_def)
  next
    case False
    then have idx: "unat ((p - start h) div page_size h) < length (alloc_map h)"
      using heap_index_bound [OF ok heap_bits_lt, of p] by (simp add: heap_okD(3) [OF ok] not_less not_le)
    then have "\<not> (p - start h) div page_size h > num_pages h"
      using heap_ok_num [OF ok] heap_okD(3) [OF ok] by (simp add: word_less_nat_alt)
    with False idx ps show ?thesis
      by (auto simp: free_page_def kbind_Inr [OF get_heap_run [OF assms(2)]] kop_simps Let_def
          simp flip: h_def)
  qed
qed

section \<open>The allocator as an interface\<close>

text \<open>A client that asks for \<open>n\<close> pages one after the other, newest first.\<close>

primrec allocs :: "('s, u64) kop \<Rightarrow> nat \<Rightarrow> ('s, u64 list) kop" where
  "allocs a 0 = kreturn []"
| "allocs a (Suc n) = kbind (allocs a n) (\<lambda>ps. kbind a (\<lambda>p. kreturn (p # ps)))"

locale page_allocator =
  fixes alloc :: "('s, u64) kop"
    and free :: "u64 \<Rightarrow> ('s, unit) kop"
    and inv :: "'s \<Rightarrow> bool"
    and pages :: "'s \<Rightarrow> u64 set"
    and used :: "'s \<Rightarrow> u64 set"
  assumes finite_pages: "inv s \<Longrightarrow> finite (pages s)"
    and used_pages_sub: "inv s \<Longrightarrow> used s \<subseteq> pages s"
    and alloc_free_page: "inv s \<Longrightarrow> used s \<noteq> pages s \<Longrightarrow>
      runs alloc s (\<lambda>p s'. p \<in> pages s - used s \<and> used s' = insert p (used s) \<and>
        pages s' = pages s \<and> inv s')"
    and alloc_full: "inv s \<Longrightarrow> used s = pages s \<Longrightarrow> \<exists>msg. alloc s = Inl (Panic msg)"
    and free_used: "inv s \<Longrightarrow> p \<in> used s \<Longrightarrow>
      runs (free p) s (\<lambda>_ s'. used s' = used s - {p} \<and> pages s' = pages s \<and> inv s')"
    and free_unused: "inv s \<Longrightarrow> p \<in> pages s - used s \<Longrightarrow> \<exists>msg. free p s = Inl (Panic msg)"
begin

lemma free_count: "inv s \<Longrightarrow> card (pages s - used s) = card (pages s) - card (used s)"
  using finite_pages used_pages_sub by (simp add: card_Diff_subset finite_subset)

lemma allocs_distinct:
  "inv s \<Longrightarrow> n \<le> card (pages s - used s) \<Longrightarrow>
    runs (allocs alloc n) s (\<lambda>ps s'. distinct ps \<and> length ps = n \<and> set ps \<subseteq> pages s - used s \<and>
      used s' = used s \<union> set ps \<and> pages s' = pages s \<and> inv s')"
proof (induction n)
  case 0
  then show ?case by simp
next
  case (Suc n)
  then have "runs (allocs alloc n) s (\<lambda>ps s'. distinct ps \<and> length ps = n \<and>
      set ps \<subseteq> pages s - used s \<and> used s' = used s \<union> set ps \<and> pages s' = pages s \<and> inv s')"
    by simp
  then show ?case
    unfolding allocs.simps runs_kbind
  proof (rule runs_mono)
    fix ps s'
    assume A: "distinct ps \<and> length ps = n \<and> set ps \<subseteq> pages s - used s \<and>
      used s' = used s \<union> set ps \<and> pages s' = pages s \<and> inv s'"
    have "card (set ps) = n" using A by (simp add: distinct_card)
    then have "set ps \<noteq> pages s - used s" using Suc.prems(2) by auto
    then have "used s' \<noteq> pages s'" using A used_pages_sub [OF Suc.prems(1)] by auto
    with A have "runs alloc s' (\<lambda>p s''. p \<in> pages s' - used s' \<and> used s'' = insert p (used s') \<and>
        pages s'' = pages s' \<and> inv s'')"
      by (intro alloc_free_page) auto
    then show "runs alloc s' (\<lambda>p s'. runs (kreturn (p # ps)) s' (\<lambda>ps s'. distinct ps \<and>
        length ps = Suc n \<and> set ps \<subseteq> pages s - used s \<and> used s' = used s \<union> set ps \<and>
        pages s' = pages s \<and> inv s'))"
      by (rule runs_mono) (use A in auto)
  qed
qed

lemma double_free:
  assumes "inv s" and "p \<in> used s" and "free p s = Inr ((), s')"
  shows "\<exists>msg. free p s' = Inl (Panic msg)"
proof -
  have "used s' = used s - {p} \<and> pages s' = pages s \<and> inv s'"
    using free_used [OF assms(1,2)] assms(3) by (rule runs_InrD)
  then show ?thesis
    using assms(1,2) used_pages_sub [OF assms(1)] by (intro free_unused) auto
qed

end

text \<open>Both heaps keep the contract, with the set of pages in use as the abstract state.\<close>

lemma alloc_page_contract:
  assumes "wf_kheap s" and "heap_kind kind" and "used_pages (heap_of kind s) \<noteq> heap_pages (heap_of kind s)"
  shows "runs (alloc_page kind) s (\<lambda>p s'. p \<in> heap_pages (heap_of kind s) - used_pages (heap_of kind s) \<and>
    used_pages (heap_of kind s') = insert p (used_pages (heap_of kind s)) \<and>
    heap_pages (heap_of kind s') = heap_pages (heap_of kind s) \<and> wf_kheap s')"
proof -
  let ?h = "heap_of kind s"
  note ok = wf_heap_of [OF assms(1), of kind]
  obtain i where i: "first_free ?h = Some i"
    using first_free_None [OF ok heap_bits_lt] assms(3) by auto
  note free = first_free_Some [OF i]
  have "heap_page ?h i \<notin> used_pages ?h"
    using heap_page_used_iff [OF ok heap_bits_lt, of i] free heap_okD(3) [OF ok] by simp
  then show ?thesis
    using alloc_page_run [OF assms(1,2)] i free assms(1,2)
    by (auto simp: runs_def heap_page_in_pages used_pages_insert)
qed

lemma free_page_contract:
  assumes "wf_kheap s" and "heap_kind kind" and "p \<in> used_pages (heap_of kind s)"
  shows "runs (free_page p kind) s (\<lambda>_ s'.
    used_pages (heap_of kind s') = used_pages (heap_of kind s) - {p} \<and>
    heap_pages (heap_of kind s') = heap_pages (heap_of kind s) \<and> wf_kheap s')"
proof -
  let ?h = "heap_of kind s"
  note ok = wf_heap_of [OF assms(1), of kind]
  obtain i where i: "i < heap_count kind" "alloc_map ?h ! i" "p = heap_page ?h i"
    using assms(3) heap_okD(3) [OF ok] by (auto simp: used_pages_def)
  then show ?thesis
    using free_page_run [OF assms(1,2), of p] heap_page_bounds [OF ok heap_bits_lt i(1)]
      heap_index [OF ok heap_bits_lt i(1)] used_pages_remove [OF ok heap_bits_lt i(1)] assms(1,2)
    by (simp add: runs_def leD)
qed

lemma free_page_unused:
  assumes "wf_kheap s" and "heap_kind kind"
    and "p \<in> heap_pages (heap_of kind s) - used_pages (heap_of kind s)"
  shows "\<exists>msg. free_page p kind s = Inl (Panic msg)"
proof -
  let ?h = "heap_of kind s"
  note ok = wf_heap_of [OF assms(1), of kind]
  obtain i where i: "i < heap_count kind" "\<not> alloc_map ?h ! i" "p = heap_page ?h i"
    using assms(3) heap_okD(3) [OF ok] by (auto simp: used_pages_def heap_pages_def)
  then show ?thesis
    using free_page_run [OF assms(1,2), of p] heap_index [OF ok heap_bits_lt i(1)] by simp
qed

lemma heap_allocator:
  assumes "heap_kind kind"
  shows "page_allocator (alloc_page kind) (\<lambda>p. free_page p kind) wf_kheap
    (\<lambda>s. heap_pages (heap_of kind s)) (\<lambda>s. used_pages (heap_of kind s))"
proof
  fix s :: "'a kheap_state_scheme" and p :: u64
  let ?h = "heap_of kind s"
  assume wf: "wf_kheap s"
  note ok = wf_heap_of [OF wf, of kind]
  show "finite (heap_pages ?h)" by (simp add: heap_pages_def)
  show "used_pages ?h \<subseteq> heap_pages ?h" by (auto simp: used_pages_def heap_pages_def)
  show "\<exists>msg. alloc_page kind s = Inl (Panic msg)" if "used_pages ?h = heap_pages ?h"
    using that first_free_None [OF ok heap_bits_lt] alloc_page_run [OF wf assms] by simp
  show "\<exists>msg. free_page p kind s = Inl (Panic msg)" if "p \<in> heap_pages ?h - used_pages ?h"
    using wf assms that by (rule free_page_unused)
qed (rule alloc_page_contract [OF _ assms] free_page_contract [OF _ assms]; assumption)+

interpretation small_heap: page_allocator "alloc_page PAGE_SMALL" "\<lambda>p. free_page p PAGE_SMALL"
  wf_kheap "\<lambda>s. heap_pages (heap_of PAGE_SMALL s)" "\<lambda>s. used_pages (heap_of PAGE_SMALL s)"
  by (rule heap_allocator) simp

interpretation large_heap: page_allocator "alloc_page PAGE_LARGE" "\<lambda>p. free_page p PAGE_LARGE"
  wf_kheap "\<lambda>s. heap_pages (heap_of PAGE_LARGE s)" "\<lambda>s. used_pages (heap_of PAGE_LARGE s)"
  by (rule heap_allocator) simp

section \<open>Initialisation\<close>

definition fresh_heap :: "nat \<Rightarrow> nat \<Rightarrow> u64 \<Rightarrow> kheap_t" where
  "fresh_heap bits n g =
     \<lparr>start = g, heap_end = g + 2 ^ bits * of_nat n, page_size = 2 ^ bits,
      num_pages = of_nat n, alloc_map = replicate n False\<rparr>"

lemma fresh_heap_ok:
  "2 ^ bits dvd unat g \<Longrightarrow> unat g + n * 2 ^ bits < 2 ^ 64 \<Longrightarrow> kern_addr g \<Longrightarrow>
    heap_ok bits n (fresh_heap bits n g)"
  by (simp add: heap_ok_def fresh_heap_def)

lemma fresh_heap_used: "used_pages (fresh_heap bits n g) = {}"
  by (simp add: used_pages_def fresh_heap_def)

lemma heap_end_unat:
  assumes "heap_ok bits n h" and "bits < 64"
  shows "unat (heap_end h) = unat (start h) + n * 2 ^ bits"
  using heap_page_unat [OF assms, of n] by (simp add: heap_page_def heap_okD [OF assms(1)])

lemma init_kheap_run:
  "init_kheap g s =
    (if \<not> IS_ALIGNED_SMALL g then Inl (Panic ''kheap: small kheap top is not aligned'')
     else if \<not> IS_ALIGNED_LARGE (g + 2 ^ 22)
     then Inl (Panic ''kheap: large kheap top is not aligned'')
     else Inr ((), s\<lparr>small_kheap := fresh_heap 12 1024 g,
       large_kheap := fresh_heap 21 256 (g + 2 ^ 22)\<rparr>))"
  by (simp add: init_kheap_def kop_simps fresh_heap_def size_consts map_replicate_const)

text \<open>A concrete state for the witnesses: the heap where the Raspberry Pi port puts it.\<close>

definition kheap_demo :: kheap_state where
  "kheap_demo = \<lparr>mem = (\<lambda>_. 0), ints_on = False,
     small_kheap = fresh_heap 12 1024 0xFFFFFF0010000000,
     large_kheap = fresh_heap 21 256 0xFFFFFF0010400000\<rparr>"

lemma kheap_demo_wf: "wf_kheap kheap_demo"
  unfolding wf_kheap_def
proof (intro conjI)
  show "heap_ok 12 KHEAP_NUM_SMALL_PAGES (small_kheap kheap_demo)"
    unfolding kheap_demo_def
    by (simp only: kheap_state.simps size_consts, rule fresh_heap_ok)
      (simp_all add: kern_addr_iff KERNEL_LINK_ADDRESS_def)
  show "heap_ok 21 KHEAP_NUM_LARGE_PAGES (large_kheap kheap_demo)"
    unfolding kheap_demo_def
    by (simp only: kheap_state.simps size_consts, rule fresh_heap_ok)
      (simp_all add: kern_addr_iff KERNEL_LINK_ADDRESS_def)
  show "start (large_kheap kheap_demo) = heap_end (small_kheap kheap_demo)"
    by (simp add: kheap_demo_def fresh_heap_def)
qed

lemma kheap_demo_free:
  "used_pages (heap_of kind kheap_demo) = {}" "first_free (heap_of PAGE_SMALL kheap_demo) = Some 0"
  subgoal by (simp add: heap_of_def kheap_demo_def fresh_heap_used)
  subgoal by (simp add: heap_of_def kheap_demo_def first_free_def fresh_heap_def find_from_SomeI)
  done

lemma kheap_demo_pages: "card (heap_pages (heap_of PAGE_SMALL kheap_demo)) = 1024"
proof -
  note ok = wf_heap_of [OF kheap_demo_wf, of PAGE_SMALL]
  have "inj_on (heap_page (heap_of PAGE_SMALL kheap_demo)) {i. i < heap_count PAGE_SMALL}"
    using heap_page_inj [OF ok heap_bits_lt] by (auto simp: inj_on_def)
  then show ?thesis
    by (simp add: heap_pages_def heap_okD(3) [OF ok] card_image heap_count_def size_consts)
qed

section \<open>Properties\<close>

text \<open>C15: \<open>init_kheap\<close> accepts exactly a 2 MB-aligned heap address: then both heaps are
  well-formed, every page of both is free and the two runs of pages do not overlap; any other
  address makes it panic before the maps are touched.\<close>

theorem init_kheap_correct:
  assumes "kern_addr g" and "unat g + 2 ^ 22 + 2 ^ 29 < 2 ^ 64"
  shows "if IS_ALIGNED_LARGE g
    then runs (init_kheap g) s (\<lambda>_ s'. wf_kheap s' \<and>
      used_pages (small_kheap s') = {} \<and> used_pages (large_kheap s') = {} \<and>
      (\<forall>p q. p \<in> heap_pages (small_kheap s') \<and> q \<in> heap_pages (large_kheap s') \<longrightarrow>
        unat p + 2 ^ 12 \<le> unat q))
    else \<exists>msg. init_kheap g s = Inl (Panic msg)"
proof -
  have g22: "unat (g + 2 ^ 22) = unat g + 2 ^ 22"
    using unat_add_of_nat [of g "2 ^ 22"] assms(2) by simp
  have al: "IS_ALIGNED_LARGE (g + 2 ^ 22) \<longleftrightarrow> IS_ALIGNED_LARGE g"
    unfolding aligned_iff_dvd g22 by (rule dvd_add_left_iff) simp
  show ?thesis
  proof (cases "IS_ALIGNED_LARGE g")
    case False
    then show ?thesis using init_kheap_run [of g s] al by simp
  next
    case True
    have kern: "kern_addr (g + 2 ^ 22)"
      using assms(1) g22 by (simp add: kern_addr_iff word_le_nat_alt)
    have ok: "heap_ok 12 1024 (fresh_heap 12 1024 g)"
      "heap_ok 21 256 (fresh_heap 21 256 (g + 2 ^ 22))"
      using assms True al aligned_large_small [OF True] g22 kern
      unfolding aligned_iff_dvd by (simp_all add: fresh_heap_ok)
    have "unat p + 2 ^ 12 \<le> unat q"
      if pq: "p \<in> heap_pages (fresh_heap 12 1024 g)" "q \<in> heap_pages (fresh_heap 21 256 (g + 2 ^ 22))"
      for p q
    proof -
      obtain i j where i: "i < 1024" "p = heap_page (fresh_heap 12 1024 g) i"
        and j: "j < 256" "q = heap_page (fresh_heap 21 256 (g + 2 ^ 22)) j"
        using pq unfolding heap_pages_def heap_okD(3) [OF ok(1)] heap_okD(3) [OF ok(2)] by blast
      have "unat p = unat g + i * 2 ^ 12"
        using heap_page_unat [OF ok(1), of i] i by (simp add: fresh_heap_def)
      moreover have "unat q = unat g + 2 ^ 22 + j * 2 ^ 21"
        using heap_page_unat [OF ok(2), of j] j g22 by (simp add: fresh_heap_def)
      ultimately show ?thesis using i(1) by simp
    qed
    then show ?thesis
      using init_kheap_run [of g s] True al aligned_large_small [OF True] ok
      by (auto simp: runs_def wf_kheap_def size_consts fresh_heap_used)
        (simp add: fresh_heap_def)
  qed
qed

theorem init_kheap_correct_witness:
  "kern_addr 0xFFFFFF0010000000 \<and>
   runs (init_kheap 0xFFFFFF0010000000) kheap_demo (\<lambda>_ s'. wf_kheap s' \<and> used_pages (small_kheap s') = {})"
proof -
  have k: "kern_addr 0xFFFFFF0010000000"
    by (simp add: kern_addr_iff KERNEL_LINK_ADDRESS_def)
  have "IS_ALIGNED_LARGE 0xFFFFFF0010000000"
    by (simp add: IS_ALIGNED_LARGE_def size_consts)
  then show ?thesis
    using init_kheap_correct [OF k, of kheap_demo] k by (auto elim!: runs_mono)
qed

text \<open>C13: \<open>alloc_page\<close> on a well-formed heap either returns a page of that heap that was not in
  use, 2\<open>\<^sup>\<close>bits-aligned and inside the linear map, marks exactly that page and changes nothing
  else (memory, the other heap and the rest of the kernel state), or every page is in use and it
  panics; it never reads outside the allocation map.\<close>

theorem alloc_page_correct:
  assumes "wf_kheap s" and "kind = PAGE_SMALL \<or> kind = PAGE_LARGE"
  shows "case alloc_page kind s of
      Inl e \<Rightarrow> e = Panic ''alloc_page: out of memory'' \<and>
        used_pages (heap_of kind s) = heap_pages (heap_of kind s)
    | Inr (p, s') \<Rightarrow>
        p \<in> heap_pages (heap_of kind s) - used_pages (heap_of kind s) \<and>
        2 ^ heap_bits kind dvd unat p \<and> kern_addr p \<and>
        used_pages (heap_of kind s') = insert p (used_pages (heap_of kind s)) \<and>
        wf_kheap s' \<and> mem s' = mem s \<and> ints_on s' = ints_on s \<and>
        kheap_state.more s' = kheap_state.more s \<and>
        (kind = PAGE_SMALL \<and> large_kheap s' = large_kheap s \<or>
         kind = PAGE_LARGE \<and> small_kheap s' = small_kheap s)"
proof (cases "first_free (heap_of kind s)")
  case None
  then have "alloc_page kind s = Inl (Panic ''alloc_page: out of memory'')"
    using alloc_page_run [OF assms] by simp
  moreover have "used_pages (heap_of kind s) = heap_pages (heap_of kind s)"
    using first_free_None [OF wf_heap_of [OF assms(1)] heap_bits_lt, of kind] None by simp
  ultimately show ?thesis by simp
next
  case (Some i)
  let ?h = "heap_of kind s"
  note ok = wf_heap_of [OF assms(1), of kind]
  have i: "i < heap_count kind" using first_free_Some [OF Some] heap_okD(3) [OF ok] by simp
  have "used_pages ?h \<noteq> heap_pages ?h"
    using first_free_None [OF ok heap_bits_lt] Some by simp
  then have "heap_page ?h i \<in> heap_pages ?h - used_pages ?h \<and>
      used_pages (heap_of kind (set_alloc_map kind i True s)) = insert (heap_page ?h i) (used_pages ?h)"
    using alloc_page_contract [OF assms] alloc_page_run [OF assms] Some by (simp add: runs_def)
  then show ?thesis
    using alloc_page_run [OF assms] Some heap_page_aligned [OF ok heap_bits_lt, of i]
      heap_page_kern [OF ok heap_bits_lt, of i] i assms
    by (auto simp: set_alloc_map_other)
qed

theorem alloc_page_correct_witness:
  "wf_kheap kheap_demo \<and> (\<exists>p s'. alloc_page PAGE_SMALL kheap_demo = Inr (p, s') \<and> kern_addr p \<and>
     p \<notin> used_pages (heap_of PAGE_SMALL kheap_demo) \<and> p \<in> used_pages (heap_of PAGE_SMALL s'))"
  using alloc_page_correct [OF kheap_demo_wf, of PAGE_SMALL] kheap_demo_wf
    alloc_page_run [OF kheap_demo_wf, of PAGE_SMALL] kheap_demo_free by simp

text \<open>Freeing the page that \<open>alloc_page\<close> just returned restores the whole state exactly.\<close>

theorem alloc_free_roundtrip:
  assumes "wf_kheap s" and "kind = PAGE_SMALL \<or> kind = PAGE_LARGE"
    and "alloc_page kind s = Inr (p, s')"
  shows "free_page p kind s' = Inr ((), s)"
proof -
  let ?h = "heap_of kind s"
  note ok = wf_heap_of [OF assms(1), of kind]
  obtain i where ff: "first_free ?h = Some i" and p: "p = heap_page ?h i"
    and s': "s' = set_alloc_map kind i True s"
    using alloc_page_run [OF assms(1,2)] assms(3) by (auto split: option.splits)
  have i: "i < heap_count kind" "\<not> alloc_map ?h ! i"
    using first_free_Some [OF ff] heap_okD(3) [OF ok] by simp_all
  have "alloc_map (heap_of kind s') ! i"
    using i heap_okD(3) [OF ok] assms(2) by (simp add: s')
  moreover have "start (heap_of kind s') = start ?h" "heap_end (heap_of kind s') = heap_end ?h"
    "page_size (heap_of kind s') = page_size ?h"
    using assms(2) by (simp_all add: s')
  ultimately show ?thesis
    using free_page_run [of s' kind p] assms(1,2) heap_page_bounds [OF ok heap_bits_lt i(1)]
      heap_index [OF ok heap_bits_lt i(1)] set_alloc_map_undo [OF i(2) assms(2)]
    by (simp add: s' p leD)
qed

text \<open>C14: \<open>free_page\<close> on any address whatever is memory safe on a well-formed heap: either the
  address lies inside exactly one page in use, which is released, or the kernel panics and no page
  in use contains the address; an index outside the allocation map is never read, although the
  bound check in the source is \<open>heap_idx > num_pages\<close>.\<close>

theorem free_page_safe:
  assumes "wf_kheap s" and "kind = PAGE_SMALL \<or> kind = PAGE_LARGE"
  shows "case free_page p kind s of
      Inl e \<Rightarrow> (\<exists>msg. e = Panic msg) \<and>
        \<not> (\<exists>q \<in> used_pages (heap_of kind s). q \<le> p \<and> unat p < unat q + 2 ^ heap_bits kind)
    | Inr (_, s') \<Rightarrow> \<exists>q \<in> used_pages (heap_of kind s).
        q \<le> p \<and> unat p < unat q + 2 ^ heap_bits kind \<and>
        used_pages (heap_of kind s') = used_pages (heap_of kind s) - {q} \<and> wf_kheap s'"
proof -
  let ?h = "heap_of kind s"
  let ?b = "2 ^ heap_bits kind :: nat"
  let ?i = "unat ((p - start ?h) div page_size ?h)"
  note ok = wf_heap_of [OF assms(1), of kind]
  have q_iff: "q \<le> p \<and> unat p < unat q + ?b \<longleftrightarrow> start ?h \<le> p \<and> p < heap_end ?h \<and> i = ?i"
    if q: "q = heap_page ?h i" and i: "i < heap_count kind" for q i
  proof -
    have uq: "unat q = unat (start ?h) + i * ?b"
      using heap_page_unat [OF ok heap_bits_lt, of i] i q by simp
    have ue: "unat (heap_end ?h) = unat (start ?h) + heap_count kind * ?b"
      using heap_page_unat [OF ok heap_bits_lt, of "heap_count kind"]
      by (simp add: heap_page_def heap_okD [OF ok])
    have ui: "?i = (unat p - unat (start ?h)) div ?b" if "start ?h \<le> p"
      using that by (simp add: unat_div heap_okD [OF ok] unat_exp_64 unat_sub)
    have "Suc i * ?b \<le> heap_count kind * ?b" using i by (intro mult_right_mono) simp_all
    then have top: "i * ?b + ?b \<le> heap_count kind * ?b" by simp
    show ?thesis
    proof (cases "start ?h \<le> p")
      case True
      then have "q \<le> p \<and> unat p < unat q + ?b \<longleftrightarrow>
          i * ?b \<le> unat p - unat (start ?h) \<and> unat p - unat (start ?h) < i * ?b + ?b"
        using uq by (auto simp: word_le_nat_alt)
      also have "\<dots> \<longleftrightarrow> i = (unat p - unat (start ?h)) div ?b"
        by (rule nat_div_iff) simp
      finally show ?thesis
        using True ui ue top uq by (auto simp: word_less_nat_alt)
    next
      case False
      then show ?thesis using uq by (auto simp: word_le_nat_alt)
    qed
  qed
  have used: "q \<in> used_pages ?h \<longleftrightarrow> (\<exists>i < heap_count kind. q = heap_page ?h i \<and> alloc_map ?h ! i)" for q
    using heap_okD(3) [OF ok] by (auto simp: used_pages_def)
  have bound: "?i < heap_count kind" if "start ?h \<le> p" "p < heap_end ?h"
    using heap_index_bound [OF ok heap_bits_lt that] .
  have key: "(\<exists>q \<in> used_pages ?h. q \<le> p \<and> unat p < unat q + ?b) \<longleftrightarrow>
      start ?h \<le> p \<and> p < heap_end ?h \<and> alloc_map ?h ! ?i"
    using q_iff [OF refl] bound used by metis
  show ?thesis
  proof (cases "start ?h \<le> p \<and> p < heap_end ?h \<and> alloc_map ?h ! ?i")
    case True
    then have "free_page p kind s = Inr ((), set_alloc_map kind ?i False s)"
      using free_page_run [OF assms, of p] by (auto dest: leD)
    moreover have "heap_page ?h ?i \<in> used_pages ?h" using used bound True by blast
    ultimately show ?thesis
      using used_pages_remove [OF ok heap_bits_lt bound] q_iff [OF refl bound] True assms by auto
  next
    case False
    then have "\<exists>msg. free_page p kind s = Inl (Panic msg)"
      using free_page_run [OF assms, of p] by (auto simp: not_less not_le)
    with False key show ?thesis by auto
  qed
qed

theorem free_page_safe_witness:
  "wf_kheap kheap_demo \<and> (\<exists>msg. free_page 0xFFFFFF0010000000 PAGE_SMALL kheap_demo = Inl (Panic msg))"
  using free_page_safe [OF kheap_demo_wf, of PAGE_SMALL "0xFFFFFF0010000000"] kheap_demo_wf
    kheap_demo_free by (auto split: sum.splits)

end
