(* ===== verification/Sky_Pte.thy ===== *)
theory Sky_Pte
  imports Sky_Defs
begin

text \<open>
  Page table entries on the three ISAs (src/arch/x86_64/pte.c, src/arch/aarch64/pte.c,
  src/arch/riscv64/pte.c). The C functions update an entry through a pointer; here each takes the
  entry and returns the new one. A record \<open>pte_ops\<close> collects the functions of one ISA, the way
  inc/cpu.h declares them, and src/kernel/vm.c is written over such a record.

  The locale \<open>pte_laws\<close> states what vm.c relies on: an all-zero entry is invalid, every setter
  sets its own field and keeps the others, and the bit that the CPU reads as user access follows
  \<open>pte_set_priv\<close>. It is interpreted for the three ISAs.
\<close>

section \<open>The interface of inc/cpu.h\<close>

datatype cpu_mode = CPU_MODE_UNDEFINED | MODE_KERN | MODE_USER

datatype cache_policy = CACHE_WRITEBACK | CACHE_WRITECOMB | CACHE_DISABLE

record pte_ops =
  pte_is_valid :: "u64 \<Rightarrow> bool"
  pte_set_valid :: "u64 \<Rightarrow> bool \<Rightarrow> u64"
  pte_is_leaf :: "u64 \<Rightarrow> nat \<Rightarrow> bool"
  pte_set_leaf :: "u64 \<Rightarrow> nat \<Rightarrow> bool \<Rightarrow> u64"
  pte_get_phys :: "u64 \<Rightarrow> u64"
  pte_set_phys :: "u64 \<Rightarrow> u64 \<Rightarrow> kerr + u64"
  pte_set_priv :: "u64 \<Rightarrow> cpu_mode \<Rightarrow> kerr + u64"
  pte_set_cache_policy :: "u64 \<Rightarrow> cache_policy \<Rightarrow> u64"

section \<open>src/arch/x86_64/pte.c\<close>

definition x86_PTE_P :: u64 where "x86_PTE_P = BIT 0"
definition x86_PTE_RW :: u64 where "x86_PTE_RW = BIT 1"
definition x86_PTE_U :: u64 where "x86_PTE_U = BIT 2"
definition x86_PTE_PWT :: u64 where "x86_PTE_PWT = BIT 3"
definition x86_PTE_PCD :: u64 where "x86_PTE_PCD = BIT 4"
definition x86_PTE_PS :: u64 where "x86_PTE_PS = BIT 7"
definition x86_PTE_PA_MASK :: u64 where "x86_PTE_PA_MASK = push_bit 12 (MASK 40)"

definition x86_pte_is_valid :: "u64 \<Rightarrow> bool" where
  "x86_pte_is_valid entry \<longleftrightarrow> (entry AND x86_PTE_P) \<noteq> 0"

definition x86_pte_set_valid :: "u64 \<Rightarrow> bool \<Rightarrow> u64" where
  "x86_pte_set_valid entry valid =
     (if valid then entry OR (x86_PTE_P OR x86_PTE_RW OR x86_PTE_U) else entry AND NOT x86_PTE_P)"

definition x86_pte_is_leaf :: "u64 \<Rightarrow> nat \<Rightarrow> bool" where
  "x86_pte_is_leaf entry level \<longleftrightarrow> level = 0 \<or> (entry AND x86_PTE_PS) \<noteq> 0"

definition x86_pte_set_leaf :: "u64 \<Rightarrow> nat \<Rightarrow> bool \<Rightarrow> u64" where
  "x86_pte_set_leaf entry level is_leaf =
     (if level = 0 then entry
      else if is_leaf then entry OR x86_PTE_PS
      else entry AND (NOT x86_PTE_PS OR x86_PTE_U))"

definition x86_pte_get_phys :: "u64 \<Rightarrow> u64" where
  "x86_pte_get_phys entry = entry AND x86_PTE_PA_MASK"

definition x86_pte_set_phys :: "u64 \<Rightarrow> u64 \<Rightarrow> kerr + u64" where
  "x86_pte_set_phys entry pa =
     (if \<not> IS_ALIGNED_SMALL pa then Inl (Panic ''pte_set_phys: misaligned physical address'')
      else Inr ((entry AND NOT x86_PTE_PA_MASK) OR pa))"

definition x86_pte_set_priv :: "u64 \<Rightarrow> cpu_mode \<Rightarrow> kerr + u64" where
  "x86_pte_set_priv entry priv =
     (case priv of
        MODE_USER \<Rightarrow> Inr (entry OR x86_PTE_U)
      | MODE_KERN \<Rightarrow> Inr (entry AND NOT x86_PTE_U)
      | _ \<Rightarrow> Inl (Panic ''pte_set_priv: unknown privilege''))"

definition x86_pte_set_cache_policy :: "u64 \<Rightarrow> cache_policy \<Rightarrow> u64" where
  "x86_pte_set_cache_policy entry pol =
     (let entry = entry AND NOT x86_PTE_PCD; entry = entry AND NOT x86_PTE_PWT
      in case pol of
           CACHE_WRITEBACK \<Rightarrow> entry
         | CACHE_WRITECOMB \<Rightarrow> entry OR x86_PTE_PWT
         | CACHE_DISABLE \<Rightarrow> entry OR x86_PTE_PCD)"

definition x86_ops :: pte_ops where
  "x86_ops = \<lparr>pte_is_valid = x86_pte_is_valid, pte_set_valid = x86_pte_set_valid,
     pte_is_leaf = x86_pte_is_leaf, pte_set_leaf = x86_pte_set_leaf,
     pte_get_phys = x86_pte_get_phys, pte_set_phys = x86_pte_set_phys,
     pte_set_priv = x86_pte_set_priv, pte_set_cache_policy = x86_pte_set_cache_policy\<rparr>"

section \<open>src/arch/aarch64/pte.c\<close>

definition arm_PTE_P :: u64 where "arm_PTE_P = BIT 0"
definition arm_PTE_SIZE :: u64 where "arm_PTE_SIZE = BIT 1"
definition arm_PTE_U :: u64 where "arm_PTE_U = BIT 6"
definition arm_PTE_AF :: u64 where "arm_PTE_AF = BIT 10"
definition arm_PTE_PA_MASK :: u64 where "arm_PTE_PA_MASK = push_bit 12 (MASK 40)"
definition arm_MEMATTR0 :: u64 where "arm_MEMATTR0 = push_bit 2 0"
definition arm_MEMATTR1 :: u64 where "arm_MEMATTR1 = push_bit 2 1"
definition arm_ATTRMASK :: u64 where "arm_ATTRMASK = push_bit 2 (MASK 3)"

definition arm_pte_is_valid :: "u64 \<Rightarrow> bool" where
  "arm_pte_is_valid entry \<longleftrightarrow> (entry AND arm_PTE_P) \<noteq> 0"

definition arm_pte_set_valid :: "u64 \<Rightarrow> bool \<Rightarrow> u64" where
  "arm_pte_set_valid entry valid =
     (if valid then entry OR (arm_PTE_P OR arm_PTE_AF) else entry AND NOT arm_PTE_P)"

definition arm_pte_is_leaf :: "u64 \<Rightarrow> nat \<Rightarrow> bool" where
  "arm_pte_is_leaf entry level \<longleftrightarrow> level = 0 \<or> (entry AND arm_PTE_SIZE) = 0"

definition arm_pte_set_leaf :: "u64 \<Rightarrow> nat \<Rightarrow> bool \<Rightarrow> u64" where
  "arm_pte_set_leaf entry level is_leaf =
     (if level = 0 \<or> \<not> is_leaf then entry OR arm_PTE_SIZE else entry AND NOT arm_PTE_SIZE)"

definition arm_pte_get_phys :: "u64 \<Rightarrow> u64" where
  "arm_pte_get_phys entry = entry AND arm_PTE_PA_MASK"

definition arm_pte_set_phys :: "u64 \<Rightarrow> u64 \<Rightarrow> kerr + u64" where
  "arm_pte_set_phys entry pa =
     (if \<not> IS_ALIGNED_SMALL pa then Inl (Panic ''pte_set_phys: misaligned physical address'')
      else Inr ((entry AND NOT arm_PTE_PA_MASK) OR pa))"

definition arm_pte_set_priv :: "u64 \<Rightarrow> cpu_mode \<Rightarrow> kerr + u64" where
  "arm_pte_set_priv entry priv =
     (case priv of
        MODE_USER \<Rightarrow> Inr (entry OR arm_PTE_U)
      | MODE_KERN \<Rightarrow> Inr (entry AND NOT arm_PTE_U)
      | _ \<Rightarrow> Inl (Panic ''pte_set_priv: unknown privilege''))"

definition arm_pte_set_cache_policy :: "u64 \<Rightarrow> cache_policy \<Rightarrow> u64" where
  "arm_pte_set_cache_policy entry pol =
     (let entry = entry AND NOT arm_ATTRMASK
      in case pol of
           CACHE_WRITEBACK \<Rightarrow> entry OR arm_MEMATTR0
         | CACHE_DISABLE \<Rightarrow> entry OR arm_MEMATTR1
         | CACHE_WRITECOMB \<Rightarrow> entry OR arm_MEMATTR1)"

definition arm_ops :: pte_ops where
  "arm_ops = \<lparr>pte_is_valid = arm_pte_is_valid, pte_set_valid = arm_pte_set_valid,
     pte_is_leaf = arm_pte_is_leaf, pte_set_leaf = arm_pte_set_leaf,
     pte_get_phys = arm_pte_get_phys, pte_set_phys = arm_pte_set_phys,
     pte_set_priv = arm_pte_set_priv, pte_set_cache_policy = arm_pte_set_cache_policy\<rparr>"

section \<open>src/arch/riscv64/pte.c\<close>

definition riscv_PTE_V :: u64 where "riscv_PTE_V = BIT 0"
definition riscv_PTE_R :: u64 where "riscv_PTE_R = BIT 1"
definition riscv_PTE_W :: u64 where "riscv_PTE_W = BIT 2"
definition riscv_PTE_X :: u64 where "riscv_PTE_X = BIT 3"
definition riscv_PTE_U :: u64 where "riscv_PTE_U = BIT 4"
definition riscv_PTE_A :: u64 where "riscv_PTE_A = BIT 6"
definition riscv_PTE_D :: u64 where "riscv_PTE_D = BIT 7"
definition riscv_PTE_PA_MASK :: u64 where "riscv_PTE_PA_MASK = push_bit 10 (MASK 43)"
definition riscv_PTE_PHYS_SHIFT :: nat where "riscv_PTE_PHYS_SHIFT = 2"

definition riscv_leaf_bits :: u64 where
  "riscv_leaf_bits = riscv_PTE_R OR riscv_PTE_W OR riscv_PTE_X OR riscv_PTE_A OR riscv_PTE_D"

definition riscv_pte_is_valid :: "u64 \<Rightarrow> bool" where
  "riscv_pte_is_valid entry \<longleftrightarrow> (entry AND riscv_PTE_V) \<noteq> 0"

definition riscv_pte_set_valid :: "u64 \<Rightarrow> bool \<Rightarrow> u64" where
  "riscv_pte_set_valid entry valid =
     (if valid then entry OR riscv_PTE_V else entry AND NOT riscv_PTE_V)"

definition riscv_pte_is_leaf :: "u64 \<Rightarrow> nat \<Rightarrow> bool" where
  "riscv_pte_is_leaf entry level \<longleftrightarrow> (entry AND riscv_PTE_A) \<noteq> 0"

definition riscv_pte_set_leaf :: "u64 \<Rightarrow> nat \<Rightarrow> bool \<Rightarrow> u64" where
  "riscv_pte_set_leaf entry level is_leaf =
     (if is_leaf then entry OR riscv_leaf_bits else entry AND NOT riscv_leaf_bits)"

definition riscv_pte_get_phys :: "u64 \<Rightarrow> u64" where
  "riscv_pte_get_phys entry = push_bit riscv_PTE_PHYS_SHIFT (entry AND riscv_PTE_PA_MASK)"

definition riscv_pte_set_phys :: "u64 \<Rightarrow> u64 \<Rightarrow> kerr + u64" where
  "riscv_pte_set_phys entry pa =
     (if \<not> IS_ALIGNED_SMALL pa then Inl (Panic ''pte_set_phys: misaligned physical address'')
      else Inr ((entry AND NOT riscv_PTE_PA_MASK) OR drop_bit riscv_PTE_PHYS_SHIFT pa))"

definition riscv_pte_set_priv :: "u64 \<Rightarrow> cpu_mode \<Rightarrow> kerr + u64" where
  "riscv_pte_set_priv entry priv =
     (case priv of
        MODE_USER \<Rightarrow> Inr (entry OR riscv_PTE_U)
      | MODE_KERN \<Rightarrow> Inr (entry AND NOT riscv_PTE_U)
      | _ \<Rightarrow> Inl (Panic ''pte_set_priv: unknown privilege''))"

definition riscv_pte_set_cache_policy :: "u64 \<Rightarrow> cache_policy \<Rightarrow> u64" where
  "riscv_pte_set_cache_policy entry pol = entry"

definition riscv_ops :: pte_ops where
  "riscv_ops = \<lparr>pte_is_valid = riscv_pte_is_valid, pte_set_valid = riscv_pte_set_valid,
     pte_is_leaf = riscv_pte_is_leaf, pte_set_leaf = riscv_pte_set_leaf,
     pte_get_phys = riscv_pte_get_phys, pte_set_phys = riscv_pte_set_phys,
     pte_set_priv = riscv_pte_set_priv, pte_set_cache_policy = riscv_pte_set_cache_policy\<rparr>"

section \<open>Bits of an entry\<close>

named_theorems pte_bits \<open>definitions that turn the entry operations into statements about bits\<close>

lemma and_BIT_eq_0: "n < 64 \<Longrightarrow> x AND BIT n = 0 \<longleftrightarrow> \<not> bit x n"
proof
  assume "n < 64" and "x AND BIT n = 0"
  then have "\<not> bit (x AND BIT n) n" by simp
  with \<open>n < 64\<close> show "\<not> bit x n" by (simp add: bit_simps bit_BIT)
next
  assume "\<not> bit x n"
  then show "x AND BIT n = 0" by (intro bit_word_eqI) (auto simp: bit_simps bit_BIT)
qed

lemma bit_MASK: "n < 64 \<Longrightarrow> bit (MASK n) k \<longleftrightarrow> k < n"
  by (auto simp: MASK_eq_mask bit_simps)

lemma aligned_small_bit: "IS_ALIGNED_SMALL x \<Longrightarrow> k < 12 \<Longrightarrow> \<not> bit x k"
  unfolding aligned_iff_take_bit by (auto simp: bit_eq_iff bit_simps dest: spec [of _ k])

lemma aligned_small_iff_bit: "IS_ALIGNED_SMALL x \<longleftrightarrow> (\<forall>k < 12. \<not> bit x k)"
  unfolding aligned_iff_take_bit by (auto simp: bit_eq_iff bit_simps)

lemmas x86_consts = x86_PTE_P_def x86_PTE_RW_def x86_PTE_U_def x86_PTE_PWT_def x86_PTE_PCD_def
  x86_PTE_PS_def x86_PTE_PA_MASK_def

lemma arm_MEMATTR_bit: "\<not> bit arm_MEMATTR0 n" "bit arm_MEMATTR1 n \<longleftrightarrow> n = 2"
proof -
  have "arm_MEMATTR1 = BIT 2" by (simp add: arm_MEMATTR1_def BIT_def)
  then show "bit arm_MEMATTR1 n \<longleftrightarrow> n = 2" using bit_BIT [of 2 n] by simp
qed (simp add: arm_MEMATTR0_def)

lemmas arm_consts = arm_PTE_P_def arm_PTE_SIZE_def arm_PTE_U_def arm_PTE_AF_def arm_PTE_PA_MASK_def
  arm_MEMATTR_bit arm_ATTRMASK_def
lemmas riscv_consts = riscv_PTE_V_def riscv_PTE_R_def riscv_PTE_W_def riscv_PTE_X_def riscv_PTE_U_def
  riscv_PTE_A_def riscv_PTE_D_def riscv_PTE_PA_MASK_def riscv_leaf_bits_def riscv_PTE_PHYS_SHIFT_def

lemmas pte_bit_simps = and_BIT_eq_0 bit_simps bit_BIT bit_MASK

text \<open>A physical address an ISA's entries can hold: page aligned and inside the address field.\<close>

definition pa_fits :: "nat \<Rightarrow> u64 \<Rightarrow> bool" where
  "pa_fits width pa \<longleftrightarrow> IS_ALIGNED_SMALL pa \<and> take_bit width pa = pa"

lemma pa_fits_bit: "pa_fits width pa \<Longrightarrow> bit pa k \<Longrightarrow> 12 \<le> k \<and> k < width"
proof -
  assume "pa_fits width pa" and b: "bit pa k"
  then have al: "IS_ALIGNED_SMALL pa" and tb: "take_bit width pa = pa" by (auto simp: pa_fits_def)
  have "bit (take_bit width pa) k" using b tb by simp
  then have "k < width" by (simp add: bit_simps)
  moreover have "12 \<le> k" using al b aligned_small_bit not_less by blast
  ultimately show ?thesis by simp
qed

section \<open>What vm.c relies on\<close>

locale pte_laws =
  fixes ops :: pte_ops
    and width :: nat
    and user :: "u64 \<Rightarrow> bool"
  assumes width_40: "40 \<le> width"
    and zero_invalid: "\<not> pte_is_valid ops 0"
    and set_valid: "pte_is_valid ops (pte_set_valid ops e v) = v"
    and set_valid_leaf: "pte_is_leaf ops (pte_set_valid ops e v) l = pte_is_leaf ops e l"
    and set_valid_phys: "pte_get_phys ops (pte_set_valid ops e v) = pte_get_phys ops e"
    and set_leaf: "0 < l \<or> b \<Longrightarrow> pte_is_leaf ops (pte_set_leaf ops e l b) l = b"
    and set_leaf_valid: "pte_is_valid ops (pte_set_leaf ops e l b) = pte_is_valid ops e"
    and set_leaf_phys: "pte_get_phys ops (pte_set_leaf ops e l b) = pte_get_phys ops e"
    and set_phys: "pa_fits width pa \<Longrightarrow> \<exists>e'. pte_set_phys ops e pa = Inr e' \<and>
      pte_get_phys ops e' = pa \<and> pte_is_valid ops e' = pte_is_valid ops e \<and>
      (\<forall>l. pte_is_leaf ops e' l = pte_is_leaf ops e l)"
    and set_phys_misaligned: "\<not> IS_ALIGNED_SMALL pa \<Longrightarrow> \<exists>msg. pte_set_phys ops e pa = Inl (Panic msg)"
    and set_priv: "priv \<noteq> CPU_MODE_UNDEFINED \<Longrightarrow> \<exists>e'. pte_set_priv ops e priv = Inr e' \<and>
      pte_get_phys ops e' = pte_get_phys ops e \<and> pte_is_valid ops e' = pte_is_valid ops e \<and>
      (\<forall>l. pte_is_leaf ops e' l = pte_is_leaf ops e l) \<and> user e' = (priv = MODE_USER)"
    and set_leaf_user: "user (pte_set_leaf ops e l True) = user e"
    and set_cache_user: "user (pte_set_cache_policy ops e pol) = user e"
    and set_cache_valid: "pte_is_valid ops (pte_set_cache_policy ops e pol) = pte_is_valid ops e"
    and set_cache_leaf: "pte_is_leaf ops (pte_set_cache_policy ops e pol) l = pte_is_leaf ops e l"
    and set_cache_phys: "pte_get_phys ops (pte_set_cache_policy ops e pol) = pte_get_phys ops e"
    and get_phys_aligned: "IS_ALIGNED_SMALL (pte_get_phys ops e)"
    and get_phys_top: "\<not> bit (pte_get_phys ops e) 63"
begin

text \<open>The four steps with which \<open>map_page\<close> fills a leaf produce the entry asked for.\<close>

lemma leaf_entry:
  assumes "pa_fits width pa" and "priv \<noteq> CPU_MODE_UNDEFINED"
  obtains e1 e2 where "pte_set_phys ops (pte_set_valid ops e True) pa = Inr e1"
    and "pte_set_priv ops e1 priv = Inr e2"
    and "pte_is_valid ops (pte_set_leaf ops e2 l True)"
    and "pte_is_leaf ops (pte_set_leaf ops e2 l True) l"
    and "pte_get_phys ops (pte_set_leaf ops e2 l True) = pa"
    and "user (pte_set_leaf ops e2 l True) = (priv = MODE_USER)"
proof -
  obtain e1 where e1: "pte_set_phys ops (pte_set_valid ops e True) pa = Inr e1"
    "pte_get_phys ops e1 = pa" "pte_is_valid ops e1"
    using set_phys [OF assms(1), of "pte_set_valid ops e True"] set_valid by auto
  obtain e2 where "pte_set_priv ops e1 priv = Inr e2" "pte_get_phys ops e2 = pa" "pte_is_valid ops e2"
    "user e2 = (priv = MODE_USER)"
    using set_priv [OF assms(2), of e1] e1 by auto
  with e1 that show ?thesis by (simp add: set_leaf set_leaf_valid set_leaf_phys set_leaf_user)
qed

text \<open>The three steps with which \<open>map_page\<close> links a new table.\<close>

lemma table_entry:
  assumes "pa_fits width pa" and "0 < l"
  obtains e1 where "pte_set_phys ops (pte_set_valid ops e True) pa = Inr e1"
    and "pte_is_valid ops (pte_set_leaf ops e1 l False)"
    and "\<not> pte_is_leaf ops (pte_set_leaf ops e1 l False) l"
    and "pte_get_phys ops (pte_set_leaf ops e1 l False) = pa"
proof -
  obtain e1 where e1: "pte_set_phys ops (pte_set_valid ops e True) pa = Inr e1"
    "pte_get_phys ops e1 = pa" "pte_is_valid ops e1"
    using set_phys [OF assms(1), of "pte_set_valid ops e True"] set_valid by auto
  with assms that show ?thesis by (simp add: set_leaf set_leaf_valid set_leaf_phys)
qed

end

lemma x86_set_phys:
  assumes "pa_fits 52 pa"
  shows "\<exists>e'. x86_pte_set_phys e pa = Inr e' \<and> x86_pte_get_phys e' = pa \<and>
    x86_pte_is_valid e' = x86_pte_is_valid e \<and> (\<forall>l. x86_pte_is_leaf e' l = x86_pte_is_leaf e l)"
proof -
  have al: "IS_ALIGNED_SMALL pa" using assms by (simp add: pa_fits_def)
  have "((e AND NOT x86_PTE_PA_MASK) OR pa) AND x86_PTE_PA_MASK = pa"
  proof (rule bit_word_eqI)
    fix n assume "n < LENGTH(64)"
    then show "bit (((e AND NOT x86_PTE_PA_MASK) OR pa) AND x86_PTE_PA_MASK) n = bit pa n"
      using pa_fits_bit [OF assms, of n]
      by (cases "12 \<le> n \<and> n < 52") (auto simp: x86_consts pte_bit_simps less_diff_conv2)
  qed
  with al show ?thesis
    using aligned_small_bit [OF al]
    by (simp add: x86_pte_set_phys_def x86_pte_get_phys_def x86_pte_is_valid_def x86_pte_is_leaf_def
        x86_consts pte_bit_simps)
qed

lemma arm_set_phys:
  assumes "pa_fits 52 pa"
  shows "\<exists>e'. arm_pte_set_phys e pa = Inr e' \<and> arm_pte_get_phys e' = pa \<and>
    arm_pte_is_valid e' = arm_pte_is_valid e \<and> (\<forall>l. arm_pte_is_leaf e' l = arm_pte_is_leaf e l)"
proof -
  have al: "IS_ALIGNED_SMALL pa" using assms by (simp add: pa_fits_def)
  have "((e AND NOT arm_PTE_PA_MASK) OR pa) AND arm_PTE_PA_MASK = pa"
  proof (rule bit_word_eqI)
    fix n assume "n < LENGTH(64)"
    then show "bit (((e AND NOT arm_PTE_PA_MASK) OR pa) AND arm_PTE_PA_MASK) n = bit pa n"
      using pa_fits_bit [OF assms, of n]
      by (cases "12 \<le> n \<and> n < 52") (auto simp: arm_consts pte_bit_simps less_diff_conv2)
  qed
  with al show ?thesis
    using aligned_small_bit [OF al]
    by (simp add: arm_pte_set_phys_def arm_pte_get_phys_def arm_pte_is_valid_def arm_pte_is_leaf_def
        arm_consts pte_bit_simps)
qed

lemma riscv_set_phys:
  assumes "pa_fits 55 pa"
  shows "\<exists>e'. riscv_pte_set_phys e pa = Inr e' \<and> riscv_pte_get_phys e' = pa \<and>
    riscv_pte_is_valid e' = riscv_pte_is_valid e \<and> (\<forall>l. riscv_pte_is_leaf e' l = riscv_pte_is_leaf e l)"
proof -
  have al: "IS_ALIGNED_SMALL pa" using assms by (simp add: pa_fits_def)
  have "push_bit 2 (((e AND NOT riscv_PTE_PA_MASK) OR drop_bit 2 pa) AND riscv_PTE_PA_MASK) = pa"
  proof (rule bit_word_eqI)
    fix n assume "n < LENGTH(64)"
    moreover have "12 \<le> n \<Longrightarrow> Suc (Suc (n - 2)) = n" by simp
    ultimately show "bit (push_bit 2 (((e AND NOT riscv_PTE_PA_MASK) OR drop_bit 2 pa) AND riscv_PTE_PA_MASK)) n = bit pa n"
      using pa_fits_bit [OF assms, of n]
      by (cases "12 \<le> n \<and> n < 55") (auto simp: riscv_consts pte_bit_simps less_diff_conv2)
  qed
  with al show ?thesis
    using aligned_small_bit [OF al]
    by (simp add: riscv_pte_set_phys_def riscv_pte_get_phys_def riscv_pte_is_valid_def
        riscv_pte_is_leaf_def riscv_consts pte_bit_simps)
qed

lemmas x86_pte_defs = x86_pte_is_valid_def x86_pte_set_valid_def x86_pte_is_leaf_def x86_pte_set_leaf_def x86_pte_get_phys_def x86_pte_set_priv_def x86_pte_set_cache_policy_def

lemmas arm_pte_defs = arm_pte_is_valid_def arm_pte_set_valid_def arm_pte_is_leaf_def arm_pte_set_leaf_def arm_pte_get_phys_def arm_pte_set_priv_def arm_pte_set_cache_policy_def

lemmas riscv_pte_defs = riscv_pte_is_valid_def riscv_pte_set_valid_def riscv_pte_is_leaf_def riscv_pte_set_leaf_def riscv_pte_get_phys_def riscv_pte_set_priv_def riscv_pte_set_cache_policy_def

lemma x86_set_priv:
  assumes "priv \<noteq> CPU_MODE_UNDEFINED"
  shows "\<exists>e'. x86_pte_set_priv e priv = Inr e' \<and> x86_pte_get_phys e' = x86_pte_get_phys e \<and>
    x86_pte_is_valid e' = x86_pte_is_valid e \<and> (\<forall>l. x86_pte_is_leaf e' l = x86_pte_is_leaf e l) \<and>
    bit e' 2 = (priv = MODE_USER)"
proof (cases priv)
  case MODE_KERN
  moreover have "x86_pte_get_phys (e AND NOT x86_PTE_U) = x86_pte_get_phys e"
    by (rule bit_word_eqI) (auto simp: x86_pte_defs x86_consts pte_bit_simps)
  ultimately show ?thesis by (simp add: x86_pte_defs x86_consts pte_bit_simps)
next
  case MODE_USER
  moreover have "x86_pte_get_phys (e OR x86_PTE_U) = x86_pte_get_phys e"
    by (rule bit_word_eqI) (auto simp: x86_pte_defs x86_consts pte_bit_simps)
  ultimately show ?thesis by (simp add: x86_pte_defs x86_consts pte_bit_simps)
qed (use assms in simp)

interpretation x86: pte_laws x86_ops 52 "\<lambda>e. bit e 2"
proof
  fix e pa :: u64 and v b :: bool and l :: nat and priv :: cpu_mode and pol :: cache_policy
  show "(40 :: nat) \<le> 52" by simp
  show "\<not> pte_is_valid x86_ops 0" by (simp add: x86_ops_def x86_pte_defs)
  show "pte_is_valid x86_ops (pte_set_valid x86_ops e v) = v"
    by (simp add: x86_ops_def x86_pte_defs x86_consts pte_bit_simps)
  show "pte_is_leaf x86_ops (pte_set_valid x86_ops e v) l = pte_is_leaf x86_ops e l"
    by (simp add: x86_ops_def x86_pte_defs x86_consts pte_bit_simps)
  show "pte_get_phys x86_ops (pte_set_valid x86_ops e v) = pte_get_phys x86_ops e"
    by (rule bit_word_eqI) (auto simp: x86_ops_def x86_pte_defs x86_consts pte_bit_simps)
  show "0 < l \<or> b \<Longrightarrow> pte_is_leaf x86_ops (pte_set_leaf x86_ops e l b) l = b"
    by (auto simp: x86_ops_def x86_pte_defs x86_consts pte_bit_simps)
  show "pte_is_valid x86_ops (pte_set_leaf x86_ops e l b) = pte_is_valid x86_ops e"
    by (simp add: x86_ops_def x86_pte_defs x86_consts pte_bit_simps)
  show "pte_get_phys x86_ops (pte_set_leaf x86_ops e l b) = pte_get_phys x86_ops e"
    by (rule bit_word_eqI) (auto simp: x86_ops_def x86_pte_defs x86_consts pte_bit_simps)
  show "pa_fits 52 pa \<Longrightarrow> \<exists>e'. pte_set_phys x86_ops e pa = Inr e' \<and>
      pte_get_phys x86_ops e' = pa \<and> pte_is_valid x86_ops e' = pte_is_valid x86_ops e \<and>
      (\<forall>l. pte_is_leaf x86_ops e' l = pte_is_leaf x86_ops e l)"
    using x86_set_phys [of pa e] by (simp add: x86_ops_def)
  show "\<not> IS_ALIGNED_SMALL pa \<Longrightarrow> \<exists>msg. pte_set_phys x86_ops e pa = Inl (Panic msg)"
    by (simp add: x86_ops_def x86_pte_set_phys_def)
  show "priv \<noteq> CPU_MODE_UNDEFINED \<Longrightarrow> \<exists>e'. pte_set_priv x86_ops e priv = Inr e' \<and>
      pte_get_phys x86_ops e' = pte_get_phys x86_ops e \<and> pte_is_valid x86_ops e' = pte_is_valid x86_ops e \<and>
      (\<forall>l. pte_is_leaf x86_ops e' l = pte_is_leaf x86_ops e l) \<and> bit e' 2 = (priv = MODE_USER)"
    using x86_set_priv [of priv e] by (simp add: x86_ops_def)
  show "bit (pte_set_leaf x86_ops e l True) 2 = bit e 2"
    by (simp add: x86_ops_def x86_pte_defs x86_consts pte_bit_simps)
  show "bit (pte_set_cache_policy x86_ops e pol) 2 = bit e 2"
    by (cases pol) (simp_all add: x86_ops_def x86_pte_defs x86_consts pte_bit_simps)
  show "pte_is_valid x86_ops (pte_set_cache_policy x86_ops e pol) = pte_is_valid x86_ops e"
    by (cases pol) (simp_all add: x86_ops_def x86_pte_defs x86_consts pte_bit_simps)
  show "pte_is_leaf x86_ops (pte_set_cache_policy x86_ops e pol) l = pte_is_leaf x86_ops e l"
    by (cases pol) (simp_all add: x86_ops_def x86_pte_defs x86_consts pte_bit_simps)
  show "pte_get_phys x86_ops (pte_set_cache_policy x86_ops e pol) = pte_get_phys x86_ops e"
    by (cases pol; rule bit_word_eqI) (auto simp: x86_ops_def x86_pte_defs x86_consts pte_bit_simps)
  show "IS_ALIGNED_SMALL (pte_get_phys x86_ops e)"
    by (auto simp: aligned_small_iff_bit x86_ops_def x86_pte_defs x86_consts pte_bit_simps)
  show "\<not> bit (pte_get_phys x86_ops e) 63"
    by (simp add: x86_ops_def x86_pte_defs x86_consts pte_bit_simps)
qed

lemma arm_set_priv:
  assumes "priv \<noteq> CPU_MODE_UNDEFINED"
  shows "\<exists>e'. arm_pte_set_priv e priv = Inr e' \<and> arm_pte_get_phys e' = arm_pte_get_phys e \<and>
    arm_pte_is_valid e' = arm_pte_is_valid e \<and> (\<forall>l. arm_pte_is_leaf e' l = arm_pte_is_leaf e l) \<and>
    bit e' 6 = (priv = MODE_USER)"
proof (cases priv)
  case MODE_KERN
  moreover have "arm_pte_get_phys (e AND NOT arm_PTE_U) = arm_pte_get_phys e"
    by (rule bit_word_eqI) (auto simp: arm_pte_defs arm_consts pte_bit_simps)
  ultimately show ?thesis by (simp add: arm_pte_defs arm_consts pte_bit_simps)
next
  case MODE_USER
  moreover have "arm_pte_get_phys (e OR arm_PTE_U) = arm_pte_get_phys e"
    by (rule bit_word_eqI) (auto simp: arm_pte_defs arm_consts pte_bit_simps)
  ultimately show ?thesis by (simp add: arm_pte_defs arm_consts pte_bit_simps)
qed (use assms in simp)

interpretation arm: pte_laws arm_ops 52 "\<lambda>e. bit e 6"
proof
  fix e pa :: u64 and v b :: bool and l :: nat and priv :: cpu_mode and pol :: cache_policy
  show "(40 :: nat) \<le> 52" by simp
  show "\<not> pte_is_valid arm_ops 0" by (simp add: arm_ops_def arm_pte_defs)
  show "pte_is_valid arm_ops (pte_set_valid arm_ops e v) = v"
    by (simp add: arm_ops_def arm_pte_defs arm_consts pte_bit_simps)
  show "pte_is_leaf arm_ops (pte_set_valid arm_ops e v) l = pte_is_leaf arm_ops e l"
    by (simp add: arm_ops_def arm_pte_defs arm_consts pte_bit_simps)
  show "pte_get_phys arm_ops (pte_set_valid arm_ops e v) = pte_get_phys arm_ops e"
    by (rule bit_word_eqI) (auto simp: arm_ops_def arm_pte_defs arm_consts pte_bit_simps)
  show "0 < l \<or> b \<Longrightarrow> pte_is_leaf arm_ops (pte_set_leaf arm_ops e l b) l = b"
    by (auto simp: arm_ops_def arm_pte_defs arm_consts pte_bit_simps)
  show "pte_is_valid arm_ops (pte_set_leaf arm_ops e l b) = pte_is_valid arm_ops e"
    by (simp add: arm_ops_def arm_pte_defs arm_consts pte_bit_simps)
  show "pte_get_phys arm_ops (pte_set_leaf arm_ops e l b) = pte_get_phys arm_ops e"
    by (rule bit_word_eqI) (auto simp: arm_ops_def arm_pte_defs arm_consts pte_bit_simps)
  show "pa_fits 52 pa \<Longrightarrow> \<exists>e'. pte_set_phys arm_ops e pa = Inr e' \<and>
      pte_get_phys arm_ops e' = pa \<and> pte_is_valid arm_ops e' = pte_is_valid arm_ops e \<and>
      (\<forall>l. pte_is_leaf arm_ops e' l = pte_is_leaf arm_ops e l)"
    using arm_set_phys [of pa e] by (simp add: arm_ops_def)
  show "\<not> IS_ALIGNED_SMALL pa \<Longrightarrow> \<exists>msg. pte_set_phys arm_ops e pa = Inl (Panic msg)"
    by (simp add: arm_ops_def arm_pte_set_phys_def)
  show "priv \<noteq> CPU_MODE_UNDEFINED \<Longrightarrow> \<exists>e'. pte_set_priv arm_ops e priv = Inr e' \<and>
      pte_get_phys arm_ops e' = pte_get_phys arm_ops e \<and> pte_is_valid arm_ops e' = pte_is_valid arm_ops e \<and>
      (\<forall>l. pte_is_leaf arm_ops e' l = pte_is_leaf arm_ops e l) \<and> bit e' 6 = (priv = MODE_USER)"
    using arm_set_priv [of priv e] by (simp add: arm_ops_def)
  show "bit (pte_set_leaf arm_ops e l True) 6 = bit e 6"
    by (simp add: arm_ops_def arm_pte_defs arm_consts pte_bit_simps)
  show "bit (pte_set_cache_policy arm_ops e pol) 6 = bit e 6"
    by (cases pol) (simp_all add: arm_ops_def arm_pte_defs arm_consts pte_bit_simps)
  show "pte_is_valid arm_ops (pte_set_cache_policy arm_ops e pol) = pte_is_valid arm_ops e"
    by (cases pol) (simp_all add: arm_ops_def arm_pte_defs arm_consts pte_bit_simps)
  show "pte_is_leaf arm_ops (pte_set_cache_policy arm_ops e pol) l = pte_is_leaf arm_ops e l"
    by (cases pol) (simp_all add: arm_ops_def arm_pte_defs arm_consts pte_bit_simps)
  show "pte_get_phys arm_ops (pte_set_cache_policy arm_ops e pol) = pte_get_phys arm_ops e"
    by (cases pol; rule bit_word_eqI) (auto simp: arm_ops_def arm_pte_defs arm_consts pte_bit_simps)
  show "IS_ALIGNED_SMALL (pte_get_phys arm_ops e)"
    by (auto simp: aligned_small_iff_bit arm_ops_def arm_pte_defs arm_consts pte_bit_simps)
  show "\<not> bit (pte_get_phys arm_ops e) 63"
    by (simp add: arm_ops_def arm_pte_defs arm_consts pte_bit_simps)
qed

lemma riscv_set_priv:
  assumes "priv \<noteq> CPU_MODE_UNDEFINED"
  shows "\<exists>e'. riscv_pte_set_priv e priv = Inr e' \<and> riscv_pte_get_phys e' = riscv_pte_get_phys e \<and>
    riscv_pte_is_valid e' = riscv_pte_is_valid e \<and> (\<forall>l. riscv_pte_is_leaf e' l = riscv_pte_is_leaf e l) \<and>
    bit e' 4 = (priv = MODE_USER)"
proof (cases priv)
  case MODE_KERN
  moreover have "riscv_pte_get_phys (e AND NOT riscv_PTE_U) = riscv_pte_get_phys e"
    by (rule bit_word_eqI) (auto simp: riscv_pte_defs riscv_consts pte_bit_simps)
  ultimately show ?thesis by (simp add: riscv_pte_defs riscv_consts pte_bit_simps)
next
  case MODE_USER
  moreover have "riscv_pte_get_phys (e OR riscv_PTE_U) = riscv_pte_get_phys e"
    by (rule bit_word_eqI) (auto simp: riscv_pte_defs riscv_consts pte_bit_simps)
  ultimately show ?thesis by (simp add: riscv_pte_defs riscv_consts pte_bit_simps)
qed (use assms in simp)

interpretation riscv: pte_laws riscv_ops 55 "\<lambda>e. bit e 4"
proof
  fix e pa :: u64 and v b :: bool and l :: nat and priv :: cpu_mode and pol :: cache_policy
  show "(40 :: nat) \<le> 55" by simp
  show "\<not> pte_is_valid riscv_ops 0" by (simp add: riscv_ops_def riscv_pte_defs)
  show "pte_is_valid riscv_ops (pte_set_valid riscv_ops e v) = v"
    by (simp add: riscv_ops_def riscv_pte_defs riscv_consts pte_bit_simps)
  show "pte_is_leaf riscv_ops (pte_set_valid riscv_ops e v) l = pte_is_leaf riscv_ops e l"
    by (simp add: riscv_ops_def riscv_pte_defs riscv_consts pte_bit_simps)
  show "pte_get_phys riscv_ops (pte_set_valid riscv_ops e v) = pte_get_phys riscv_ops e"
    by (rule bit_word_eqI) (auto simp: riscv_ops_def riscv_pte_defs riscv_consts pte_bit_simps)
  show "0 < l \<or> b \<Longrightarrow> pte_is_leaf riscv_ops (pte_set_leaf riscv_ops e l b) l = b"
    by (auto simp: riscv_ops_def riscv_pte_defs riscv_consts pte_bit_simps)
  show "pte_is_valid riscv_ops (pte_set_leaf riscv_ops e l b) = pte_is_valid riscv_ops e"
    by (simp add: riscv_ops_def riscv_pte_defs riscv_consts pte_bit_simps)
  show "pte_get_phys riscv_ops (pte_set_leaf riscv_ops e l b) = pte_get_phys riscv_ops e"
    by (rule bit_word_eqI) (auto simp: riscv_ops_def riscv_pte_defs riscv_consts pte_bit_simps)
  show "pa_fits 55 pa \<Longrightarrow> \<exists>e'. pte_set_phys riscv_ops e pa = Inr e' \<and>
      pte_get_phys riscv_ops e' = pa \<and> pte_is_valid riscv_ops e' = pte_is_valid riscv_ops e \<and>
      (\<forall>l. pte_is_leaf riscv_ops e' l = pte_is_leaf riscv_ops e l)"
    using riscv_set_phys [of pa e] by (simp add: riscv_ops_def)
  show "\<not> IS_ALIGNED_SMALL pa \<Longrightarrow> \<exists>msg. pte_set_phys riscv_ops e pa = Inl (Panic msg)"
    by (simp add: riscv_ops_def riscv_pte_set_phys_def)
  show "priv \<noteq> CPU_MODE_UNDEFINED \<Longrightarrow> \<exists>e'. pte_set_priv riscv_ops e priv = Inr e' \<and>
      pte_get_phys riscv_ops e' = pte_get_phys riscv_ops e \<and> pte_is_valid riscv_ops e' = pte_is_valid riscv_ops e \<and>
      (\<forall>l. pte_is_leaf riscv_ops e' l = pte_is_leaf riscv_ops e l) \<and> bit e' 4 = (priv = MODE_USER)"
    using riscv_set_priv [of priv e] by (simp add: riscv_ops_def)
  show "bit (pte_set_leaf riscv_ops e l True) 4 = bit e 4"
    by (simp add: riscv_ops_def riscv_pte_defs riscv_consts pte_bit_simps)
  show "bit (pte_set_cache_policy riscv_ops e pol) 4 = bit e 4"
    by (cases pol) (simp_all add: riscv_ops_def riscv_pte_defs riscv_consts pte_bit_simps)
  show "pte_is_valid riscv_ops (pte_set_cache_policy riscv_ops e pol) = pte_is_valid riscv_ops e"
    by (cases pol) (simp_all add: riscv_ops_def riscv_pte_defs riscv_consts pte_bit_simps)
  show "pte_is_leaf riscv_ops (pte_set_cache_policy riscv_ops e pol) l = pte_is_leaf riscv_ops e l"
    by (cases pol) (simp_all add: riscv_ops_def riscv_pte_defs riscv_consts pte_bit_simps)
  show "pte_get_phys riscv_ops (pte_set_cache_policy riscv_ops e pol) = pte_get_phys riscv_ops e"
    by (cases pol; rule bit_word_eqI) (auto simp: riscv_ops_def riscv_pte_defs riscv_consts pte_bit_simps)
  show "IS_ALIGNED_SMALL (pte_get_phys riscv_ops e)"
    by (auto simp: aligned_small_iff_bit riscv_ops_def riscv_pte_defs riscv_consts pte_bit_simps)
  show "\<not> bit (pte_get_phys riscv_ops e) 63"
    by (simp add: riscv_ops_def riscv_pte_defs riscv_consts pte_bit_simps)
qed

end
