(* ===== verification/Sky_Vm.thy ===== *)
theory Sky_Vm
  imports Sky_Kheap Sky_Pte
begin

text \<open>
  Virtual memory (src/kernel/vm.c): the four-level page tables, which live in pages of the small
  heap and are read and written through the kernel's linear map.

  The functions take the record \<open>pte_ops\<close> of the ISA as their first argument. A pointer to an
  entry is its address; an entry is loaded from memory, changed by one of the \<open>pte_\<close> functions
  and stored back by \<open>pte_update\<close>. The page table register of the CPU is the extra field of
  \<open>vm_state\<close>, as the list of the values \<open>cpu_set_pagetable\<close> writes on the ISA.

  The descending loops of the source are recursions on the level. \<open>walk_page\<close> and
  \<open>get_page_size\<close> compare an unsigned level with \<open>PAGE_L1\<close>, so they do not stop below level 0: a
  valid entry at level 0 that is not a leaf makes the index shift wider than the operand, which
  is a \<open>Fault\<close> here.
\<close>

section \<open>inc/vm.h and the page table registers\<close>

definition PHYS_ADDR_INVALID :: u64 where "PHYS_ADDR_INVALID = 0xAAAAAAAAAAAAAAAA"

definition is_user_va :: "u64 \<Rightarrow> bool" where "is_user_va va \<longleftrightarrow> va < BIT 48"

record vm_state = kheap_state +
  pt_regs :: "u64 list"

datatype isa = X86_64 | AARCH64 | RISCV64

primrec isa_pte :: "isa \<Rightarrow> pte_ops" where
  "isa_pte X86_64 = x86_ops"
| "isa_pte AARCH64 = arm_ops"
| "isa_pte RISCV64 = riscv_ops"

declare isa_pte.simps [simp del]

definition SATP_PPN_PAGE_SHIFT :: nat where "SATP_PPN_PAGE_SHIFT = 12"
definition RISCV_PAGING_MODE_SHIFT :: nat where "RISCV_PAGING_MODE_SHIFT = 60"
definition RISCV_PAGING_MODE_SV48 :: u64 where "RISCV_PAGING_MODE_SV48 = 9"

text \<open>\<open>cpu_set_pagetable\<close> of the three ISAs: cr3; ttbr0 and ttbr1; satp.\<close>

definition x86_cpu_set_pagetable :: "u64 \<Rightarrow> ('z vm_state_scheme, unit) kop" where
  "x86_cpu_set_pagetable new_pt = kmodify (\<lambda>s. s\<lparr>pt_regs := [KERN_V2P new_pt]\<rparr>)"

definition arm_cpu_set_pagetable :: "u64 \<Rightarrow> ('z vm_state_scheme, unit) kop" where
  "arm_cpu_set_pagetable new_pt = kmodify (\<lambda>s. s\<lparr>pt_regs :=
     [KERN_V2P new_pt, KERN_V2P (new_pt + 8 * of_nat (NUM_PT_ENTRIES div 2))]\<rparr>)"

definition riscv_cpu_set_pagetable :: "u64 \<Rightarrow> ('z vm_state_scheme, unit) kop" where
  "riscv_cpu_set_pagetable new_pt = kmodify (\<lambda>s. s\<lparr>pt_regs :=
     [drop_bit SATP_PPN_PAGE_SHIFT (KERN_V2P new_pt) OR
      push_bit RISCV_PAGING_MODE_SHIFT RISCV_PAGING_MODE_SV48]\<rparr>)"

primrec cpu_set_pagetable :: "isa \<Rightarrow> u64 \<Rightarrow> ('z vm_state_scheme, unit) kop" where
  "cpu_set_pagetable X86_64 new_pt = x86_cpu_set_pagetable new_pt"
| "cpu_set_pagetable AARCH64 new_pt = arm_cpu_set_pagetable new_pt"
| "cpu_set_pagetable RISCV64 new_pt = riscv_cpu_set_pagetable new_pt"

declare cpu_set_pagetable.simps [simp del]

text \<open>Reading back the register, which only the x86_64 file has.\<close>

definition cpu_get_pagetable :: "('z vm_state_scheme, u64) kop" where
  "cpu_get_pagetable = kbind (kgets pt_regs) (\<lambda>r. kreturn (KERN_P2V (r ! 0)))"

section \<open>src/kernel/vm.c\<close>

definition get_pt_index :: "u64 \<Rightarrow> nat \<Rightarrow> nat" where
  "get_pt_index va level =
     unat (drop_bit (PAGE_OFFSET_BITS + PAGE_BITS_PER_LEVEL * level) va AND MASK PAGE_BITS_PER_LEVEL)"

primrec is_aligned :: "u64 \<Rightarrow> pagesize \<Rightarrow> kerr + bool" where
  "is_aligned va PAGE_SMALL = Inr (IS_ALIGNED_SMALL va)"
| "is_aligned va PAGE_LARGE = Inr (IS_ALIGNED_LARGE va)"
| "is_aligned va PAGE_GIANT = Inr (IS_ALIGNED_GIANT va)"
| "is_aligned va PAGE_SUPER = Inr (IS_ALIGNED_SUPER va)"
| "is_aligned va N_PAGETABLE_LEVELS = Inl (Panic ''is_aligned: unsupported page kind'')"

primrec page_size_in_bytes :: "pagesize \<Rightarrow> usize" where
  "page_size_in_bytes PAGE_SMALL = SMALL_PAGE_SIZE"
| "page_size_in_bytes PAGE_LARGE = LARGE_PAGE_SIZE"
| "page_size_in_bytes PAGE_GIANT = GIANT_PAGE_SIZE"
| "page_size_in_bytes PAGE_SUPER = SUPER_PAGE_SIZE"
| "page_size_in_bytes N_PAGETABLE_LEVELS = 0"

primrec page_size_to_level :: "pagesize \<Rightarrow> nat" where
  "page_size_to_level PAGE_SMALL = 0"
| "page_size_to_level PAGE_LARGE = 1"
| "page_size_to_level PAGE_GIANT = 2"
| "page_size_to_level PAGE_SUPER = 3"
| "page_size_to_level N_PAGETABLE_LEVELS = 4"

fun page_level_to_size :: "nat \<Rightarrow> pagesize" where
  "page_level_to_size 0 = PAGE_SMALL"
| "page_level_to_size (Suc 0) = PAGE_LARGE"
| "page_level_to_size (Suc (Suc 0)) = PAGE_GIANT"
| "page_level_to_size (Suc (Suc (Suc 0))) = PAGE_SUPER"
| "page_level_to_size _ = N_PAGETABLE_LEVELS"

text \<open>\<open>&page_table[i]\<close>, and one read-modify-write of an entry through its pointer.\<close>

definition pte_addr :: "u64 \<Rightarrow> nat \<Rightarrow> u64" where
  "pte_addr page_table i = page_table + 8 * of_nat i"

definition pte_update :: "u64 \<Rightarrow> (u64 \<Rightarrow> kerr + u64) \<Rightarrow> ('z kheap_state_scheme, unit) kop" where
  "pte_update entry f =
     kbind (kgets (\<lambda>s. load64 (mem s) entry)) (\<lambda>e.
     kbind (klift (f e)) (\<lambda>e'.
     kmodify (\<lambda>s. s\<lparr>mem := store64 (mem s) entry e'\<rparr>)))"

definition alloc_pagetable :: "('z kheap_state_scheme, u64) kop" where
  "alloc_pagetable =
     kbind (alloc_page PAGE_SMALL) (\<lambda>new_ptable.
     kseq (kmodify (\<lambda>s. s\<lparr>mem := memset new_ptable 0 SMALL_PAGE_SIZE (mem s)\<rparr>))
     (kreturn new_ptable))"

primrec map_page_loop :: "pte_ops \<Rightarrow> u64 \<Rightarrow> nat \<Rightarrow> nat \<Rightarrow> u64 \<Rightarrow> ('z kheap_state_scheme, u64) kop" where
  "map_page_loop ops va last_level 0 page_table = kreturn page_table"
| "map_page_loop ops va last_level (Suc level) page_table =
     (if Suc level > last_level then
        (let entry = pte_addr page_table (get_pt_index va (Suc level)) in
         kbind (kgets (\<lambda>s. load64 (mem s) entry)) (\<lambda>e.
         kseq (kwhen (\<not> pte_is_valid ops e)
           (kbind alloc_pagetable (\<lambda>new_ptable.
            kseq (pte_update entry (\<lambda>e. Inr (pte_set_valid ops e True)))
            (kseq (pte_update entry (\<lambda>e. pte_set_phys ops e (KERN_V2P new_ptable)))
            (pte_update entry (\<lambda>e. Inr (pte_set_leaf ops e (Suc level) False)))))))
         (kbind (kgets (\<lambda>s. load64 (mem s) entry)) (\<lambda>e.
          map_page_loop ops va last_level level (KERN_P2V (pte_get_phys ops e))))))
      else kreturn page_table)"

definition map_page ::
  "pte_ops \<Rightarrow> u64 \<Rightarrow> u64 \<Rightarrow> u64 \<Rightarrow> pagesize \<Rightarrow> cpu_mode \<Rightarrow> ('z kheap_state_scheme, unit) kop" where
  "map_page ops page_table va pa sz priv =
     kbind (klift (is_aligned va sz)) (\<lambda>va_ok.
     kseq (kassert va_ok ''map_page: misaligned VA'')
     (kbind (klift (is_aligned pa sz)) (\<lambda>pa_ok.
     kseq (kassert pa_ok ''map_page: misaligned PA'')
     (let last_level = page_size_to_level sz in
      kbind (map_page_loop ops va last_level 3 page_table) (\<lambda>page_table.
      let end_entry = pte_addr page_table (get_pt_index va last_level) in
      kseq (kassert (end_entry \<noteq> 0) ''map_page: failed to allocate a page table entry'')
      (kseq (pte_update end_entry (\<lambda>e. Inr (pte_set_valid ops e True)))
      (kseq (pte_update end_entry (\<lambda>e. pte_set_phys ops e pa))
      (kseq (pte_update end_entry (\<lambda>e. pte_set_priv ops e priv))
      (pte_update end_entry (\<lambda>e. Inr (pte_set_leaf ops e (page_size_to_level sz) True)))))))))))"

primrec walk_page_loop :: "pte_ops \<Rightarrow> memory \<Rightarrow> u64 \<Rightarrow> nat \<Rightarrow> u64 \<Rightarrow> kerr + u64" where
  "walk_page_loop ops m va 0 page_table =
     (let entry = pte_addr page_table (get_pt_index va 0); e = load64 m entry in
      if \<not> pte_is_valid ops e then Inr 0
      else if pte_is_leaf ops e 0 then Inr entry
      else Inl (Fault ''walk_page: level underflow''))"
| "walk_page_loop ops m va (Suc level) page_table =
     (let entry = pte_addr page_table (get_pt_index va (Suc level)); e = load64 m entry in
      if \<not> pte_is_valid ops e then Inr 0
      else if pte_is_leaf ops e (Suc level) then Inr entry
      else walk_page_loop ops m va level (KERN_P2V (pte_get_phys ops e)))"

definition walk_page :: "pte_ops \<Rightarrow> u64 \<Rightarrow> u64 \<Rightarrow> memory \<Rightarrow> kerr + u64" where
  "walk_page ops page_table va m = walk_page_loop ops m va 3 page_table"

definition page_set_cache_policy ::
  "pte_ops \<Rightarrow> u64 \<Rightarrow> u64 \<Rightarrow> cache_policy \<Rightarrow> ('z kheap_state_scheme, unit) kop" where
  "page_set_cache_policy ops ptable va pol =
     kbind (kgets (\<lambda>s. walk_page ops ptable va (mem s))) (\<lambda>r.
     kbind (klift r) (\<lambda>entry.
     kwhen (entry \<noteq> 0) (pte_update entry (\<lambda>e. Inr (pte_set_cache_policy ops e pol)))))"

definition translate_page :: "pte_ops \<Rightarrow> u64 \<Rightarrow> u64 \<Rightarrow> memory \<Rightarrow> kerr + u64" where
  "translate_page ops ptable va m =
     (case walk_page ops ptable va m of
        Inl err \<Rightarrow> Inl err
      | Inr entry \<Rightarrow>
          if entry = 0 then Inr PHYS_ADDR_INVALID
          else Inr (pte_get_phys ops (load64 m entry) OR (va AND MASK PAGE_OFFSET_BITS)))"

primrec get_page_size_loop :: "pte_ops \<Rightarrow> memory \<Rightarrow> u64 \<Rightarrow> nat \<Rightarrow> u64 \<Rightarrow> kerr + usize" where
  "get_page_size_loop ops m va 0 ptable =
     (let e = load64 m (pte_addr ptable (get_pt_index va 0)) in
      if \<not> pte_is_valid ops e then Inr 0
      else if pte_is_leaf ops e 0 then Inr (page_size_in_bytes (page_level_to_size 0))
      else Inl (Fault ''get_page_size: level underflow''))"
| "get_page_size_loop ops m va (Suc level) ptable =
     (let e = load64 m (pte_addr ptable (get_pt_index va (Suc level))) in
      if \<not> pte_is_valid ops e then Inr 0
      else if pte_is_leaf ops e (Suc level)
      then Inr (page_size_in_bytes (page_level_to_size (Suc level)))
      else get_page_size_loop ops m va level (KERN_P2V (pte_get_phys ops e)))"

definition get_page_size :: "pte_ops \<Rightarrow> u64 \<Rightarrow> u64 \<Rightarrow> memory \<Rightarrow> kerr + usize" where
  "get_page_size ops ptable va m = get_page_size_loop ops m va 3 ptable"

definition is_page_mapped :: "pte_ops \<Rightarrow> u64 \<Rightarrow> u64 \<Rightarrow> memory \<Rightarrow> kerr + bool" where
  "is_page_mapped ops ptable va m =
     (case translate_page ops ptable va m of
        Inl err \<Rightarrow> Inl err
      | Inr pa \<Rightarrow> Inr (PHYS_ADDR_INVALID \<noteq> pa))"

definition unmap_page :: "pte_ops \<Rightarrow> u64 \<Rightarrow> u64 \<Rightarrow> ('z kheap_state_scheme, unit) kop" where
  "unmap_page ops page_table va =
     kbind (kgets (\<lambda>s. walk_page ops page_table va (mem s))) (\<lambda>r.
     kbind (klift r) (\<lambda>entry.
     kwhen (entry \<noteq> 0) (pte_update entry (\<lambda>e. Inr (pte_set_valid ops e False)))))"

primrec free_pagetable_recursive :: "pte_ops \<Rightarrow> nat \<Rightarrow> u64 \<Rightarrow> ('z kheap_state_scheme, unit) kop" where
  "free_pagetable_recursive ops 0 page_table =
     kseq (kfor [0..<NUM_PT_ENTRIES] (\<lambda>i.
       kbind (kgets (\<lambda>s. load64 (mem s) (pte_addr page_table i))) (\<lambda>e.
       kwhen (pte_is_valid ops e) (free_page (KERN_P2V (pte_get_phys ops e)) PAGE_SMALL))))
     (free_page page_table PAGE_SMALL)"
| "free_pagetable_recursive ops (Suc level) page_table =
     kseq (kfor [0..<NUM_PT_ENTRIES] (\<lambda>i.
       kbind (kgets (\<lambda>s. load64 (mem s) (pte_addr page_table i))) (\<lambda>e.
       kwhen (pte_is_valid ops e \<and> \<not> pte_is_leaf ops e (Suc level))
         (free_pagetable_recursive ops level (KERN_P2V (pte_get_phys ops e))))))
     (free_page page_table PAGE_SMALL)"

definition free_pagetable :: "pte_ops \<Rightarrow> u64 \<Rightarrow> ('z kheap_state_scheme, unit) kop" where
  "free_pagetable ops page_table =
     free_pagetable_recursive ops (page_size_to_level N_PAGETABLE_LEVELS - 1) page_table"

definition map_kernel :: "pte_ops \<Rightarrow> u64 \<Rightarrow> ('z kheap_state_scheme, unit) kop" where
  "map_kernel ops page_table =
     kfor [0..<NUM_PT_ENTRIES] (\<lambda>i. let off = of_nat i * GIANT_PAGE_SIZE in
       kseq (map_page ops page_table (KERNEL_LINK_ADDRESS + off) off PAGE_GIANT MODE_KERN)
       (kseq (page_set_cache_policy ops page_table (KERNEL_LINK_ADDRESS + off) CACHE_WRITEBACK)
       (kseq (map_page ops page_table (KERNEL_DEVICE_MAP + off) off PAGE_GIANT MODE_KERN)
       (kseq (page_set_cache_policy ops page_table (KERNEL_DEVICE_MAP + off) CACHE_DISABLE)
       (kseq (map_page ops page_table (WRITE_COMB_MAP + off) off PAGE_GIANT MODE_KERN)
       (page_set_cache_policy ops page_table (WRITE_COMB_MAP + off) CACHE_WRITECOMB))))))"

definition unmap_kernel :: "pte_ops \<Rightarrow> u64 \<Rightarrow> ('z kheap_state_scheme, unit) kop" where
  "unmap_kernel ops page_table =
     kfor [0..<NUM_PT_ENTRIES] (\<lambda>i. let off = of_nat i * GIANT_PAGE_SIZE in
       kseq (unmap_page ops page_table (KERNEL_LINK_ADDRESS + off))
       (kseq (unmap_page ops page_table (KERNEL_DEVICE_MAP + off))
       (unmap_page ops page_table (WRITE_COMB_MAP + off))))"

definition init_vm :: "isa \<Rightarrow> ('z vm_state_scheme, unit) kop" where
  "init_vm arch =
     kbind alloc_pagetable (\<lambda>init_ptable.
     kseq (map_kernel (isa_pte arch) init_ptable)
     (cpu_set_pagetable arch init_ptable))"

end
