(* ===== verification/Sky_File.thy ===== *)
theory Sky_File
  imports Sky_Vm
begin

text \<open>
  The file table (src/kernel/file.c, inc/file.h). A \<open>file_t *\<close> is an index into the table, NULL is
  \<open>None\<close>. The table of file system operations of a file is named by the file system it belongs to:
  \<open>TarFs\<close> for \<open>tar_fs_ops\<close> and \<open>StdioFs\<close> for \<open>stdio_fs_ops\<close>; calling through a NULL table is a
  \<open>Fault\<close>. \<open>fs_state\<close> adds the table, the ramdisk's address, the files of the console devices and
  the flag that says whether there is a display.
\<close>

section \<open>inc/file.h\<close>

datatype filetype = FILE_NONE | FILE_REGULAR | FILE_DIRECTORY | FILE_CONSOLE

datatype filesys = TarFs | StdioFs

datatype tty_ref = SerialTty | DisplayTty nat

record file_t =
  f_ops :: "filesys option"
  f_inode :: u64
  f_tty :: "tty_ref option"
  f_pos :: usize
  f_type :: filetype
  f_valid :: bool

definition MAX_PATHLEN :: u64 where "MAX_PATHLEN = 255"

record fs_state = vm_state +
  filetab :: "file_t list"
  g_initrd :: u64
  stdio_serial :: "nat option"
  stdio_display :: "nat option list"
  is_gui_enabled :: bool

section \<open>src/kernel/file.c\<close>

definition NUM_FILES :: nat where "NUM_FILES = 1024"

text \<open>Reading and writing a field of \<open>*f\<close>.\<close>

definition get_file :: "nat \<Rightarrow> ('z fs_state_scheme, file_t) kop" where
  "get_file f = kbind (kgets filetab) (\<lambda>tab.
     if f < length tab then kreturn (tab ! f) else kfault ''file: bad pointer'')"

definition upd_file :: "nat \<Rightarrow> (file_t \<Rightarrow> file_t) \<Rightarrow> ('z fs_state_scheme, unit) kop" where
  "upd_file f g = kbind (get_file f) (\<lambda>x. kmodify (\<lambda>s. s\<lparr>filetab := (filetab s)[f := g x]\<rparr>))"

definition init_files :: "('z fs_state_scheme, unit) kop" where
  "init_files = kfor [0..<NUM_FILES] (\<lambda>i. upd_file i (\<lambda>x. x\<lparr>f_valid := False\<rparr>))"

definition file_alloc :: "('z fs_state_scheme, nat) kop" where
  "file_alloc =
     kbind (kgets filetab) (\<lambda>tab.
       case find_from (\<lambda>i. length tab \<le> i \<or> \<not> f_valid (tab ! i)) 0 NUM_FILES of
         None \<Rightarrow> kpanic ''file_alloc: out of available files''
       | Some i \<Rightarrow>
           kseq (upd_file i (\<lambda>x. x\<lparr>f_ops := None, f_inode := 0, f_pos := 0, f_tty := None,
             f_type := FILE_NONE, f_valid := True\<rparr>))
           (kreturn i))"

definition file_free :: "nat \<Rightarrow> ('z fs_state_scheme, unit) kop" where
  "file_free f = upd_file f (\<lambda>x. x\<lparr>f_valid := False, f_inode := 0, f_ops := None\<rparr>)"

section \<open>The table\<close>

definition files_ok :: "'z fs_state_scheme \<Rightarrow> bool" where
  "files_ok s \<longleftrightarrow> length (filetab s) = NUM_FILES"

definition open_files :: "'z fs_state_scheme \<Rightarrow> nat set" where
  "open_files s = {i. i < length (filetab s) \<and> f_valid (filetab s ! i)}"

lemma get_file_run: "f < length (filetab s) \<Longrightarrow> get_file f s = Inr (filetab s ! f, s)"
  by (simp add: get_file_def kop_simps)

lemma upd_file_run:
  "f < length (filetab s) \<Longrightarrow> upd_file f g s = Inr ((), s\<lparr>filetab := (filetab s)[f := g (filetab s ! f)]\<rparr>)"
  by (simp add: upd_file_def kop_simps get_file_run)

lemma open_files_bound: "files_ok s \<Longrightarrow> open_files s \<subseteq> {i. i < NUM_FILES}"
  by (auto simp: open_files_def files_ok_def)

definition blank_file :: file_t where
  "blank_file = \<lparr>f_ops = None, f_inode = 0, f_tty = None, f_pos = 0, f_type = FILE_NONE, f_valid = True\<rparr>"

lemma blank_file_eq:
  "x\<lparr>f_ops := None, f_inode := 0, f_pos := 0, f_tty := None, f_type := FILE_NONE, f_valid := True\<rparr> = blank_file"
  by (cases x) (simp add: blank_file_def)

lemma file_alloc_run:
  assumes "files_ok s"
  shows "file_alloc s =
    (case find_from (\<lambda>i. i \<notin> open_files s) 0 NUM_FILES of
       None \<Rightarrow> Inl (Panic ''file_alloc: out of available files'')
     | Some i \<Rightarrow> Inr (i, s\<lparr>filetab := (filetab s)[i := blank_file]\<rparr>))"
proof -
  have len: "length (filetab s) = NUM_FILES" using assms by (simp add: files_ok_def)
  have "find_from (\<lambda>i. length (filetab s) \<le> i \<or> \<not> f_valid (filetab s ! i)) 0 NUM_FILES =
      find_from (\<lambda>i. i \<notin> open_files s) 0 NUM_FILES"
    by (rule find_from_cong) (auto simp: open_files_def len)
  note eq = this
  show ?thesis
  proof (cases "find_from (\<lambda>i. i \<notin> open_files s) 0 NUM_FILES")
    case None
    then show ?thesis by (simp add: file_alloc_def kop_simps eq)
  next
    case (Some i)
    then have "i < length (filetab s)" using find_from_Some [OF Some] len by simp
    then show ?thesis using Some by (simp add: file_alloc_def kop_simps eq upd_file_run blank_file_eq)
  qed
qed

lemma open_files_update:
  "i < length (filetab s) \<Longrightarrow> open_files (s\<lparr>filetab := (filetab s)[i := x]\<rparr>) =
    (if f_valid x then insert i (open_files s) else open_files s - {i})"
  by (auto simp: open_files_def nth_list_update)

text \<open>Allocating takes the lowest closed entry, blank, or panics when all are open.\<close>

lemma file_alloc_cases:
  assumes "files_ok s"
  obtains (full) "open_files s = {i. i < NUM_FILES}" "file_alloc s = Inl (Panic ''file_alloc: out of available files'')"
  | (ok) i where "i \<notin> open_files s" "i < NUM_FILES" "\<And>j. j < i \<Longrightarrow> j \<in> open_files s"
      "file_alloc s = Inr (i, s\<lparr>filetab := (filetab s)[i := blank_file]\<rparr>)"
proof (cases "find_from (\<lambda>i. i \<notin> open_files s) 0 NUM_FILES")
  case None
  then have "open_files s = {i. i < NUM_FILES}"
    using open_files_bound [OF assms] by (auto simp: find_from_None_iff)
  with None full show ?thesis using file_alloc_run [OF assms] by simp
next
  case (Some i)
  then show ?thesis using ok [of i] file_alloc_run [OF assms] find_from_Some [OF Some] by auto
qed

end
