(* ===== verification/Sky_Tar.thy ===== *)
theory Sky_Tar
  imports Sky_File
begin

text \<open>
  The read-only file system of the ramdisk (src/fs/tar.c). A header is the address of its 512-byte
  block; its fields are read from memory at the offsets of \<open>tar_header_t\<close>. The searches follow the
  archive until a header with an empty name, so they are partial functions: \<open>None\<close> is an archive
  without an end.

  \<open>tar_image m a fs\<close> says that memory holds the archive of the files \<open>fs\<close> at address \<open>a\<close>. Against
  it the searches are searches of the list.
\<close>

section \<open>src/fs/tar.c\<close>

definition TAR_BLOCKSIZE :: u64 where "TAR_BLOCKSIZE = 512"
definition TAR_SIZE_FIELD_LEN :: nat where "TAR_SIZE_FIELD_LEN = 11"

text \<open>Offsets of the fields of \<open>tar_header_t\<close> that are used.\<close>

definition tar_name :: "u64 \<Rightarrow> u64" where "tar_name h = h"
definition tar_size :: "u64 \<Rightarrow> u64" where "tar_size h = h + 124"

primrec stoul_octal_loop :: "nat \<Rightarrow> nat \<Rightarrow> csrc \<Rightarrow> memory \<Rightarrow> u64 \<Rightarrow> kerr + u64" where
  "stoul_octal_loop 0 i str m accumulator = Inr accumulator"
| "stoul_octal_loop (Suc n) i str m accumulator =
     (if \<not> (str m i \<ge> 0x30 \<and> str m i < 0x39) then Inl (Panic ''assert'')
      else stoul_octal_loop n (Suc i) str m (accumulator * 8 + (ucast (str m i) - 0x30)))"

definition stoul_octal :: "csrc \<Rightarrow> nat \<Rightarrow> memory \<Rightarrow> kerr + u64" where
  "stoul_octal str str_len m = stoul_octal_loop str_len 0 str m 0"

definition tar_filesize :: "u64 \<Rightarrow> memory \<Rightarrow> kerr + usize" where
  "tar_filesize h m = stoul_octal (ptr (tar_size h)) TAR_SIZE_FIELD_LEN m"

definition tar_num_blocks_for_file :: "u64 \<Rightarrow> memory \<Rightarrow> kerr + usize" where
  "tar_num_blocks_for_file h m =
     (case tar_filesize h m of
        Inl e \<Rightarrow> Inl e
      | Inr n \<Rightarrow> Inr (1 + ROUND_UP_POW2 n TAR_BLOCKSIZE div TAR_BLOCKSIZE))"

definition tar_to_next :: "u64 \<Rightarrow> memory \<Rightarrow> kerr + u64" where
  "tar_to_next h m =
     (case tar_num_blocks_for_file h m of
        Inl e \<Rightarrow> Inl e
      | Inr n \<Rightarrow> Inr (h + TAR_BLOCKSIZE * n))"

definition tar_is_valid :: "u64 \<Rightarrow> memory \<Rightarrow> bool" where
  "tar_is_valid h m \<longleftrightarrow> m (tar_name h) \<noteq> 0"

text \<open>The search loop of \<open>tar_open\<close>: the header whose name is \<open>path\<close>, if there is one.\<close>

partial_function (option) tar_find :: "csrc \<Rightarrow> memory \<Rightarrow> u64 \<Rightarrow> (kerr + u64 option) option" where
  "tar_find path m cursor =
     (if \<not> tar_is_valid cursor m then Some (Inr None)
      else (case strequal path (ptr (tar_name cursor)) m of
              None \<Rightarrow> None
            | Some found \<Rightarrow>
               if found then Some (Inr (Some cursor))
               else (case tar_to_next cursor m of
                       Inl e \<Rightarrow> Some (Inl e)
                     | Inr c \<Rightarrow> tar_find path m c)))"

definition tar_open :: "csrc \<Rightarrow> ('z fs_state_scheme, nat option) kop" where
  "tar_open path =
     kbind (kloop ''tar_open'' (\<lambda>s. tar_find path (mem s) (g_initrd s))) (\<lambda>r.
     kbind (klift r) (\<lambda>found.
       case found of
         Some cursor \<Rightarrow>
           kbind file_alloc (\<lambda>new_file.
           kseq (upd_file new_file (\<lambda>x. x\<lparr>f_ops := Some TarFs, f_inode := cursor, f_type := FILE_REGULAR\<rparr>))
           (kreturn (Some new_file)))
       | None \<Rightarrow>
           kbind (kloop ''tar_open'' (\<lambda>s. strequal (lit ''/'') path (mem s))) (\<lambda>is_root.
             if is_root then
               kbind file_alloc (\<lambda>new_file.
               kseq (upd_file new_file (\<lambda>x. x\<lparr>f_ops := Some TarFs, f_inode := 0,
                 f_type := FILE_DIRECTORY, f_pos := 0\<rparr>))
               (kreturn (Some new_file)))
             else kreturn None)))"

definition tar_read_raw :: "u64 \<Rightarrow> u64 \<Rightarrow> usize \<Rightarrow> usize \<Rightarrow> ('z fs_state_scheme, usize) kop" where
  "tar_read_raw header databuf len offset =
     kbind (kgets g_initrd) (\<lambda>initrd.
     kseq (kassert (header \<noteq> 0) ''assert'')
     (kseq (kassert (header \<ge> initrd) ''assert'')
     (kseq (kassert (header < initrd + MAX_INITRD_SIZE) ''assert'')
     (kbind (kgets (\<lambda>s. tar_filesize header (mem s))) (\<lambda>r.
     kbind (klift r) (\<lambda>file_size.
       let file_data = header + TAR_BLOCKSIZE in
       if 0 = file_size then kreturn 0
       else if offset > file_size then kreturn 0
       else
         (let bytes_to_read = min_u64 len (file_size - offset) in
          kseq (kwhen (0 \<noteq> bytes_to_read)
            (kmodify (\<lambda>s. s\<lparr>mem := memcpy databuf (file_data + offset) bytes_to_read (mem s)\<rparr>)))
          (kreturn bytes_to_read))))))))"

definition tar_read :: "nat \<Rightarrow> u64 \<Rightarrow> usize \<Rightarrow> ('z fs_state_scheme, usize) kop" where
  "tar_read file buf len =
     kbind (get_file file) (\<lambda>x.
       if f_type x \<noteq> FILE_REGULAR then kreturn 0
       else
         kbind (tar_read_raw (f_inode x) buf len (f_pos x)) (\<lambda>n.
         kseq (upd_file file (\<lambda>x. x\<lparr>f_pos := f_pos x + n\<rparr>))
         (kreturn n)))"

definition tar_read_at :: "nat \<Rightarrow> u64 \<Rightarrow> usize \<Rightarrow> usize \<Rightarrow> ('z fs_state_scheme, usize) kop" where
  "tar_read_at file databuf len offset =
     kbind (get_file file) (\<lambda>x. tar_read_raw (f_inode x) databuf len offset)"

text \<open>
  The loop of \<open>tar_getdents\<close>: the header number \<open>pos\<close>. An entry has the type byte at offset 0 and
  256 bytes of name behind it, 257 bytes in all.
\<close>

partial_function (option) tar_nth :: "memory \<Rightarrow> usize \<Rightarrow> usize \<Rightarrow> u64 \<Rightarrow> (kerr + u64 option) option" where
  "tar_nth m pos idx cursor =
     (if \<not> tar_is_valid cursor m then Some (Inr None)
      else if idx = pos then Some (Inr (Some cursor))
      else (case tar_to_next cursor m of
              Inl e \<Rightarrow> Some (Inl e)
            | Inr c \<Rightarrow> tar_nth m pos (idx + 1) c))"

definition dirent_size :: u64 where "dirent_size = 257"

definition tar_getdents :: "nat \<Rightarrow> u64 \<Rightarrow> ('z fs_state_scheme, usize) kop" where
  "tar_getdents file dent =
     kbind (get_file file) (\<lambda>x.
       if f_type x \<noteq> FILE_DIRECTORY then kreturn 0
       else
         kbind (kloop ''tar_getdents'' (\<lambda>s. tar_nth (mem s) (f_pos x) 0 (g_initrd s))) (\<lambda>r.
         kbind (klift r) (\<lambda>found.
           case found of
             Some cursor \<Rightarrow>
               kseq (kmodify (\<lambda>s. s\<lparr>mem := strncpy (dent + 1) (ptr (tar_name cursor)) MAX_PATHLEN (mem s)\<rparr>))
               (kseq (kmodify (\<lambda>s. s\<lparr>mem := (mem s)(dent := 1)\<rparr>))
               (kseq (upd_file file (\<lambda>x. x\<lparr>f_pos := f_pos x + 1\<rparr>))
               (kreturn dirent_size)))
           | None \<Rightarrow> kreturn 0)))"

definition tar_write :: "nat \<Rightarrow> csrc \<Rightarrow> usize \<Rightarrow> ('z fs_state_scheme, usize) kop" where
  "tar_write file data len = kpanic ''tar_write: this filesystem does not support modification''"

definition tar_dup :: "nat \<Rightarrow> ('z fs_state_scheme, nat option) kop" where
  "tar_dup file = kpanic ''tar_dup: not implemented''"

definition tar_close :: "nat \<Rightarrow> ('z fs_state_scheme, unit) kop" where
  "tar_close file = file_free file"

section \<open>Archives\<close>

type_synonym tfile = "u8 list \<times> u8 list"

text \<open>The size field: eleven octal digits, most significant first.\<close>

definition octal_field :: "csrc \<Rightarrow> memory \<Rightarrow> nat \<Rightarrow> nat \<Rightarrow> bool" where
  "octal_field str m k n \<longleftrightarrow> n < 8 ^ k \<and> (\<forall>j < k. str m j = 0x30 + of_nat (n div 8 ^ (k - 1 - j) mod 8))"

text \<open>The header and the data of one file at an address.\<close>

definition tar_entry :: "memory \<Rightarrow> u64 \<Rightarrow> tfile \<Rightarrow> bool" where
  "tar_entry m h f \<longleftrightarrow> fst f \<noteq> [] \<and> cstr (ptr h) m (fst f) \<and>
     octal_field (ptr (h + 124)) m 11 (length (snd f)) \<and>
     (\<forall>i < length (snd f). m (h + 512 + of_nat i) = snd f ! i)"

definition tar_blocks :: "tfile \<Rightarrow> nat" where
  "tar_blocks f = 1 + (length (snd f) + 511) div 512"

primrec tar_image :: "memory \<Rightarrow> u64 \<Rightarrow> tfile list \<Rightarrow> bool" where
  "tar_image m h [] \<longleftrightarrow> m h = 0"
| "tar_image m h (f # fs) \<longleftrightarrow> tar_entry m h f \<and> tar_image m (h + of_nat (512 * tar_blocks f)) fs"

text \<open>The headers of an archive, and the first one with a given name.\<close>

primrec tar_headers :: "u64 \<Rightarrow> tfile list \<Rightarrow> u64 list" where
  "tar_headers h [] = []"
| "tar_headers h (f # fs) = h # tar_headers (h + of_nat (512 * tar_blocks f)) fs"

primrec tar_lookup :: "u64 \<Rightarrow> tfile list \<Rightarrow> u8 list \<Rightarrow> u64 option" where
  "tar_lookup h [] p = None"
| "tar_lookup h (f # fs) p =
     (if fst f = p then Some h else tar_lookup (h + of_nat (512 * tar_blocks f)) fs p)"

lemma octal_digit:
  assumes "d < 8"
  shows "(0x30 + of_nat d :: u8) \<ge> 0x30" and "(0x30 + of_nat d :: u8) < 0x39"
    and "ucast (0x30 + of_nat d :: u8) - 0x30 = (of_nat d :: u64)"
proof -
  have "d \<in> {0, 1, 2, 3, 4, 5, 6, 7}" using assms by auto
  then show "(0x30 + of_nat d :: u8) \<ge> 0x30" and "(0x30 + of_nat d :: u8) < 0x39"
    and "ucast (0x30 + of_nat d :: u8) - 0x30 = (of_nat d :: u64)"
    by (elim insertE emptyE; simp)+
qed

lemma stoul_octal_loop_field:
  assumes "\<And>j. j < n \<Longrightarrow> str m (i + j) = 0x30 + of_nat (N div 8 ^ (n - 1 - j) mod 8)"
  shows "stoul_octal_loop n i str m (of_nat (N div 8 ^ n)) = Inr (of_nat N)"
  using assms
proof (induction n arbitrary: i)
  case 0
  then show ?case by simp
next
  case (Suc n)
  let ?d = "N div 8 ^ n mod 8"
  have c: "str m i = 0x30 + of_nat ?d" using Suc.prems [of 0] by simp
  have "N div 8 ^ Suc n * 8 + ?d = N div 8 ^ n"
    by (simp add: div_mult2_eq power_Suc2 del: power_Suc)
  then have acc: "of_nat (N div 8 ^ Suc n) * 8 + of_nat ?d = (of_nat (N div 8 ^ n) :: u64)"
    by (metis of_nat_add of_nat_mult of_nat_numeral)
  have "stoul_octal_loop n (Suc i) str m (of_nat (N div 8 ^ n)) = Inr (of_nat N)"
  proof (rule Suc.IH)
    fix j assume "j < n"
    then show "str m (Suc i + j) = 0x30 + of_nat (N div 8 ^ (n - 1 - j) mod 8)"
      using Suc.prems [of "Suc j"] by simp
  qed
  then show ?case
    using octal_digit [of ?d] by (simp add: c acc del: power_Suc)
qed

lemma tar_filesize_entry:
  assumes "tar_entry m h f"
  shows "tar_filesize h m = Inr (of_nat (length (snd f)))"
proof -
  have o: "octal_field (ptr (h + 124)) m 11 (length (snd f))" using assms by (simp add: tar_entry_def)
  have "stoul_octal_loop 11 0 (ptr (h + 124)) m (of_nat (length (snd f) div 8 ^ 11)) = Inr (of_nat (length (snd f)))"
    by (rule stoul_octal_loop_field) (use o in \<open>simp add: octal_field_def\<close>)
  moreover have "length (snd f) div 8 ^ 11 = 0" using o unfolding octal_field_def by simp
  ultimately show ?thesis
    by (simp add: tar_filesize_def stoul_octal_def tar_size_def TAR_SIZE_FIELD_LEN_def)
qed

lemma tar_entry_len: "tar_entry m h f \<Longrightarrow> length (snd f) < 2 ^ 33"
  by (simp add: tar_entry_def octal_field_def)

lemma tar_to_next_entry:
  assumes "tar_entry m h f"
  shows "tar_to_next h m = Inr (h + of_nat (512 * tar_blocks f))"
proof -
  let ?n = "length (snd f)"
  have n: "?n < 2 ^ 33" by (rule tar_entry_len [OF assms])
  have u: "unat (of_nat ?n :: u64) = ?n" by (rule unat_of_nat_64) (use n in simp)
  have "unat (ROUND_UP_POW2 (of_nat ?n) (2 ^ 9)) = (?n + 511) div 2 ^ 9 * 2 ^ 9"
    using round_up_unat [of 9 "of_nat ?n"] n u by simp
  then have "unat (ROUND_UP_POW2 (of_nat ?n) 512 div 512) = (?n + 511) div 512"
    by (simp add: unat_div)
  moreover have "unat (of_nat ((?n + 511) div 512) :: u64) = (?n + 511) div 512"
    by (rule unat_of_nat_64) (use n in simp)
  ultimately have "ROUND_UP_POW2 (of_nat ?n) 512 div 512 = of_nat ((?n + 511) div 512)"
    by (simp only: word_unat_eq_iff)
  then show ?thesis
    using tar_filesize_entry [OF assms]
    by (simp add: tar_to_next_def tar_num_blocks_for_file_def TAR_BLOCKSIZE_def tar_blocks_def algebra_simps)
qed

lemma tar_valid_entry: "tar_entry m h f \<Longrightarrow> tar_is_valid h m"
  by (cases "fst f") (auto simp: tar_entry_def tar_is_valid_def tar_name_def cstr_def ptr_def)

lemma strequal_cstr: "cstr a m xs \<Longrightarrow> cstr b m ys \<Longrightarrow> strequal a b m = Some (xs = ys)"
  by (simp add: strequal_def strequal_loop_cstr)

lemma tar_find_image:
  assumes "tar_image m h fs" and "cstr path m p"
  shows "tar_find path m h = Some (Inr (tar_lookup h fs p))"
  using assms(1)
proof (induction fs arbitrary: h)
  case Nil
  then show ?case by (simp add: tar_find.simps [of path m h] tar_is_valid_def tar_name_def)
next
  case (Cons f fs)
  then have e: "tar_entry m h f" by simp
  have "strequal path (ptr (tar_name h)) m = Some (p = fst f)"
    by (rule strequal_cstr [OF assms(2)]) (use e in \<open>simp add: tar_entry_def tar_name_def\<close>)
  then show ?case
    using Cons.IH [of "h + of_nat (512 * tar_blocks f)"] Cons.prems tar_valid_entry [OF e] tar_to_next_entry [OF e]
    by (simp add: tar_find.simps [of path m h])
qed

lemma tar_headers_len [simp]: "length (tar_headers h fs) = length fs"
  by (induction fs arbitrary: h) simp_all

lemma tar_nth_image:
  assumes "tar_image m h fs" and "unat idx + length fs < 2 ^ 64" and "k < 2 ^ 64 - length fs"
  shows "tar_nth m (idx + of_nat k) idx h =
    Some (Inr (if k < length fs then Some (tar_headers h fs ! k) else None))"
  using assms
proof (induction fs arbitrary: h idx k)
  case Nil
  then show ?case by (simp add: tar_nth.simps [of m _ idx h] tar_is_valid_def tar_name_def)
next
  case (Cons f fs)
  then have e: "tar_entry m h f" by simp
  note tn = tar_nth.simps [of m "idx + of_nat k" idx h]
  show ?case
  proof (cases k)
    case 0
    then show ?thesis using tar_valid_entry [OF e] tn by simp
  next
    case (Suc k')
    have "idx \<noteq> idx + of_nat k"
    proof
      assume "idx = idx + of_nat k"
      then have eq: "(of_nat k :: u64) = of_nat 0" by simp
      have "k < 2 ^ 64" using Cons.prems(3) by linarith
      then have "k = 0" using of_nat_inj_64 [of k 0] eq by simp
      then show False using Suc by simp
    qed
    moreover have "unat (idx + 1) = unat idx + 1"
      using Cons.prems(2) unat_add_of_nat [of idx 1] by simp
    then have "tar_nth m (idx + 1 + of_nat k') (idx + 1) (h + of_nat (512 * tar_blocks f)) =
      Some (Inr (if k' < length fs then Some (tar_headers (h + of_nat (512 * tar_blocks f)) fs ! k') else None))"
      by (intro Cons.IH) (use Cons.prems Suc in auto)
    moreover have "idx + of_nat k = idx + 1 + of_nat k'" by (simp add: Suc)
    ultimately show ?thesis
      unfolding tn using tar_valid_entry [OF e] tar_to_next_entry [OF e] Suc
      by (simp add: add.assoc)
  qed
qed

lemma tar_lookup_Some:
  "tar_lookup h fs p = Some a \<Longrightarrow>
    \<exists>i < length fs. a = tar_headers h fs ! i \<and> fst (fs ! i) = p \<and> (\<forall>j < i. fst (fs ! j) \<noteq> p)"
proof (induction fs arbitrary: h)
  case Nil
  then show ?case by simp
next
  case (Cons f fs)
  show ?case
  proof (cases "fst f = p")
    case True
    then show ?thesis using Cons.prems by (intro exI [of _ 0]) simp
  next
    case False
    then obtain i where "i < length fs" "a = tar_headers (h + of_nat (512 * tar_blocks f)) fs ! i"
      "fst (fs ! i) = p" "\<forall>j < i. fst (fs ! j) \<noteq> p" using Cons by auto
    then show ?thesis using False by (intro exI [of _ "Suc i"]) (auto simp: less_Suc_eq_0_disj)
  qed
qed

lemma tar_lookup_None: "tar_lookup h fs p = None \<longleftrightarrow> p \<notin> fst ` set fs"
  by (induction fs arbitrary: h) auto

lemma tar_image_nth:
  "tar_image m h fs \<Longrightarrow> i < length fs \<Longrightarrow> tar_entry m (tar_headers h fs ! i) (fs ! i)"
  by (induction fs arbitrary: h i) (auto simp: nth_Cons split: nat.splits)

section \<open>Operations on an archive\<close>

text \<open>What \<open>tar_open\<close> leaves in the table for the file whose header is at \<open>h\<close>, and for the root.\<close>

definition tar_regular :: "u64 \<Rightarrow> file_t" where
  "tar_regular h = blank_file\<lparr>f_ops := Some TarFs, f_inode := h, f_type := FILE_REGULAR\<rparr>"

definition tar_rootdir :: file_t where
  "tar_rootdir = blank_file\<lparr>f_ops := Some TarFs, f_type := FILE_DIRECTORY\<rparr>"

lemma tar_open_run:
  assumes img: "tar_image (mem s) (g_initrd s) fs" and p: "cstr path (mem s) p"
    and al: "file_alloc s = Inr (i, s\<lparr>filetab := (filetab s)[i := blank_file]\<rparr>)" and i: "i < length (filetab s)"
  shows "tar_open path s =
    (case tar_lookup (g_initrd s) fs p of
       Some h \<Rightarrow> Inr (Some i, s\<lparr>filetab := (filetab s)[i := tar_regular h]\<rparr>)
     | None \<Rightarrow> if p = [0x2F] then Inr (Some i, s\<lparr>filetab := (filetab s)[i := tar_rootdir]\<rparr>) else Inr (None, s))"
proof -
  have f: "tar_find path (mem s) (g_initrd s) = Some (Inr (tar_lookup (g_initrd s) fs p))"
    by (rule tar_find_image [OF img p])
  have "cstr (lit ''/'') (mem s) [0x2F]" using lit_cstr [of "''/''" "mem s"] by simp
  then have root: "strequal (lit ''/'') path (mem s) = Some (p = [0x2F])"
    using strequal_cstr [OF _ p] by auto
  show ?thesis
  proof (cases "tar_lookup (g_initrd s) fs p")
    case None
    then show ?thesis
      using f root al i
      by (simp add: tar_open_def kop_simps kloop_def upd_file_run tar_rootdir_def blank_file_def)
  next
    case (Some h)
    then show ?thesis
      using f al i by (simp add: tar_open_def kop_simps kloop_def upd_file_run tar_regular_def)
  qed
qed

lemma tar_read_raw_run:
  assumes e: "tar_entry (mem s) h f" and ini: "g_initrd s \<le> h" "h < g_initrd s + MAX_INITRD_SIZE" "h \<noteq> 0"
    and off: "offset \<le> of_nat (length (snd f))"
    and ok: "copy_ok buf (h + 512 + offset) (min_u64 len (of_nat (length (snd f)) - offset))"
  shows "tar_read_raw h buf len offset s =
    (let n = min (unat len) (length (snd f) - unat offset) in
     Inr (of_nat n, s\<lparr>mem := (\<lambda>a. if unat (a - buf) < n then snd f ! (unat offset + unat (a - buf)) else mem s a)\<rparr>))"
proof -
  let ?N = "length (snd f)"
  have N: "?N < 2 ^ 33" by (rule tar_entry_len [OF e])
  have uN: "unat (of_nat ?N :: u64) = ?N" by (rule unat_of_nat_64) (use N in simp)
  have uo: "unat offset \<le> ?N" using off uN by (simp add: word_le_nat_alt)
  define b where "b = min_u64 len (of_nat ?N - offset)"
  have ud: "unat (of_nat ?N - offset) = ?N - unat offset" using off uN by (simp add: unat_sub)
  have ub: "unat b = min (unat len) (?N - unat offset)"
    unfolding b_def min_u64_def using ud by (auto simp: word_less_nat_alt)
  have bn: "of_nat (min (unat len) (?N - unat offset)) = b" using ub [symmetric] by simp
  have data: "mem s (h + 512 + offset + (a - buf)) = snd f ! (unat offset + unat (a - buf))"
    if "unat (a - buf) < unat b" for a
  proof -
    have "unat offset + unat (a - buf) < ?N" using that uo unfolding ub by linarith
    then have "mem s (h + 512 + of_nat (unat offset + unat (a - buf))) = snd f ! (unat offset + unat (a - buf))"
      using e unfolding tar_entry_def by blast
    moreover have "of_nat (unat offset + unat (a - buf)) = offset + (a - buf)" by simp
    ultimately show ?thesis by (simp add: add.assoc)
  qed
  have copy: "memcpy buf (h + 512 + offset) b (mem s) =
      (\<lambda>a. if unat (a - buf) < unat b then snd f ! (unat offset + unat (a - buf)) else mem s a)"
    using memcpy_apply [of buf "h + 512 + offset" b "mem s"] ok data by (auto simp: b_def fun_eq_iff)
  have "tar_read_raw h buf len offset s =
      Inr (b, s\<lparr>mem := (\<lambda>a. if unat (a - buf) < unat b then snd f ! (unat offset + unat (a - buf)) else mem s a)\<rparr>)"
  proof (cases "b = 0")
    case True
    moreover have "\<not> (of_nat ?N :: u64) < offset" using off by simp
    ultimately show ?thesis
      using ini tar_filesize_entry [OF e] by (simp add: tar_read_raw_def kop_simps Let_def flip: b_def)
  next
    case False
    then have "unat b \<noteq> 0" by (simp add: unat_eq_0)
    then have "0 < ?N" using ub by (cases "snd f") auto
    then have "(of_nat ?N :: u64) \<noteq> 0" using uN by (metis unat_0 less_irrefl)
    moreover have "\<not> (of_nat ?N :: u64) < offset" using off by simp
    ultimately show ?thesis
      using ini tar_filesize_entry [OF e] False copy
      by (simp add: tar_read_raw_def kop_simps Let_def TAR_BLOCKSIZE_def flip: b_def)
  qed
  then show ?thesis using bn ub by (simp add: Let_def)
qed

lemma tar_read_run:
  assumes x: "filetab s ! i = x" "i < length (filetab s)" "f_type x = FILE_REGULAR"
    and e: "tar_entry (mem s) (f_inode x) f"
    and ini: "g_initrd s \<le> f_inode x" "f_inode x < g_initrd s + MAX_INITRD_SIZE" "f_inode x \<noteq> 0"
    and off: "f_pos x \<le> of_nat (length (snd f))"
    and ok: "copy_ok buf (f_inode x + 512 + f_pos x) (min_u64 len (of_nat (length (snd f)) - f_pos x))"
  shows "tar_read i buf len s =
    (let n = min (unat len) (length (snd f) - unat (f_pos x)) in
     Inr (of_nat n, s\<lparr>mem := (\<lambda>a. if unat (a - buf) < n then snd f ! (unat (f_pos x) + unat (a - buf)) else mem s a),
       filetab := (filetab s)[i := x\<lparr>f_pos := f_pos x + of_nat n\<rparr>]\<rparr>))"
  using x tar_read_raw_run [OF e ini off ok]
  by (simp add: tar_read_def get_file_run kop_simps Let_def upd_file_run)

section \<open>A concrete archive\<close>

text \<open>One file, \<open>a\<close> with the contents \<open>hi\<close>, at address 0x1000.\<close>

definition demo_image :: memory where
  "demo_image = (\<lambda>_. 0)(0x1000 := 0x61, 0x107C := 0x30, 0x107D := 0x30, 0x107E := 0x30, 0x107F := 0x30,
     0x1080 := 0x30, 0x1081 := 0x30, 0x1082 := 0x30, 0x1083 := 0x30, 0x1084 := 0x30, 0x1085 := 0x30, 0x1086 := 0x32,
     0x1200 := 0x68, 0x1201 := 0x69, 0x9000 := 0x61)"

definition demo_files :: "tfile list" where
  "demo_files = [([0x61], [0x68, 0x69])]"

definition tar_demo :: fs_state where
  "tar_demo = \<lparr>mem = demo_image, ints_on = False, small_kheap = small_kheap kheap_demo,
     large_kheap = large_kheap kheap_demo, pt_regs = [], filetab = replicate 1024 (blank_file\<lparr>f_valid := False\<rparr>),
     g_initrd = 0x1000, stdio_serial = None, stdio_display = [], is_gui_enabled = False\<rparr>"

lemma less_11_cases: "j < 11 \<longleftrightarrow> j = 0 \<or> j = 1 \<or> j = 2 \<or> j = 3 \<or> j = 4 \<or> j = 5 \<or> j = 6 \<or> j = 7 \<or> j = 8 \<or> j = 9 \<or> j = (10 :: nat)"
  by presburger

lemma demo_tar_image: "tar_image (mem tar_demo) (g_initrd tar_demo) demo_files"
proof -
  have digits: "ptr 0x107C demo_image j = 0x30 + of_nat (2 div 8 ^ (11 - 1 - j) mod 8)" if "j < 11" for j
    using that unfolding less_11_cases ptr_def by (elim disjE) (simp_all add: demo_image_def)
  have data: "demo_image (0x1200 + of_nat i) = [0x68, 0x69] ! i" if "i < 2" for i
    using that unfolding less_2_cases_iff by (elim disjE) (simp_all add: demo_image_def)
  have "octal_field (ptr 0x107C) demo_image 11 2" unfolding octal_field_def using digits by simp
  moreover have "cstr (ptr 0x1000) demo_image [0x61]" by (simp add: cstr_def ptr_def demo_image_def)
  ultimately have "tar_entry demo_image 0x1000 ([0x61], [0x68, 0x69])"
    using data by (simp add: tar_entry_def numeral_2_eq_2 [symmetric])
  then show ?thesis by (simp add: tar_demo_def demo_files_def tar_blocks_def demo_image_def)
qed

lemma tar_demo_files: "files_ok tar_demo" "open_files tar_demo = {}"
  by (simp_all add: files_ok_def open_files_def tar_demo_def NUM_FILES_def)

lemma tar_demo_path: "cstr (ptr 0x9000) (mem tar_demo) [0x61]"
  by (simp add: cstr_def ptr_def tar_demo_def demo_image_def)

section \<open>Properties\<close>

text \<open>C17: \<open>tar_open\<close> on an archive: with a free table entry it always returns; a path that names a file gets
  a new entry (the lowest free one, at position 0) for the first file of that name, \<open>/\<close> gets an
  entry for the directory, every other path gets NULL and changes nothing.\<close>

theorem tar_open_correct:
  assumes "files_ok s" and "open_files s \<noteq> {i. i < NUM_FILES}"
    and "tar_image (mem s) (g_initrd s) fs" and "cstr path (mem s) p"
  shows "runs (tar_open path) s (\<lambda>r s'.
    if p \<in> fst ` set fs then
      (\<exists>i k. r = Some i \<and> i \<notin> open_files s \<and> open_files s' = insert i (open_files s) \<and>
        k < length fs \<and> fst (fs ! k) = p \<and> (\<forall>j < k. fst (fs ! j) \<noteq> p) \<and>
        s' = s\<lparr>filetab := (filetab s)[i := tar_regular (tar_headers (g_initrd s) fs ! k)]\<rparr>)
    else if p = [0x2F] then
      (\<exists>i. r = Some i \<and> i \<notin> open_files s \<and> open_files s' = insert i (open_files s) \<and>
        s' = s\<lparr>filetab := (filetab s)[i := tar_rootdir]\<rparr>)
    else r = None \<and> s' = s)"
  using assms(1)
proof (cases rule: file_alloc_cases)
  case full
  then show ?thesis using assms(2) by simp
next
  case (ok i)
  have i: "i < length (filetab s)" using ok assms(1) by (simp add: files_ok_def)
  note run = tar_open_run [OF assms(3,4) ok(4) i]
  have opens: "open_files (s\<lparr>filetab := (filetab s)[i := tar_regular h]\<rparr>) = insert i (open_files s)"
    "open_files (s\<lparr>filetab := (filetab s)[i := tar_rootdir]\<rparr>) = insert i (open_files s)" for h
    using open_files_update [OF i] by (simp_all add: tar_regular_def tar_rootdir_def blank_file_def)
  show ?thesis
  proof (cases "tar_lookup (g_initrd s) fs p")
    case None
    then show ?thesis
      using run ok opens tar_lookup_None [of "g_initrd s" fs p] by (auto simp: runs_def)
  next
    case (Some h)
    moreover have "p \<in> fst ` set fs" using Some tar_lookup_None [of "g_initrd s" fs p] by auto
    ultimately show ?thesis
      using run ok opens tar_lookup_Some [OF Some] by (auto simp: runs_def)
  qed
qed

theorem tar_open_correct_witness:
  "tar_image (mem tar_demo) (g_initrd tar_demo) demo_files \<and>
   runs (tar_open (ptr 0x9000)) tar_demo (\<lambda>r s'. \<exists>i. r = Some i \<and> i \<in> open_files s')"
  by (rule conjI [OF demo_tar_image], rule runs_mono [OF tar_open_correct [OF tar_demo_files(1) _ demo_tar_image tar_demo_path]])
    (auto simp: tar_demo_files demo_files_def NUM_FILES_def intro: exI [of _ "0 :: nat"])

text \<open>C18: \<open>tar_read\<close> returns the next bytes of the file: for an open file of the archive at a position
  inside it, it copies the \<open>min len rest\<close> bytes that follow the position into the buffer, leaves all
  other memory alone, advances the position by that number and returns it; at the end it returns 0.\<close>

theorem tar_read_correct:
  assumes "i < length (filetab s)" and "f_type (filetab s ! i) = FILE_REGULAR"
    and "tar_entry (mem s) (f_inode (filetab s ! i)) f"
    and "g_initrd s \<le> f_inode (filetab s ! i)" and "f_inode (filetab s ! i) < g_initrd s + MAX_INITRD_SIZE"
    and "f_inode (filetab s ! i) \<noteq> 0"
    and "unat (f_pos (filetab s ! i)) \<le> length (snd f)"
    and "\<forall>n \<le> length (snd f). copy_ok buf (f_inode (filetab s ! i) + 512 + f_pos (filetab s ! i)) (of_nat n)"
  shows "runs (tar_read i buf len) s (\<lambda>r s'.
    unat r = min (unat len) (length (snd f) - unat (f_pos (filetab s ! i))) \<and>
    (\<forall>k < unat r. mem s' (buf + of_nat k) = snd f ! (unat (f_pos (filetab s ! i)) + k)) \<and>
    (\<forall>a. unat r \<le> unat (a - buf) \<longrightarrow> mem s' a = mem s a) \<and>
    unat (f_pos (filetab s' ! i)) = unat (f_pos (filetab s ! i)) + unat r \<and>
    (\<forall>j. j \<noteq> i \<longrightarrow> filetab s' ! j = filetab s ! j))"
proof -
  let ?x = "filetab s ! i" and ?N = "length (snd f)"
  let ?n = "min (unat len) (?N - unat (f_pos ?x))"
  have N: "?N < 2 ^ 33" by (rule tar_entry_len [OF assms(3)])
  have uN: "unat (of_nat ?N :: u64) = ?N" by (rule unat_of_nat_64) (use N in simp)
  have off: "f_pos ?x \<le> of_nat ?N" using assms(7) uN by (simp add: word_le_nat_alt)
  have n: "?n \<le> ?N" "?n < 2 ^ 64" using N by (auto simp: min_def)
  have un: "unat (of_nat ?n :: u64) = ?n" by (rule unat_of_nat_64 [OF n(2)])
  have "min_u64 len (of_nat ?N - f_pos ?x) = of_nat ?n"
    using un off uN by (auto simp: min_u64_def word_unat_eq_iff word_less_nat_alt unat_sub)
  then have ok: "copy_ok buf (f_inode ?x + 512 + f_pos ?x) (min_u64 len (of_nat ?N - f_pos ?x))"
    using assms(8) n(1) by simp
  note run = tar_read_run [OF refl assms(1,2,3,4,5,6) off ok, unfolded Let_def]
  have pos: "unat (f_pos ?x + of_nat ?n) = unat (f_pos ?x) + ?n"
    by (rule unat_add_of_nat) (use assms(7) N in \<open>auto simp: min_def\<close>)
  have buf: "unat (buf + of_nat k - buf) = k" if "k < ?n" for k
  proof -
    have "k < 2 ^ 64" using that n(2) by linarith
    then show ?thesis by (simp add: unat_of_nat_64)
  qed
  show ?thesis
  proof (rule runs_InrI [where m = "tar_read i buf len", OF run], unfold un, intro conjI allI impI)
    fix k assume k: "k < ?n"
    show "mem (s\<lparr>mem := \<lambda>a. if unat (a - buf) < ?n then snd f ! (unat (f_pos ?x) + unat (a - buf)) else mem s a,
        filetab := (filetab s)[i := ?x\<lparr>f_pos := f_pos ?x + of_nat ?n\<rparr>]\<rparr>) (buf + of_nat k) =
      snd f ! (unat (f_pos ?x) + k)"
      using buf [OF k] k by (simp del: min_less_iff_conj)
  next
    fix a assume "?n \<le> unat (a - buf)"
    then show "mem (s\<lparr>mem := \<lambda>a. if unat (a - buf) < ?n then snd f ! (unat (f_pos ?x) + unat (a - buf)) else mem s a,
        filetab := (filetab s)[i := ?x\<lparr>f_pos := f_pos ?x + of_nat ?n\<rparr>]\<rparr>) a = mem s a"
      by (simp del: min_less_iff_conj)
  qed (use pos assms(1) in simp_all)
qed

definition tar_demo_open :: fs_state where
  "tar_demo_open = tar_demo\<lparr>filetab := (filetab tar_demo)[0 := tar_regular 0x1000]\<rparr>"

theorem tar_read_correct_witness:
  "runs (tar_read 0 0x20000 10) tar_demo_open (\<lambda>r s'. unat r = 2 \<and> mem s' 0x20001 = 0x69)"
proof -
  have e: "tar_entry (mem tar_demo_open) 0x1000 ([0x61], [0x68, 0x69])"
    using demo_tar_image by (simp add: tar_demo_open_def demo_files_def tar_demo_def)
  have x: "filetab tar_demo_open ! 0 = tar_regular 0x1000" "0 < length (filetab tar_demo_open)"
    by (simp_all add: tar_demo_open_def tar_demo_def)
  have ok: "\<forall>n \<le> length (snd ([0x61 :: u8], [0x68, 0x69 :: u8])). copy_ok 0x20000 (0x1000 + 512 + 0) (of_nat n)"
    by (simp add: copy_ok_def unat_of_nat_64)
  have r: "f_type (tar_regular 0x1000) = FILE_REGULAR" "f_inode (tar_regular 0x1000) = 0x1000" "f_pos (tar_regular 0x1000) = 0"
    by (simp_all add: tar_regular_def blank_file_def)
  have ini: "g_initrd tar_demo_open = 0x1000" "MAX_INITRD_SIZE = 0x8000000"
    by (simp_all add: tar_demo_open_def tar_demo_def MAX_INITRD_SIZE_def size_consts)
  have lt: "0x1000 < 0x1000 + MAX_INITRD_SIZE" unfolding ini(2) by simp
  show ?thesis
  proof (rule runs_mono [OF tar_read_correct [where i = 0 and s = tar_demo_open and f = "([0x61], [0x68, 0x69])"]])
    fix r s' assume A: "unat r = min (unat (10 :: u64)) (length (snd ([0x61 :: u8], [0x68, 0x69 :: u8])) - unat (f_pos (filetab tar_demo_open ! 0))) \<and>
      (\<forall>k < unat r. mem s' (0x20000 + of_nat k) = snd ([0x61 :: u8], [0x68, 0x69]) ! (unat (f_pos (filetab tar_demo_open ! 0)) + k)) \<and>
      (\<forall>a. unat r \<le> unat (a - 0x20000) \<longrightarrow> mem s' a = mem tar_demo_open a) \<and>
      unat (f_pos (filetab s' ! 0)) = unat (f_pos (filetab tar_demo_open ! 0)) + unat r \<and>
      (\<forall>j. j \<noteq> 0 \<longrightarrow> filetab s' ! j = filetab tar_demo_open ! j)"
    then have r2: "unat r = 2" using x(1) \<open>f_pos _ = 0\<close> by simp
    with A have "mem s' (0x20000 + of_nat 1) = snd ([0x61 :: u8], [0x68, 0x69]) ! (unat (f_pos (filetab tar_demo_open ! 0)) + 1)"
      by (metis one_less_numeral_iff semiring_norm(76))
    with r2 x(1) \<open>f_pos _ = 0\<close> show "unat r = 2 \<and> mem s' 0x20001 = 0x69" by simp
  qed (use x e ok r ini(1) lt in simp_all)
qed

text \<open>Copying the name of a header into a directory entry elsewhere in memory.\<close>

lemma strncpy_name:
  assumes "cstr (ptr h) m nm" and "length nm < unat len"
    and out: "\<And>i. i \<le> length nm \<Longrightarrow> unat len \<le> unat (h + of_nat i - dst)"
  shows "strncpy dst (ptr h) len m a =
    (if unat (a - dst) \<le> length nm then (if unat (a - dst) < length nm then nm ! unat (a - dst) else 0) else m a)"
proof -
  have "strncpy_loop (unat len) 0 dst (ptr h) m a =
    (if 0 \<le> unat (a - dst) \<and> unat (a - dst) < 0 + unat len \<and> unat (a - dst) \<le> length nm
     then (if unat (a - dst) < length nm then nm ! unat (a - dst) else 0) else m a)"
  proof (rule strncpy_loop_cstr)
    show "cstr (ptr h) m' nm" if "\<And>a. unat len + 0 \<le> unat (a - dst) \<Longrightarrow> m' a = m a" for m'
      using assms(1) that out by (simp add: cstr_def ptr_def)
  qed (use unat_bound_64 [of len] in simp_all)
  then show ?thesis using assms(2) by (simp add: strncpy_def)
qed

text \<open>C19: \<open>tar_getdents\<close> lists the archive: on the open directory at position \<open>k\<close> it fills the caller's entry
  with the name of file \<open>k\<close> and the type of a regular file, steps to \<open>k + 1\<close> and returns the size of an
  entry, and after the last file it returns 0 and changes nothing.\<close>

theorem tar_getdents_correct:
  assumes "i < length (filetab s)" and "f_type (filetab s ! i) = FILE_DIRECTORY"
    and img: "tar_image (mem s) (g_initrd s) fs" and len: "length fs < 2 ^ 32"
    and k: "unat (f_pos (filetab s ! i)) = k" "k < 2 ^ 32"
    and room: "\<And>j. k < length fs \<Longrightarrow> j \<le> length (fst (fs ! k)) \<Longrightarrow>
      length (fst (fs ! k)) < 255 \<and> 255 \<le> unat (tar_headers (g_initrd s) fs ! k + of_nat j - (dent + 1))"
  shows "runs (tar_getdents i dent) s (\<lambda>r s'.
    if k < length fs then r = 257 \<and> mem s' dent = 1 \<and> cstr (ptr (dent + 1)) (mem s') (fst (fs ! k)) \<and>
      unat (f_pos (filetab s' ! i)) = k + 1 \<and> (\<forall>a. 257 \<le> unat (a - dent) \<longrightarrow> mem s' a = mem s a)
    else r = 0 \<and> s' = s)"
proof -
  have pos: "f_pos (filetab s ! i) = 0 + of_nat k" using k(1) by auto
  have nth: "tar_nth (mem s) (f_pos (filetab s ! i)) 0 (g_initrd s) =
      Some (Inr (if k < length fs then Some (tar_headers (g_initrd s) fs ! k) else None))"
    unfolding pos by (rule tar_nth_image [OF img]) (use len k(2) in auto)
  show ?thesis
  proof (cases "k < length fs")
    case False
    then show ?thesis
      using assms(1,2) nth by (simp add: tar_getdents_def runs_def kop_simps get_file_run kloop_def)
  next
    case True
    let ?h = "tar_headers (g_initrd s) fs ! k" and ?nm = "fst (fs ! k)"
    let ?m1 = "strncpy (dent + 1) (ptr ?h) MAX_PATHLEN (mem s)"
    let ?s' = "s\<lparr>mem := ?m1(dent := 1), filetab := (filetab s)[i := (filetab s ! i)\<lparr>f_pos := f_pos (filetab s ! i) + 1\<rparr>]\<rparr>"
    have run: "tar_getdents i dent s = Inr (257, ?s')"
      using assms(1,2) nth True
      by (simp add: tar_getdents_def kop_simps get_file_run kloop_def tar_name_def upd_file_run dirent_size_def)
    have m1: "?m1 a = (if unat (a - (dent + 1)) \<le> length ?nm
        then (if unat (a - (dent + 1)) < length ?nm then ?nm ! unat (a - (dent + 1)) else 0) else mem s a)" for a
      by (rule strncpy_name)
        (use tar_image_nth [OF img True] room [OF True] in \<open>auto simp: tar_entry_def MAX_PATHLEN_def\<close>)
    have nm: "length ?nm < 255" "?nm \<noteq> []" "\<And>j. j < length ?nm \<Longrightarrow> ?nm ! j \<noteq> 0"
      using room [OF True, of 0] tar_image_nth [OF img True] by (auto simp: tar_entry_def cstr_def)
    have ne: "dent + 1 + of_nat j \<noteq> dent" if "j < 256" for j
    proof
      assume "dent + 1 + of_nat j = dent"
      then have "(of_nat (Suc j) :: u64) = of_nat 0" by simp
      then show False using of_nat_inj_64 [of "Suc j" 0] that by simp
    qed
    have "cstr (ptr (dent + 1)) (mem ?s') ?nm"
      using nm ne m1 by (auto simp: cstr_def ptr_def unat_of_nat_64)
    moreover have "unat (f_pos (filetab s ! i) + 1) = k + 1"
      using unat_add_of_nat [of "f_pos (filetab s ! i)" 1] k by simp
    moreover have "mem ?s' a = mem s a" if far: "257 \<le> unat (a - dent)" for a
    proof -
      have "1 \<le> a - dent" using far by (simp add: word_le_nat_alt)
      then have "unat (a - dent - 1) = unat (a - dent) - unat (1 :: u64)" by (rule unat_sub)
      then have "\<not> unat (a - (dent + 1)) \<le> length ?nm" using nm(1) far by (simp add: diff_diff_eq)
      moreover have "a \<noteq> dent" using far by auto
      ultimately show ?thesis by (simp add: m1)
    qed
    ultimately show ?thesis using run True assms(1) by (auto simp: runs_def)
  qed
qed

theorem tar_getdents_correct_witness:
  "runs (tar_getdents 0 0x20000) (tar_demo\<lparr>filetab := (filetab tar_demo)[0 := tar_rootdir]\<rparr>)
    (\<lambda>r s'. r = 257 \<and> cstr (ptr 0x20001) (mem s') [0x61])"
proof -
  let ?s = "tar_demo\<lparr>filetab := (filetab tar_demo)[0 := tar_rootdir]\<rparr>"
  have x: "filetab ?s ! 0 = tar_rootdir" "0 < length (filetab ?s)" by (simp_all add: tar_demo_def)
  have room: "length (fst (demo_files ! 0)) < 255 \<and>
      255 \<le> unat (tar_headers (g_initrd ?s) demo_files ! 0 + of_nat j - (0x20000 + 1))"
    if "0 < length demo_files" "j \<le> length (fst (demo_files ! 0))" for j
  proof -
    have "j = 0 \<or> j = 1" using that by (auto simp: demo_files_def)
    then show ?thesis by (elim disjE) (simp_all add: demo_files_def tar_demo_def)
  qed
  show ?thesis
    by (rule runs_mono [OF tar_getdents_correct [where i = 0 and s = ?s and fs = demo_files and k = 0, OF x(2) _ _ _ _ _ room]])
      (use x demo_tar_image in \<open>simp_all add: tar_rootdir_def blank_file_def demo_files_def\<close>)
qed

end
