(* ===== verification/Sky_Stdio.thy ===== *)
theory Sky_Stdio
  imports Sky_Tar
begin

text \<open>
  Opening, sharing and closing files: the console devices (src/kernel/stdio.c) and the dispatch of
  src/kernel/file.c to the file system of a file. Reading and writing the console needs the
  terminals and is in \<open>Sky_Tty\<close>.
\<close>

section \<open>src/kernel/stdio.c\<close>

definition NUM_DISPLAYS :: nat where "NUM_DISPLAYS = 9"

definition FD_STDIN :: nat where "FD_STDIN = 0"
definition FD_STDOUT :: nat where "FD_STDOUT = 1"
definition FD_STDERR :: nat where "FD_STDERR = 2"

definition is_display_active :: "('z fs_state_scheme, bool) kop" where
  "is_display_active = kgets is_gui_enabled"

definition set_stdio_display :: "nat \<Rightarrow> nat option \<Rightarrow> ('z fs_state_scheme, unit) kop" where
  "set_stdio_display i f =
     kbind (kgets stdio_display) (\<lambda>ds.
       if i < length ds then kmodify (\<lambda>s. s\<lparr>stdio_display := (stdio_display s)[i := f]\<rparr>)
       else kfault ''stdio_display index'')"

definition init_stdio :: "('z fs_state_scheme, unit) kop" where
  "init_stdio =
     kbind file_alloc (\<lambda>f.
     kseq (kmodify (\<lambda>s. s\<lparr>stdio_serial := Some f\<rparr>))
     (kseq (upd_file f (\<lambda>x. x\<lparr>f_ops := Some StdioFs, f_type := FILE_CONSOLE, f_tty := Some SerialTty\<rparr>))
     (kbind is_display_active (\<lambda>active.
       if active then
         kfor [0..<NUM_DISPLAYS] (\<lambda>i.
           kbind file_alloc (\<lambda>f.
           kseq (set_stdio_display i (Some f))
           (upd_file f (\<lambda>x. x\<lparr>f_ops := Some StdioFs, f_type := FILE_CONSOLE, f_tty := Some (DisplayTty i)\<rparr>))))
       else kfor [0..<NUM_DISPLAYS] (\<lambda>i. set_stdio_display i None)))))"

definition DISPLAY_DEVICE_PREFIX :: string where "DISPLAY_DEVICE_PREFIX = ''/dev/display''"

definition find_display_file :: "csrc \<Rightarrow> ('z fs_state_scheme, nat option) kop" where
  "find_display_file path =
     kbind is_display_active (\<lambda>active.
       if \<not> active then kreturn None
       else
         kbind (kloop ''strprefix'' (\<lambda>s. strprefix path (lit DISPLAY_DEVICE_PREFIX) (mem s))) (\<lambda>b.
         kseq (kassert b ''assert'')
         (kbind (kgets (\<lambda>s. path (mem s) (length DISPLAY_DEVICE_PREFIX))) (\<lambda>display_num.
          let display_idx = (if 0 = display_num then 0 else ucast display_num - 0x30 :: usize) in
          kseq (kassert (display_idx < of_nat NUM_DISPLAYS) ''assert'')
          (kbind (kgets stdio_display) (\<lambda>ds.
            if unat display_idx < length ds then kreturn (ds ! unat display_idx)
            else kfault ''stdio_display index''))))))"

definition stdio_open :: "csrc \<Rightarrow> ('z fs_state_scheme, nat option) kop" where
  "stdio_open path =
     kbind (kloop ''strequal'' (\<lambda>s. strequal path (lit ''/dev/null'') (mem s))) (\<lambda>is_null.
       if is_null then kreturn None
       else
         kbind (kloop ''strequal'' (\<lambda>s. strequal path (lit ''/dev/serial'') (mem s))) (\<lambda>is_serial.
           if is_serial then kgets stdio_serial
           else
             kbind (kloop ''strprefix'' (\<lambda>s. strprefix path (lit ''/dev/display'') (mem s))) (\<lambda>is_disp.
               if is_disp then find_display_file path
               else kpanic ''stdio_open: unknown stdio device'')))"

definition stdio_getdents :: "nat \<Rightarrow> u64 \<Rightarrow> ('z fs_state_scheme, usize) kop" where
  "stdio_getdents file d = kreturn 0"

definition file_is_stdio :: "nat \<Rightarrow> 'z fs_state_scheme \<Rightarrow> bool" where
  "file_is_stdio file s \<longleftrightarrow> stdio_serial s = Some file \<or> Some file \<in> set (take NUM_DISPLAYS (stdio_display s))"

definition stdio_dup :: "nat \<Rightarrow> ('z fs_state_scheme, nat option) kop" where
  "stdio_dup file =
     kbind (kgets (file_is_stdio file)) (\<lambda>b.
     kseq (kassert b ''assert'') (kreturn (Some file)))"

definition stdio_close :: "nat \<Rightarrow> ('z fs_state_scheme, unit) kop" where
  "stdio_close file = kbind (kgets (file_is_stdio file)) (\<lambda>b. kassert b ''assert'')"

section \<open>Dispatch in src/kernel/file.c\<close>

definition file_open :: "csrc \<Rightarrow> ('z fs_state_scheme, nat option) kop" where
  "file_open path =
     kbind (kloop ''strequal'' (\<lambda>s. strequal path (lit ''/dev/panic1'') (mem s))) (\<lambda>p1.
     kseq (if p1 then kfault ''write to 0xDEADC0DE'' else kreturn ())
     (kbind (kloop ''strequal'' (\<lambda>s. strequal path (lit ''/dev/panic2'') (mem s))) (\<lambda>p2.
     kseq (if p2 then kpanic ''assert'' else kreturn ())
     (kbind (kloop ''strprefix'' (\<lambda>s. strprefix path (lit ''/dev/'') (mem s))) (\<lambda>dev.
       if dev then stdio_open path else tar_open path)))))"

definition file_fs :: "nat \<Rightarrow> ('z fs_state_scheme, filesys) kop" where
  "file_fs f = kbind (get_file f) (\<lambda>x. case f_ops x of None \<Rightarrow> kfault ''file: NULL ops'' | Some fs \<Rightarrow> kreturn fs)"

definition file_getdents :: "nat \<Rightarrow> u64 \<Rightarrow> ('z fs_state_scheme, usize) kop" where
  "file_getdents f d = kbind (file_fs f) (\<lambda>fs.
     case fs of TarFs \<Rightarrow> tar_getdents f d | StdioFs \<Rightarrow> stdio_getdents f d)"

definition file_dup :: "nat \<Rightarrow> ('z fs_state_scheme, nat option) kop" where
  "file_dup f = kbind (file_fs f) (\<lambda>fs. case fs of TarFs \<Rightarrow> tar_dup f | StdioFs \<Rightarrow> stdio_dup f)"

definition file_close :: "nat \<Rightarrow> ('z fs_state_scheme, unit) kop" where
  "file_close f = kbind (file_fs f) (\<lambda>fs. case fs of TarFs \<Rightarrow> tar_close f | StdioFs \<Rightarrow> stdio_close f)"

section \<open>The invariant of the file layer\<close>

definition stdio_files :: "'z fs_state_scheme \<Rightarrow> nat set" where
  "stdio_files s = {f. file_is_stdio f s}"

text \<open>Every open file belongs to a file system; the console files are exactly those of \<open>StdioFs\<close>.\<close>

definition fs_inv :: "'z fs_state_scheme \<Rightarrow> bool" where
  "fs_inv s \<longleftrightarrow> files_ok s \<and> length (stdio_display s) = NUM_DISPLAYS \<and> stdio_files s \<subseteq> open_files s \<and>
     (\<forall>f \<in> open_files s. f_ops (filetab s ! f) \<noteq> None \<and>
       (f_ops (filetab s ! f) = Some StdioFs \<longleftrightarrow> f \<in> stdio_files s))"

text \<open>What \<open>file_close\<close> relies on for the file system of a file, and what follows for every client.\<close>

locale filesystem =
  fixes fs :: filesys
    and close :: "nat \<Rightarrow> ('z fs_state_scheme, unit) kop"
    and keeps :: bool
  assumes close_own: "fs_inv s \<Longrightarrow> f \<in> open_files s \<Longrightarrow> f_ops (filetab s ! f) = Some fs \<Longrightarrow>
    \<exists>x. close f s = Inr ((), s\<lparr>filetab := (filetab s)[f := x]\<rparr>) \<and> (if keeps then x = filetab s ! f else \<not> f_valid x)"
begin

lemma close_runs:
  assumes inv: "fs_inv s" and f: "f \<in> open_files s" "f_ops (filetab s ! f) = Some fs"
    and stdio: "keeps \<longleftrightarrow> fs = StdioFs"
  shows "runs (close f) s (\<lambda>_ s'. fs_inv s' \<and> open_files s' = (if keeps then open_files s else open_files s - {f}) \<and>
    (\<forall>j. j \<noteq> f \<longrightarrow> filetab s' ! j = filetab s ! j))"
proof -
  obtain x where x: "close f s = Inr ((), s\<lparr>filetab := (filetab s)[f := x]\<rparr>)"
    "if keeps then x = filetab s ! f else \<not> f_valid x"
    using close_own [OF inv f] by blast
  have lt: "f < length (filetab s)" using f(1) by (simp add: open_files_def)
  have same: "stdio_files (s\<lparr>filetab := t\<rparr>) = stdio_files s" for t by (simp add: stdio_files_def file_is_stdio_def)
  show ?thesis
  proof (cases keeps)
    case True
    then have "s\<lparr>filetab := (filetab s)[f := x]\<rparr> = s" using x(2) lt by simp
    then show ?thesis using x(1) inv True by (simp add: runs_def)
  next
    case False
    then have o: "open_files (s\<lparr>filetab := (filetab s)[f := x]\<rparr>) = open_files s - {f}"
      using open_files_update [OF lt] x(2) by simp
    have "f \<notin> stdio_files s" using inv f False stdio by (auto simp: fs_inv_def)
    then have "fs_inv (s\<lparr>filetab := (filetab s)[f := x]\<rparr>)"
      using inv unfolding fs_inv_def o same by (auto simp: files_ok_def nth_list_update)
    then show ?thesis using x(1) o False by (simp add: runs_def)
  qed
qed

end

interpretation tarfs: filesystem TarFs tar_close False
proof
  fix s :: "'z fs_state_scheme" and f assume "fs_inv s" "f \<in> open_files s"
  then show "\<exists>x. tar_close f s = Inr ((), s\<lparr>filetab := (filetab s)[f := x]\<rparr>) \<and> (if False then x = filetab s ! f else \<not> f_valid x)"
    by (intro exI [of _ "(filetab s ! f)\<lparr>f_valid := False, f_inode := 0, f_ops := None\<rparr>"]) (simp add: tar_close_def file_free_def upd_file_run open_files_def)
qed

interpretation stdiofs: filesystem StdioFs stdio_close True
proof
  fix s :: "'z fs_state_scheme" and f
  assume "fs_inv s" "f \<in> open_files s" "f_ops (filetab s ! f) = Some StdioFs"
  then have "file_is_stdio f s" "f < length (filetab s)" by (auto simp: fs_inv_def stdio_files_def open_files_def)
  then show "\<exists>x. stdio_close f s = Inr ((), s\<lparr>filetab := (filetab s)[f := x]\<rparr>) \<and> (if True then x = filetab s ! f else \<not> f_valid x)"
    by (intro exI [of _ "filetab s ! f"]) (simp add: stdio_close_def kop_simps)
qed

lemma file_close_runs:
  assumes inv: "fs_inv s" and f: "f \<in> open_files s"
  shows "runs (file_close f) s (\<lambda>_ s'. fs_inv s' \<and>
    open_files s' = (if f \<in> stdio_files s then open_files s else open_files s - {f}) \<and>
    (\<forall>j. j \<noteq> f \<longrightarrow> filetab s' ! j = filetab s ! j))"
proof -
  have lt: "f < length (filetab s)" using f by (simp add: open_files_def)
  obtain fs where fs: "f_ops (filetab s ! f) = Some fs" using inv f by (auto simp: fs_inv_def)
  have "f \<in> stdio_files s \<longleftrightarrow> fs = StdioFs" using inv f fs by (auto simp: fs_inv_def)
  moreover have "file_close f s = (case fs of TarFs \<Rightarrow> tar_close f | StdioFs \<Rightarrow> stdio_close f) s"
    by (simp add: file_close_def file_fs_def kop_simps get_file_run lt fs)
  ultimately show ?thesis
    using tarfs.close_runs [OF inv f] stdiofs.close_runs [OF inv f] fs
    by (cases fs) (auto simp: runs_def)
qed

section \<open>Opening and starting up\<close>

definition stdio_demo :: fs_state where
  "stdio_demo = tar_demo\<lparr>filetab := (filetab tar_demo)[0 := tar_regular 0x1000, 1 := (tar_regular 0)\<lparr>f_ops := Some StdioFs\<rparr>],
     stdio_serial := Some 1, stdio_display := replicate 9 None\<rparr>"

lemma stdio_demo_inv: "fs_inv stdio_demo" "open_files stdio_demo = {0, 1}" "stdio_files stdio_demo = {1}"
proof -
  show op: "open_files stdio_demo = {0, 1}"
    by (auto simp: open_files_def stdio_demo_def tar_demo_def nth_list_update tar_regular_def blank_file_def)
  show sf: "stdio_files stdio_demo = {1}"
    by (auto simp: stdio_files_def file_is_stdio_def stdio_demo_def)
  show "fs_inv stdio_demo"
    unfolding fs_inv_def op sf
    by (simp add: stdio_demo_def tar_demo_def files_ok_def NUM_FILES_def NUM_DISPLAYS_def tar_regular_def blank_file_def)
qed

lemma strprefix_cstr:
  assumes "cstr s m xs" and "cstr p m ps" and "length ps < 2 ^ 64"
  shows "strprefix s p m = Some (take (length ps) xs = ps)"
proof -
  have "memequal p s (of_nat (length ps)) m \<longleftrightarrow> (\<forall>j < length ps. p m j = s m j)"
    using assms(3) by (simp add: memequal_iff unat_of_nat_64)
  also have "\<dots> \<longleftrightarrow> take (length ps) xs = ps"
  proof
    assume eq: "\<forall>j < length ps. p m j = s m j"
    have "\<not> length xs < length ps"
    proof
      assume lt: "length xs < length ps"
      then have "ps ! length xs = 0" using eq cstr_nth [OF assms(2) lt] cstr_end [OF assms(1)] by simp
      then show False using cstr_nth [OF assms(2) lt] by simp
    qed
    then show "take (length ps) xs = ps"
      using eq cstr_nth [OF assms(1)] cstr_nth [OF assms(2)] by (intro nth_equalityI) auto
  next
    assume eq: "take (length ps) xs = ps"
    then have le: "length ps \<le> length xs" by (metis length_take min.cobounded1)
    show "\<forall>j < length ps. p m j = s m j"
    proof (intro allI impI)
      fix j assume j: "j < length ps"
      then have "ps ! j = xs ! j" using eq by (metis nth_take)
      then show "p m j = s m j" using j le cstr_nth [OF assms(1), of j] cstr_nth [OF assms(2) j] by simp
    qed
  qed
  finally show ?thesis by (simp add: strprefix_def strlen_cstr [OF assms(2)])
qed

definition bytes :: "string \<Rightarrow> u8 list" where "bytes s = map of_char s"

lemma dev_lits: "CHR 0x00 \<notin> set str \<Longrightarrow> cstr (lit str) m (bytes str)"
  by (simp add: bytes_def lit_cstr)

lemma find_display_file_run:
  assumes "cstr path (mem s) (bytes ''/dev/display'' @ rest)" and "length (stdio_display s) = NUM_DISPLAYS"
  shows "find_display_file path s =
    (if \<not> is_gui_enabled s then Inr (None, s)
     else if rest = [] then Inr (stdio_display s ! 0, s)
     else if 0x30 \<le> hd rest \<and> hd rest < 0x39 then Inr (stdio_display s ! unat (hd rest - 0x30), s)
     else Inl (Panic ''assert''))"
proof -
  have pre: "strprefix path (lit DISPLAY_DEVICE_PREFIX) (mem s) = Some True"
    using strprefix_cstr [OF assms(1) dev_lits [of "''/dev/display''"]]
    by (simp add: DISPLAY_DEVICE_PREFIX_def bytes_def)
  have len: "length DISPLAY_DEVICE_PREFIX = 12" "length (bytes ''/dev/display'') = 12"
    by (simp_all add: DISPLAY_DEVICE_PREFIX_def bytes_def)
  have ch: "path (mem s) 12 = (if rest = [] then 0 else hd rest)" "rest \<noteq> [] \<Longrightarrow> hd rest \<noteq> 0"
    using cstr_end [OF assms(1)] cstr_nth [OF assms(1), of 12] len(2)
    by (auto simp: nth_append hd_conv_nth)
  have le: "(ucast c :: u64) - 0x30 < of_nat NUM_DISPLAYS \<longleftrightarrow> 0x30 \<le> c \<and> c < 0x39"
    and idx: "0x30 \<le> c \<Longrightarrow> unat ((ucast c :: u64) - 0x30) = unat (c - 0x30)" for c :: u8
  proof -
    have b: "unat c < 256" using unsigned_less [of c, where ?'a = nat] by simp
    then have u: "unat (ucast c :: u64) = unat c" "unat c < 256"
      by (simp_all add: unsigned_ucast_eq take_bit_nat_eq_self)
    have "unat ((ucast c :: u64) - 0x30) = (if 0x30 \<le> unat c then unat c - 0x30 else unat c + 2 ^ 64 - 0x30)"
      using u by (simp add: unat_sub_if' unat_word_ariths)
    then show "(ucast c :: u64) - 0x30 < of_nat NUM_DISPLAYS \<longleftrightarrow> 0x30 \<le> c \<and> c < 0x39"
      using u by (auto simp: word_less_nat_alt word_le_nat_alt NUM_DISPLAYS_def)
    show "unat ((ucast c :: u64) - 0x30) = unat (c - 0x30)" if "0x30 \<le> c"
      using that u \<open>unat ((ucast c :: u64) - 0x30) = _\<close> by (simp add: word_le_nat_alt unat_sub)
  qed
  have bound: "0x30 \<le> c \<Longrightarrow> c < 0x39 \<Longrightarrow> unat (c - 0x30) < NUM_DISPLAYS" for c :: u8
    by (simp add: unat_sub word_less_nat_alt word_le_nat_alt NUM_DISPLAYS_def)
  show ?thesis
  proof (cases "rest = []")
    case True
    then show ?thesis
      using pre ch assms(2) by (auto simp: find_display_file_def is_display_active_def kop_simps kloop_def Let_def len NUM_DISPLAYS_def)
  next
    case False
    then show ?thesis
      using pre ch assms(2) bound le idx
      by (simp add: find_display_file_def is_display_active_def kop_simps kloop_def Let_def len)
  qed
qed

lemma file_open_run:
  assumes path: "cstr path (mem s) xs" and "length (stdio_display s) = NUM_DISPLAYS"
  shows "file_open path s =
    (if xs = bytes ''/dev/panic1'' then Inl (Fault ''write to 0xDEADC0DE'')
     else if take 5 xs \<noteq> bytes ''/dev/'' then tar_open path s
     else if xs = bytes ''/dev/null'' then Inr (None, s)
     else if xs = bytes ''/dev/serial'' then Inr (stdio_serial s, s)
     else if take 12 xs = bytes ''/dev/display'' \<and> \<not> is_gui_enabled s then Inr (None, s)
     else if xs = bytes ''/dev/display'' then Inr (stdio_display s ! 0, s)
     else if take 12 xs = bytes ''/dev/display'' \<and> 0x30 \<le> xs ! 12 \<and> xs ! 12 < 0x39
     then Inr (stdio_display s ! unat (xs ! 12 - 0x30), s)
     else Inl (Panic (if take 12 xs = bytes ''/dev/display'' \<or> xs = bytes ''/dev/panic2'' then ''assert''
       else ''stdio_open: unknown stdio device'')))"
proof -
  note L = dev_lits [where m = "mem s"]
  have eq: "strequal path (lit str) (mem s) = Some (xs = bytes str)" if "CHR 0x00 \<notin> set str" for str
    by (rule strequal_cstr [OF path L [OF that]])
  have pre: "strprefix path (lit str) (mem s) = Some (take n xs = bytes str)"
    if "CHR 0x00 \<notin> set str" "length str = n" "n < 100" for str n
    using strprefix_cstr [OF path L [OF that(1)]] that(2,3) by (simp add: bytes_def)
  have pre5: "strprefix path (lit ''/dev/'') (mem s) = Some (take 5 xs = bytes ''/dev/'')"
    and pre12: "strprefix path (lit ''/dev/display'') (mem s) = Some (take 12 xs = bytes ''/dev/display'')"
    by (rule pre; simp)+
  have p2: "take 5 (bytes ''/dev/panic2'') = bytes ''/dev/''" "take 12 (bytes ''/dev/panic2'') \<noteq> bytes ''/dev/display''"
    "bytes ''/dev/panic2'' \<noteq> bytes ''/dev/panic1''" "bytes ''/dev/panic2'' \<noteq> bytes ''/dev/null''"
    "bytes ''/dev/panic2'' \<noteq> bytes ''/dev/serial''" "bytes ''/dev/panic2'' \<noteq> bytes ''/dev/display''"
    by (simp_all add: bytes_def)
  have dsp: "find_display_file path s =
      (if \<not> is_gui_enabled s then Inr (None, s)
       else if xs = bytes ''/dev/display'' then Inr (stdio_display s ! 0, s)
       else if 0x30 \<le> xs ! 12 \<and> xs ! 12 < 0x39 then Inr (stdio_display s ! unat (xs ! 12 - 0x30), s)
       else Inl (Panic ''assert''))" if t: "take 12 xs = bytes ''/dev/display''"
  proof -
    have xs: "xs = bytes ''/dev/display'' @ drop 12 xs" using t by (metis append_take_drop_id)
    then have "hd (drop 12 xs) = xs ! 12" if "drop 12 xs \<noteq> []" using that by (simp add: hd_drop_conv_nth)
    moreover have "drop 12 xs = [] \<longleftrightarrow> xs = bytes ''/dev/display''" using xs by (metis append_Nil2 append_self_conv)
    ultimately show ?thesis
      using find_display_file_run [of path s "drop 12 xs"] path xs assms(2) by auto
  qed
  have std: "stdio_open path s =
      (if xs = bytes ''/dev/null'' then Inr (None, s) else if xs = bytes ''/dev/serial'' then Inr (stdio_serial s, s)
       else if take 12 xs = bytes ''/dev/display'' then find_display_file path s
       else Inl (Panic ''stdio_open: unknown stdio device''))"
    by (simp add: stdio_open_def kbind_def kloop_def eq pre12 kgets_run kreturn_run kpanic_run)
  have run: "file_open path s =
      (if xs = bytes ''/dev/panic1'' then Inl (Fault ''write to 0xDEADC0DE'')
       else if xs = bytes ''/dev/panic2'' then Inl (Panic ''assert'')
       else if take 5 xs = bytes ''/dev/'' then stdio_open path s else tar_open path s)"
    by (simp add: file_open_def kbind_def kseq_def kloop_def eq pre5 kreturn_run kpanic_run kfault_run)
  show ?thesis
  proof (cases "xs = bytes ''/dev/panic2''")
    case True
    then show ?thesis unfolding run using p2 by simp
  next
    case False
    show ?thesis
    proof (cases "take 12 xs = bytes ''/dev/display''")
      case True
      show ?thesis
        by (cases "take 5 xs = bytes ''/dev/''")
          (simp_all only: run std dsp [OF True] False True if_True if_False simp_thms)
    next
      case disp: False
      then have "xs \<noteq> bytes ''/dev/display''" by (auto simp: bytes_def)
      with disp show ?thesis
        by (cases "take 5 xs = bytes ''/dev/''")
          (simp_all only: run std False if_True if_False simp_thms)
    qed
  qed
qed

text \<open>C21: The whole dispatch of \<open>file_open\<close> on a path: a name that does not start with \<open>/dev/\<close> goes to
  the ramdisk; the null device gives no file, the serial and display devices give the shared console
  files; and every other name under \<open>/dev/\<close>, as well as a display number that does not exist, stops
  the kernel with a panic, although the path comes from a system call.\<close>

theorem file_open_dispatch:
  assumes path: "cstr path (mem s) xs" and "length (stdio_display s) = NUM_DISPLAYS"
  shows "file_open path s =
    (if xs = bytes ''/dev/panic1'' then Inl (Fault ''write to 0xDEADC0DE'')
     else if take 5 xs \<noteq> bytes ''/dev/'' then tar_open path s
     else if xs = bytes ''/dev/null'' then Inr (None, s)
     else if xs = bytes ''/dev/serial'' then Inr (stdio_serial s, s)
     else if take 12 xs = bytes ''/dev/display'' \<and> \<not> is_gui_enabled s then Inr (None, s)
     else if xs = bytes ''/dev/display'' then Inr (stdio_display s ! 0, s)
     else if take 12 xs = bytes ''/dev/display'' \<and> 0x30 \<le> xs ! 12 \<and> xs ! 12 < 0x39
     then Inr (stdio_display s ! unat (xs ! 12 - 0x30), s)
     else Inl (Panic (if take 12 xs = bytes ''/dev/display'' \<or> xs = bytes ''/dev/panic2'' then ''assert''
       else ''stdio_open: unknown stdio device'')))"
  by (rule file_open_run [OF assms])

theorem file_open_dispatch_witness:
  "file_open (lit ''/dev/tty'') (tar_demo\<lparr>stdio_display := replicate 9 None\<rparr>) =
     Inl (Panic ''stdio_open: unknown stdio device'')"
proof -
  let ?s = "tar_demo\<lparr>stdio_display := replicate 9 None\<rparr>"
  have c: "cstr (lit ''/dev/tty'') (mem ?s) (bytes ''/dev/tty'')" by (rule dev_lits) simp
  have l: "length (stdio_display ?s) = NUM_DISPLAYS" by (simp add: NUM_DISPLAYS_def)
  show ?thesis unfolding file_open_dispatch [OF c l] by (simp add: bytes_def)
qed

text \<open>The console file of a terminal, and the loop that opens one per display.\<close>

definition console_file :: "tty_ref \<Rightarrow> file_t" where
  "console_file t = blank_file\<lparr>f_ops := Some StdioFs, f_type := FILE_CONSOLE, f_tty := Some t\<rparr>"

lemma file_alloc_first:
  assumes "files_ok s" and "open_files s = {j. j < i}" and "i < NUM_FILES"
  shows "file_alloc s = Inr (i, s\<lparr>filetab := (filetab s)[i := blank_file]\<rparr>)"
proof (rule file_alloc_cases [OF assms(1)])
  assume "open_files s = {i. i < NUM_FILES}"
  then show ?thesis using assms(2,3) by (metis less_irrefl mem_Collect_eq)
next
  fix k assume k: "k \<notin> open_files s" "\<And>j. j < k \<Longrightarrow> j \<in> open_files s"
    "file_alloc s = Inr (k, s\<lparr>filetab := (filetab s)[k := blank_file]\<rparr>)"
  then have "k = i" using assms(2) by (metis less_irrefl linorder_neqE_nat mem_Collect_eq)
  with k show ?thesis by simp
qed

lemma open_files_stdio [simp]:
  "open_files (s\<lparr>stdio_display := d\<rparr>) = open_files s" "open_files (s\<lparr>stdio_serial := f\<rparr>) = open_files s"
  by (simp_all add: open_files_def)

definition stdio_setup :: "'z fs_state_scheme \<Rightarrow> nat \<Rightarrow> nat \<Rightarrow> 'z fs_state_scheme \<Rightarrow> bool" where
  "stdio_setup s i n t \<longleftrightarrow> files_ok t \<and> open_files t = {j. j < n} \<and> length (stdio_display t) = NUM_DISPLAYS \<and>
     stdio_serial t = Some 0 \<and> filetab t ! 0 = console_file SerialTty \<and> is_gui_enabled t = is_gui_enabled s \<and>
     (\<forall>j < i. if is_gui_enabled s then stdio_display t ! j = Some (j + 1) \<and> filetab t ! (j + 1) = console_file (DisplayTty j)
        else stdio_display t ! j = None)"

lemma stdio_setup_alloc:
  assumes "stdio_setup s i (i + 1) t" and "i < NUM_DISPLAYS" and "is_gui_enabled s"
  shows "runs (kbind file_alloc (\<lambda>f. kseq (set_stdio_display i (Some f))
      (upd_file f (\<lambda>x. x\<lparr>f_ops := Some StdioFs, f_type := FILE_CONSOLE, f_tty := Some (DisplayTty i)\<rparr>)))) t
    (\<lambda>_ t'. stdio_setup s (Suc i) (Suc i + 1) t')"
proof -
  have i: "i + 1 < NUM_FILES" using assms(2) by (simp add: NUM_DISPLAYS_def NUM_FILES_def)
  have t: "files_ok t" "open_files t = {j. j < i + 1}" "length (stdio_display t) = NUM_DISPLAYS"
    "length (filetab t) = NUM_FILES"
    using assms(1) by (simp_all add: stdio_setup_def files_ok_def)
  let ?t = "t\<lparr>stdio_display := (stdio_display t)[i := Some (i + 1)], filetab := (filetab t)[i + 1 := console_file (DisplayTty i)]\<rparr>"
  have op: "open_files ?t = {j. j < Suc i + 1}"
  proof -
    have "open_files ?t = insert (i + 1) (open_files t)"
      using open_files_update [of "i + 1" "t\<lparr>stdio_display := (stdio_display t)[i := Some (i + 1)]\<rparr>" "console_file (DisplayTty i)"] i t(4)
      by (simp add: console_file_def blank_file_def)
    also have "\<dots> = {j. j < Suc i + 1}" unfolding t(2) by auto
    finally show ?thesis .
  qed
  have "stdio_setup s (Suc i) (Suc i + 1) ?t"
    unfolding stdio_setup_def op
    using assms t i by (auto simp: stdio_setup_def files_ok_def nth_list_update less_Suc_eq)
  then show ?thesis
    using assms(2) i t
    by (simp add: file_alloc_first [OF t(1,2) i] runs_def kop_simps set_stdio_display_def upd_file_run console_file_def)
qed

lemma stdio_setup_none:
  assumes "stdio_setup s i 1 t" and "i < NUM_DISPLAYS" and "\<not> is_gui_enabled s"
  shows "runs (set_stdio_display i None) t (\<lambda>_ t'. stdio_setup s (Suc i) 1 t')"
proof -
  have len: "length (stdio_display t) = NUM_DISPLAYS" using assms(1) by (simp add: stdio_setup_def)
  have "stdio_setup s (Suc i) 1 (t\<lparr>stdio_display := (stdio_display t)[i := None]\<rparr>)"
    using assms by (auto simp: stdio_setup_def files_ok_def nth_list_update less_Suc_eq)
  then show ?thesis
    using assms(2) len by (simp add: set_stdio_display_def runs_def kop_simps)
qed

text \<open>C20: Setting up the console on an empty file table succeeds and establishes the invariant of the
  file layer: entry 0 is the serial console, and when there is a display, entries 1 to 9 are the
  consoles of the displays 0 to 8, each bound to its own terminal; without one no display has a file.\<close>

theorem init_stdio_correct:
  assumes "files_ok s" and "open_files s = {}" and "length (stdio_display s) = NUM_DISPLAYS"
  shows "runs init_stdio s (\<lambda>_ s'. fs_inv s' \<and> stdio_serial s' = Some 0 \<and> filetab s' ! 0 = console_file SerialTty \<and>
    stdio_display s' = (if is_gui_enabled s then map Some [1..<10] else replicate 9 None) \<and>
    (is_gui_enabled s \<longrightarrow> (\<forall>j < 9. filetab s' ! (j + 1) = console_file (DisplayTty j))) \<and>
    open_files s' = {j. j < (if is_gui_enabled s then 10 else 1)})"
proof -
  let ?n = "if is_gui_enabled s then 10 else 1 :: nat"
  let ?s1 = "s\<lparr>stdio_serial := Some 0, filetab := (filetab s)[0 := console_file SerialTty]\<rparr>"
  have len: "length (filetab s) = NUM_FILES" "0 < NUM_FILES" using assms(1) by (simp_all add: files_ok_def NUM_FILES_def)
  have alloc: "file_alloc s = Inr (0, s\<lparr>filetab := (filetab s)[0 := blank_file]\<rparr>)"
    by (rule file_alloc_first) (use assms len in auto)
  have s1: "stdio_setup s 0 1 ?s1"
    using assms len by (auto simp: stdio_setup_def files_ok_def open_files_def nth_list_update console_file_def blank_file_def)
  have run: "runs init_stdio s (\<lambda>_. stdio_setup s NUM_DISPLAYS ?n)"
  proof (cases "is_gui_enabled s")
    case True
    have "runs (kfor [0..<NUM_DISPLAYS] (\<lambda>i. kbind file_alloc (\<lambda>f. kseq (set_stdio_display i (Some f))
        (upd_file f (\<lambda>x. x\<lparr>f_ops := Some StdioFs, f_type := FILE_CONSOLE, f_tty := Some (DisplayTty i)\<rparr>))))) ?s1
      (\<lambda>_. stdio_setup s NUM_DISPLAYS (NUM_DISPLAYS + 1))"
      by (rule runs_kfor_upt [where I = "\<lambda>i. stdio_setup s i (i + 1)"])
        (use s1 stdio_setup_alloc [OF _ _ True] in simp_all)
    then show ?thesis
      using True len alloc
      by (simp add: init_stdio_def runs_def kop_simps upd_file_run is_display_active_def console_file_def NUM_DISPLAYS_def)
  next
    case False
    have "runs (kfor [0..<NUM_DISPLAYS] (\<lambda>i. set_stdio_display i None)) ?s1 (\<lambda>_. stdio_setup s NUM_DISPLAYS 1)"
      by (rule runs_kfor_upt [where I = "\<lambda>i. stdio_setup s i 1"]) (use s1 stdio_setup_none [OF _ _ False] in simp_all)
    then show ?thesis
      using False len alloc
      by (simp add: init_stdio_def runs_def kop_simps upd_file_run is_display_active_def console_file_def)
  qed
  show ?thesis
  proof (rule runs_mono [OF run])
    fix u t assume t: "stdio_setup s NUM_DISPLAYS ?n t"
    have ds: "stdio_display t = (if is_gui_enabled s then map Some [1..<10] else replicate 9 None)"
      using t by (intro nth_equalityI) (auto simp: stdio_setup_def NUM_DISPLAYS_def simp del: upt_rec_numeral)
    have sf: "stdio_files t = {j. j < ?n}"
    proof -
      have "stdio_serial t = Some 0" "length (stdio_display t) \<le> NUM_DISPLAYS" using t by (simp_all add: stdio_setup_def)
      then have "stdio_files t = insert 0 {f. Some f \<in> set (stdio_display t)}"
        by (auto simp: stdio_files_def file_is_stdio_def)
      also have "\<dots> = {j. j < ?n}" unfolding ds by (auto simp del: upt_rec_numeral)
      finally show ?thesis .
    qed
    have ops: "f_ops (filetab t ! f) = Some StdioFs" if "f < ?n" for f
    proof (cases f)
      case 0
      then show ?thesis using t by (simp add: stdio_setup_def console_file_def)
    next
      case (Suc j)
      then have "is_gui_enabled s" "j < NUM_DISPLAYS" using that by (auto simp: NUM_DISPLAYS_def split: if_splits)
      then show ?thesis using t Suc by (simp add: stdio_setup_def console_file_def)
    qed
    have "fs_inv t" using t sf ops by (auto simp: fs_inv_def stdio_setup_def)
    then show "fs_inv t \<and> stdio_serial t = Some 0 \<and> filetab t ! 0 = console_file SerialTty \<and>
      stdio_display t = (if is_gui_enabled s then map Some [1..<10] else replicate 9 None) \<and>
      (is_gui_enabled s \<longrightarrow> (\<forall>j < 9. filetab t ! (j + 1) = console_file (DisplayTty j))) \<and> open_files t = {j. j < ?n}"
      using t ds unfolding stdio_setup_def NUM_DISPLAYS_def by auto
  qed
qed

theorem init_stdio_correct_witness:
  "runs init_stdio (tar_demo\<lparr>stdio_display := replicate 9 None, is_gui_enabled := True\<rparr>)
     (\<lambda>_ s'. stdio_display s' ! 8 = Some 9 \<and> filetab s' ! 9 = console_file (DisplayTty 8))"
proof -
  let ?s = "tar_demo\<lparr>stdio_display := replicate 9 None, is_gui_enabled := True\<rparr>"
  have s: "files_ok ?s" "open_files ?s = {}" "length (stdio_display ?s) = NUM_DISPLAYS" "is_gui_enabled ?s"
    using tar_demo_files by (simp_all add: files_ok_def open_files_def NUM_DISPLAYS_def)
  show ?thesis
  proof (rule runs_mono [OF init_stdio_correct [OF s(1-3)]], elim conjE, intro conjI)
    fix t assume t: "stdio_display t = (if is_gui_enabled ?s then map Some [1..<10] else replicate 9 None)"
      "is_gui_enabled ?s \<longrightarrow> (\<forall>j < 9. filetab t ! (j + 1) = console_file (DisplayTty j))"
    show "stdio_display t ! 8 = Some 9" using t(1) s(4) by simp
    show "filetab t ! 9 = console_file (DisplayTty 8)" using mp [OF t(2) s(4), rule_format, of 8] by simp
  qed
qed

end
