(* ===== verification/Sky_List.thy ===== *)
theory Sky_List
  imports Sky_Prelude
begin

text \<open>
  The intrusive circular list of inc/list.h. A link is named by a reference of any type; the two
  pointer fields of every link are two functions, so writing through a pointer is an update of a
  function and aliasing is kept. NULL is \<open>None\<close>; following it is a \<open>Fault\<close>.

  The three iteration macros are loops that read the \<open>next\<close> field in the state left by the body. They
  are partial functions, so that a list that never returns to its head is a \<open>Hang\<close>.

  \<open>dlist l h xs\<close> says that the links reachable from the head \<open>h\<close> are those of \<open>xs\<close>, in this order,
  in both directions. Against it the pointer operations are insertion at the front and removal,
  and the loops are loops over the list.
\<close>

section \<open>inc/list.h\<close>

record 'r links =
  next_of :: "'r \<Rightarrow> 'r option"
  prev_of :: "'r \<Rightarrow> 'r option"

definition list_init :: "'r \<Rightarrow> 'r links \<Rightarrow> 'r links" where
  "list_init l k = k\<lparr>next_of := (next_of k)(l \<mapsto> l), prev_of := (prev_of k)(l \<mapsto> l)\<rparr>"

definition list_add :: "'r \<Rightarrow> 'r \<Rightarrow> 'r links \<Rightarrow> kerr + 'r links" where
  "list_add new_element head k =
     (case next_of k head of
        None \<Rightarrow> Inl (Fault ''list_add: NULL'')
      | Some n \<Rightarrow>
         (let k = k\<lparr>prev_of := (prev_of k)(n \<mapsto> new_element)\<rparr>;
              k = k\<lparr>next_of := (next_of k)(new_element := next_of k head)\<rparr>;
              k = k\<lparr>prev_of := (prev_of k)(new_element \<mapsto> head)\<rparr>
          in Inr (k\<lparr>next_of := (next_of k)(head \<mapsto> new_element)\<rparr>)))"

definition list_del :: "'r \<Rightarrow> 'r links \<Rightarrow> kerr + 'r links" where
  "list_del e k =
     (case next_of k e of
        None \<Rightarrow> Inl (Fault ''list_del: NULL'')
      | Some n \<Rightarrow>
         (let k = k\<lparr>prev_of := (prev_of k)(n := prev_of k e)\<rparr> in
          case prev_of k e of
            None \<Rightarrow> Inl (Fault ''list_del: NULL'')
          | Some p \<Rightarrow>
             (let k = k\<lparr>next_of := (next_of k)(p := next_of k e)\<rparr>;
                  k = k\<lparr>next_of := (next_of k)(e := None)\<rparr>
              in Inr (k\<lparr>prev_of := (prev_of k)(e := None)\<rparr>))))"

text \<open>\<open>list_for_each_from\<close>; \<open>lk\<close> reads the links out of the state.\<close>

partial_function (option) for_each_loop ::
  "('s \<Rightarrow> 'r links) \<Rightarrow> 'r \<Rightarrow> ('r \<Rightarrow> ('s, unit) kop) \<Rightarrow> 'r option \<Rightarrow> 's \<Rightarrow> (kerr + unit \<times> 's) option" where
  "for_each_loop lk head body pos s =
     (case pos of
        None \<Rightarrow> Some (Inl (Fault ''list: NULL''))
      | Some p \<Rightarrow>
          if p = head then Some (Inr ((), s))
          else (case body p s of
                  Inl e \<Rightarrow> Some (Inl e)
                | Inr (u, s') \<Rightarrow> for_each_loop lk head body (next_of (lk s') p) s'))"

text \<open>\<open>list_for_each_safe\<close>: the successor is read before the body runs.\<close>

partial_function (option) for_each_safe_loop ::
  "('s \<Rightarrow> 'r links) \<Rightarrow> 'r \<Rightarrow> ('r \<Rightarrow> ('s, unit) kop) \<Rightarrow> 'r option \<Rightarrow> 'r option \<Rightarrow> 's \<Rightarrow>
     (kerr + unit \<times> 's) option" where
  "for_each_safe_loop lk head body pos tmp s =
     (case pos of
        None \<Rightarrow> Some (Inl (Fault ''list: NULL''))
      | Some p \<Rightarrow>
          if p = head then Some (Inr ((), s))
          else (case body p s of
                  Inl e \<Rightarrow> Some (Inl e)
                | Inr (u, s') \<Rightarrow>
                   (case tmp of
                      None \<Rightarrow> Some (Inl (Fault ''list: NULL''))
                    | Some t \<Rightarrow> for_each_safe_loop lk head body tmp (next_of (lk s') t) s')))"

text \<open>The same loops around a body that only tests an element and returns the first that passes.\<close>

partial_function (option) find_each_loop ::
  "'r links \<Rightarrow> 'r \<Rightarrow> ('r \<Rightarrow> kerr + bool) \<Rightarrow> 'r option \<Rightarrow> (kerr + 'r option) option" where
  "find_each_loop k head test pos =
     (case pos of
        None \<Rightarrow> Some (Inl (Fault ''list: NULL''))
      | Some p \<Rightarrow>
          if p = head then Some (Inr None)
          else (case test p of
                  Inl e \<Rightarrow> Some (Inl e)
                | Inr found \<Rightarrow> if found then Some (Inr (Some p)) else find_each_loop k head test (next_of k p)))"

partial_function (option) find_each_safe_loop ::
  "'r links \<Rightarrow> 'r \<Rightarrow> ('r \<Rightarrow> kerr + bool) \<Rightarrow> 'r option \<Rightarrow> 'r option \<Rightarrow> (kerr + 'r option) option" where
  "find_each_safe_loop k head test pos tmp =
     (case pos of
        None \<Rightarrow> Some (Inl (Fault ''list: NULL''))
      | Some p \<Rightarrow>
          if p = head then Some (Inr None)
          else (case test p of
                  Inl e \<Rightarrow> Some (Inl e)
                | Inr found \<Rightarrow>
                    if found then Some (Inr (Some p))
                    else (case tmp of
                            None \<Rightarrow> Some (Inl (Fault ''list: NULL''))
                          | Some t \<Rightarrow> find_each_safe_loop k head test tmp (next_of k t))))"

definition khang :: "('s \<Rightarrow> (kerr + 'a \<times> 's) option) \<Rightarrow> ('s, 'a) kop" where
  "khang f s = (case f s of None \<Rightarrow> Inl (Hang ''list'') | Some r \<Rightarrow> r)"

definition list_for_each_from :: "('s \<Rightarrow> 'r links) \<Rightarrow> 'r option \<Rightarrow> 'r \<Rightarrow> ('r \<Rightarrow> ('s, unit) kop) \<Rightarrow> ('s, unit) kop" where
  "list_for_each_from lk start head body = khang (for_each_loop lk head body start)"

definition list_for_each :: "('s \<Rightarrow> 'r links) \<Rightarrow> 'r \<Rightarrow> ('r \<Rightarrow> ('s, unit) kop) \<Rightarrow> ('s, unit) kop" where
  "list_for_each lk head body = kbind (kgets lk) (\<lambda>k. list_for_each_from lk (next_of k head) head body)"

definition list_for_each_safe :: "('s \<Rightarrow> 'r links) \<Rightarrow> 'r \<Rightarrow> ('r \<Rightarrow> ('s, unit) kop) \<Rightarrow> ('s, unit) kop" where
  "list_for_each_safe lk head body =
     kbind (kgets lk) (\<lambda>k.
       case next_of k head of
         None \<Rightarrow> kfault ''list: NULL''
       | Some p \<Rightarrow> khang (for_each_safe_loop lk head body (Some p) (next_of k p)))"

section \<open>Lists\<close>

fun linked :: "'r links \<Rightarrow> 'r list \<Rightarrow> bool" where
  "linked k (a # b # r) \<longleftrightarrow> next_of k a = Some b \<and> prev_of k b = Some a \<and> linked k (b # r)"
| "linked k _ \<longleftrightarrow> True"

definition dlist :: "'r links \<Rightarrow> 'r \<Rightarrow> 'r list \<Rightarrow> bool" where
  "dlist k h xs \<longleftrightarrow> distinct (h # xs) \<and> linked k (h # xs @ [h])"

lemma linked_append: "linked k (xs @ [a]) \<and> linked k (a # ys) \<longleftrightarrow> linked k (xs @ a # ys)"
proof (induction xs rule: induct_list012)
  case (3 x y zs)
  then show ?case by (cases zs) auto
qed (auto split: list.splits)

lemma linked_cong:
  assumes "\<And>a. a \<in> set (butlast zs) \<Longrightarrow> next_of k' a = next_of k a"
    and "\<And>a. a \<in> set (tl zs) \<Longrightarrow> prev_of k' a = prev_of k a"
  shows "linked k' zs \<longleftrightarrow> linked k zs"
  using assms by (induction k zs rule: linked.induct) (auto split: if_splits)

lemma list_init_dlist: "dlist (list_init h k) h []"
  by (simp add: dlist_def list_init_def)

lemma list_add_dlist:
  assumes "dlist k h xs" and "x \<noteq> h" and "x \<notin> set xs"
  shows "\<exists>k'. list_add x h k = Inr k' \<and> dlist k' h (x # xs) \<and>
    (\<forall>y. y \<noteq> x \<and> y \<noteq> h \<and> y \<notin> set xs \<longrightarrow> next_of k' y = next_of k y \<and> prev_of k' y = prev_of k y)"
proof -
  obtain n where n: "next_of k h = Some n" "linked k (h # xs @ [h])" "n \<in> set (xs @ [h])"
    "xs @ [h] = n # tl (xs @ [h])"
    using assms(1) by (cases xs) (auto simp: dlist_def)
  define k' where "k' = k\<lparr>next_of := (next_of k)(x \<mapsto> n, h \<mapsto> x), prev_of := (prev_of k)(n \<mapsto> x, x \<mapsto> h)\<rparr>"
  have run: "list_add x h k = Inr k'"
    using n(1) assms(2) by (simp add: list_add_def k'_def Let_def fun_upd_twist)
  have dist: "distinct (n # tl (xs @ [h]))" using assms(1) n(4) by (auto simp: dlist_def)
  have xn: "x \<noteq> n" using n(3) assms by auto
  have "linked k (n # tl (xs @ [h]))"
    using n(2) by (subst (asm) n(4)) simp
  moreover have "linked k' (n # tl (xs @ [h])) = linked k (n # tl (xs @ [h]))"
  proof (rule linked_cong)
    fix a assume "a \<in> set (butlast (n # tl (xs @ [h])))"
    then have "a \<in> set xs" using n(4) by (metis butlast_snoc)
    then show "next_of k' a = next_of k a" using assms by (auto simp: k'_def dlist_def)
  next
    fix a assume a: "a \<in> set (tl (n # tl (xs @ [h])))"
    then have "a \<noteq> n" using dist by auto
    moreover have "a \<noteq> x" using a n(4) assms(2,3) by (metis Un_iff insert_iff list.sel(3) list.set_intros(2) set_ConsD set_append list.set(1) list.set(2) empty_iff)
    ultimately show "prev_of k' a = prev_of k a" by (simp add: k'_def)
  qed
  ultimately have "linked k' (h # x # n # tl (xs @ [h]))"
    using assms(2) xn by (simp add: k'_def)
  then have "dlist k' h (x # xs)" using n(4) assms by (simp add: dlist_def)
  moreover have "next_of k' y = next_of k y \<and> prev_of k' y = prev_of k y"
    if "y \<noteq> x \<and> y \<noteq> h \<and> y \<notin> set xs" for y
    using that n(3) by (auto simp: k'_def)
  ultimately show ?thesis using run by blast
qed

lemma list_del_dlist:
  assumes "dlist k h (xs @ e # ys)"
  shows "\<exists>k'. list_del e k = Inr k' \<and> dlist k' h (xs @ ys) \<and> next_of k' e = None \<and> prev_of k' e = None \<and>
    (\<forall>y. y \<noteq> h \<and> y \<notin> set (xs @ e # ys) \<longrightarrow> next_of k' y = next_of k y \<and> prev_of k' y = prev_of k y)"
proof -
  obtain pre p where p: "h # xs = pre @ [p]" by (metis append_butlast_last_id list.distinct(1))
  obtain n post where n: "ys @ [h] = n # post" by (cases ys) auto
  have dist: "distinct (h # xs @ e # ys)" and lk: "linked k (h # xs @ e # ys @ [h])"
    using assms by (simp_all add: dlist_def)
  have sets: "set pre \<union> {p} = insert h (set xs)" "insert n (set post) = insert h (set ys)"
    using arg_cong [OF p, of set] arg_cong [OF n, of set] by auto
  have "linked k (pre @ p # e # n # post)"
    using lk unfolding n [symmetric] using p by (metis append.assoc append_Cons append_Nil)
  then have l: "linked k (pre @ [p])" "next_of k p = Some e" "prev_of k e = Some p"
    "next_of k e = Some n" "prev_of k n = Some e" "linked k (n # post)"
    using linked_append [of k pre p "e # n # post"] by auto
  have ne: "e \<noteq> p" "e \<noteq> n" "e \<notin> set pre" "e \<notin> set post" using dist sets by auto
  define k' where "k' = k\<lparr>next_of := (next_of k)(p \<mapsto> n, e := None), prev_of := (prev_of k)(n \<mapsto> p, e := None)\<rparr>"
  have run: "list_del e k = Inr k'"
    using l ne by (simp add: list_del_def k'_def Let_def)
  have "distinct (pre @ [p])" "distinct (n # post)"
    using dist arg_cong [OF p, of distinct] arg_cong [OF n, of distinct] by auto
  note d = this
  have "linked k' (pre @ [p]) = linked k (pre @ [p])"
  proof (rule linked_cong)
    show "next_of k' a = next_of k a" if "a \<in> set (butlast (pre @ [p]))" for a
      using that d ne by (auto simp: k'_def)
    fix a assume "a \<in> set (tl (pre @ [p]))"
    then have "a \<in> set xs" using p by (metis list.sel(3))
    then have "a \<noteq> n" "a \<noteq> e" using sets dist by auto
    then show "prev_of k' a = prev_of k a" by (simp add: k'_def)
  qed
  moreover have "linked k' (n # post) = linked k (n # post)"
  proof (rule linked_cong)
    fix a assume "a \<in> set (butlast (n # post))"
    then have "a \<in> set ys" using n by (metis butlast_snoc)
    then have "a \<noteq> p" "a \<noteq> e" using sets dist by auto
    then show "next_of k' a = next_of k a" by (simp add: k'_def)
  next
    show "prev_of k' a = prev_of k a" if "a \<in> set (tl (n # post))" for a
      using that d ne by (auto simp: k'_def)
  qed
  moreover have "next_of k' p = Some n" "prev_of k' n = Some p" using ne by (auto simp: k'_def)
  ultimately have "linked k' (pre @ p # n # post)"
    using l linked_append [of k' pre p "n # post"] by simp
  then have "dlist k' h (xs @ ys)"
    using dist p n by (simp add: dlist_def) (metis append.assoc append_Cons append_Nil)
  moreover have "next_of k' y = next_of k y \<and> prev_of k' y = prev_of k y" if "y \<noteq> h \<and> y \<notin> set (xs @ e # ys)" for y
    using that sets by (auto simp: k'_def)
  ultimately show ?thesis using run by (auto simp: k'_def)
qed

section \<open>Loops over lists\<close>

text \<open>A loop whose body leaves the links alone is a loop over the list.\<close>

lemma for_each_loop_kfor:
  assumes body: "\<And>x s s' u. body x s = Inr (u, s') \<Longrightarrow> lk s' = lk s"
    and "linked (lk s) (xs @ [h])" and "h \<notin> set xs"
  shows "for_each_loop lk h body (Some (hd (xs @ [h]))) s = Some (kfor xs body s)"
  using assms(2,3)
proof (induction xs arbitrary: s)
  case Nil
  then show ?case by (simp add: for_each_loop.simps kop_simps)
next
  case (Cons x xs)
  have nx: "next_of (lk s) x = Some (hd (xs @ [h]))" "linked (lk s) (xs @ [h])" "x \<noteq> h" "h \<notin> set xs"
    using Cons.prems by (cases xs; auto)+
  show ?case
  proof (cases "body x s")
    case (Inl e)
    then show ?thesis using nx by (simp add: for_each_loop.simps [of lk h body "Some x"] kop_simps)
  next
    case (Inr r)
    obtain u s' where r: "r = (u, s')" by (cases r)
    have "lk s' = lk s" using body Inr r by blast
    then show ?thesis
      using Cons.IH [of s'] nx Inr r by (simp add: for_each_loop.simps [of lk h body "Some x"] kop_simps)
  qed
qed

lemma list_for_each_kfor:
  assumes "\<And>x s s' u. body x s = Inr (u, s') \<Longrightarrow> lk s' = lk s" and "dlist (lk s) h xs"
  shows "list_for_each lk h body s = kfor xs body s"
proof -
  have "next_of (lk s) h = Some (hd (xs @ [h]))" "linked (lk s) (xs @ [h])" "h \<notin> set xs"
    using assms(2) by (cases xs; auto simp: dlist_def)+
  then show ?thesis
    using for_each_loop_kfor [of body lk s xs h] assms(1)
    by (simp add: list_for_each_def list_for_each_from_def khang_def kop_simps)
qed

lemma list_for_each_from_kfor:
  assumes "\<And>x s s' u. body x s = Inr (u, s') \<Longrightarrow> lk s' = lk s" and "dlist (lk s) h (xs @ x # ys)"
  shows "list_for_each_from lk (next_of (lk s) x) h body s = kfor ys body s"
proof -
  have "linked (lk s) ((h # xs) @ x # ys @ [h])" "h \<notin> set ys" using assms(2) by (simp_all add: dlist_def)
  then have "linked (lk s) (x # ys @ [h])" using linked_append [of "lk s" "h # xs" x "ys @ [h]"] by simp
  then have "next_of (lk s) x = Some (hd (ys @ [h]))" "linked (lk s) (ys @ [h])" by (cases ys; auto)+
  then show ?thesis
    using for_each_loop_kfor [of body lk s ys h] assms(1) \<open>h \<notin> set ys\<close>
    by (simp add: list_for_each_from_def khang_def)
qed

lemma for_each_safe_loop_kfor:
  assumes body: "\<And>x s s' u. body x s = Inr (u, s') \<Longrightarrow> lk s' = lk s"
    and "linked (lk s) (xs @ [h])" and "h \<notin> set xs"
  shows "for_each_safe_loop lk h body (Some (hd (xs @ [h]))) (next_of (lk s) (hd (xs @ [h]))) s = Some (kfor xs body s)"
  using assms(2,3)
proof (induction xs arbitrary: s)
  case Nil
  then show ?case by (simp add: for_each_safe_loop.simps kop_simps)
next
  case (Cons x xs)
  have nx: "next_of (lk s) x = Some (hd (xs @ [h]))" "linked (lk s) (xs @ [h])" "x \<noteq> h" "h \<notin> set xs"
    using Cons.prems by (cases xs; auto)+
  show ?case
  proof (cases "body x s")
    case (Inl e)
    then show ?thesis using nx by (simp add: for_each_safe_loop.simps [of lk h body "Some x"] kop_simps)
  next
    case (Inr r)
    obtain u s' where r: "r = (u, s')" by (cases r)
    have "lk s' = lk s" using body Inr r by blast
    then show ?thesis
      using Cons.IH [of s'] nx Inr r by (simp add: for_each_safe_loop.simps [of lk h body "Some x"] kop_simps)
  qed
qed

lemma list_for_each_safe_kfor:
  assumes "\<And>x s s' u. body x s = Inr (u, s') \<Longrightarrow> lk s' = lk s" and "dlist (lk s) h xs"
  shows "list_for_each_safe lk h body s = kfor xs body s"
proof -
  have "next_of (lk s) h = Some (hd (xs @ [h]))" "linked (lk s) (xs @ [h])" "h \<notin> set xs"
    using assms(2) by (cases xs; auto simp: dlist_def)+
  then show ?thesis
    using for_each_safe_loop_kfor [of body lk s xs h] assms(1)
    by (simp add: list_for_each_safe_def khang_def kop_simps)
qed

text \<open>A search through the list finds the first element that passes.\<close>

lemma find_each_loop_find:
  assumes "linked k (xs @ [h])" and "h \<notin> set xs" and "\<And>x. x \<in> set xs \<Longrightarrow> test x = Inr (P x)"
  shows "find_each_loop k h test (Some (hd (xs @ [h]))) = Some (Inr (find P xs))"
  using assms
proof (induction xs)
  case Nil
  then show ?case by (simp add: find_each_loop.simps)
next
  case (Cons x xs)
  have nx: "next_of k x = Some (hd (xs @ [h]))" "linked k (xs @ [h])" "x \<noteq> h" "h \<notin> set xs"
    using Cons.prems(1,2) by (cases xs; auto)+
  show ?case
    using Cons.IH [OF nx(2,4)] Cons.prems(3) nx by (simp add: find_each_loop.simps [of k h test "Some x"])
qed

lemma find_each_safe_loop_find:
  assumes "linked k (h # xs @ [h])" and "h \<notin> set xs" and "\<And>x. x \<in> set xs \<Longrightarrow> test x = Inr (P x)"
  shows "find_each_safe_loop k h test (Some (hd (xs @ [h]))) (next_of k (hd (xs @ [h]))) = Some (Inr (find P xs))"
proof -
  have "find_each_safe_loop k h test (Some (hd (ys @ [h]))) (next_of k (hd (ys @ [h]))) = Some (Inr (find P ys))"
    if "linked k (ys @ [h])" "set ys \<subseteq> set xs" for ys
    using that
  proof (induction ys)
    case Nil
    then show ?case by (simp add: find_each_safe_loop.simps)
  next
    case (Cons x ys)
    have nx: "next_of k x = Some (hd (ys @ [h]))" "linked k (ys @ [h])" "x \<noteq> h" "set ys \<subseteq> set xs" "x \<in> set xs"
      using Cons.prems assms(2) by (cases ys; auto)+
    show ?case
      using Cons.IH [OF nx(2,4)] assms(3) nx by (simp add: find_each_safe_loop.simps [of k h test "Some x"])
  qed
  moreover have "linked k (xs @ [h])" using assms(1) by (cases xs) auto
  ultimately show ?thesis by blast
qed

text \<open>
  The loop that survives removal of the current element: \<open>ds\<close> are the elements left behind, \<open>xs\<close>
  those still ahead, and the body may shorten or keep \<open>ds\<close> but not touch the order of what follows.
\<close>

lemma dlist_next:
  assumes "dlist k h (ds @ x # xs)"
  shows "next_of k x = Some (hd (xs @ [h]))"
proof -
  have "linked k ((h # ds) @ x # xs @ [h])" using assms by (simp add: dlist_def)
  then have "linked k (x # xs @ [h])" using linked_append [of k "h # ds" x "xs @ [h]"] by simp
  then show ?thesis by (cases xs) auto
qed

lemma for_each_safe_runs:
  assumes step: "\<And>ds x xs s. I ds (x # xs) s \<Longrightarrow> dlist (lk s) h (ds @ x # xs) \<Longrightarrow>
      runs (body x) s (\<lambda>_ s'. \<exists>ds'. dlist (lk s') h (ds' @ xs) \<and> I ds' xs s')"
    and fin: "\<And>ds s. I ds [] s \<Longrightarrow> dlist (lk s) h ds \<Longrightarrow> Q () s"
    and "dlist (lk s) h (ds @ xs)" and "I ds xs s"
  shows "\<exists>s'. for_each_safe_loop lk h body (Some (hd (xs @ [h]))) (next_of (lk s) (hd (xs @ [h]))) s =
    Some (Inr ((), s')) \<and> Q () s'"
  using assms(3,4)
proof (induction xs arbitrary: ds s)
  case Nil
  then show ?case using fin [of ds s] by (simp add: for_each_safe_loop.simps)
next
  case (Cons x xs)
  have nx: "next_of (lk s) x = Some (hd (xs @ [h]))" by (rule dlist_next [OF Cons.prems(1)])
  have ne: "x \<noteq> h" using Cons.prems(1) by (auto simp: dlist_def)
  obtain u s' ds' where run: "body x s = Inr (u, s')" and d: "dlist (lk s') h (ds' @ xs)" "I ds' xs s'"
    using step [OF Cons.prems(2,1)] by (auto simp: runs_def)
  show ?case
    using Cons.IH [OF d] run nx ne by (simp add: for_each_safe_loop.simps [of lk h body "Some x"])
qed

lemma list_for_each_safe_runs:
  assumes step: "\<And>ds x xs s. I ds (x # xs) s \<Longrightarrow> dlist (lk s) h (ds @ x # xs) \<Longrightarrow>
      runs (body x) s (\<lambda>_ s'. \<exists>ds'. dlist (lk s') h (ds' @ xs) \<and> I ds' xs s')"
    and fin: "\<And>ds s. I ds [] s \<Longrightarrow> dlist (lk s) h ds \<Longrightarrow> Q () s"
    and d: "dlist (lk s) h xs" and "I [] xs s"
  shows "runs (list_for_each_safe lk h body) s Q"
proof -
  have "next_of (lk s) h = Some (hd (xs @ [h]))" using d by (cases xs) (auto simp: dlist_def)
  moreover obtain s' where "for_each_safe_loop lk h body (Some (hd (xs @ [h]))) (next_of (lk s) (hd (xs @ [h]))) s =
      Some (Inr ((), s'))" "Q () s'"
    using for_each_safe_runs [of I lk h body Q s "[]" xs] assms by auto
  ultimately show ?thesis by (simp add: list_for_each_safe_def runs_def kop_simps khang_def)
qed

section \<open>The list as a sequence\<close>

text \<open>C16: The pointer operations implement a sequence: on a well-formed circular list, adding a link that
  is not in it puts it in front, deleting a link of the list takes out that one link and clears its
  two pointers, neither follows NULL, and both leave the links outside the list untouched.\<close>

theorem list_refines_sequence:
  assumes "dlist k h xs"
  shows "(\<forall>x. x \<noteq> h \<and> x \<notin> set xs \<longrightarrow> (\<exists>k'. list_add x h k = Inr k' \<and> dlist k' h (x # xs) \<and>
      (\<forall>y. y \<notin> set (x # h # xs) \<longrightarrow> next_of k' y = next_of k y \<and> prev_of k' y = prev_of k y))) \<and>
    (\<forall>e \<in> set xs. \<exists>k'. list_del e k = Inr k' \<and> dlist k' h (remove1 e xs) \<and> next_of k' e = None \<and> prev_of k' e = None \<and>
      (\<forall>y. y \<notin> set (h # xs) \<longrightarrow> next_of k' y = next_of k y \<and> prev_of k' y = prev_of k y))"
proof (intro conjI allI impI ballI)
  fix x assume "x \<noteq> h \<and> x \<notin> set xs"
  then show "\<exists>k'. list_add x h k = Inr k' \<and> dlist k' h (x # xs) \<and>
      (\<forall>y. y \<notin> set (x # h # xs) \<longrightarrow> next_of k' y = next_of k y \<and> prev_of k' y = prev_of k y)"
    using list_add_dlist [OF assms, of x] by auto
next
  fix e assume "e \<in> set xs"
  then obtain ys zs where xs: "xs = ys @ e # zs" "e \<notin> set ys" by (metis split_list_first)
  then have "remove1 e xs = ys @ zs" by (simp add: remove1_append)
  then show "\<exists>k'. list_del e k = Inr k' \<and> dlist k' h (remove1 e xs) \<and> next_of k' e = None \<and> prev_of k' e = None \<and>
      (\<forall>y. y \<notin> set (h # xs) \<longrightarrow> next_of k' y = next_of k y \<and> prev_of k' y = prev_of k y)"
    using list_del_dlist [of k h ys e zs] assms xs by auto
qed

theorem list_refines_sequence_witness:
  "\<exists>k'. list_add 1 (0 :: nat) (list_init 0 \<lparr>next_of = \<lambda>_. None, prev_of = \<lambda>_. None\<rparr>) = Inr k' \<and> dlist k' 0 [1]"
proof -
  let ?k = "list_init (0 :: nat) \<lparr>next_of = \<lambda>_. None, prev_of = \<lambda>_. None\<rparr>"
  have "dlist ?k 0 []" by (rule list_init_dlist)
  from conjunct1 [OF list_refines_sequence [OF this]] show ?thesis by fastforce
qed

end
