(* ===== verification/Sky_Cpu.thy ===== *)
theory Sky_Cpu
  imports Sky_Vm
begin

text \<open>
  The part of the per-ISA CPU files (src/arch/x86_64/cpu.c, src/arch/aarch64/cpu.c and
  src/arch/riscv64/cpu.c) that is plain C on saved registers, and the interrupt flag. A \<open>regs_t *\<close> is
  an address; register \<open>i\<close> of the structure is the 64-bit word at \<open>8 * i\<close>, with the
  field order of inc/arch/*/regs.h. The interrupt flag of the CPU is the field \<open>ints_on\<close> of the
  machine state.
\<close>

section \<open>Saved registers\<close>

definition reg_at :: "u64 \<Rightarrow> nat \<Rightarrow> u64" where "reg_at r i = r + 8 * of_nat i"

text \<open>The fields the C code touches, by position in \<open>regs_t\<close> (inc/arch/*/regs.h).\<close>

definition x86_rdi :: nat where "x86_rdi = 4"
definition x86_rsi :: nat where "x86_rsi = 5"
definition x86_rip :: nat where "x86_rip = 17"
definition x86_cs :: nat where "x86_cs = 18"
definition x86_rflags :: nat where "x86_rflags = 19"
definition x86_rsp :: nat where "x86_rsp = 20"
definition x86_ss :: nat where "x86_ss = 21"

definition arm_x0 :: nat where "arm_x0 = 0"
definition arm_x1 :: nat where "arm_x1 = 1"
definition arm_sp_el0 :: nat where "arm_sp_el0 = 31"
definition arm_spsr :: nat where "arm_spsr = 32"
definition arm_elr :: nat where "arm_elr = 34"

definition riscv_x2 :: nat where "riscv_x2 = 1"
definition riscv_x10 :: nat where "riscv_x10 = 9"
definition riscv_x11 :: nat where "riscv_x11 = 10"
definition riscv_sepc :: nat where "riscv_sepc = 31"
definition riscv_sstatus :: nat where "riscv_sstatus = 32"

primrec REGS_SIZE :: "isa \<Rightarrow> usize" where
  "REGS_SIZE X86_64 = 22 * 8"
| "REGS_SIZE AARCH64 = 36 * 8"
| "REGS_SIZE RISCV64 = 35 * 8"

primrec KREGS_SIZE :: "isa \<Rightarrow> usize" where
  "KREGS_SIZE X86_64 = 7 * 8"
| "KREGS_SIZE AARCH64 = 14 * 8"
| "KREGS_SIZE RISCV64 = 13 * 8"

text \<open>The position of \<open>kern_ra\<close> in \<open>kregs_t\<close>.\<close>

primrec kern_ra :: "isa \<Rightarrow> nat" where
  "kern_ra X86_64 = 6"
| "kern_ra AARCH64 = 12"
| "kern_ra RISCV64 = 12"

section \<open>src/arch/x86_64/cpu.c\<close>

definition USER_CS :: u64 where "USER_CS = 0x2B"
definition USER_DS :: u64 where "USER_DS = 0x23"
definition KERNEL_CS :: u64 where "KERNEL_CS = 0x08"
definition RFLAGS_IF :: u64 where "RFLAGS_IF = BIT 9"

definition x86_get_reg_mode :: "u64 \<Rightarrow> memory \<Rightarrow> kerr + cpu_mode" where
  "x86_get_reg_mode r m =
     (if USER_CS = load64 m (reg_at r x86_cs) then Inr MODE_USER
      else if KERNEL_CS = load64 m (reg_at r x86_cs) then Inr MODE_KERN
      else Inl (Panic ''get_reg_mode: improper value in cs selector''))"

definition x86_init_user_regs :: "u64 \<Rightarrow> u64 \<Rightarrow> u64 \<Rightarrow> memory \<Rightarrow> memory" where
  "x86_init_user_regs r init_pc init_sp m =
     (let m = memset r 0 (REGS_SIZE X86_64) m;
          m = store64 m (reg_at r x86_rip) init_pc;
          m = store64 m (reg_at r x86_cs) USER_CS;
          m = store64 m (reg_at r x86_rflags) RFLAGS_IF;
          m = store64 m (reg_at r x86_rsp) init_sp
      in store64 m (reg_at r x86_ss) USER_DS)"

definition x86_set_reg_arg :: "u64 \<Rightarrow> usize \<Rightarrow> u64 \<Rightarrow> memory \<Rightarrow> kerr + memory" where
  "x86_set_reg_arg r idx val m =
     (if idx = 0 then Inr (store64 m (reg_at r x86_rdi) val)
      else if idx = 1 then Inr (store64 m (reg_at r x86_rsi) val)
      else Inl (Panic ''set_reg_arg: invalid idx''))"

section \<open>src/arch/aarch64/cpu.c\<close>

definition SPSR_EL1_USER :: u64 where "SPSR_EL1_USER = 0"
definition SPSR_EL1_KERN :: u64 where "SPSR_EL1_KERN = 5"
definition SPSR_GET_M :: "u64 \<Rightarrow> u64" where "SPSR_GET_M x = x AND MASK 4"

definition arm_get_reg_mode :: "u64 \<Rightarrow> memory \<Rightarrow> kerr + cpu_mode" where
  "arm_get_reg_mode r m =
     (if SPSR_EL1_USER = SPSR_GET_M (load64 m (reg_at r arm_spsr)) then Inr MODE_USER
      else if SPSR_EL1_KERN = SPSR_GET_M (load64 m (reg_at r arm_spsr)) then Inr MODE_KERN
      else Inl (Panic ''get_reg_mode: unknown mode''))"

definition arm_init_user_regs :: "u64 \<Rightarrow> u64 \<Rightarrow> u64 \<Rightarrow> memory \<Rightarrow> memory" where
  "arm_init_user_regs r init_pc init_sp m =
     (let m = memset r 0 (REGS_SIZE AARCH64) m;
          m = store64 m (reg_at r arm_elr) init_pc;
          m = store64 m (reg_at r arm_sp_el0) init_sp
      in store64 m (reg_at r arm_spsr) SPSR_EL1_USER)"

definition arm_set_reg_arg :: "u64 \<Rightarrow> usize \<Rightarrow> u64 \<Rightarrow> memory \<Rightarrow> kerr + memory" where
  "arm_set_reg_arg r idx val m =
     (if idx = 0 then Inr (store64 m (reg_at r arm_x0) val)
      else if idx = 1 then Inr (store64 m (reg_at r arm_x1) val)
      else Inl (Panic ''set_reg_arg: invalid idx''))"

section \<open>src/arch/riscv64/cpu.c\<close>

definition RISCV_MODE_S :: u64 where "RISCV_MODE_S = 1"
definition RISCV_MODE_U :: u64 where "RISCV_MODE_U = 0"
definition SSTATUS_GET_SPP :: "u64 \<Rightarrow> u64" where "SSTATUS_GET_SPP x = drop_bit 8 x AND MASK 1"
definition SSTATUS_SUM :: u64 where "SSTATUS_SUM = BIT 18"
definition SSTATUS_UXL :: u64 where "SSTATUS_UXL = push_bit 32 2"

definition riscv_get_reg_mode :: "u64 \<Rightarrow> memory \<Rightarrow> kerr + cpu_mode" where
  "riscv_get_reg_mode r m =
     (if RISCV_MODE_U = SSTATUS_GET_SPP (load64 m (reg_at r riscv_sstatus)) then Inr MODE_USER
      else if RISCV_MODE_S = SSTATUS_GET_SPP (load64 m (reg_at r riscv_sstatus)) then Inr MODE_KERN
      else Inl (Panic ''get_reg_mode: unknown mode''))"

definition riscv_init_user_regs :: "u64 \<Rightarrow> u64 \<Rightarrow> u64 \<Rightarrow> memory \<Rightarrow> memory" where
  "riscv_init_user_regs r init_pc init_sp m =
     (let m = memset r 0 (REGS_SIZE RISCV64) m;
          m = store64 m (reg_at r riscv_sepc) init_pc;
          m = store64 m (reg_at r riscv_x2) init_sp
      in store64 m (reg_at r riscv_sstatus) (SSTATUS_SUM OR SSTATUS_UXL))"

definition riscv_set_reg_arg :: "u64 \<Rightarrow> usize \<Rightarrow> u64 \<Rightarrow> memory \<Rightarrow> kerr + memory" where
  "riscv_set_reg_arg r idx val m =
     (if idx = 0 then Inr (store64 m (reg_at r riscv_x10) val)
      else if idx = 1 then Inr (store64 m (reg_at r riscv_x11) val)
      else Inl (Panic ''set_reg_arg: invalid idx''))"

section \<open>inc/cpu.h\<close>

primrec get_reg_mode :: "isa \<Rightarrow> u64 \<Rightarrow> memory \<Rightarrow> kerr + cpu_mode" where
  "get_reg_mode X86_64 = x86_get_reg_mode"
| "get_reg_mode AARCH64 = arm_get_reg_mode"
| "get_reg_mode RISCV64 = riscv_get_reg_mode"

primrec init_user_regs :: "isa \<Rightarrow> u64 \<Rightarrow> u64 \<Rightarrow> u64 \<Rightarrow> memory \<Rightarrow> memory" where
  "init_user_regs X86_64 = x86_init_user_regs"
| "init_user_regs AARCH64 = arm_init_user_regs"
| "init_user_regs RISCV64 = riscv_init_user_regs"

primrec set_reg_arg :: "isa \<Rightarrow> u64 \<Rightarrow> usize \<Rightarrow> u64 \<Rightarrow> memory \<Rightarrow> kerr + memory" where
  "set_reg_arg X86_64 = x86_set_reg_arg"
| "set_reg_arg AARCH64 = arm_set_reg_arg"
| "set_reg_arg RISCV64 = riscv_set_reg_arg"

definition cpu_disable_ints :: "('z machine_scheme, unit) kop" where
  "cpu_disable_ints = kmodify (\<lambda>s. s\<lparr>ints_on := False\<rparr>)"

definition cpu_enable_ints :: "('z machine_scheme, unit) kop" where
  "cpu_enable_ints = kmodify (\<lambda>s. s\<lparr>ints_on := True\<rparr>)"

definition cpu_ints_enabled :: "('z machine_scheme, bool) kop" where
  "cpu_ints_enabled = kgets ints_on"

definition cpu_set_ints :: "bool \<Rightarrow> ('z machine_scheme, bool) kop" where
  "cpu_set_ints new_mode =
     kbind cpu_ints_enabled (\<lambda>rval.
     kseq (if new_mode then cpu_enable_ints else cpu_disable_ints) (kreturn rval))"

section \<open>A fresh user context\<close>

lemma reg_far:
  assumes "i < 64" and "j < 64" and "i \<noteq> j" and "k < 8"
  shows "8 \<le> unat (reg_at r j + of_nat k - reg_at r i)"
proof (cases "i < j")
  case True
  have "reg_at r j + of_nat k - reg_at r i = of_nat (8 * (j - i) + k)"
    using True by (simp add: reg_at_def of_nat_diff algebra_simps)
  moreover have "unat (of_nat (8 * (j - i) + k) :: u64) = 8 * (j - i) + k" by (rule unat_of_nat_64) (use assms in simp)
  ultimately have "unat (reg_at r j + of_nat k - reg_at r i) = 8 * (j - i) + k" by (simp only:)
  then show ?thesis using True by linarith
next
  case False
  then have "reg_at r j + of_nat k - reg_at r i = - of_nat (8 * (i - j) - k)"
    using assms by (simp add: reg_at_def of_nat_diff algebra_simps)
  moreover have "0 < 8 * (i - j) - k" "8 * (i - j) - k \<le> 504" using assms False by auto
  moreover have "unat (- of_nat n :: u64) = 2 ^ 64 - n" if "0 < n" "n \<le> 504" for n
    using that unat_sub_if' [of "0 :: u64" "of_nat n"] by (simp add: unat_of_nat_64)
  ultimately have "unat (reg_at r j + of_nat k - reg_at r i) = 2 ^ 64 - (8 * (i - j) - k)" by (simp only:)
  then show ?thesis using \<open>8 * (i - j) - k \<le> 504\<close> by simp
qed

lemma load_store_reg:
  assumes "i < 64" and "j < 64"
  shows "load64 (store64 m (reg_at r i) v) (reg_at r j) = (if i = j then v else load64 m (reg_at r j))"
proof (cases "i = j")
  case False
  then have "load64 (store64 m (reg_at r i) v) (reg_at r j) = load64 m (reg_at r j)"
    by (intro load64_cong) (use assms in \<open>simp add: store64_other reg_far\<close>)
  with False show ?thesis by simp
qed simp

lemma load_memset_reg:
  assumes "8 * i + 8 \<le> unat len" and "i < 36"
  shows "load64 (memset r 0 len m) (reg_at r i) = 0"
proof (rule load64_zero)
  fix k :: nat assume "k < 8"
  have "reg_at r i + of_nat k - r = of_nat (8 * i + k)" by (simp add: reg_at_def)
  moreover have "unat (of_nat (8 * i + k) :: u64) = 8 * i + k" by (rule unat_of_nat_64) (use assms \<open>k < 8\<close> in simp)
  ultimately have "unat (reg_at r i + of_nat k - r) = 8 * i + k" by (simp only:)
  then have "unat (reg_at r i + of_nat k - r) < unat len" using assms \<open>k < 8\<close> by linarith
  then show "memset r 0 len m (reg_at r i + of_nat k) = 0" by (simp add: memset_apply)
qed

lemmas reg_positions = x86_rdi_def x86_rsi_def x86_rip_def x86_cs_def x86_rflags_def x86_rsp_def x86_ss_def
  arm_x0_def arm_x1_def arm_sp_el0_def arm_spsr_def arm_elr_def
  riscv_x2_def riscv_x10_def riscv_x11_def riscv_sepc_def riscv_sstatus_def

text \<open>The program counter, the stack pointer and the two argument registers of a saved context.\<close>

primrec pc_reg :: "isa \<Rightarrow> nat" where
  "pc_reg X86_64 = x86_rip" | "pc_reg AARCH64 = arm_elr" | "pc_reg RISCV64 = riscv_sepc"

primrec sp_reg :: "isa \<Rightarrow> nat" where
  "sp_reg X86_64 = x86_rsp" | "sp_reg AARCH64 = arm_sp_el0" | "sp_reg RISCV64 = riscv_x2"

primrec arg_reg :: "isa \<Rightarrow> usize \<Rightarrow> nat" where
  "arg_reg X86_64 i = (if i = 0 then x86_rdi else x86_rsi)"
| "arg_reg AARCH64 i = (if i = 0 then arm_x0 else arm_x1)"
| "arg_reg RISCV64 i = (if i = 0 then riscv_x10 else riscv_x11)"

lemma user_mode_bits:
  "SPSR_GET_M SPSR_EL1_USER = SPSR_EL1_USER"
  "SSTATUS_GET_SPP (SSTATUS_SUM OR SSTATUS_UXL) = RISCV_MODE_U"
  by (simp_all add: SPSR_GET_M_def SPSR_EL1_USER_def SSTATUS_GET_SPP_def SSTATUS_SUM_def SSTATUS_UXL_def
    RISCV_MODE_U_def MASK_def BIT_def)

text \<open>On every ISA the context that \<open>init_user_regs\<close> writes is a user context with the given program
  counter and stack pointer and zero arguments, \<open>set_reg_arg\<close> then sets exactly the argument asked
  for and keeps the mode, and an argument index above 1 panics.\<close>

theorem user_context_correct:
  "get_reg_mode arch r (init_user_regs arch r pc sp m) = Inr MODE_USER \<and>
   load64 (init_user_regs arch r pc sp m) (reg_at r (pc_reg arch)) = pc \<and>
   load64 (init_user_regs arch r pc sp m) (reg_at r (sp_reg arch)) = sp \<and>
   set_reg_arg arch r 2 v m = Inl (Panic ''set_reg_arg: invalid idx'') \<and>
   (\<exists>m1 m2. set_reg_arg arch r 0 a (init_user_regs arch r pc sp m) = Inr m1 \<and> set_reg_arg arch r 1 b m1 = Inr m2 \<and>
      load64 m1 (reg_at r (arg_reg arch 1)) = 0 \<and>
      load64 m2 (reg_at r (arg_reg arch 0)) = a \<and> load64 m2 (reg_at r (arg_reg arch 1)) = b \<and>
      load64 m2 (reg_at r (pc_reg arch)) = pc \<and> load64 m2 (reg_at r (sp_reg arch)) = sp \<and>
      get_reg_mode arch r m2 = Inr MODE_USER)"
  by (cases arch)
    (simp_all add: x86_get_reg_mode_def x86_init_user_regs_def x86_set_reg_arg_def
      arm_get_reg_mode_def arm_init_user_regs_def arm_set_reg_arg_def
      riscv_get_reg_mode_def riscv_init_user_regs_def riscv_set_reg_arg_def
      Let_def reg_positions load_store_reg load_memset_reg user_mode_bits)

end
