(* ===== verification/Sky_Task.thy ===== *)
theory Sky_Task
  imports Sky_Stdio Sky_List Sky_Cpu
begin

text \<open>
  Tasks and threads (inc/task.h), sleeping and waking (src/kernel/sleep.c) and the scheduler
  (src/kernel/scheduler.c), with the parts of src/kernel/task.c and src/kernel/thread.c that end a
  task.

  A \<open>task_t *\<close> is an index into \<open>task_pool\<close>. A \<open>thread_t *\<close> is a \<open>tref\<close>: the thread embedded in a task,
  or the scratch thread on the stack of \<open>init_scheduler\<close>. The links of the task list are named by the
  list head and by the task that holds them. The resources threads sleep on are addresses in the source;
  here they are named: the \<open>waiting_child\<close> field of a task, a terminal, or \<open>active_display\<close>.

  \<open>cswitch\<close> is assembly: it saves the registers of the old thread and returns on the stack of the new
  one. For the C function that calls it, it returns when some other thread switches back, and until
  then the rest of the system runs. It is the parameter \<open>cs\<close> of the functions that switch, an operation
  of the old and the new thread; what a property needs of it is a hypothesis of the property.
\<close>

section \<open>inc/task.h\<close>

datatype thread_state = THREAD_STATE_NONE | THREAD_READY | THREAD_SLEEPING | THREAD_ZOMBIE

datatype tref = TaskThread nat | ScratchThread

datatype lref = ListHead | TaskLink nat

datatype resource = WaitingChild nat | TtyInput tty_ref | ActiveDisplay

record thread_t =
  saved_sp :: u64
  kstack_pg :: u64
  th_task :: "nat option"
  sleep_reason :: "resource option"
  th_state :: thread_state
  trapdepth :: usize
  uregs :: u64

record task_t =
  thread :: thread_t
  pagetable :: u64
  fds :: "nat option list"
  parent :: "nat option"
  waiting_child :: "nat option"
  child_exit_code :: u64
  taskname :: "u8 list"
  taskmode :: cpu_mode
  pending_sigint :: bool
  t_valid :: bool

definition MAX_TASKS :: nat where "MAX_TASKS = 2048"
definition TASK_NAMELEN :: nat where "TASK_NAMELEN = 128"
definition TASK_NUM_FILES :: nat where "TASK_NUM_FILES = 16"
definition TASK_MAX_ARGS :: nat where "TASK_MAX_ARGS = 32"
definition TASK_ARG_LEN :: usize where "TASK_ARG_LEN = 128"
definition SPAWN_WAIT :: u64 where "SPAWN_WAIT = 0"
definition SPAWN_NOWAIT :: u64 where "SPAWN_NOWAIT = 1"

record task_state = fs_state +
  task_pool :: "task_t list"
  task_links :: "lref links"
  cur_thread :: "tref option"
  idle_task :: "nat option"
  scratch_thread :: thread_t
  entry_kstack :: u64

definition is_thread_ready :: "thread_t \<Rightarrow> bool" where
  "is_thread_ready th \<longleftrightarrow> th_state th = THREAD_READY"

section \<open>Pointers to tasks and threads\<close>

definition get_task :: "nat option \<Rightarrow> ('z task_state_scheme, task_t) kop" where
  "get_task t = kbind (kgets task_pool) (\<lambda>pool.
     case t of None \<Rightarrow> kfault ''task: NULL''
     | Some i \<Rightarrow> if i < length pool then kreturn (pool ! i) else kfault ''task: bad pointer'')"

definition upd_task :: "nat option \<Rightarrow> (task_t \<Rightarrow> task_t) \<Rightarrow> ('z task_state_scheme, unit) kop" where
  "upd_task t f = kbind (get_task t) (\<lambda>x. kmodify (\<lambda>s. s\<lparr>task_pool := (task_pool s)[the t := f x]\<rparr>))"

definition get_thread :: "tref option \<Rightarrow> ('z task_state_scheme, thread_t) kop" where
  "get_thread th =
     (case th of None \<Rightarrow> kfault ''thread: NULL''
      | Some (TaskThread i) \<Rightarrow> kbind (get_task (Some i)) (\<lambda>x. kreturn (thread x))
      | Some ScratchThread \<Rightarrow> kgets scratch_thread)"

definition upd_thread :: "tref option \<Rightarrow> (thread_t \<Rightarrow> thread_t) \<Rightarrow> ('z task_state_scheme, unit) kop" where
  "upd_thread th f =
     (case th of None \<Rightarrow> kfault ''thread: NULL''
      | Some (TaskThread i) \<Rightarrow> upd_task (Some i) (\<lambda>x. x\<lparr>thread := f (thread x)\<rparr>)
      | Some ScratchThread \<Rightarrow> kmodify (\<lambda>s. s\<lparr>scratch_thread := f (scratch_thread s)\<rparr>))"

definition upd_links :: "(lref links \<Rightarrow> kerr + lref links) \<Rightarrow> ('z task_state_scheme, unit) kop" where
  "upd_links f = kbind (kgets task_links) (\<lambda>k. kbind (klift (f k)) (\<lambda>k'. kmodify (\<lambda>s. s\<lparr>task_links := k'\<rparr>)))"

text \<open>\<open>container_of (pos, thread_t, link)\<close>: the thread a link of the list belongs to.\<close>

primrec link_task :: "lref \<Rightarrow> nat option" where
  "link_task ListHead = None"
| "link_task (TaskLink i) = Some i"

section \<open>src/kernel/sleep.c and the current thread\<close>

definition current_thread :: "('z task_state_scheme, tref option) kop" where
  "current_thread = kgets cur_thread"

definition current_task :: "('z task_state_scheme, nat option) kop" where
  "current_task = kbind (kgets cur_thread) (\<lambda>c. kbind (get_thread c) (\<lambda>th. kreturn (th_task th)))"

definition assert_ints_off :: "('z machine_scheme, unit) kop" where
  "assert_ints_off = kbind cpu_ints_enabled (\<lambda>on. kassert (\<not> on) ''assert'')"

definition wakeup_body :: "resource \<Rightarrow> lref \<Rightarrow> ('z task_state_scheme, unit) kop" where
  "wakeup_body res pos =
     kbind (get_task (link_task pos)) (\<lambda>t.
       kwhen (th_state (thread t) = THREAD_SLEEPING \<and> sleep_reason (thread t) = Some res)
         (upd_task (link_task pos) (\<lambda>t. t\<lparr>thread := (thread t)\<lparr>sleep_reason := None, th_state := THREAD_READY\<rparr>\<rparr>)))"

definition wakeup :: "resource \<Rightarrow> ('z task_state_scheme, unit) kop" where
  "wakeup res =
     kbind current_thread (\<lambda>c.
       if c = None then kreturn ()
       else kseq assert_ints_off (list_for_each task_links ListHead (wakeup_body res)))"

section \<open>src/kernel/thread.c and src/kernel/task.c: ending a task\<close>

definition free_thread :: "nat option \<Rightarrow> ('z task_state_scheme, unit) kop" where
  "free_thread t =
     kbind (get_task t) (\<lambda>x.
     kseq (kwhen (kstack_pg (thread x) \<noteq> 0) (free_page (kstack_pg (thread x)) PAGE_SMALL))
     (upd_task t (\<lambda>x. x\<lparr>thread := (thread x)\<lparr>kstack_pg := 0\<rparr>\<rparr>)))"

definition orphan_body :: "nat option \<Rightarrow> lref \<Rightarrow> ('z task_state_scheme, unit) kop" where
  "orphan_body t pos =
     kbind (get_task (link_task pos)) (\<lambda>c.
     kbind (get_task (th_task (thread c))) (\<lambda>x.
       kwhen (parent x = t) (upd_task (th_task (thread c)) (\<lambda>x. x\<lparr>parent := None\<rparr>))))"

definition close_fd :: "nat option \<Rightarrow> nat \<Rightarrow> ('z task_state_scheme, unit) kop" where
  "close_fd t i =
     kbind (get_task t) (\<lambda>x.
       if i < length (fds x)
       then (case fds x ! i of None \<Rightarrow> kreturn () | Some f \<Rightarrow> file_close f)
       else kfault ''fds index'')"

definition free_task :: "pte_ops \<Rightarrow> nat option \<Rightarrow> ('z task_state_scheme, unit) kop" where
  "free_task ops t =
     kbind current_task (\<lambda>c.
     kseq (kassert (c \<noteq> t) ''assert'')
     (kseq (list_for_each task_links ListHead (orphan_body t))
     (kseq (kfor [0..<TASK_NUM_FILES] (close_fd t))
     (kbind (get_task t) (\<lambda>x.
     kseq (unmap_kernel ops (pagetable x))
     (kseq (free_pagetable ops (pagetable x))
     (kseq (free_thread t)
     (kseq (upd_task t (\<lambda>x. x\<lparr>taskmode := CPU_MODE_UNDEFINED\<rparr>))
     (upd_task t (\<lambda>x. x\<lparr>t_valid := False\<rparr>))))))))))"

definition task_send_sigkill :: "nat option \<Rightarrow> ('z task_state_scheme, unit) kop" where
  "task_send_sigkill t = upd_task t (\<lambda>x. x\<lparr>pending_sigint := True\<rparr>)"

definition interrupt_body :: "tty_ref \<Rightarrow> lref \<Rightarrow> ('z task_state_scheme, unit) kop" where
  "interrupt_body tty pos =
     kbind (get_task (link_task pos)) (\<lambda>c.
       if \<not> is_thread_ready (thread c) then kreturn ()
       else
         kbind (get_task (th_task (thread c))) (\<lambda>x.
           if length (fds x) \<le> FD_STDIN then kfault ''fds index''
           else (case fds x ! FD_STDIN of
                   None \<Rightarrow> kreturn ()
                 | Some f \<Rightarrow>
                     kbind (get_file f) (\<lambda>file.
                       if f_tty file \<noteq> Some tty then kreturn ()
                       else task_send_sigkill (th_task (thread c))))))"

definition task_interrupt_by_tty :: "tty_ref \<Rightarrow> ('z task_state_scheme, unit) kop" where
  "task_interrupt_by_tty tty = list_for_each_safe task_links ListHead (interrupt_body tty)"

section \<open>src/kernel/scheduler.c\<close>

text \<open>\<open>cpu_set_entry_kstack\<close> of the three ISAs: the TSS, nothing, and sscratch.\<close>

primrec cpu_set_entry_kstack :: "isa \<Rightarrow> tref option \<Rightarrow> ('z task_state_scheme, unit) kop" where
  "cpu_set_entry_kstack X86_64 th =
     kbind (get_thread th) (\<lambda>x. kmodify (\<lambda>s. s\<lparr>entry_kstack := STACK_BOTTOM (kstack_pg x)\<rparr>))"
| "cpu_set_entry_kstack AARCH64 th = kreturn ()"
| "cpu_set_entry_kstack RISCV64 th =
     kbind (get_thread th) (\<lambda>x.
       if trapdepth x > 1 then kmodify (\<lambda>s. s\<lparr>entry_kstack := 0\<rparr>)
       else
         kbind (get_task (th_task x)) (\<lambda>t.
           if MODE_KERN = taskmode t then kmodify (\<lambda>s. s\<lparr>entry_kstack := 0\<rparr>)
           else if MODE_USER = taskmode t then
             kseq (kassert (trapdepth x \<le> 1) ''assert'')
               (kmodify (\<lambda>s. s\<lparr>entry_kstack := STACK_BOTTOM (kstack_pg x)\<rparr>))
           else kpanic ''cpu_set_entry_kstack: unhandled case''))"

type_synonym 's cswitch_op = "tref option \<Rightarrow> tref option \<Rightarrow> ('s, unit) kop"

definition switchto :: "isa \<Rightarrow> 'z task_state_scheme cswitch_op \<Rightarrow> tref option \<Rightarrow> ('z task_state_scheme, unit) kop" where
  "switchto arch cs next =
     kbind current_thread (\<lambda>prev.
     kseq assert_ints_off
     (kseq (cpu_set_entry_kstack arch next)
     (kbind (get_thread next) (\<lambda>n.
     kbind (get_task (th_task n)) (\<lambda>t.
     kseq (cpu_set_pagetable arch (pagetable t))
     (kseq (kassert (THREAD_READY = th_state n) ''assert'')
     (kseq (kmodify (\<lambda>s. s\<lparr>cur_thread := next\<rparr>))
     (cs prev next))))))))"

definition thread_trap_enter :: "isa \<Rightarrow> u64 \<Rightarrow> ('z task_state_scheme, unit) kop" where
  "thread_trap_enter arch r =
     kbind current_thread (\<lambda>c.
       if c = None then kreturn ()
       else
         kseq (upd_thread c (\<lambda>x. x\<lparr>trapdepth := trapdepth x + 1\<rparr>))
         (kbind (get_thread c) (\<lambda>x.
          kseq (kwhen (1 = trapdepth x) (upd_thread c (\<lambda>x. x\<lparr>uregs := r\<rparr>)))
         (kseq (kassert (trapdepth x \<noteq> 0) ''assert'')
         (kbind (get_task (th_task x)) (\<lambda>t.
         (let mode_is = (\<lambda>md. kbind (kgets (\<lambda>s. get_reg_mode arch r (mem s))) (\<lambda>q. kbind (klift q) (\<lambda>q. kassert (md = q) ''assert'')))
          in kseq (kwhen (MODE_KERN = taskmode t) (mode_is MODE_KERN))
             (kwhen (MODE_USER = taskmode t)
               (if 1 = trapdepth x then mode_is MODE_USER else mode_is MODE_KERN)))))))))"

definition thread_trap_exit :: "isa \<Rightarrow> ('z task_state_scheme, unit) kop" where
  "thread_trap_exit arch =
     kbind current_thread (\<lambda>c.
       if c = None then kreturn ()
       else
         kbind (get_thread c) (\<lambda>x.
         kseq (kassert (trapdepth x \<noteq> 0) ''assert'')
         (kseq (upd_thread c (\<lambda>x. x\<lparr>trapdepth := trapdepth x - 1\<rparr>))
         (kbind (get_thread c) (\<lambda>x.
          kwhen (0 = trapdepth x) (cpu_set_entry_kstack arch c))))))"

text \<open>The test of both loops of \<open>find_runnable_thread\<close>.\<close>

definition runnable_test :: "'z task_state_scheme \<Rightarrow> lref \<Rightarrow> kerr + bool" where
  "runnable_test s pos =
     (case get_task (link_task pos) s of
        Inl e \<Rightarrow> Inl e
      | Inr (t, _) \<Rightarrow> Inr (th_task (thread t) \<noteq> idle_task s \<and> is_thread_ready (thread t)))"

primrec thread_link :: "tref \<Rightarrow> lref option" where
  "thread_link (TaskThread i) = Some (TaskLink i)"
| "thread_link ScratchThread = None"

definition next_link :: "tref option \<Rightarrow> ('z task_state_scheme, lref option) kop" where
  "next_link th =
     (case th of None \<Rightarrow> kfault ''thread: NULL''
      | Some x \<Rightarrow> (case thread_link x of None \<Rightarrow> kfault ''link not initialised''
                    | Some l \<Rightarrow> kgets (\<lambda>s. next_of (task_links s) l)))"

definition find_runnable_thread :: "('z task_state_scheme, tref option) kop" where
  "find_runnable_thread =
     kbind current_thread (\<lambda>c.
     kbind (next_link c) (\<lambda>start.
     kbind (kloop ''find_runnable_thread'' (\<lambda>s. find_each_loop (task_links s) ListHead (runnable_test s) start)) (\<lambda>r.
     kbind (klift r) (\<lambda>found.
       case found of
         Some l \<Rightarrow> kreturn (map_option TaskThread (link_task l))
       | None \<Rightarrow>
           kbind (kgets (\<lambda>s. next_of (task_links s) ListHead)) (\<lambda>pos.
           if pos = None then kfault ''list: NULL''
           else
             kbind (kloop ''find_runnable_thread'' (\<lambda>s.
               find_each_safe_loop (task_links s) ListHead (runnable_test s) pos (next_of (task_links s) (the pos)))) (\<lambda>r.
             kbind (klift r) (\<lambda>found.
               case found of
                 Some l \<Rightarrow> kreturn (map_option TaskThread (link_task l))
               | None \<Rightarrow>
                   kbind (kgets idle_task) (\<lambda>idle.
                   kbind (get_task idle) (\<lambda>x.
                   kseq (kassert (is_thread_ready (thread x)) ''assert'')
                   (kreturn (map_option TaskThread idle)))))))))))"

definition reap_body :: "pte_ops \<Rightarrow> lref \<Rightarrow> ('z task_state_scheme, unit) kop" where
  "reap_body ops pos =
     kbind (get_task (link_task pos)) (\<lambda>x.
     kbind current_thread (\<lambda>c.
       kwhen (map_option TaskThread (link_task pos) \<noteq> c \<and> THREAD_ZOMBIE = th_state (thread x))
         (kseq (upd_links (list_del pos)) (free_task ops (th_task (thread x))))))"

definition reap_zombies :: "pte_ops \<Rightarrow> ('z task_state_scheme, unit) kop" where
  "reap_zombies ops = kseq assert_ints_off (list_for_each_safe task_links ListHead (reap_body ops))"

text \<open>
  \<open>scheduler\<close>, \<open>task_handle_signals\<close> and \<open>task_exit\<close> call each other. The recursion is on \<open>scheduler\<close>; the
  two halves of \<open>task_exit\<close> around its call of the scheduler are named.
\<close>

definition task_exit_begin :: "nat option \<Rightarrow> u64 \<Rightarrow> ('z task_state_scheme, unit) kop" where
  "task_exit_begin t reason =
     kbind (get_task t) (\<lambda>x.
     kseq
       (if parent x = None then kreturn ()
        else
          kbind (get_task (parent x)) (\<lambda>p.
            kwhen (THREAD_SLEEPING = th_state (thread p) \<and> t = waiting_child p)
              (kseq (upd_task (parent x) (\<lambda>p. p\<lparr>waiting_child := None\<rparr>))
              (kseq (upd_task (parent x) (\<lambda>p. p\<lparr>child_exit_code := reason\<rparr>))
              (wakeup (WaitingChild (the (parent x))))))))
     (upd_task t (\<lambda>x. x\<lparr>thread := (thread x)\<lparr>th_state := THREAD_ZOMBIE\<rparr>\<rparr>)))"

definition task_exit_end :: "nat option \<Rightarrow> ('z task_state_scheme, unit) kop" where
  "task_exit_end t =
     kbind current_task (\<lambda>c.
       if c = t then kpanic ''task_exit: scheduler() returned to a task that should have been deleted''
       else kreturn ())"

text \<open>The part of \<open>scheduler\<close> up to the return from the context switch.\<close>

definition scheduler_switch :: "isa \<Rightarrow> 'z task_state_scheme cswitch_op \<Rightarrow> ('z task_state_scheme, bool) kop" where
  "scheduler_switch arch cs =
     kbind (cpu_set_ints False) (\<lambda>old_ints.
     kseq assert_ints_off
     (kseq (reap_zombies (isa_pte arch))
     (kbind find_runnable_thread (\<lambda>next.
     kseq (switchto arch cs next)
     (kreturn old_ints)))))"

text \<open>The task whose signals are handled then, if one is pending.\<close>

definition signalled_task :: "('z task_state_scheme, nat option \<times> bool) kop" where
  "signalled_task = kbind current_task (\<lambda>t. kbind (get_task t) (\<lambda>x. kreturn (t, pending_sigint x)))"

partial_function (option) scheduler_loop ::
  "isa \<Rightarrow> 'z task_state_scheme cswitch_op \<Rightarrow> 'z task_state_scheme \<Rightarrow> (kerr + unit \<times> 'z task_state_scheme) option" where
  "scheduler_loop arch cs s =
     (case scheduler_switch arch cs s of
        Inl e \<Rightarrow> Some (Inl e)
      | Inr (old_ints, s1) \<Rightarrow>
         (case signalled_task s1 of
            Inl e \<Rightarrow> Some (Inl e)
          | Inr ((t, pending), s2) \<Rightarrow>
              if pending
              then (case kseq (kbind current_task (\<lambda>c. kassert (c = t) ''assert'')) (task_exit_begin t 0) s2 of
                      Inl e \<Rightarrow> Some (Inl e)
                    | Inr (_, s3) \<Rightarrow>
                        Option.bind (scheduler_loop arch cs s3) (\<lambda>r.
                          Some (case r of Inl e \<Rightarrow> Inl e
                                | Inr (_, s4) \<Rightarrow> kseq (task_exit_end t) (kseq (cpu_set_ints old_ints) (kreturn ())) s4)))
              else Some (kseq (cpu_set_ints old_ints) (kreturn ()) s2)))"

definition scheduler :: "isa \<Rightarrow> 'z task_state_scheme cswitch_op \<Rightarrow> ('z task_state_scheme, unit) kop" where
  "scheduler arch cs = khang (scheduler_loop arch cs)"

definition task_exit :: "isa \<Rightarrow> 'z task_state_scheme cswitch_op \<Rightarrow> nat option \<Rightarrow> u64 \<Rightarrow> ('z task_state_scheme, unit) kop" where
  "task_exit arch cs t reason =
     kseq (task_exit_begin t reason) (kseq (scheduler arch cs) (task_exit_end t))"

definition task_handle_signals :: "isa \<Rightarrow> 'z task_state_scheme cswitch_op \<Rightarrow> nat option \<Rightarrow> ('z task_state_scheme, unit) kop" where
  "task_handle_signals arch cs t =
     kbind (get_task t) (\<lambda>x.
       kwhen (pending_sigint x)
         (kseq (kbind current_task (\<lambda>c. kassert (c = t) ''assert''))
         (task_exit arch cs t 0)))"

definition run_scheduler_if_idle :: "isa \<Rightarrow> 'z task_state_scheme cswitch_op \<Rightarrow> ('z task_state_scheme, unit) kop" where
  "run_scheduler_if_idle arch cs =
     kbind current_task (\<lambda>c. kbind (kgets idle_task) (\<lambda>i. kwhen (c = i) (scheduler arch cs)))"

text \<open>The two assignments of \<open>sleep\<close> before it gives up the CPU.\<close>

definition sleep_begin :: "tref option \<Rightarrow> resource \<Rightarrow> ('z task_state_scheme, unit) kop" where
  "sleep_begin th res =
     kseq (upd_thread th (\<lambda>x. x\<lparr>th_state := THREAD_SLEEPING\<rparr>))
     (upd_thread th (\<lambda>x. x\<lparr>sleep_reason := Some res\<rparr>))"

definition sleep :: "isa \<Rightarrow> 'z task_state_scheme cswitch_op \<Rightarrow> resource \<Rightarrow> ('z task_state_scheme, unit) kop" where
  "sleep arch cs res =
     kbind current_thread (\<lambda>th.
       if th = None then kpanic ''sleep: tried to sleep but there isn't a thread yet''
       else
         kseq (sleep_begin th res)
         (kseq (scheduler arch cs)
         (kbind (get_thread th) (\<lambda>x.
         kseq (kassert (THREAD_READY = th_state x) ''assert'')
         (kbind current_thread (\<lambda>c.
         kseq (kassert (c = th) ''assert'')
         (kassert (sleep_reason x = None) ''assert'')))))))"

end
