(* ===== verification/Sky_Sched.thy ===== *)
theory Sky_Sched
  imports Sky_Task
begin

text \<open>
  The scheduler's invariant and its correctness: the search for the next thread is round robin and
  starves no ready thread, and waking and interrupting reach exactly the threads they name.
\<close>

section \<open>The recursion of the scheduler\<close>

text \<open>\<open>scheduler\<close> as the source writes it, with its call of \<open>task_handle_signals\<close>.\<close>

lemma kbind_cong: "m s = m' s \<Longrightarrow> (\<And>a s'. m' s = Inr (a, s') \<Longrightarrow> f a s' = g a s') \<Longrightarrow> kbind m f s = kbind m' g s"
  by (auto simp: kbind_def split: sum.splits)

lemma signalled_task_run:
  "signalled_task s = Inr ((t, p), s') \<Longrightarrow> s' = s \<and> current_task s = Inr (t, s) \<and>
     (\<exists>x. get_task t s = Inr (x, s) \<and> p = pending_sigint x)"
  by (auto simp: signalled_task_def current_task_def get_task_def get_thread_def kop_defs
    split: sum.splits option.splits tref.splits if_splits)

lemma scheduler_unfold:
  "scheduler arch cs s =
    kbind (scheduler_switch arch cs) (\<lambda>old_ints.
    kbind current_task (\<lambda>t.
    kseq (task_handle_signals arch cs t)
    (kseq (cpu_set_ints old_ints) (kreturn ())))) s"
proof (cases "scheduler_switch arch cs s")
  case (Inl e)
  then show ?thesis by (simp add: scheduler_def khang_def scheduler_loop.simps [of arch cs s] kop_simps)
next
  case (Inr r)
  obtain old s1 where r: "r = (old, s1)" by (cases r)
  show ?thesis
  proof (cases "signalled_task s1")
    case (Inl e)
    then have "kbind current_task (\<lambda>t. kseq (task_handle_signals arch cs t) (kseq (cpu_set_ints old) (kreturn ()))) s1 = Inl e"
      by (auto simp: signalled_task_def task_handle_signals_def kbind_def kseq_def kreturn_def split: sum.splits)
    with Inl Inr r show ?thesis by (simp add: scheduler_def khang_def scheduler_loop.simps [of arch cs s] kop_simps)
  next
    case sig: (Inr q)
    obtain t p s2 where q: "q = ((t, p), s2)" by (metis prod.exhaust)
    from signalled_task_run [OF sig [unfolded q]] obtain x where
      x: "s2 = s1" "current_task s1 = Inr (t, s1)" "get_task t s1 = Inr (x, s1)" "p = pending_sigint x" by blast
    let ?ex = "kseq (kbind current_task (\<lambda>c. kassert (c = t) ''assert'')) (task_exit_begin t 0)"
    show ?thesis
    proof (cases "p")
      case False
      then show ?thesis
        using Inr r sig q x
        by (simp add: scheduler_def khang_def scheduler_loop.simps [of arch cs s] kop_simps task_handle_signals_def)
    next
      case True
      have b: "kbind current_task (\<lambda>c. kassert (c = t) ''assert'') s1 = Inr ((), s1)" using x by (simp add: kop_simps)
      have rest: "kbind current_task (\<lambda>t. kseq (task_handle_signals arch cs t) (kseq (cpu_set_ints old) (kreturn ()))) s1 =
          kseq (task_exit arch cs t 0) (kseq (cpu_set_ints old) (kreturn ())) s1"
        using x True b by (simp add: kbind_def kseq_def task_handle_signals_def kwhen_def split: sum.splits)
      show ?thesis
      proof (cases "task_exit_begin t 0 s1")
        case (Inl e)
        then show ?thesis
          using Inr r sig q x True b rest
          by (simp add: scheduler_def khang_def scheduler_loop.simps [of arch cs s] kop_simps task_exit_def)
      next
        case ex: (Inr w)
        obtain s3 where w: "w = ((), s3)" by (cases w) simp
        have ex': "?ex s1 = Inr ((), s3)" using b ex w by (simp add: kop_simps)
        show ?thesis
          using Inr r sig q x True ex' rest ex w
          by (cases "scheduler_loop arch cs s3")
            (auto simp: scheduler_def khang_def scheduler_loop.simps [of arch cs s] kop_simps task_exit_def kseq_def kbind_def split: sum.splits)
      qed
    qed
  qed
qed

section \<open>The invariant\<close>

definition sched_inv :: "nat list \<Rightarrow> 'z task_state_scheme \<Rightarrow> bool" where
  "sched_inv xs s \<longleftrightarrow> length (task_pool s) = MAX_TASKS \<and> dlist (task_links s) ListHead (map TaskLink xs) \<and>
     (\<forall>i \<in> set xs. i < MAX_TASKS \<and> t_valid (task_pool s ! i) \<and> th_task (thread (task_pool s ! i)) = Some i) \<and>
     (\<exists>d \<in> set xs. idle_task s = Some d \<and> th_state (thread (task_pool s ! d)) = THREAD_READY) \<and>
     (\<exists>c \<in> set xs. cur_thread s = Some (TaskThread c))"

definition state_of :: "'z task_state_scheme \<Rightarrow> nat \<Rightarrow> thread_state" where
  "state_of s i = th_state (thread (task_pool s ! i))"

definition can_run :: "'z task_state_scheme \<Rightarrow> nat \<Rightarrow> bool" where
  "can_run s i \<longleftrightarrow> idle_task s \<noteq> Some i \<and> state_of s i = THREAD_READY"

lemma get_task_run: "i < length (task_pool s) \<Longrightarrow> get_task (Some i) s = Inr (task_pool s ! i, s)"
  by (simp add: get_task_def kop_simps)

lemma upd_task_run:
  "i < length (task_pool s) \<Longrightarrow> upd_task (Some i) f s = Inr ((), s\<lparr>task_pool := (task_pool s)[i := f (task_pool s ! i)]\<rparr>)"
  by (simp add: upd_task_def kop_simps get_task_run)

lemma sched_inv_task:
  "sched_inv xs s \<Longrightarrow> i \<in> set xs \<Longrightarrow> i < length (task_pool s) \<and> th_task (thread (task_pool s ! i)) = Some i"
  by (auto simp: sched_inv_def)

lemma runnable_test_run:
  "sched_inv xs s \<Longrightarrow> i \<in> set xs \<Longrightarrow> runnable_test s (TaskLink i) = Inr (can_run s i)"
  using sched_inv_task [of xs s i]
  by (auto simp: runnable_test_def get_task_run can_run_def state_of_def is_thread_ready_def)

text \<open>The thread the scheduler picks: the first that can run in the order that starts after the current one.\<close>

definition pick :: "'z task_state_scheme \<Rightarrow> nat list \<Rightarrow> nat" where
  "pick s order = (case find (can_run s) order of Some t \<Rightarrow> t | None \<Rightarrow> the (idle_task s))"

lemma find_append: "find P (xs @ ys) = (case find P xs of None \<Rightarrow> find P ys | Some x \<Rightarrow> Some x)"
  by (induction xs) auto

lemma find_map_link: "find (\<lambda>l. P (the (link_task l))) (map TaskLink xs) = map_option TaskLink (find P xs)"
  by (induction xs) auto

lemma find_runnable_run:
  assumes inv: "sched_inv (as @ c # bs) s" and c: "cur_thread s = Some (TaskThread c)"
  shows "find_runnable_thread s = Inr (Some (TaskThread (pick s (bs @ as @ [c]))), s)"
proof -
  let ?xs = "as @ c # bs" and ?k = "task_links s"
  have d: "linked ?k (ListHead # map TaskLink ?xs @ [ListHead])" using inv by (simp add: sched_inv_def dlist_def)
  then have "linked ?k ((ListHead # map TaskLink as) @ TaskLink c # (map TaskLink bs @ [ListHead]))" by simp
  then have "linked ?k (TaskLink c # (map TaskLink bs @ [ListHead]))"
    by (rule linked_append [THEN iffD2, THEN conjunct2])
  then have lb: "linked ?k (map TaskLink bs @ [ListHead])" and nc: "next_of ?k (TaskLink c) = Some (hd (map TaskLink bs @ [ListHead]))"
    by (cases bs; simp)+
  have nh: "next_of ?k ListHead = Some (hd (map TaskLink ?xs @ [ListHead]))" using d by (cases as) auto
  have T: "runnable_test s l = Inr (can_run s (the (link_task l)))" if "l \<in> set (map TaskLink ?xs)" for l
    using that runnable_test_run [OF inv] by auto
  have one: "find_each_loop ?k ListHead (runnable_test s) (Some (hd (map TaskLink bs @ [ListHead]))) =
      Some (Inr (map_option TaskLink (find (can_run s) bs)))"
    unfolding find_map_link [of "can_run s", symmetric] by (rule find_each_loop_find [OF lb]) (use T in auto)
  have two: "find_each_safe_loop ?k ListHead (runnable_test s) (Some (hd (map TaskLink ?xs @ [ListHead])))
        (next_of ?k (hd (map TaskLink ?xs @ [ListHead]))) = Some (Inr (map_option TaskLink (find (can_run s) ?xs)))"
    unfolding find_map_link [of "can_run s", symmetric] by (rule find_each_safe_loop_find [OF d]) (use T in auto)
  have start: "kbind current_thread (\<lambda>c. next_link c) s = Inr (Some (hd (map TaskLink bs @ [ListHead])), s)"
    by (simp add: current_thread_def next_link_def kop_simps c nc)
  show ?thesis
  proof (cases "find (can_run s) bs")
    case (Some t)
    then show ?thesis
      by (simp add: find_runnable_thread_def current_thread_def next_link_def kop_simps c nc kloop_def one pick_def find_append)
  next
    case None
    have fe: "find (can_run s) ?xs = find (can_run s) (as @ [c])"
      using None by (simp add: find_append split: option.splits)
    obtain dd where dd: "dd \<in> set ?xs" "idle_task s = Some dd" "th_state (thread (task_pool s ! dd)) = THREAD_READY"
      using inv by (auto simp: sched_inv_def)
    then have "get_task (idle_task s) s = Inr (task_pool s ! dd, s)" using sched_inv_task [OF inv dd(1)] by (simp add: get_task_run)
    note step = this None
    have pk: "pick s (bs @ as @ [c]) = (case find (can_run s) (as @ [c]) of Some t \<Rightarrow> t | None \<Rightarrow> dd)"
      unfolding pick_def find_append [of _ bs] using None dd(2) by (simp split: option.split)
    show ?thesis
    proof (cases "find (can_run s) (as @ [c])")
      case (Some t)
      then have "find (can_run s) ?xs = Some t" using fe by simp
      with step two pk Some show ?thesis
        by (simp add: find_runnable_thread_def current_thread_def next_link_def kop_simps c nc kloop_def one nh)
    next
      case none: None
      then have "find (can_run s) ?xs = None" using fe by simp
      with none step two pk dd(2,3) show ?thesis
        by (simp add: find_runnable_thread_def current_thread_def next_link_def kop_simps c nc kloop_def one nh is_thread_ready_def)
    qed
  qed
qed

section \<open>Round robin\<close>

text \<open>The order of the search: the tasks after the current one, then those before it, then itself.\<close>

definition rr_order :: "nat list \<Rightarrow> nat \<Rightarrow> nat list" where
  "rr_order xs c = tl (dropWhile ((\<noteq>) c) xs) @ takeWhile ((\<noteq>) c) xs @ [c]"

lemma rr_order_split: "c \<notin> set as \<Longrightarrow> rr_order (as @ c # bs) c = bs @ as @ [c]"
  by (simp add: rr_order_def dropWhile_append takeWhile_append)

lemma rr_order_set: "c \<in> set xs \<Longrightarrow> distinct xs \<Longrightarrow> set (rr_order xs c) = set xs \<and> length (rr_order xs c) = length xs \<and> distinct (rr_order xs c)"
  using split_list_first [of c xs] rr_order_split by auto

lemma append_split:
  "xs @ ys = us @ p # ws \<Longrightarrow> (\<exists>v. xs = us @ p # v \<and> ws = v @ ys) \<or> (\<exists>v. us = xs @ v \<and> ys = v @ p # ws)"
proof (induction xs arbitrary: us)
  case (Cons x xs)
  then show ?case by (cases us) auto
qed simp

lemma rr_rotate:
  assumes "distinct xs" and "c \<in> set xs" and "rr_order xs c = u @ p # w"
  shows "rr_order xs p = w @ u @ [p]"
proof -
  obtain as bs where xs: "xs = as @ c # bs" "c \<notin> set as" using split_list_first [OF assms(2)] by blast
  then have eq: "bs @ as @ [c] = u @ p # w" using assms(3) rr_order_split by simp
  then have "(\<exists>v. bs = u @ p # v \<and> w = v @ as @ [c]) \<or> (\<exists>v. u = bs @ v \<and> as @ [c] = v @ p # w)"
    by (rule append_split)
  then show ?thesis
  proof (elim disjE exE conjE)
    fix v assume v: "bs = u @ p # v" "w = v @ as @ [c]"
    then have "xs = (as @ c # u) @ p # v" "p \<notin> set (as @ c # u)" using xs assms(1) by auto
    then show ?thesis using rr_order_split [of p "as @ c # u" v] v by simp
  next
    fix v assume v: "u = bs @ v" "as @ [c] = v @ p # w"
    show ?thesis
    proof (cases w rule: rev_cases)
      case Nil
      then show ?thesis using v xs rr_order_split [of c as bs] by auto
    next
      case (snoc w' z)
      then have "as = v @ p # w'" "z = c" using v by auto
      then have "xs = v @ p # (w' @ c # bs)" "p \<notin> set v" using xs assms(1) by auto
      then show ?thesis using rr_order_split [of p v "w' @ c # bs"] v snoc \<open>z = c\<close> by simp
    qed
  qed
qed

lemma sched_inv_distinct: "sched_inv xs s \<Longrightarrow> distinct xs"
  by (auto simp: sched_inv_def dlist_def distinct_map)

lemma find_runnable_rr:
  assumes inv: "sched_inv xs s" and c: "cur_thread s = Some (TaskThread c)"
  shows "find_runnable_thread s = Inr (Some (TaskThread (pick s (rr_order xs c))), s)" and "c \<in> set xs"
proof -
  show cin: "c \<in> set xs" using inv c by (auto simp: sched_inv_def)
  then obtain as bs where "xs = as @ c # bs" "c \<notin> set as" by (meson split_list_first)
  then show "find_runnable_thread s = Inr (Some (TaskThread (pick s (rr_order xs c))), s)"
    using find_runnable_run [of as c bs s] inv c by (simp add: rr_order_split)
qed

lemma pick_found:
  assumes "t \<in> set order" and "can_run s t"
  obtains us vs where "order = us @ pick s order # vs" "\<forall>u \<in> set us. \<not> can_run s u" "can_run s (pick s order)"
proof -
  obtain us x vs where x: "order = us @ x # vs" "\<forall>u \<in> set us. \<not> can_run s u" "can_run s x"
    using assms by (metis split_list_first_propE)
  then have "find (can_run s) us = None" by (simp add: find_None_iff)
  then have "pick s order = x" using x by (simp add: pick_def find_append)
  with x show ?thesis using that [of us vs] by simp
qed

text \<open>C22: The scheduler's search is round robin: it returns the first ready thread other than idle in the
  order that starts after the current thread and ends with it, always one of the task list and always
  ready, so never a sleeping thread or a zombie; it falls back on the idle thread only if no other
  thread is ready. The state does not change.\<close>

theorem find_runnable_correct:
  assumes "sched_inv xs s" and "cur_thread s = Some (TaskThread c)"
  shows "\<exists>t \<in> set xs. find_runnable_thread s = Inr (Some (TaskThread t), s) \<and> state_of s t = THREAD_READY \<and>
    (if \<exists>u \<in> set xs. can_run s u
     then \<exists>us vs. rr_order xs c = us @ t # vs \<and> can_run s t \<and> (\<forall>u \<in> set us. \<not> can_run s u)
     else idle_task s = Some t)"
proof (cases "\<exists>u \<in> set xs. can_run s u")
  case True
  then obtain u where u: "u \<in> set (rr_order xs c)" "can_run s u"
    using rr_order_set [OF find_runnable_rr(2) [OF assms] sched_inv_distinct [OF assms(1)]] by blast
  obtain us vs where p: "rr_order xs c = us @ pick s (rr_order xs c) # vs" "\<forall>u \<in> set us. \<not> can_run s u"
      "can_run s (pick s (rr_order xs c))"
    using pick_found [OF u] by blast
  have "pick s (rr_order xs c) \<in> set xs"
    using rr_order_set [OF find_runnable_rr(2) [OF assms] sched_inv_distinct [OF assms(1)]] p(1)
    by (metis in_set_conv_decomp)
  then show ?thesis using find_runnable_rr(1) [OF assms] p True by (auto simp: can_run_def)
next
  case False
  have "find (can_run s) (rr_order xs c) = None"
    using False rr_order_set [OF find_runnable_rr(2) [OF assms] sched_inv_distinct [OF assms(1)]] by (auto simp: find_None_iff)
  moreover obtain d where "d \<in> set xs" "idle_task s = Some d" "state_of s d = THREAD_READY"
    using assms(1) by (auto simp: sched_inv_def state_of_def)
  ultimately show ?thesis
    using find_runnable_rr(1) [OF assms] False by (auto simp: pick_def)
qed

lemma next_reaches:
  assumes "rr_order xs c = us @ t # vs" and "can_run s t" and "distinct xs" and "c \<in> set xs"
  shows "pick s (rr_order xs c) = t \<or>
    (\<exists>us' vs'. rr_order xs (pick s (rr_order xs c)) = us' @ t # vs' \<and> length us' < length us)"
proof -
  define p where "p = pick s (rr_order xs c)"
  have tin: "t \<in> set (rr_order xs c)" using assms(1) by simp
  obtain a b where ab: "rr_order xs c = a @ p # b" "\<forall>u \<in> set a. \<not> can_run s u"
    unfolding p_def by (rule pick_found [OF tin assms(2)])
  have "p = t \<or> (\<exists>us' vs'. rr_order xs p = us' @ t # vs' \<and> length us' < length us)"
  proof (cases "p = t")
    case False
    have "a @ p # b = us @ t # vs" using ab(1) assms(1) by simp
    moreover have "t \<notin> set a" using ab(2) assms(2) by blast
    ultimately obtain w where w: "us = a @ w" "p # b = w @ t # vs"
      using append_split [of a "p # b" us t vs] by auto
    then obtain v where "us = a @ p # v" "b = v @ t # vs" using False by (cases w) auto
    moreover have "rr_order xs p = b @ a @ [p]" by (rule rr_rotate [OF assms(3,4) ab(1)])
    ultimately show ?thesis by (intro disjI2 exI [of _ v] exI [of _ "vs @ a @ [p]"]) simp
  qed simp
  then show ?thesis unfolding p_def .
qed

text \<open>C23: No starvation: while the task list stays the same and a thread other than idle stays ready, it
  is chosen after at most as many context switches as there are tasks, whatever the other threads do.\<close>

theorem ready_thread_runs:
  assumes inv: "\<forall>n < length xs. sched_inv xs (st n) \<and> cur_thread (st n) = Some (TaskThread (c n)) \<and> can_run (st n) t"
    and step: "\<forall>n < length xs. find_runnable_thread (st n) = Inr (Some (TaskThread (c (Suc n))), st n)"
    and t: "t \<in> set xs"
  shows "\<exists>n < length xs. c (Suc n) = t"
proof -
  have nxt: "c (Suc n) = pick (st n) (rr_order xs (c n))" and cin: "c n \<in> set xs" if "n < length xs" for n
    using inv step that find_runnable_rr [of xs "st n" "c n"] by auto
  have d: "distinct xs" using inv sched_inv_distinct [of xs "st 0"] t by (metis length_pos_if_in_set)
  have main: "\<exists>k < length xs. c (Suc k) = t" if "rr_order xs (c n) = us @ t # vs" "n + length us < length xs" for n us vs
    using that
  proof (induction "length us" arbitrary: n us vs rule: less_induct)
    case less
    have n: "n < length xs" using less.prems(2) by simp
    consider "c (Suc n) = t" | us' vs' where "rr_order xs (c (Suc n)) = us' @ t # vs'" "length us' < length us"
      using next_reaches [OF less.prems(1) _ d cin [OF n], of "st n"] inv n nxt [OF n] by auto
    then show ?case
    proof cases
      case 1
      then show ?thesis using n by blast
    next
      case 2
      then show ?thesis using less.hyps [OF 2(2,1)] less.prems(2) by simp
    qed
  qed
  have pos: "0 < length xs" using t by (rule length_pos_if_in_set)
  have "t \<in> set (rr_order xs (c 0))" "length (rr_order xs (c 0)) = length xs"
    using rr_order_set [OF cin [OF pos] d] t by auto
  then obtain us vs where "rr_order xs (c 0) = us @ t # vs" "length us < length xs"
    by (metis split_list length_append length_Cons less_add_same_cancel1 zero_less_Suc)
  then show ?thesis using main [of 0 us vs] by simp
qed

section \<open>Waking and interrupting\<close>

text \<open>The pool with \<open>f\<close> applied to the tasks of a list.\<close>

definition pool_map :: "(task_t \<Rightarrow> task_t) \<Rightarrow> nat list \<Rightarrow> task_t list \<Rightarrow> task_t list" where
  "pool_map f xs pool = fold (\<lambda>i p. p[i := f (p ! i)]) xs pool"

lemma pool_map_length [simp]: "length (pool_map f xs pool) = length pool"
proof -
  have "length (fold (\<lambda>i p. p[i := f (p ! i)]) xs pool) = length pool" for pool by (induction xs arbitrary: pool) auto
  then show ?thesis by (simp add: pool_map_def)
qed

lemma pool_map_nth:
  "distinct xs \<Longrightarrow> i < length pool \<Longrightarrow> pool_map f xs pool ! i = (if i \<in> set xs then f (pool ! i) else pool ! i)"
proof (induction xs arbitrary: pool)
  case Nil
  then show ?case by (simp add: pool_map_def)
next
  case (Cons x xs)
  have "pool_map f (x # xs) pool = pool_map f xs (pool[x := f (pool ! x)])" by (simp add: pool_map_def)
  then show ?case using Cons by (cases "i = x") auto
qed

text \<open>A loop over the list whose body changes the task at hand is a map over these tasks.\<close>

lemma kfor_pool:
  assumes body: "\<And>i s. i < length (task_pool s) \<Longrightarrow> R s \<Longrightarrow> P i (task_pool s ! i) \<Longrightarrow>
      body (TaskLink i) s = Inr ((), s\<lparr>task_pool := (task_pool s)[i := f (task_pool s ! i)]\<rparr>)"
    and R: "\<And>s p. R s \<Longrightarrow> R (s\<lparr>task_pool := p\<rparr>)"
    and "distinct xs" and "\<forall>i \<in> set xs. i < length (task_pool s) \<and> P i (task_pool s ! i)" and "R s"
  shows "kfor (map TaskLink xs) body s = Inr ((), s\<lparr>task_pool := pool_map f xs (task_pool s)\<rparr>)"
  using assms(3-5)
proof (induction xs arbitrary: s)
  case Nil
  then show ?case by (simp add: kop_simps pool_map_def)
next
  case (Cons x xs)
  let ?s = "s\<lparr>task_pool := (task_pool s)[x := f (task_pool s ! x)]\<rparr>"
  have "body (TaskLink x) s = Inr ((), ?s)" using body Cons.prems by simp
  moreover have "\<forall>i \<in> set xs. i < length (task_pool ?s) \<and> P i (task_pool ?s ! i)"
    using Cons.prems(1,2) by (auto simp: nth_list_update)
  ultimately show ?case
    using Cons.IH [of ?s] Cons.prems R by (simp add: kop_simps pool_map_def)
qed

definition awake :: "resource \<Rightarrow> task_t \<Rightarrow> task_t" where
  "awake res t =
     (if th_state (thread t) = THREAD_SLEEPING \<and> sleep_reason (thread t) = Some res
      then t\<lparr>thread := (thread t)\<lparr>sleep_reason := None, th_state := THREAD_READY\<rparr>\<rparr> else t)"

lemma keeps_get_task [keeps_intros]: "keeps g (get_task t)"
  by (simp add: get_task_def keeps_intros)

lemma keeps_upd_task [keeps_intros]: "(\<And>s p. g (s\<lparr>task_pool := p\<rparr>) = g s) \<Longrightarrow> keeps g (upd_task t f)"
  by (simp add: upd_task_def keeps_intros)

lemma keeps_wakeup_body: "keeps task_links (wakeup_body res l)"
  by (simp add: wakeup_body_def keeps_intros)

lemma wakeup_run:
  assumes "sched_inv xs s" and "\<not> ints_on s"
  shows "wakeup res s = Inr ((), s\<lparr>task_pool := pool_map (awake res) xs (task_pool s)\<rparr>)"
proof -
  have d: "dlist (task_links s) ListHead (map TaskLink xs)" using assms(1) by (simp add: sched_inv_def)
  have "kfor (map TaskLink xs) (wakeup_body res) s = Inr ((), s\<lparr>task_pool := pool_map (awake res) xs (task_pool s)\<rparr>)"
  proof (rule kfor_pool [where P = "\<lambda>_ _. True" and R = "\<lambda>_. True"])
    fix i and s :: "'a task_state_scheme"
    assume i: "i < length (task_pool s)"
    show "wakeup_body res (TaskLink i) s = Inr ((), s\<lparr>task_pool := (task_pool s)[i := awake res (task_pool s ! i)]\<rparr>)"
      using i by (simp add: wakeup_body_def kop_simps get_task_run upd_task_run awake_def)
  qed (use sched_inv_distinct [OF assms(1)] sched_inv_task [OF assms(1)] in auto)
  moreover obtain c where "cur_thread s = Some c" using assms(1) by (auto simp: sched_inv_def)
  moreover have "list_for_each task_links ListHead (wakeup_body res) s = kfor (map TaskLink xs) (wakeup_body res) s"
    by (rule list_for_each_kfor [where lk = task_links]) (use d keepsD [OF keeps_wakeup_body] in blast)+
  ultimately show ?thesis
    using assms(2) by (simp add: wakeup_def current_thread_def kop_simps assert_ints_off_def cpu_ints_enabled_def)
qed

text \<open>A change of tasks that keeps who they are keeps the invariant.\<close>

lemma sched_inv_pool:
  assumes "sched_inv xs s" and "length p = MAX_TASKS"
    and "\<And>i. i \<in> set xs \<Longrightarrow> t_valid (p ! i) \<and> th_task (thread (p ! i)) = Some i"
    and "\<And>d. idle_task s = Some d \<Longrightarrow> th_state (thread (task_pool s ! d)) = THREAD_READY \<Longrightarrow> th_state (thread (p ! d)) = THREAD_READY"
  shows "sched_inv xs (s\<lparr>task_pool := p\<rparr>)"
  using assms by (auto simp: sched_inv_def)

lemma sched_inv_map:
  assumes "sched_inv xs s"
    and "\<And>t. t_valid (f t) = t_valid t \<and> th_task (thread (f t)) = th_task (thread t) \<and>
      (th_state (thread t) = THREAD_READY \<longrightarrow> th_state (thread (f t)) = THREAD_READY)"
  shows "sched_inv xs (s\<lparr>task_pool := pool_map f xs (task_pool s)\<rparr>)"
proof (rule sched_inv_pool [OF assms(1)])
  have d: "distinct xs" using assms(1) by (rule sched_inv_distinct)
  show "length (pool_map f xs (task_pool s)) = MAX_TASKS" using assms(1) by (simp add: sched_inv_def)
  show "t_valid (pool_map f xs (task_pool s) ! i) \<and> th_task (thread (pool_map f xs (task_pool s) ! i)) = Some i"
    if "i \<in> set xs" for i
    using that assms by (auto simp: sched_inv_def pool_map_nth [OF d])
  show "th_state (thread (pool_map f xs (task_pool s) ! k)) = THREAD_READY"
    if "idle_task s = Some k" "th_state (thread (task_pool s ! k)) = THREAD_READY" for k
    using that assms by (auto simp: sched_inv_def pool_map_nth [OF d])
qed

text \<open>C24: \<open>wakeup\<close> makes ready exactly the threads of the task list that sleep on the resource, clears
  their reason to sleep, changes nothing else in the kernel and keeps the scheduler's invariant.\<close>

theorem wakeup_correct:
  assumes "sched_inv xs s" and "\<not> ints_on s"
  shows "\<exists>p. wakeup res s = Inr ((), s\<lparr>task_pool := p\<rparr>) \<and> sched_inv xs (s\<lparr>task_pool := p\<rparr>) \<and>
    (\<forall>i < MAX_TASKS. p ! i =
      (if i \<in> set xs \<and> state_of s i = THREAD_SLEEPING \<and> sleep_reason (thread (task_pool s ! i)) = Some res
       then (task_pool s ! i)\<lparr>thread := (thread (task_pool s ! i))\<lparr>sleep_reason := None, th_state := THREAD_READY\<rparr>\<rparr>
       else task_pool s ! i))"
proof (intro exI [of _ "pool_map (awake res) xs (task_pool s)"] conjI allI impI)
  show "wakeup res s = Inr ((), s\<lparr>task_pool := pool_map (awake res) xs (task_pool s)\<rparr>)"
    by (rule wakeup_run [OF assms])
  show "sched_inv xs (s\<lparr>task_pool := pool_map (awake res) xs (task_pool s)\<rparr>)"
    by (rule sched_inv_map [OF assms(1)]) (auto simp: awake_def)
  fix i assume "i < MAX_TASKS"
  then show "pool_map (awake res) xs (task_pool s) ! i =
      (if i \<in> set xs \<and> state_of s i = THREAD_SLEEPING \<and> sleep_reason (thread (task_pool s ! i)) = Some res
       then (task_pool s ! i)\<lparr>thread := (thread (task_pool s ! i))\<lparr>sleep_reason := None, th_state := THREAD_READY\<rparr>\<rparr>
       else task_pool s ! i)"
    using assms(1) by (auto simp: pool_map_nth [OF sched_inv_distinct [OF assms(1)]] sched_inv_def awake_def state_of_def)
qed

text \<open>What \<open>task_interrupt_by_tty\<close> does to a task, given the file table.\<close>

definition stdin_tty :: "file_t list \<Rightarrow> task_t \<Rightarrow> tty_ref option" where
  "stdin_tty tab t = (case fds t ! FD_STDIN of None \<Rightarrow> None | Some f \<Rightarrow> f_tty (tab ! f))"

definition interrupted :: "file_t list \<Rightarrow> tty_ref \<Rightarrow> task_t \<Rightarrow> task_t" where
  "interrupted tab tty t =
     (if th_state (thread t) = THREAD_READY \<and> stdin_tty tab t = Some tty then t\<lparr>pending_sigint := True\<rparr> else t)"

text \<open>The descriptors of a task: sixteen, each closed or an entry of the file table.\<close>

definition fds_ok :: "file_t list \<Rightarrow> task_t \<Rightarrow> bool" where
  "fds_ok tab t \<longleftrightarrow> length (fds t) = TASK_NUM_FILES \<and> (\<forall>f. Some f \<in> set (fds t) \<longrightarrow> f < length tab)"

lemma keeps_interrupt_body: "keeps task_links (interrupt_body tty l)"
  by (simp add: interrupt_body_def task_send_sigkill_def get_file_def keeps_intros)

lemma interrupt_body_run:
  assumes "i < length (task_pool s)" and "th_task (thread (task_pool s ! i)) = Some i" and "fds_ok (filetab s) (task_pool s ! i)"
  shows "interrupt_body tty (TaskLink i) s =
    Inr ((), s\<lparr>task_pool := (task_pool s)[i := interrupted (filetab s) tty (task_pool s ! i)]\<rparr>)"
proof (cases "fds (task_pool s ! i) ! FD_STDIN")
  case None
  then show ?thesis
    using assms by (auto simp: interrupt_body_def kop_simps get_task_run interrupted_def stdin_tty_def is_thread_ready_def
      fds_ok_def TASK_NUM_FILES_def FD_STDIN_def)
next
  case (Some f)
  then have "f < length (filetab s)"
    using assms(3) by (metis fds_ok_def TASK_NUM_FILES_def FD_STDIN_def nth_mem zero_less_numeral)
  with Some show ?thesis
    using assms by (auto simp: interrupt_body_def kop_simps get_task_run get_file_run upd_task_run interrupted_def
      stdin_tty_def is_thread_ready_def fds_ok_def TASK_NUM_FILES_def FD_STDIN_def task_send_sigkill_def)
qed

lemma interrupt_run:
  assumes "sched_inv xs s" and "\<forall>i \<in> set xs. fds_ok (filetab s) (task_pool s ! i)"
  shows "task_interrupt_by_tty tty s = Inr ((), s\<lparr>task_pool := pool_map (interrupted (filetab s) tty) xs (task_pool s)\<rparr>)"
proof -
  have d: "dlist (task_links s) ListHead (map TaskLink xs)" using assms(1) by (simp add: sched_inv_def)
  have "kfor (map TaskLink xs) (interrupt_body tty) s =
      Inr ((), s\<lparr>task_pool := pool_map (interrupted (filetab s) tty) xs (task_pool s)\<rparr>)"
  proof (rule kfor_pool [where P = "\<lambda>i t. th_task (thread t) = Some i \<and> fds_ok (filetab s) t" and R = "\<lambda>t. filetab t = filetab s"])
    fix i and t :: "'a task_state_scheme"
    assume "i < length (task_pool t)" "filetab t = filetab s"
      "th_task (thread (task_pool t ! i)) = Some i \<and> fds_ok (filetab s) (task_pool t ! i)"
    then show "interrupt_body tty (TaskLink i) t =
        Inr ((), t\<lparr>task_pool := (task_pool t)[i := interrupted (filetab s) tty (task_pool t ! i)]\<rparr>)"
      using interrupt_body_run [of i t tty] by simp
  qed (use assms(2) sched_inv_distinct [OF assms(1)] sched_inv_task [OF assms(1)] in auto)
  moreover have "task_interrupt_by_tty tty s = kfor (map TaskLink xs) (interrupt_body tty) s"
    unfolding task_interrupt_by_tty_def
    by (rule list_for_each_safe_kfor [where lk = task_links]) (use d keepsD [OF keeps_interrupt_body] in blast)+
  ultimately show ?thesis by simp
qed

text \<open>C25: Interrupting a terminal marks for termination exactly the ready tasks of the task list whose
  standard input is that terminal, and changes nothing else; a task that sleeps is not marked.\<close>

theorem interrupt_correct:
  assumes "sched_inv xs s" and "\<forall>i \<in> set xs. fds_ok (filetab s) (task_pool s ! i)"
  shows "\<exists>p. task_interrupt_by_tty tty s = Inr ((), s\<lparr>task_pool := p\<rparr>) \<and> sched_inv xs (s\<lparr>task_pool := p\<rparr>) \<and>
    (\<forall>i < MAX_TASKS. p ! i =
      (if i \<in> set xs \<and> state_of s i = THREAD_READY \<and> stdin_tty (filetab s) (task_pool s ! i) = Some tty
       then (task_pool s ! i)\<lparr>pending_sigint := True\<rparr> else task_pool s ! i))"
proof (intro exI [of _ "pool_map (interrupted (filetab s) tty) xs (task_pool s)"] conjI allI impI)
  show "task_interrupt_by_tty tty s = Inr ((), s\<lparr>task_pool := pool_map (interrupted (filetab s) tty) xs (task_pool s)\<rparr>)"
    by (rule interrupt_run [OF assms])
  show "sched_inv xs (s\<lparr>task_pool := pool_map (interrupted (filetab s) tty) xs (task_pool s)\<rparr>)"
    by (rule sched_inv_map [OF assms(1)]) (auto simp: interrupted_def)
  fix i assume "i < MAX_TASKS"
  then show "pool_map (interrupted (filetab s) tty) xs (task_pool s) ! i =
      (if i \<in> set xs \<and> state_of s i = THREAD_READY \<and> stdin_tty (filetab s) (task_pool s ! i) = Some tty
       then (task_pool s ! i)\<lparr>pending_sigint := True\<rparr> else task_pool s ! i)"
    using assms(1) by (auto simp: pool_map_nth [OF sched_inv_distinct [OF assms(1)]] sched_inv_def interrupted_def state_of_def)
qed

section \<open>An example system\<close>

text \<open>Four tasks: the idle task 0, tasks 1 and 2, which are ready, and task 3, which sleeps on the serial terminal.\<close>

definition demo_task :: "nat \<Rightarrow> thread_state \<Rightarrow> task_t" where
  "demo_task i st = \<lparr>thread = \<lparr>saved_sp = 0, kstack_pg = 0, th_task = Some i,
       sleep_reason = (if st = THREAD_SLEEPING then Some (TtyInput SerialTty) else None), th_state = st, trapdepth = 0, uregs = 0\<rparr>,
     pagetable = 0, fds = replicate 16 (Some 1), parent = None, waiting_child = None, child_exit_code = 0, taskname = [],
     taskmode = MODE_USER, pending_sigint = False, t_valid = True\<rparr>"

definition demo_links :: "lref links" where
  "demo_links = \<lparr>next_of = [ListHead \<mapsto> TaskLink 3, TaskLink 3 \<mapsto> TaskLink 2, TaskLink 2 \<mapsto> TaskLink 1,
       TaskLink 1 \<mapsto> TaskLink 0, TaskLink 0 \<mapsto> ListHead],
     prev_of = [ListHead \<mapsto> TaskLink 0, TaskLink 0 \<mapsto> TaskLink 1, TaskLink 1 \<mapsto> TaskLink 2,
       TaskLink 2 \<mapsto> TaskLink 3, TaskLink 3 \<mapsto> ListHead]\<rparr>"

definition demo_pool :: "task_t list" where
  "demo_pool = [demo_task 0 THREAD_READY, demo_task 1 THREAD_READY, demo_task 2 THREAD_READY, demo_task 3 THREAD_SLEEPING] @
     replicate 2044 ((demo_task 0 THREAD_STATE_NONE)\<lparr>t_valid := False\<rparr>)"

definition sched_demo :: "nat \<Rightarrow> task_state" where
  "sched_demo c = \<lparr>mem = \<lambda>_. 0, ints_on = False, small_kheap = small_kheap kheap_demo, large_kheap = large_kheap kheap_demo,
     pt_regs = [], filetab = (replicate 1024 blank_file)[1 := console_file SerialTty], g_initrd = 0, stdio_serial = Some 1,
     stdio_display = replicate 9 None, is_gui_enabled = False, task_pool = demo_pool, task_links = demo_links,
     cur_thread = Some (TaskThread c), idle_task = Some 0, scratch_thread = thread (demo_task 0 THREAD_READY), entry_kstack = 0\<rparr>"

lemma demo_pool_simps [simp]:
  "length demo_pool = 2048" "demo_pool ! 0 = demo_task 0 THREAD_READY" "demo_pool ! Suc 0 = demo_task 1 THREAD_READY"
  "demo_pool ! 2 = demo_task 2 THREAD_READY" "demo_pool ! 3 = demo_task 3 THREAD_SLEEPING"
  by (simp_all add: demo_pool_def)

lemma sched_demo_inv: "c \<le> 3 \<Longrightarrow> sched_inv [3, 2, 1, 0] (sched_demo c)"
  by (auto simp: sched_inv_def sched_demo_def MAX_TASKS_def dlist_def demo_links_def demo_task_def)

lemma sched_demo_can_run: "can_run (sched_demo c) i \<longleftrightarrow> i = 1 \<or> i = 2" if "i \<in> {0, 1, 2, 3}"
  using that by (auto simp: can_run_def state_of_def sched_demo_def demo_task_def)

lemma sched_demo_pick: "pick (sched_demo c) (rr_order [3, 2, 1, 0] 1) = 2" "pick (sched_demo c) (rr_order [3, 2, 1, 0] 2) = 1"
  by (simp_all add: pick_def rr_order_def sched_demo_can_run)

theorem find_runnable_correct_witness:
  "\<exists>t. find_runnable_thread (sched_demo 1) = Inr (Some (TaskThread t), sched_demo 1) \<and> state_of (sched_demo 1) t = THREAD_READY"
proof -
  have "cur_thread (sched_demo 1) = Some (TaskThread 1)" by (simp add: sched_demo_def)
  from find_runnable_correct [OF sched_demo_inv this] show ?thesis by fastforce
qed

definition demo_turn :: "nat \<Rightarrow> nat" where
  "demo_turn n = (if n mod 2 = 0 then 1 else 2)"

theorem ready_thread_runs_witness:
  "\<exists>n < 4. find_runnable_thread (sched_demo (demo_turn n)) = Inr (Some (TaskThread 2), sched_demo (demo_turn n))"
proof -
  have inv: "sched_inv [3, 2, 1, 0] (sched_demo (demo_turn n)) \<and>
      cur_thread (sched_demo (demo_turn n)) = Some (TaskThread (demo_turn n)) \<and> can_run (sched_demo (demo_turn n)) 2" for n
    using sched_demo_inv [of "demo_turn n"]
    by (simp add: sched_demo_can_run demo_turn_def) (simp add: sched_demo_def)
  have step: "find_runnable_thread (sched_demo (demo_turn n)) = Inr (Some (TaskThread (demo_turn (Suc n))), sched_demo (demo_turn n))" for n
  proof -
    have "n mod 2 = 0 \<or> n mod 2 = 1" by auto
    then have "pick (sched_demo (demo_turn n)) (rr_order [3, 2, 1, 0] (demo_turn n)) = demo_turn (Suc n)"
      using sched_demo_pick by (elim disjE) (simp_all add: demo_turn_def mod_Suc)
    then show ?thesis using find_runnable_rr(1) [of "[3, 2, 1, 0]" "sched_demo (demo_turn n)" "demo_turn n"] inv by simp
  qed
  have len: "length [3, 2, 1, 0 :: nat] = 4" by simp
  have "\<exists>n < length [3, 2, 1, 0 :: nat]. demo_turn (Suc n) = 2"
    by (rule ready_thread_runs [where st = "\<lambda>n. sched_demo (demo_turn n)"]) (use inv step in simp_all)
  then obtain n where "n < 4" "demo_turn (Suc n) = 2" unfolding len by blast
  then show ?thesis using step [of n] by auto
qed

theorem wakeup_correct_witness:
  "\<exists>p. wakeup (TtyInput SerialTty) (sched_demo 1) = Inr ((), (sched_demo 1)\<lparr>task_pool := p\<rparr>) \<and>
     th_state (thread (p ! 3)) = THREAD_READY"
proof -
  have off: "\<not> ints_on (sched_demo 1)" by (simp add: sched_demo_def)
  obtain p where p: "wakeup (TtyInput SerialTty) (sched_demo 1) = Inr ((), (sched_demo 1)\<lparr>task_pool := p\<rparr>)"
    "\<forall>i < MAX_TASKS. p ! i =
      (if i \<in> set [3, 2, 1, 0] \<and> state_of (sched_demo 1) i = THREAD_SLEEPING \<and>
          sleep_reason (thread (task_pool (sched_demo 1) ! i)) = Some (TtyInput SerialTty)
       then (task_pool (sched_demo 1) ! i)\<lparr>thread := (thread (task_pool (sched_demo 1) ! i))\<lparr>sleep_reason := None, th_state := THREAD_READY\<rparr>\<rparr>
       else task_pool (sched_demo 1) ! i)"
    using wakeup_correct [OF sched_demo_inv off] by auto
  have "th_state (thread (p ! 3)) = THREAD_READY"
    using p(2) by (simp add: MAX_TASKS_def state_of_def sched_demo_def demo_task_def)
  with p(1) show ?thesis by blast
qed

theorem interrupt_correct_witness:
  "\<exists>p. task_interrupt_by_tty SerialTty (sched_demo 1) = Inr ((), (sched_demo 1)\<lparr>task_pool := p\<rparr>) \<and>
     pending_sigint (p ! 2) \<and> \<not> pending_sigint (p ! 3)"
proof -
  have ok: "\<forall>i \<in> set [3, 2, 1, 0]. fds_ok (filetab (sched_demo 1)) (task_pool (sched_demo 1) ! i)"
    by (simp add: sched_demo_def fds_ok_def demo_task_def TASK_NUM_FILES_def)
  obtain p where p: "task_interrupt_by_tty SerialTty (sched_demo 1) = Inr ((), (sched_demo 1)\<lparr>task_pool := p\<rparr>)"
    "\<forall>i < MAX_TASKS. p ! i =
      (if i \<in> set [3, 2, 1, 0] \<and> state_of (sched_demo 1) i = THREAD_READY \<and>
          stdin_tty (filetab (sched_demo 1)) (task_pool (sched_demo 1) ! i) = Some SerialTty
       then (task_pool (sched_demo 1) ! i)\<lparr>pending_sigint := True\<rparr> else task_pool (sched_demo 1) ! i)"
    using interrupt_correct [OF sched_demo_inv ok, of SerialTty] by auto
  have "pending_sigint (p ! 2) \<and> \<not> pending_sigint (p ! 3)"
    using p(2) by (simp add: MAX_TASKS_def state_of_def sched_demo_def demo_task_def stdin_tty_def FD_STDIN_def console_file_def)
  with p(1) show ?thesis by blast
qed

end
