(* ===== verification/Sky_Display.thy ===== *)
theory Sky_Display
  imports Sky_Sched
begin

text \<open>
  The displays (src/graphics/display.c), their virtual UARTs (src/graphics/vuart.c) and the terminals
  (src/kernel/tty.c). A \<open>display_t *\<close> is an index into \<open>g_display\<close>, NULL is \<open>None\<close>; a \<open>tty_t *\<close> is a
  \<open>tty_ref\<close>; a \<open>uart_t *\<close> is the serial port or the virtual UART of a display. The text buffers, the line
  buffers of the terminals and the framebuffer are memory.

  The serial port is used through its table of operations, as in the source: a \<open>uart_ops\<close> record is an
  argument of everything that may print to it. \<open>char\<close> is signed on x86-64 and unsigned on the other two
  ISAs, which shows where a character indexes the font; the font table itself is an argument.
\<close>

section \<open>State\<close>

record framebuffer_t =
  framebuffer :: u64
  pxwidth :: usize
  pxheight :: usize

record display_t =
  d_frame :: "framebuffer_t option"
  d_tty :: "tty_ref option"
  textbuf :: u64
  textwidth :: usize
  textheight :: usize
  d_cursor :: usize
  is_dirty :: bool
  needs_full_repaint :: bool
  last_clean_line :: usize

datatype uart_ref = SerialUart | VUart nat

record tty_t =
  tty_buf :: u64
  port :: "uart_ref option"
  cursor :: usize
  data_ready :: bool

record disp_state = task_state +
  g_framebuffer :: framebuffer_t
  g_display :: "display_t list"
  g_vuart :: "nat option list"
  g_display_tty :: "tty_t list"
  g_serial_tty :: tty_t
  active_display :: "nat option"
  active_display_idx :: usize

record 's uart_ops =
  uart_init :: "('s, unit) kop"
  uart_send :: "u8 \<Rightarrow> ('s, unit) kop"
  uart_recv :: "('s, u8) kop"
  uart_has_data :: "('s, bool) kop"

definition get_display :: "nat \<Rightarrow> ('z disp_state_scheme, display_t) kop" where
  "get_display d = kbind (kgets g_display) (\<lambda>ds. if d < length ds then kreturn (ds ! d) else kfault ''display: bad pointer'')"

definition upd_display :: "nat \<Rightarrow> (display_t \<Rightarrow> display_t) \<Rightarrow> ('z disp_state_scheme, unit) kop" where
  "upd_display d f = kbind (get_display d) (\<lambda>x. kmodify (\<lambda>s. s\<lparr>g_display := (g_display s)[d := f x]\<rparr>))"

definition get_tty :: "tty_ref \<Rightarrow> ('z disp_state_scheme, tty_t) kop" where
  "get_tty t =
     (case t of SerialTty \<Rightarrow> kgets g_serial_tty
      | DisplayTty i \<Rightarrow> kbind (kgets g_display_tty) (\<lambda>ts. if i < length ts then kreturn (ts ! i) else kfault ''tty: bad pointer''))"

definition upd_tty :: "tty_ref \<Rightarrow> (tty_t \<Rightarrow> tty_t) \<Rightarrow> ('z disp_state_scheme, unit) kop" where
  "upd_tty t f = kbind (get_tty t) (\<lambda>x.
     case t of SerialTty \<Rightarrow> kmodify (\<lambda>s. s\<lparr>g_serial_tty := f x\<rparr>)
     | DisplayTty i \<Rightarrow> kmodify (\<lambda>s. s\<lparr>g_display_tty := (g_display_tty s)[i := f x]\<rparr>))"

section \<open>src/graphics/display.c: drawing\<close>

definition COLOR_WHITE :: u32 where "COLOR_WHITE = 0xFFFFFF"
definition COLOR_BLACK :: u32 where "COLOR_BLACK = 0"
definition VGAFONT_WIDTH :: nat where "VGAFONT_WIDTH = 8"
definition VGAFONT_HEIGHT :: nat where "VGAFONT_HEIGHT = 16"

definition char_value :: "isa \<Rightarrow> u8 \<Rightarrow> int" where
  "char_value arch c = (if arch = X86_64 then sint c else uint c)"

definition font_row :: "isa \<Rightarrow> (nat \<Rightarrow> u8) \<Rightarrow> u8 \<Rightarrow> nat \<Rightarrow> ('s, u8) kop" where
  "font_row arch font c j =
     (if char_value arch c < 0 then kfault ''vgafont16 index''
      else kreturn (font (VGAFONT_HEIGHT * nat (char_value arch c) + j)))"

definition put_pixel :: "display_t \<Rightarrow> usize \<Rightarrow> u32 \<Rightarrow> ('z disp_state_scheme, unit) kop" where
  "put_pixel d screen_idx col =
     (case d_frame d of None \<Rightarrow> kfault ''display: NULL frame''
      | Some f \<Rightarrow> kmodify (\<lambda>s. s\<lparr>mem := le_store 4 (mem s) (framebuffer f + 4 * screen_idx) (ucast col)\<rparr>))"

definition frame_width :: "display_t \<Rightarrow> usize" where
  "frame_width d = (case d_frame d of None \<Rightarrow> 0 | Some f \<Rightarrow> pxwidth f)"

definition screen_idx :: "display_t \<Rightarrow> usize \<Rightarrow> usize \<Rightarrow> nat \<Rightarrow> nat \<Rightarrow> usize" where
  "screen_idx d x y j i =
     (of_nat VGAFONT_HEIGHT * y + of_nat j) * frame_width d + (of_nat VGAFONT_WIDTH * x + of_nat i)"

definition draw_char ::
  "isa \<Rightarrow> (nat \<Rightarrow> u8) \<Rightarrow> nat \<Rightarrow> usize \<Rightarrow> usize \<Rightarrow> u8 \<Rightarrow> u32 \<Rightarrow> u32 \<Rightarrow> ('z disp_state_scheme, unit) kop" where
  "draw_char arch font dp x y c fg_col bg_col =
     kbind (get_display dp) (\<lambda>d.
       if textwidth d \<le> x then kreturn ()
       else if textheight d \<le> y then kreturn ()
       else kfor [0..<VGAFONT_HEIGHT] (\<lambda>j.
         kbind (font_row arch font c j) (\<lambda>pxdata.
         kfor [0..<VGAFONT_WIDTH] (\<lambda>i.
           put_pixel d (screen_idx d x y j i) (if bit pxdata i then fg_col else bg_col)))))"

definition draw_str ::
  "isa \<Rightarrow> (nat \<Rightarrow> u8) \<Rightarrow> nat \<Rightarrow> usize \<Rightarrow> usize \<Rightarrow> string \<Rightarrow> u32 \<Rightarrow> u32 \<Rightarrow> ('z disp_state_scheme, unit) kop" where
  "draw_str arch font dp x y str fg_col bg_col =
     kfor [0..<length str] (\<lambda>k. draw_char arch font dp (x + of_nat k) y (of_char (str ! k)) fg_col bg_col)"

definition draw_block :: "nat \<Rightarrow> usize \<Rightarrow> usize \<Rightarrow> u32 \<Rightarrow> ('z disp_state_scheme, unit) kop" where
  "draw_block dp x y color =
     kbind (get_display dp) (\<lambda>d.
       if textwidth d \<le> x then kreturn ()
       else if textheight d \<le> y then kreturn ()
       else kfor [0..<VGAFONT_HEIGHT] (\<lambda>j. kfor [0..<VGAFONT_WIDTH] (\<lambda>i. put_pixel d (screen_idx d x y j i) color)))"

definition draw_statusline :: "isa \<Rightarrow> (nat \<Rightarrow> u8) \<Rightarrow> nat \<Rightarrow> ('z disp_state_scheme, unit) kop" where
  "draw_statusline arch font dp =
     kbind (get_display dp) (\<lambda>d.
     kseq (kfor [0..<unat (textwidth d)] (\<lambda>i. draw_block dp (of_nat i) (textheight d - 1) COLOR_WHITE))
     (kseq (draw_str arch font dp 1 (textheight d - 1) ''Skybolt'' COLOR_BLACK COLOR_WHITE)
     (kbind (kgets active_display_idx) (\<lambda>idx.
      draw_char arch font dp (textwidth d - 2) (textheight d - 1) (ucast (idx + 0x30 + 1)) COLOR_BLACK COLOR_WHITE))))"

definition draw_line :: "isa \<Rightarrow> (nat \<Rightarrow> u8) \<Rightarrow> nat \<Rightarrow> usize \<Rightarrow> u32 \<Rightarrow> u32 \<Rightarrow> ('z disp_state_scheme, unit) kop" where
  "draw_line arch font dp line_idx fg_col bg_col =
     kbind (get_display dp) (\<lambda>d.
     kfor [0..<VGAFONT_HEIGHT] (\<lambda>j.
     kfor [0..<unat (textwidth d)] (\<lambda>char_idx.
       kbind (kgets (\<lambda>s. mem s (textbuf d + (line_idx * textwidth d + of_nat char_idx)))) (\<lambda>c.
       kbind (font_row arch font c j) (\<lambda>pxdata.
       kfor [0..<VGAFONT_WIDTH] (\<lambda>i.
         put_pixel d (screen_idx d (of_nat char_idx) line_idx j i) (if bit pxdata i then fg_col else bg_col)))))))"

text \<open>The lines \<open>display_redraw\<close> draws, from the first that may have changed to the line of the cursor.\<close>

definition dirty_lines :: "display_t \<Rightarrow> nat list" where
  "dirty_lines d = [unat (last_clean_line d)..<unat (1 + d_cursor d div textwidth d)]"

definition display_redraw :: "isa \<Rightarrow> (nat \<Rightarrow> u8) \<Rightarrow> nat option \<Rightarrow> ('z disp_state_scheme, unit) kop" where
  "display_redraw arch font dp =
     (case dp of None \<Rightarrow> kreturn ()
      | Some p \<Rightarrow>
         kbind (get_display p) (\<lambda>d.
         kseq (kwhen (needs_full_repaint d)
           (kseq (case d_frame d of None \<Rightarrow> kfault ''display: NULL frame''
                  | Some f \<Rightarrow> kmodify (\<lambda>s. s\<lparr>mem := memset (framebuffer f) 0 (pxwidth f * pxheight f * 4) (mem s)\<rparr>))
           (upd_display p (\<lambda>d. d\<lparr>needs_full_repaint := False\<rparr>))))
         (if \<not> is_dirty d then kreturn ()
          else if textwidth d = 0 then kfault ''division by zero''
          else
            kseq (kfor (dirty_lines d) (\<lambda>cur_line. draw_line arch font p (of_nat cur_line) COLOR_WHITE COLOR_BLACK))
            (kseq (draw_block p (d_cursor d mod textwidth d) (d_cursor d div textwidth d) COLOR_WHITE)
            (kseq (draw_statusline arch font p)
            (upd_display p (\<lambda>d. d\<lparr>is_dirty := False\<rparr>)))))))"

section \<open>src/graphics/display.c: text\<close>

definition display_scroll_up :: "nat option \<Rightarrow> ('z disp_state_scheme, unit) kop" where
  "display_scroll_up dp =
     (case dp of None \<Rightarrow> kreturn ()
      | Some p \<Rightarrow>
         kbind (get_display p) (\<lambda>d.
         kseq (kmodify (\<lambda>s. s\<lparr>mem := memcpy (textbuf d) (textbuf d + textwidth d) (textwidth d * (textheight d - 1)) (mem s)\<rparr>))
         (upd_display p (\<lambda>d. d\<lparr>d_cursor := d_cursor d - textwidth d, last_clean_line := 0\<rparr>))))"

partial_function (option) scroll_loop ::
  "nat \<Rightarrow> 'z disp_state_scheme \<Rightarrow> (kerr + unit \<times> 'z disp_state_scheme) option" where
  "scroll_loop p s =
     (case get_display p s of
        Inl e \<Rightarrow> Some (Inl e)
      | Inr (d, _) \<Rightarrow>
          if textwidth d = 0 then Some (Inl (Fault ''division by zero''))
          else if textheight d - 1 \<le> d_cursor d div textwidth d
          then (case display_scroll_up (Some p) s of
                  Inl e \<Rightarrow> Some (Inl e)
                | Inr (_, s') \<Rightarrow> scroll_loop p s')
          else Some (Inr ((), s)))"

definition notify_if_active :: "nat \<Rightarrow> ('z disp_state_scheme, unit) kop" where
  "notify_if_active p = kbind (kgets active_display) (\<lambda>a. kwhen (a = Some p) (wakeup ActiveDisplay))"

definition display_putc :: "nat option \<Rightarrow> u8 \<Rightarrow> ('z disp_state_scheme, unit) kop" where
  "display_putc dp c =
     (case dp of None \<Rightarrow> kreturn ()
      | Some p \<Rightarrow>
         kbind (get_display p) (\<lambda>d.
           if textwidth d = 0 then kfault ''division by zero''
           else
             let cur_line = d_cursor d div textwidth d in
             if c = 0x0D then kreturn ()
             else if c = 0 then kreturn ()
             else
               kseq (kwhen (\<not> is_dirty d) (upd_display p (\<lambda>d. d\<lparr>last_clean_line := cur_line\<rparr>)))
               (kseq (upd_display p (\<lambda>d. d\<lparr>is_dirty := True\<rparr>))
               (kseq
                 (if c = 0x08 then kwhen (d_cursor d > 0) (upd_display p (\<lambda>d. d\<lparr>d_cursor := d_cursor d - 1\<rparr>))
                  else if c = 0x0A then upd_display p (\<lambda>d. d\<lparr>d_cursor := textwidth d * (1 + cur_line)\<rparr>)
                  else
                    kseq (khang (scroll_loop p))
                    (kbind (get_display p) (\<lambda>d.
                     kseq (kmodify (\<lambda>s. s\<lparr>mem := (mem s)(textbuf d + d_cursor d := c)\<rparr>))
                     (upd_display p (\<lambda>d. d\<lparr>d_cursor := d_cursor d + 1\<rparr>)))))
                 (notify_if_active p)))))"

definition active_display_putc :: "u8 \<Rightarrow> ('z disp_state_scheme, unit) kop" where
  "active_display_putc c = kbind (kgets active_display) (\<lambda>a. if a = None then kreturn () else display_putc a c)"

definition display_switch :: "usize \<Rightarrow> ('z disp_state_scheme, unit) kop" where
  "display_switch idx =
     kbind is_display_active (\<lambda>active.
     kbind (kgets active_display_idx) (\<lambda>cur.
       if \<not> active then kreturn ()
       else if of_nat NUM_DISPLAYS \<le> idx then kreturn ()
       else if cur = idx then kreturn ()
       else
         kseq (kmodify (\<lambda>s. s\<lparr>active_display_idx := idx\<rparr>))
         (kseq (kmodify (\<lambda>s. s\<lparr>active_display := Some (unat idx)\<rparr>))
         (kseq (upd_display (unat idx) (\<lambda>d. d\<lparr>is_dirty := True, needs_full_repaint := True, last_clean_line := 0\<rparr>))
         (wakeup ActiveDisplay)))))"

definition display_clear :: "nat option \<Rightarrow> ('z disp_state_scheme, unit) kop" where
  "display_clear dp =
     (case dp of None \<Rightarrow> kreturn ()
      | Some p \<Rightarrow>
         kbind (get_display p) (\<lambda>d.
         kseq (kmodify (\<lambda>s. s\<lparr>mem := memset (textbuf d) 0 (textwidth d * textheight d) (mem s)\<rparr>))
         (kseq (upd_display p (\<lambda>d. d\<lparr>needs_full_repaint := True, is_dirty := True, d_cursor := 0\<rparr>))
         (wakeup ActiveDisplay))))"

definition display_begin_panic :: "('z disp_state_scheme, unit) kop" where
  "display_begin_panic = kbind (kgets active_display) (\<lambda>d. if d = None then kreturn () else display_clear d)"

definition display_finish_panic :: "isa \<Rightarrow> (nat \<Rightarrow> u8) \<Rightarrow> ('z disp_state_scheme, unit) kop" where
  "display_finish_panic arch font =
     kbind (kgets active_display) (\<lambda>a.
       case a of None \<Rightarrow> kreturn ()
       | Some p \<Rightarrow>
           kseq (upd_display p (\<lambda>d. d\<lparr>is_dirty := True, last_clean_line := 0, needs_full_repaint := True\<rparr>))
             (display_redraw arch font a))"

section \<open>src/graphics/vuart.c\<close>

definition vuart_send :: "nat \<Rightarrow> u8 \<Rightarrow> ('z disp_state_scheme, unit) kop" where
  "vuart_send i c =
     (if c = 0x0D then kreturn ()
      else kbind (kgets g_vuart) (\<lambda>us. if i < length us then display_putc (us ! i) c else kfault ''vuart: bad pointer''))"

definition vuart_recv :: "nat \<Rightarrow> ('z disp_state_scheme, u8) kop" where
  "vuart_recv i = kpanic ''vuart_recv: cannot receive from a vuart''"

definition vuart_has_data :: "nat \<Rightarrow> ('z disp_state_scheme, bool) kop" where
  "vuart_has_data i = kpanic ''vuart_has_data: undefined for a vuart''"

text \<open>\<open>port->ops->send (port, c)\<close>.\<close>

definition port_send :: "'z disp_state_scheme uart_ops \<Rightarrow> uart_ref option \<Rightarrow> u8 \<Rightarrow> ('z disp_state_scheme, unit) kop" where
  "port_send ser p c =
     (case p of None \<Rightarrow> kfault ''uart: NULL''
      | Some SerialUart \<Rightarrow> uart_send ser c
      | Some (VUart i) \<Rightarrow> vuart_send i c)"

section \<open>src/kernel/tty.c\<close>

definition TTY_BUFIO_LEN :: usize where "TTY_BUFIO_LEN = SMALL_PAGE_SIZE"
definition ASCII_DELETE :: u8 where "ASCII_DELETE = 0x7F"
definition ASCII_EOT :: u8 where "ASCII_EOT = 0x03"
definition ASCII_CLEAR :: u8 where "ASCII_CLEAR = 0x0C"

definition tty_attach :: "tty_ref \<Rightarrow> uart_ref \<Rightarrow> ('z disp_state_scheme, unit) kop" where
  "tty_attach t port_in =
     kbind (alloc_page PAGE_SMALL) (\<lambda>b.
     kseq (upd_tty t (\<lambda>x. x\<lparr>tty_buf := b\<rparr>))
     (kseq (kmodify (\<lambda>s. s\<lparr>mem := memset b 0 SMALL_PAGE_SIZE (mem s)\<rparr>))
     (upd_tty t (\<lambda>x. x\<lparr>cursor := 0, port := Some port_in, data_ready := False\<rparr>))))"

definition init_tty :: "('z disp_state_scheme, unit) kop" where
  "init_tty = tty_attach SerialTty SerialUart"

definition tty_writeout :: "'z disp_state_scheme uart_ops \<Rightarrow> tty_ref \<Rightarrow> csrc \<Rightarrow> usize \<Rightarrow> ('z disp_state_scheme, usize) kop" where
  "tty_writeout ser t data len =
     kseq (kfor [0..<unat len] (\<lambda>i.
       kbind (get_tty t) (\<lambda>x.
       kbind (kgets (\<lambda>s. data (mem s) i)) (\<lambda>c.
       kseq (kwhen (c = 0x0A) (port_send ser (port x) 0x0D))
       (kbind (kgets (\<lambda>s. data (mem s) i)) (\<lambda>c. port_send ser (port x) c))))))
     (kreturn len)"

text \<open>The loop of \<open>tty_readin\<close> that sleeps until a line is there.\<close>

partial_function (option) tty_wait_loop ::
  "('z disp_state_scheme, unit) kop \<Rightarrow> tty_ref \<Rightarrow> 'z disp_state_scheme \<Rightarrow> (kerr + unit \<times> 'z disp_state_scheme) option" where
  "tty_wait_loop sleep_on t s =
     (case get_tty t s of
        Inl e \<Rightarrow> Some (Inl e)
      | Inr (x, _) \<Rightarrow>
          if data_ready x then Some (Inr ((), s))
          else (case sleep_on s of Inl e \<Rightarrow> Some (Inl e) | Inr (_, s') \<Rightarrow> tty_wait_loop sleep_on t s'))"

definition tty_readin ::
  "isa \<Rightarrow> 'z disp_state_scheme cswitch_op \<Rightarrow> tty_ref \<Rightarrow> u64 \<Rightarrow> usize \<Rightarrow> ('z disp_state_scheme, usize) kop" where
  "tty_readin arch cs t data len =
     kseq (khang (tty_wait_loop (sleep arch cs (TtyInput t)) t))
     (kbind (get_tty t) (\<lambda>x.
     kseq (kassert (data_ready x) ''assert'')
     (kseq (upd_tty t (\<lambda>x. x\<lparr>data_ready := False\<rparr>))
     (let n = min_u64 len (cursor x) in
      kseq (kmodify (\<lambda>s. s\<lparr>mem := memcpy data (tty_buf x) n (mem s)\<rparr>))
      (kseq (upd_tty t (\<lambda>x. x\<lparr>cursor := 0\<rparr>))
      (kreturn n))))))"

end
