(* ===== verification/Sky_Tty.thy ===== *)
theory Sky_Tty
  imports Sky_Display
begin

text \<open>
  Terminal input (\<open>tty_new_data\<close> of src/kernel/tty.c), the rest of src/graphics/display.c, reading and
  writing of files (src/kernel/file.c, src/kernel/stdio.c), the serial console (src/kernel/serial.c) and
  \<open>printf\<close> (src/kernel/printf.c).
\<close>

section \<open>src/kernel/tty.c\<close>

definition tty_new_data :: "'z disp_state_scheme uart_ops \<Rightarrow> tty_ref \<Rightarrow> u8 \<Rightarrow> ('z disp_state_scheme, unit) kop" where
  "tty_new_data ser t c0 =
     (let c = (if c0 = 0x0D then 0x0A else c0) in
      if ASCII_EOT = c then task_interrupt_by_tty t
      else if ASCII_DELETE = c \<or> c = 0x08 then
        kbind (get_tty t) (\<lambda>x.
          kwhen (cursor x > 0)
            (kseq (kmodify (\<lambda>s. s\<lparr>mem := (mem s)(tty_buf x + cursor x := 0)\<rparr>))
            (kseq (upd_tty t (\<lambda>x. x\<lparr>cursor := cursor x - 1\<rparr>))
            (kseq (port_send ser (port x) 0x08)
            (kseq (port_send ser (port x) 0x20)
            (port_send ser (port x) 0x08))))))
      else
        kbind (get_tty t) (\<lambda>x.
        kseq (kwhen (c = 0x0A) (port_send ser (port x) 0x0D))
        (kseq (port_send ser (port x) c)
        (kbind (get_tty t) (\<lambda>x.
        kseq (kwhen (cursor x < TTY_BUFIO_LEN - 1)
          (kseq (kmodify (\<lambda>s. s\<lparr>mem := (mem s)(tty_buf x + cursor x := c)\<rparr>))
          (upd_tty t (\<lambda>x. x\<lparr>cursor := cursor x + 1\<rparr>))))
        (kwhen (c = 0x0A)
          (kbind (get_tty t) (\<lambda>x.
           kseq (kwhen (cursor x = TTY_BUFIO_LEN - 1)
             (kmodify (\<lambda>s. s\<lparr>mem := (mem s)(tty_buf x + cursor x := c)\<rparr>)))
           (kseq (upd_tty t (\<lambda>x. x\<lparr>data_ready := True\<rparr>))
           (wakeup (TtyInput t)))))))))))"

section \<open>src/graphics/display.c: input and setup\<close>

definition display_handle_input :: "'z disp_state_scheme uart_ops \<Rightarrow> u8 \<Rightarrow> ('z disp_state_scheme, unit) kop" where
  "display_handle_input ser c =
     kbind (kgets active_display) (\<lambda>a.
       case a of None \<Rightarrow> kreturn ()
       | Some p \<Rightarrow>
           if ASCII_CLEAR = c then display_clear a
           else kbind (get_display p) (\<lambda>d.
             case d_tty d of None \<Rightarrow> kfault ''tty: NULL'' | Some t \<Rightarrow> tty_new_data ser t c))"

definition display_reset_tty :: "tty_ref option \<Rightarrow> ('z disp_state_scheme, unit) kop" where
  "display_reset_tty t =
     kfor [0..<NUM_DISPLAYS] (\<lambda>i.
       kwhen (t = Some (DisplayTty i))
         (kseq (display_clear (Some i))
         (kbind (kgets active_display) (\<lambda>a. kwhen (a = Some i) (wakeup ActiveDisplay)))))"

definition display_setup :: "nat \<Rightarrow> nat \<Rightarrow> tty_ref \<Rightarrow> framebuffer_t \<Rightarrow> ('z disp_state_scheme, unit) kop" where
  "display_setup dp vuart tty f =
     kseq (upd_display dp (\<lambda>d. d\<lparr>d_frame := Some f, textwidth := pxwidth f div of_nat VGAFONT_WIDTH,
       textheight := pxheight f div of_nat VGAFONT_HEIGHT\<rparr>))
     (kbind (get_display dp) (\<lambda>d.
     kseq (kassert (textwidth d * textheight d < LARGE_PAGE_SIZE) ''assert'')
     (kbind (alloc_page PAGE_LARGE) (\<lambda>b.
     kseq (upd_display dp (\<lambda>d. d\<lparr>textbuf := b\<rparr>))
     (kseq (kmodify (\<lambda>s. s\<lparr>mem := memset b 0 (textwidth d * textheight d) (mem s)\<rparr>))
     (kseq (upd_display dp (\<lambda>d. d\<lparr>d_cursor := 0, is_dirty := False, last_clean_line := 0,
        needs_full_repaint := False, d_tty := Some tty\<rparr>))
     (kseq (kbind (kgets g_vuart) (\<lambda>us. if vuart < length us then kmodify (\<lambda>s. s\<lparr>g_vuart := us[vuart := Some dp]\<rparr>)
        else kfault ''vuart: bad pointer''))
     (tty_attach tty (VUart vuart)))))))))"

definition init_display :: "('z disp_state_scheme, unit) kop" where
  "init_display =
     kseq (kmodify (\<lambda>s. s\<lparr>is_gui_enabled := False\<rparr>))
     (kbind (kgets g_framebuffer) (\<lambda>f.
       if framebuffer f = 0 then kreturn ()
       else if pxwidth f = 0 \<or> pxheight f = 0 then kreturn ()
       else
         kseq (kfor [0..<NUM_DISPLAYS] (\<lambda>i. display_setup i i (DisplayTty i) f))
         (kseq (kmodify (\<lambda>s. s\<lparr>active_display_idx := 0\<rparr>))
         (kseq (kmodify (\<lambda>s. s\<lparr>active_display := Some 0\<rparr>))
         (kmodify (\<lambda>s. s\<lparr>is_gui_enabled := True\<rparr>))))))"

text \<open>One round of the loop of \<open>thread_display_update\<close>.\<close>

definition display_update_round ::
  "isa \<Rightarrow> (nat \<Rightarrow> u8) \<Rightarrow> 'z disp_state_scheme cswitch_op \<Rightarrow> ('z disp_state_scheme, unit) kop" where
  "display_update_round arch font cs =
     kseq assert_ints_off
     (kbind (kgets active_display) (\<lambda>a.
      kseq (display_redraw arch font a)
      (sleep arch cs ActiveDisplay)))"

section \<open>Reading and writing files\<close>

definition stdio_read ::
  "isa \<Rightarrow> 'z disp_state_scheme cswitch_op \<Rightarrow> nat \<Rightarrow> u64 \<Rightarrow> usize \<Rightarrow> ('z disp_state_scheme, usize) kop" where
  "stdio_read arch cs file out len =
     kbind (get_file file) (\<lambda>x. case f_tty x of None \<Rightarrow> kfault ''tty: NULL'' | Some t \<Rightarrow> tty_readin arch cs t out len)"

definition stdio_write ::
  "'z disp_state_scheme uart_ops \<Rightarrow> nat \<Rightarrow> csrc \<Rightarrow> usize \<Rightarrow> ('z disp_state_scheme, usize) kop" where
  "stdio_write ser file data len =
     kbind (get_file file) (\<lambda>x. case f_tty x of None \<Rightarrow> kfault ''tty: NULL'' | Some t \<Rightarrow> tty_writeout ser t data len)"

definition file_read ::
  "isa \<Rightarrow> 'z disp_state_scheme cswitch_op \<Rightarrow> nat \<Rightarrow> u64 \<Rightarrow> usize \<Rightarrow> ('z disp_state_scheme, usize) kop" where
  "file_read arch cs f b n = kbind (file_fs f) (\<lambda>fs.
     case fs of TarFs \<Rightarrow> tar_read f b n | StdioFs \<Rightarrow> stdio_read arch cs f b n)"

definition file_write ::
  "'z disp_state_scheme uart_ops \<Rightarrow> nat \<Rightarrow> csrc \<Rightarrow> usize \<Rightarrow> ('z disp_state_scheme, usize) kop" where
  "file_write ser f b n = kbind (file_fs f) (\<lambda>fs.
     case fs of TarFs \<Rightarrow> tar_write f b n | StdioFs \<Rightarrow> stdio_write ser f b n)"

section \<open>src/kernel/serial.c\<close>

definition init_serial :: "'s uart_ops \<Rightarrow> ('s, unit) kop" where
  "init_serial ser = uart_init ser"

definition serial_putc :: "'s uart_ops \<Rightarrow> u8 \<Rightarrow> ('s, unit) kop" where
  "serial_putc ser c = kseq (kwhen (c = 0x0A) (uart_send ser 0x0D)) (uart_send ser c)"

partial_function (option) puts_loop ::
  "(u8 \<Rightarrow> ('z machine_scheme, unit) kop) \<Rightarrow> csrc \<Rightarrow> nat \<Rightarrow> 'z machine_scheme \<Rightarrow> (kerr + unit \<times> 'z machine_scheme) option" where
  "puts_loop putc str i s =
     (if str (mem s) i = 0 then Some (Inr ((), s))
      else (case putc (str (mem s) i) s of Inl e \<Rightarrow> Some (Inl e) | Inr (_, s') \<Rightarrow> puts_loop putc str (Suc i) s'))"

definition serial_puts :: "'z machine_scheme uart_ops \<Rightarrow> csrc \<Rightarrow> ('z machine_scheme, unit) kop" where
  "serial_puts ser str = khang (puts_loop (serial_putc ser) str 0)"

definition serial_getc :: "'s uart_ops \<Rightarrow> ('s, u8) kop" where
  "serial_getc ser = uart_recv ser"

definition serial_intr :: "'z disp_state_scheme uart_ops \<Rightarrow> ('z disp_state_scheme, unit) kop" where
  "serial_intr ser = kbind (serial_getc ser) (\<lambda>c. tty_new_data ser SerialTty c)"

section \<open>src/kernel/printf.c\<close>

definition CHARS_PER_U64 :: nat where "CHARS_PER_U64 = 16"

definition digits :: string where "digits = ''0123456789ABCDEF''"

text \<open>The arguments after the format: an integer or a string.\<close>

datatype va = VaInt u64 | VaStr csrc

definition printf_putc :: "'z disp_state_scheme uart_ops \<Rightarrow> u8 \<Rightarrow> ('z disp_state_scheme, unit) kop" where
  "printf_putc ser c = kseq (serial_putc ser c) (active_display_putc c)"

text \<open>The characters of \<open>_print_hex\<close>, in the order it prints them.\<close>

primrec hex_loop :: "nat \<Rightarrow> u64 \<Rightarrow> u8 list" where
  "hex_loop 0 val = []"
| "hex_loop (Suc n) val = of_char (digits ! unat (drop_bit 60 val)) # hex_loop n (push_bit 4 val)"

definition print_hex :: "(u8 \<Rightarrow> ('s, unit) kop) \<Rightarrow> u64 \<Rightarrow> ('s, unit) kop" where
  "print_hex putc val = kfor (hex_loop CHARS_PER_U64 val) putc"

definition print_str :: "(u8 \<Rightarrow> ('z machine_scheme, unit) kop) \<Rightarrow> csrc \<Rightarrow> ('z machine_scheme, unit) kop" where
  "print_str putc str = khang (puts_loop putc str 0)"

text \<open>
  \<open>_printf_internal\<close>. A missing argument and an argument of the other kind are not defined in C; a percent
  sign at the end of the format makes the loop step over the terminator.
\<close>

definition printf_arg_hex :: "(u8 \<Rightarrow> ('z machine_scheme, unit) kop) \<Rightarrow> va list \<Rightarrow> ('z machine_scheme, unit) kop" where
  "printf_arg_hex putc args = (case args of VaInt v # _ \<Rightarrow> print_hex putc v | _ \<Rightarrow> kfault ''va_arg'')"

definition printf_arg_str :: "(u8 \<Rightarrow> ('z machine_scheme, unit) kop) \<Rightarrow> va list \<Rightarrow> ('z machine_scheme, unit) kop" where
  "printf_arg_str putc args = (case args of VaStr str # _ \<Rightarrow> print_str putc str | _ \<Rightarrow> kfault ''va_arg'')"

definition printf_directive ::
  "(u8 \<Rightarrow> ('z machine_scheme, unit) kop) \<Rightarrow> u8 \<Rightarrow> va list \<Rightarrow> ('z machine_scheme, va list) kop" where
  "printf_directive putc d args =
     (if d = 0x78 \<or> d = 0x58 then kseq (printf_arg_hex putc args) (kreturn (tl args))
      else if d = 0x73 then kseq (printf_arg_str putc args) (kreturn (tl args))
      else kseq (putc 0x25) (kseq (putc d) (kreturn args)))"

partial_function (option) printf_loop ::
  "(u8 \<Rightarrow> ('z machine_scheme, unit) kop) \<Rightarrow> csrc \<Rightarrow> nat \<Rightarrow> va list \<Rightarrow> 'z machine_scheme \<Rightarrow>
     (kerr + unit \<times> 'z machine_scheme) option" where
  "printf_loop putc fmt i args s =
     (if fmt (mem s) i = 0 then Some (Inr ((), s))
      else if fmt (mem s) i \<noteq> 0x25 then
        (case putc (fmt (mem s) i) s of Inl e \<Rightarrow> Some (Inl e) | Inr (_, s') \<Rightarrow> printf_loop putc fmt (Suc i) args s')
      else
        (case printf_directive putc (fmt (mem s) (Suc i)) args s of
           Inl e \<Rightarrow> Some (Inl e) | Inr (args', s') \<Rightarrow> printf_loop putc fmt (Suc (Suc i)) args' s'))"

definition printf :: "'z disp_state_scheme uart_ops \<Rightarrow> csrc \<Rightarrow> va list \<Rightarrow> ('z disp_state_scheme, unit) kop" where
  "printf ser fmt args = khang (printf_loop (printf_putc ser) fmt 0 args)"

end
