(* ===== verification/Sky_Proc.thy ===== *)
theory Sky_Proc
  imports Sky_Tty
begin

text \<open>
  From programs to system calls: checked access to user memory (src/kernel/copyio.c), program arguments
  (src/kernel/arg.c), the ELF loader (src/kernel/elf.c), thread and task creation (src/kernel/thread.c,
  src/kernel/task.c), the start of the scheduler, and the system calls (src/kernel/syscall.c).

  What the link step, the build and the platform choose is in a record \<open>kenv\<close>: the ISA, the context
  switch, the serial port's operations, the font, the addresses of \<open>jump_to_user\<close> and of the kernel
  thread bodies, and the strings of \<open>uname\<close>. The buffers that live on a C stack frame are at addresses
  given as arguments. Memory is indexed by virtual address, so the user half is that of the address space
  in force; that a user page is also visible in the linear map is not part of the model.
\<close>

record 's kenv =
  k_arch :: isa
  k_cswitch :: "'s cswitch_op"
  k_uart :: "'s uart_ops"
  k_font :: "nat \<Rightarrow> u8"
  k_jump_to_user :: u64
  k_thread_root :: u64
  k_thread_idle :: u64
  k_thread_display_update :: u64
  k_variant :: string
  k_arch_name :: string

section \<open>src/kernel/copyio.c\<close>

text \<open>The page size, whether the cursor may be used, and whether it is mapped, for one round of the loop.\<close>

definition access_step :: "pte_ops \<Rightarrow> task_t \<Rightarrow> u64 \<Rightarrow> memory \<Rightarrow> kerr + usize option" where
  "access_step ops t user_cursor m =
     (case get_page_size ops (pagetable t) user_cursor m of
        Inl e \<Rightarrow> Inl e
      | Inr pgsize \<Rightarrow>
          if taskmode t = MODE_USER \<and> \<not> is_user_va user_cursor then Inr None
          else (case is_page_mapped ops (pagetable t) user_cursor m of
                  Inl e \<Rightarrow> Inl e
                | Inr mapped \<Rightarrow> Inr (if mapped then Some pgsize else None)))"

partial_function (option) access_loop :: "pte_ops \<Rightarrow> task_t \<Rightarrow> u64 \<Rightarrow> u64 \<Rightarrow> memory \<Rightarrow> (kerr + bool) option" where
  "access_loop ops t limit user_cursor m =
     (if user_cursor < limit
      then (case access_step ops t user_cursor m of
              Inl e \<Rightarrow> Some (Inl e)
            | Inr None \<Rightarrow> Some (Inr False)
            | Inr (Some pgsize) \<Rightarrow>
                if pgsize = 0 then Some (Inl (Fault ''division by zero''))
                else access_loop ops t limit (user_cursor + (pgsize - user_cursor mod pgsize)) m)
      else Some (Inr True))"

definition access_ok :: "pte_ops \<Rightarrow> nat option \<Rightarrow> u64 \<Rightarrow> usize \<Rightarrow> ('z task_state_scheme, bool) kop" where
  "access_ok ops tp user_va len =
     kbind (get_task tp) (\<lambda>t.
     kbind (kloop ''access_ok'' (\<lambda>s. access_loop ops t (user_va + len) user_va (mem s))) klift)"

definition copyin :: "pte_ops \<Rightarrow> nat option \<Rightarrow> u64 \<Rightarrow> u64 \<Rightarrow> usize \<Rightarrow> ('z task_state_scheme, bool) kop" where
  "copyin ops tp kern_buf user_va len =
     kbind (access_ok ops tp user_va len) (\<lambda>ok.
       if \<not> ok then kreturn False
       else kseq (kmodify (\<lambda>s. s\<lparr>mem := memcpy kern_buf user_va len (mem s)\<rparr>)) (kreturn True))"

definition copyout :: "pte_ops \<Rightarrow> nat option \<Rightarrow> u64 \<Rightarrow> u64 \<Rightarrow> usize \<Rightarrow> ('z task_state_scheme, bool) kop" where
  "copyout ops tp user_va kern_buf len =
     kbind (access_ok ops tp user_va len) (\<lambda>ok.
       if \<not> ok then kreturn False
       else kseq (kmodify (\<lambda>s. s\<lparr>mem := memcpy user_va kern_buf len (mem s)\<rparr>)) (kreturn True))"

section \<open>src/kernel/arg.c\<close>

definition DEFAULT_ARG_LOCATION :: u64 where "DEFAULT_ARG_LOCATION = 0x70000000"
definition ARG_IDX_ARGC :: usize where "ARG_IDX_ARGC = 0"
definition ARG_IDX_ARGV :: usize where "ARG_IDX_ARGV = 1"

definition set_reg_args :: "isa \<Rightarrow> u64 \<Rightarrow> usize \<Rightarrow> ('z machine_scheme, unit) kop" where
  "set_reg_args arch regs argc =
     kbind (kgets (\<lambda>s. set_reg_arg arch regs ARG_IDX_ARGC argc (mem s))) (\<lambda>r.
     kbind (klift r) (\<lambda>m.
     kseq (kmodify (\<lambda>s. s\<lparr>mem := m\<rparr>))
     (kbind (kgets (\<lambda>s. set_reg_arg arch regs ARG_IDX_ARGV DEFAULT_ARG_LOCATION (mem s))) (\<lambda>r.
     kbind (klift r) (\<lambda>m. kmodify (\<lambda>s. s\<lparr>mem := m\<rparr>))))))"

text \<open>One argument: copied to the cursor, its user address entered, the cursor moved past it; \<open>None\<close> is a failed copy.\<close>

definition copyin_one_arg :: "pte_ops \<Rightarrow> nat option \<Rightarrow> u64 \<Rightarrow> u64 \<Rightarrow> usize \<Rightarrow> u64 \<Rightarrow> ('z task_state_scheme, u64 option) kop" where
  "copyin_one_arg ops parent_task arg_page argv_in argc out_str_cursor =
     kbind (kgets (\<lambda>s. load64 (mem s) (argv_in + 8 * argc))) (\<lambda>arg.
     kbind (copyin ops parent_task out_str_cursor arg TASK_ARG_LEN) (\<lambda>success.
       if \<not> success then kreturn None
       else
         kseq (kmodify (\<lambda>s. s\<lparr>mem := store64 (mem s) (arg_page + 8 * argc) (out_str_cursor - arg_page + DEFAULT_ARG_LOCATION)\<rparr>))
         (kbind (kgets (\<lambda>s. load64 (mem s) (argv_in + 8 * argc))) (\<lambda>arg.
         kbind (kloop ''strlen'' (\<lambda>s. strlen (ptr arg) (mem s))) (\<lambda>n.
         kreturn (Some (ROUND_UP_POW2 (out_str_cursor + (n + 1)) 8)))))))"

partial_function (option) copyin_args_loop ::
  "pte_ops \<Rightarrow> nat option \<Rightarrow> u64 \<Rightarrow> u64 \<Rightarrow> usize \<Rightarrow> u64 \<Rightarrow> 'z task_state_scheme \<Rightarrow>
     (kerr + usize option \<times> 'z task_state_scheme) option" where
  "copyin_args_loop ops parent_task arg_page argv_in argc out_str_cursor s =
     (if load64 (mem s) (argv_in + 8 * argc) = 0 then Some (Inr (Some argc, s))
      else (case copyin_one_arg ops parent_task arg_page argv_in argc out_str_cursor s of
              Inl e \<Rightarrow> Some (Inl e)
            | Inr (None, s') \<Rightarrow> Some (Inr (None, s'))
            | Inr (Some c, s') \<Rightarrow> copyin_args_loop ops parent_task arg_page argv_in (argc + 1) c s'))"

definition copyin_args :: "isa \<Rightarrow> nat option \<Rightarrow> u64 \<Rightarrow> ('z task_state_scheme, bool) kop" where
  "copyin_args arch tp argv_in =
     (let ops = isa_pte arch in
      kbind (alloc_page PAGE_SMALL) (\<lambda>arg_page.
      kbind (get_task tp) (\<lambda>x.
      kbind (get_task (th_task (thread x))) (\<lambda>t.
      kbind (kgets (\<lambda>s. is_page_mapped ops (pagetable t) DEFAULT_ARG_LOCATION (mem s))) (\<lambda>r.
      kbind (klift r) (\<lambda>mapped.
      kseq (kassert (\<not> mapped) ''assert'')
      (kbind current_task (\<lambda>c.
      kseq (kassert (c = parent t) ''assert'')
      (kseq (kassert (uregs (thread x) \<noteq> 0) ''assert'')
      (kseq (kassert (parent t \<noteq> None) ''assert'')
      (kseq (map_page ops (pagetable t) DEFAULT_ARG_LOCATION (KERN_V2P arg_page) PAGE_SMALL MODE_USER)
      (kseq (kfor [0..<TASK_MAX_ARGS] (\<lambda>i. kmodify (\<lambda>s. s\<lparr>mem := store64 (mem s) (arg_page + 8 * of_nat i) 0\<rparr>)))
      (if argv_in = 0 then kseq (set_reg_args arch (uregs (thread x)) 0) (kreturn True)
       else
         kbind (khang (copyin_args_loop ops (parent t) arg_page argv_in 0 (arg_page + 8 * of_nat TASK_MAX_ARGS))) (\<lambda>r.
           case r of None \<Rightarrow> kreturn False
           | Some argc \<Rightarrow> kseq (set_reg_args arch (uregs (thread x)) argc) (kreturn True)))))))))))))))"

section \<open>inc/loader/elf.h and src/kernel/elf.c\<close>

definition ELF_MAGIC :: u32 where "ELF_MAGIC = 0x464C457F"

primrec EXPECTED_ELF_MACHINE_CODE :: "isa \<Rightarrow> u16" where
  "EXPECTED_ELF_MACHINE_CODE X86_64 = 62"
| "EXPECTED_ELF_MACHINE_CODE AARCH64 = 183"
| "EXPECTED_ELF_MACHINE_CODE RISCV64 = 243"

text \<open>\<open>elfhdr_t\<close> (64 bytes) and \<open>proghdr_t\<close> (56 bytes), with their layout in memory.\<close>

record elfhdr_t =
  e_magic :: u32
  e_machine :: u16
  e_entrypoint :: u64
  e_phoff :: u64
  e_ph_entsize :: u16
  e_ph_num :: u16

definition elfhdr_size :: usize where "elfhdr_size = 64"

definition load_elfhdr :: "memory \<Rightarrow> u64 \<Rightarrow> elfhdr_t" where
  "load_elfhdr m h = \<lparr>e_magic = load32 m h, e_machine = load16 m (h + 18), e_entrypoint = load64 m (h + 24),
     e_phoff = load64 m (h + 32), e_ph_entsize = load16 m (h + 54), e_ph_num = load16 m (h + 56)\<rparr>"

record proghdr_t =
  p_type :: u32
  p_offset :: u64
  p_vaddr :: u64
  p_filesz :: u64
  p_memsz :: u64

definition proghdr_size :: usize where "proghdr_size = 56"

definition load_proghdr :: "memory \<Rightarrow> u64 \<Rightarrow> proghdr_t" where
  "load_proghdr m h = \<lparr>p_type = load32 m h, p_offset = load64 m (h + 8), p_vaddr = load64 m (h + 16),
     p_filesz = load64 m (h + 32), p_memsz = load64 m (h + 40)\<rparr>"

definition PT_LOAD :: u32 where "PT_LOAD = 1"

definition load_seg_page :: "pte_ops \<Rightarrow> u64 \<Rightarrow> nat \<Rightarrow> proghdr_t \<Rightarrow> nat \<Rightarrow> ('z fs_state_scheme, unit) kop" where
  "load_seg_page ops ptable elf lc i =
     (let map_va = p_vaddr lc + SMALL_PAGE_SIZE * of_nat i in
      kbind (alloc_page PAGE_SMALL) (\<lambda>to_va.
      let to_pa = KERN_V2P to_va in
      kseq (map_page ops ptable map_va to_pa PAGE_SMALL MODE_USER)
      (kseq (kmodify (\<lambda>s. s\<lparr>mem := memset to_va 0 SMALL_PAGE_SIZE (mem s)\<rparr>))
      (kseq (tar_read_at elf to_va SMALL_PAGE_SIZE (p_offset lc + SMALL_PAGE_SIZE * of_nat i))
      (kreturn ())))))"

definition load_seg :: "pte_ops \<Rightarrow> u64 \<Rightarrow> nat \<Rightarrow> proghdr_t \<Rightarrow> ('z fs_state_scheme, unit) kop" where
  "load_seg ops ptable elf lc =
     kseq (kassert (p_memsz lc > 0) ''assert'')
     (kseq (kassert (IS_ALIGNED_SMALL (p_vaddr lc)) ''assert'')
     (let n_pages = ROUND_UP_POW2 (p_memsz lc) SMALL_PAGE_SIZE div SMALL_PAGE_SIZE in
      kfor [0..<unat n_pages] (load_seg_page ops ptable elf lc)))"

definition load_elf :: "isa \<Rightarrow> u64 \<Rightarrow> u64 \<Rightarrow> u64 \<Rightarrow> nat \<Rightarrow> ('z fs_state_scheme, bool) kop" where
  "load_elf arch header loadcmd ptable elf =
     kbind (tar_read_at elf header elfhdr_size 0) (\<lambda>bytes_read.
     kbind (kgets (\<lambda>s. load_elfhdr (mem s) header)) (\<lambda>h.
       if bytes_read \<noteq> elfhdr_size then kreturn False
       else if e_magic h \<noteq> ELF_MAGIC then kreturn False
       else if e_machine h \<noteq> EXPECTED_ELF_MACHINE_CODE arch then kreturn False
       else if proghdr_size \<noteq> ucast (e_ph_entsize h) then kreturn False
       else
         kseq (kfor [0..<unat (e_ph_num h)] (\<lambda>i.
           kbind (tar_read_at elf loadcmd (ucast (e_ph_entsize h)) (e_phoff h + of_nat i * ucast (e_ph_entsize h))) (\<lambda>bytes_read.
           kseq (kassert (bytes_read = proghdr_size) ''assert'')
           (kbind (kgets (\<lambda>s. load_proghdr (mem s) loadcmd)) (\<lambda>lc.
            kwhen (p_type lc = PT_LOAD) (load_seg (isa_pte arch) ptable elf lc))))))
         (kreturn True)))"

definition elf_entrypoint :: "u64 \<Rightarrow> nat \<Rightarrow> ('z fs_state_scheme, u64) kop" where
  "elf_entrypoint entrypoint elf =
     kseq (tar_read_at elf entrypoint 8 24) (kgets (\<lambda>s. load64 (mem s) entrypoint))"

section \<open>src/kernel/thread.c\<close>

definition DEFAULT_USER_STACK :: u64 where "DEFAULT_USER_STACK = 0x7FFFF000"

definition setup_blank_thread :: "nat option \<Rightarrow> ('z task_state_scheme, unit) kop" where
  "setup_blank_thread t =
     kbind (alloc_page PAGE_SMALL) (\<lambda>pg.
     kseq (upd_task t (\<lambda>x. x\<lparr>thread := (thread x)\<lparr>kstack_pg := pg, th_state := THREAD_READY, uregs := 0, th_task := t,
       sleep_reason := None, saved_sp := STACK_BOTTOM pg, trapdepth := 0\<rparr>\<rparr>))
     (kseq (upd_links (\<lambda>k. Inr (list_init (TaskLink (the t)) k)))
     (kassert (0 \<noteq> pg) ''assert'')))"

definition setup_kernel_thread :: "isa \<Rightarrow> nat option \<Rightarrow> u64 \<Rightarrow> ('z task_state_scheme, unit) kop" where
  "setup_kernel_thread arch t entrypoint =
     kseq (setup_blank_thread t)
     (kseq (upd_task t (\<lambda>x. x\<lparr>taskmode := MODE_KERN\<rparr>))
     (kseq (upd_task t (\<lambda>x. x\<lparr>thread := (thread x)\<lparr>saved_sp := saved_sp (thread x) - KREGS_SIZE arch\<rparr>\<rparr>))
     (kbind (get_task t) (\<lambda>x.
      let kregs = saved_sp (thread x) in
      kseq (kmodify (\<lambda>s. s\<lparr>mem := memset kregs 0 (KREGS_SIZE arch) (mem s)\<rparr>))
      (kmodify (\<lambda>s. s\<lparr>mem := store64 (mem s) (reg_at kregs (kern_ra arch)) entrypoint\<rparr>))))))"

definition setup_user_thread :: "isa \<Rightarrow> u64 \<Rightarrow> nat option \<Rightarrow> u64 \<Rightarrow> ('z task_state_scheme, unit) kop" where
  "setup_user_thread arch jump_to_user t entrypoint =
     kseq (setup_blank_thread t)
     (kseq (upd_task t (\<lambda>x. x\<lparr>taskmode := MODE_USER\<rparr>))
     (kbind (get_task t) (\<lambda>x.
     kbind (kgets (\<lambda>s. is_page_mapped (isa_pte arch) (pagetable x) DEFAULT_USER_STACK (mem s))) (\<lambda>r.
     kbind (klift r) (\<lambda>mapped.
     kseq (kassert (\<not> mapped) ''assert'')
     (kbind (alloc_page PAGE_SMALL) (\<lambda>pg.
     kseq (map_page (isa_pte arch) (pagetable x) DEFAULT_USER_STACK (KERN_V2P pg) PAGE_SMALL MODE_USER)
     (let ur = saved_sp (thread x) - REGS_SIZE arch; kregs = ur - KREGS_SIZE arch in
      kseq (upd_task t (\<lambda>x. x\<lparr>thread := (thread x)\<lparr>saved_sp := kregs\<rparr>\<rparr>))
      (kseq (kmodify (\<lambda>s. s\<lparr>mem := memset ur 0 (REGS_SIZE arch) (mem s)\<rparr>))
      (kseq (kmodify (\<lambda>s. s\<lparr>mem := memset kregs 0 (KREGS_SIZE arch) (mem s)\<rparr>))
      (kseq (upd_task t (\<lambda>x. x\<lparr>thread := (thread x)\<lparr>uregs := ur\<rparr>\<rparr>))
      (kseq (kmodify (\<lambda>s. s\<lparr>mem := init_user_regs arch ur entrypoint (STACK_BOTTOM DEFAULT_USER_STACK) (mem s)\<rparr>))
      (kmodify (\<lambda>s. s\<lparr>mem := store64 (mem s) (reg_at kregs (kern_ra arch)) jump_to_user\<rparr>))))))))))))))"

section \<open>src/kernel/task.c\<close>

definition init_tasks :: "('z task_state_scheme, unit) kop" where
  "init_tasks = kfor [0..<MAX_TASKS] (\<lambda>i. upd_task (Some i) (\<lambda>x. x\<lparr>t_valid := False\<rparr>))"

text \<open>The task after \<open>memset (t, 0, sizeof *t)\<close>.\<close>

definition zero_task :: task_t where
  "zero_task = \<lparr>thread = \<lparr>saved_sp = 0, kstack_pg = 0, th_task = None, sleep_reason = None, th_state = THREAD_STATE_NONE,
       trapdepth = 0, uregs = 0\<rparr>,
     pagetable = 0, fds = replicate TASK_NUM_FILES None, parent = None, waiting_child = None, child_exit_code = 0,
     taskname = replicate TASK_NAMELEN 0, taskmode = CPU_MODE_UNDEFINED, pending_sigint = False, t_valid = False\<rparr>"

text \<open>\<open>strncpy\<close> into the zeroed name field.\<close>

definition copy_name :: "csrc \<Rightarrow> memory \<Rightarrow> u8 list" where
  "copy_name name m =
     map (\<lambda>i. strncpy 0 (\<lambda>_. name m) (of_nat TASK_NAMELEN) (\<lambda>_. 0) (of_nat i)) [0..<TASK_NAMELEN]"

definition create_empty_task :: "isa \<Rightarrow> csrc \<Rightarrow> ('z task_state_scheme, nat option) kop" where
  "create_empty_task arch name =
     kbind (kgets task_pool) (\<lambda>pool.
       case find_from (\<lambda>i. length pool \<le> i \<or> \<not> t_valid (pool ! i)) 0 MAX_TASKS of
         None \<Rightarrow> kpanic ''assert''
       | Some i \<Rightarrow>
           let t = Some i in
           kseq (upd_task t (\<lambda>_. zero_task))
           (kseq (upd_links (\<lambda>k. Inr (k\<lparr>next_of := (next_of k)(TaskLink i := None), prev_of := (prev_of k)(TaskLink i := None)\<rparr>)))
           (kseq (upd_task t (\<lambda>x. x\<lparr>t_valid := True\<rparr>))
           (kseq (upd_task t (\<lambda>x. x\<lparr>fds := replicate TASK_NUM_FILES None\<rparr>))
           (kseq (upd_task t (\<lambda>x. x\<lparr>parent := None, waiting_child := None, child_exit_code := 0, pending_sigint := False,
              thread := (thread x)\<lparr>th_state := THREAD_STATE_NONE\<rparr>, taskmode := CPU_MODE_UNDEFINED\<rparr>))
           (kbind alloc_pagetable (\<lambda>pt.
           kseq (upd_task t (\<lambda>x. x\<lparr>pagetable := pt\<rparr>))
           (kseq (kassert (pt \<noteq> 0) ''assert'')
           (kseq (map_kernel (isa_pte arch) pt)
           (kbind (kgets (\<lambda>s. copy_name name (mem s))) (\<lambda>nm.
           kseq (upd_task t (\<lambda>x. x\<lparr>taskname := nm\<rparr>))
           (kreturn t))))))))))))"

text \<open>The three buffers on the stack of the loader, for the two headers and the entry point.\<close>

record elf_frame =
  at_header :: u64
  at_loadcmd :: u64
  at_entry :: u64

definition create_user_task_elf :: "isa \<Rightarrow> u64 \<Rightarrow> elf_frame \<Rightarrow> csrc \<Rightarrow> ('z task_state_scheme, nat option) kop" where
  "create_user_task_elf arch jump_to_user fr exe =
     kbind (file_open exe) (\<lambda>elf.
       case elf of None \<Rightarrow> kreturn None
       | Some f \<Rightarrow>
           kbind (create_empty_task arch exe) (\<lambda>t.
           kbind (get_task t) (\<lambda>x.
           kseq (kassert (fds x ! FD_STDIN = None) ''assert'')
           (kseq (kassert (fds x ! FD_STDOUT = None) ''assert'')
           (kseq (kassert (fds x ! FD_STDERR = None) ''assert'')
           (kbind (load_elf arch (at_header fr) (at_loadcmd fr) (pagetable x) f) (\<lambda>load_success.
             if \<not> load_success then kseq (free_task (isa_pte arch) t) (kreturn None)
             else
               kbind (elf_entrypoint (at_entry fr) f) (\<lambda>entry.
               kseq (setup_user_thread arch jump_to_user t entry)
               (kseq (file_close f)
               (kreturn t)))))))))) "

definition set_fd :: "nat option \<Rightarrow> nat \<Rightarrow> nat option \<Rightarrow> ('z task_state_scheme, unit) kop" where
  "set_fd t i f = upd_task t (\<lambda>x. x\<lparr>fds := (fds x)[i := f]\<rparr>)"

definition task_spawn_kernel :: "isa \<Rightarrow> csrc \<Rightarrow> csrc \<Rightarrow> u64 \<Rightarrow> ('z task_state_scheme, nat option) kop" where
  "task_spawn_kernel arch name stdio_device_path entrypoint =
     kbind (create_empty_task arch name) (\<lambda>new_task.
       if new_task = None then kreturn None
       else
         kbind (file_open stdio_device_path) (\<lambda>f0.
         kseq (set_fd new_task FD_STDIN f0)
         (kbind (file_open stdio_device_path) (\<lambda>f1.
         kseq (set_fd new_task FD_STDOUT f1)
         (kbind (file_open stdio_device_path) (\<lambda>f2.
         kseq (set_fd new_task FD_STDERR f2)
         (kseq (setup_kernel_thread arch new_task entrypoint)
         (kseq (upd_links (list_add (TaskLink (the new_task)) ListHead))
         (kreturn new_task)))))))))"

text \<open>\<open>file_dup\<close> of a descriptor; following a NULL file is a fault.\<close>

definition dup_fd :: "task_t \<Rightarrow> nat \<Rightarrow> ('z fs_state_scheme, nat option) kop" where
  "dup_fd x i = (case fds x ! i of None \<Rightarrow> kfault ''file: NULL'' | Some f \<Rightarrow> file_dup f)"

definition MINUS_1 :: u64 where "MINUS_1 = - 1"

text \<open>
  The part of \<open>task_spawn_user\<close> up to the insertion of the new task in the list; \<open>None\<close> stands for its
  returns with an error.
\<close>

definition spawn_user_task ::
  "'z task_state_scheme kenv \<Rightarrow> elf_frame \<Rightarrow> csrc \<Rightarrow> u64 \<Rightarrow> nat option \<Rightarrow> ('z task_state_scheme, nat option) kop" where
  "spawn_user_task env fr path argv cur_task =
     (let arch = k_arch env in
      kbind (create_user_task_elf arch (k_jump_to_user env) fr path) (\<lambda>new_task.
        if new_task = None then kreturn None
        else
          kseq (upd_task new_task (\<lambda>x. x\<lparr>parent := cur_task\<rparr>))
          (kbind (get_task cur_task) (\<lambda>c.
          kbind (dup_fd c FD_STDIN) (\<lambda>f0.
          kseq (set_fd new_task FD_STDIN f0)
          (kbind (dup_fd c FD_STDOUT) (\<lambda>f1.
          kseq (set_fd new_task FD_STDOUT f1)
          (kbind (dup_fd c FD_STDERR) (\<lambda>f2.
          kseq (set_fd new_task FD_STDERR f2)
          (kseq (kassert (f0 \<noteq> None) ''assert'')
          (kseq (kassert (f1 \<noteq> None) ''assert'')
          (kseq (kassert (f2 \<noteq> None) ''assert'')
          (kbind (copyin_args arch new_task argv) (\<lambda>ok.
            if \<not> ok then
              kseq (upd_task new_task (\<lambda>x. x\<lparr>thread := (thread x)\<lparr>th_state := THREAD_ZOMBIE\<rparr>\<rparr>))
              (kseq (free_task (isa_pte arch) new_task)
              (kreturn None))
            else
              kseq (upd_links (list_add (TaskLink (the new_task)) ListHead))
              (kreturn new_task)))))))))))))))"

definition task_spawn_user ::
  "'z task_state_scheme kenv \<Rightarrow> elf_frame \<Rightarrow> csrc \<Rightarrow> u64 \<Rightarrow> u64 \<Rightarrow> ('z task_state_scheme, u64) kop" where
  "task_spawn_user env fr path mode argv =
     (let arch = k_arch env; cs = k_cswitch env in
      kbind current_task (\<lambda>cur_task.
      kbind (spawn_user_task env fr path argv cur_task) (\<lambda>new_task.
        if new_task = None then kreturn MINUS_1
        else if mode = SPAWN_NOWAIT then kseq (scheduler arch cs) (kreturn 0)
        else
          kseq (upd_task cur_task (\<lambda>x. x\<lparr>waiting_child := new_task\<rparr>))
          (kseq (upd_task cur_task (\<lambda>x. x\<lparr>thread := (thread x)\<lparr>th_state := THREAD_SLEEPING\<rparr>\<rparr>))
          (kseq (sleep arch cs (WaitingChild (the cur_task)))
          (kbind current_task (\<lambda>now.
          kseq (kassert (cur_task = now) ''assert'')
          (kbind (get_task cur_task) (\<lambda>x.
          kseq (kassert (THREAD_READY = th_state (thread x)) ''assert'')
          (kseq (kassert (waiting_child x = None) ''assert'')
          (kreturn (child_exit_code x))))))))))))"

end
