(* ===== verification/Sky_Ptree.thy ===== *)
theory Sky_Ptree
  imports Sky_Vm
begin

text \<open>
  The page tables as a tree. \<open>E t i\<close> is entry \<open>i\<close> of the table at address \<open>t\<close>; over such a
  function the tables reachable from a root, the table at which the walk of an address arrives and
  the leaf it finds are recursions on the level. \<open>pt_wf\<close> says that the tables are pages of the
  linear map and form a tree: no table is reached twice. The lemma \<open>update_tree\<close> gives the
  effect of changing one entry, which is all that \<open>map_page\<close>, \<open>unmap_page\<close> and
  \<open>page_set_cache_policy\<close> do to the tree.
\<close>

section \<open>The tree\<close>

definition child_of :: "pte_ops \<Rightarrow> nat \<Rightarrow> u64 \<Rightarrow> u64 option" where
  "child_of ops l e =
     (if pte_is_valid ops e \<and> \<not> pte_is_leaf ops e l then Some (KERN_P2V (pte_get_phys ops e)) else None)"

type_synonym entries = "u64 \<Rightarrow> nat \<Rightarrow> u64"

primrec pt_tables :: "pte_ops \<Rightarrow> entries \<Rightarrow> nat \<Rightarrow> u64 \<Rightarrow> u64 set" where
  "pt_tables ops E 0 t = {t}"
| "pt_tables ops E (Suc l) t =
     insert t (\<Union>i \<in> {i. i < 512}. case child_of ops (Suc l) (E t i) of
       None \<Rightarrow> {} | Some c \<Rightarrow> pt_tables ops E l c)"

primrec pt_lookup :: "pte_ops \<Rightarrow> entries \<Rightarrow> nat \<Rightarrow> u64 \<Rightarrow> u64 \<Rightarrow> (u64 \<times> nat) option" where
  "pt_lookup ops E 0 t va =
     (let e = E t (get_pt_index va 0) in if pte_is_valid ops e then Some (e, 0) else None)"
| "pt_lookup ops E (Suc l) t va =
     (let e = E t (get_pt_index va (Suc l)) in
      if \<not> pte_is_valid ops e then None
      else if pte_is_leaf ops e (Suc l) then Some (e, Suc l)
      else pt_lookup ops E l (KERN_P2V (pte_get_phys ops e)) va)"

text \<open>\<open>pt_reach E l t va k q\<close>: walking \<open>va\<close> from table \<open>t\<close> of level \<open>l\<close> arrives at table \<open>q\<close> of level \<open>k\<close>.\<close>

primrec pt_reach :: "pte_ops \<Rightarrow> entries \<Rightarrow> nat \<Rightarrow> u64 \<Rightarrow> u64 \<Rightarrow> nat \<Rightarrow> u64 \<Rightarrow> bool" where
  "pt_reach ops E 0 t va k q \<longleftrightarrow> k = 0 \<and> q = t"
| "pt_reach ops E (Suc l) t va k q \<longleftrightarrow>
     (if k = Suc l then q = t
      else case child_of ops (Suc l) (E t (get_pt_index va (Suc l))) of
             None \<Rightarrow> False | Some c \<Rightarrow> pt_reach ops E l c va k q)"

definition page_ok :: "u64 \<Rightarrow> bool" where
  "page_ok t \<longleftrightarrow> IS_ALIGNED_SMALL t \<and> kern_addr t"

primrec pt_wf :: "pte_ops \<Rightarrow> entries \<Rightarrow> nat \<Rightarrow> u64 \<Rightarrow> bool" where
  "pt_wf ops E 0 t \<longleftrightarrow> page_ok t \<and> (\<forall>i < 512. child_of ops 0 (E t i) = None)"
| "pt_wf ops E (Suc l) t \<longleftrightarrow> page_ok t \<and>
     (\<forall>i < 512. \<forall>c. child_of ops (Suc l) (E t i) = Some c \<longrightarrow> pt_wf ops E l c \<and> t \<notin> pt_tables ops E l c) \<and>
     (\<forall>i < 512. \<forall>j < 512. \<forall>c d. i \<noteq> j \<and> child_of ops (Suc l) (E t i) = Some c \<and>
        child_of ops (Suc l) (E t j) = Some d \<longrightarrow> pt_tables ops E l c \<inter> pt_tables ops E l d = {})"

text \<open>Two addresses use the same entry at level \<open>k\<close>, coming from level \<open>l\<close>.\<close>

definition same_path :: "nat \<Rightarrow> nat \<Rightarrow> u64 \<Rightarrow> u64 \<Rightarrow> bool" where
  "same_path k l va va' \<longleftrightarrow> (\<forall>j. k \<le> j \<and> j \<le> l \<longrightarrow> get_pt_index va j = get_pt_index va' j)"

section \<open>Basic facts\<close>

lemma get_pt_index_lt: "get_pt_index va l < 512"
proof -
  have "drop_bit n va AND MASK 9 = take_bit 9 (drop_bit n va)" for n
    by (simp add: MASK_eq_mask take_bit_eq_mask)
  moreover have "unat (take_bit 9 (drop_bit n va)) < 2 ^ 9" for n
    by (simp only: unsigned_take_bit_eq) (rule take_bit_nat_less_exp)
  ultimately show ?thesis by (simp add: get_pt_index_def PAGE_BITS_PER_LEVEL_def)
qed

lemma pt_tables_self [simp]: "t \<in> pt_tables ops E l t"
  by (cases l) simp_all

lemma pt_tables_child:
  "i < 512 \<Longrightarrow> child_of ops (Suc l) (E t i) = Some c \<Longrightarrow> pt_tables ops E l c \<subseteq> pt_tables ops E (Suc l) t"
  by (force intro!: bexI [of _ i])

lemma pt_tablesE:
  assumes "q \<in> pt_tables ops E (Suc l) t"
  obtains "q = t" | i c where "i < 512" "child_of ops (Suc l) (E t i) = Some c" "q \<in> pt_tables ops E l c"
  using assms by (auto split: option.splits)

lemma pt_wf_page: "pt_wf ops E l t \<Longrightarrow> page_ok t"
  by (cases l) simp_all

lemma pt_wf_child:
  assumes "pt_wf ops E (Suc l) t" "i < 512" "child_of ops (Suc l) (E t i) = Some c"
  shows "pt_wf ops E l c" and "t \<notin> pt_tables ops E l c"
  using assms by auto

lemma pt_wf_disjoint:
  assumes "pt_wf ops E (Suc l) t" "i < 512" "j < 512" "i \<noteq> j"
    "child_of ops (Suc l) (E t i) = Some c" "child_of ops (Suc l) (E t j) = Some d"
  shows "pt_tables ops E l c \<inter> pt_tables ops E l d = {}"
  using assms by auto

lemma pt_wf_tables_page: "pt_wf ops E l t \<Longrightarrow> q \<in> pt_tables ops E l t \<Longrightarrow> page_ok q"
proof (induction l arbitrary: t)
  case 0
  then show ?case by simp
next
  case (Suc l)
  from Suc.prems(2) show ?case
    by (rule pt_tablesE) (use Suc.prems(1) Suc.IH pt_wf_page pt_wf_child(1) in blast)+
qed

lemma pt_reach_tables: "pt_reach ops E l t va k q \<Longrightarrow> q \<in> pt_tables ops E l t"
proof (induction l arbitrary: t)
  case 0
  then show ?case by simp
next
  case (Suc l)
  show ?case
  proof (cases "k = Suc l")
    case True
    with Suc.prems show ?thesis by simp
  next
    case False
    with Suc.prems obtain c where c: "child_of ops (Suc l) (E t (get_pt_index va (Suc l))) = Some c"
      and "pt_reach ops E l c va k q" by (auto split: option.splits)
    from Suc.IH [OF this(2)] pt_tables_child [of _ ops l E t, OF get_pt_index_lt c]
    show ?thesis by blast
  qed
qed

lemma pt_reach_level: "pt_reach ops E l t va k q \<Longrightarrow> k \<le> l"
  by (induction l arbitrary: t) (auto simp: le_Suc_eq split: if_splits option.splits)

lemma pt_reach_refl [simp]: "pt_reach ops E l t va l t"
  by (cases l) simp_all

lemma pt_reach_fun: "pt_reach ops E l t va k q \<Longrightarrow> pt_reach ops E l t va k q' \<Longrightarrow> q = q'"
  by (induction l arbitrary: t) (auto split: if_splits option.splits)

text \<open>One more step of a walk.\<close>

lemma pt_reach_step:
  assumes "pt_reach ops E l t va (Suc k) q"
  shows "pt_reach ops E l t va k q' \<longleftrightarrow> child_of ops (Suc k) (E q (get_pt_index va (Suc k))) = Some q'"
  using assms
proof (induction l arbitrary: t)
  case 0
  then show ?case by simp
next
  case (Suc l)
  show ?case
  proof (cases "Suc k = Suc l")
    case True
    with Suc.prems have "q = t" "k = l" by simp_all
    have "pt_reach ops E l c va l q' \<longleftrightarrow> q' = c" for c
      using pt_reach_fun [of ops E l c va l q' c] by auto
    with \<open>q = t\<close> \<open>k = l\<close> show ?thesis by (auto split: option.splits)
  next
    case False
    with Suc.prems obtain c where c: "child_of ops (Suc l) (E t (get_pt_index va (Suc l))) = Some c"
      and r: "pt_reach ops E l c va (Suc k) q" by (auto split: option.splits)
    have "k \<noteq> Suc l" using pt_reach_level [OF r] by simp
    with Suc.IH [OF r] c show ?thesis by simp
  qed
qed

section \<open>Congruence\<close>

lemma tree_cong:
  assumes "\<And>q i. q \<in> pt_tables ops E l t \<Longrightarrow> i < 512 \<Longrightarrow> E' q i = E q i"
  shows "pt_tables ops E' l t = pt_tables ops E l t" and "pt_wf ops E' l t = pt_wf ops E l t"
    and "pt_lookup ops E' l t va = pt_lookup ops E l t va"
    and "pt_reach ops E' l t va k q = pt_reach ops E l t va k q"
proof -
  have "pt_tables ops E' l t = pt_tables ops E l t \<and> pt_wf ops E' l t = pt_wf ops E l t \<and>
      pt_lookup ops E' l t va = pt_lookup ops E l t va \<and>
      pt_reach ops E' l t va k q = pt_reach ops E l t va k q"
    using assms
  proof (induction l arbitrary: t)
    case 0
    then show ?case by (simp add: get_pt_index_lt)
  next
    case (Suc l)
    have ent: "E' t i = E t i" if "i < 512" for i using Suc.prems that by simp
    have sub: "pt_tables ops E' l c = pt_tables ops E l c \<and> pt_wf ops E' l c = pt_wf ops E l c \<and>
        pt_lookup ops E' l c va = pt_lookup ops E l c va \<and>
        pt_reach ops E' l c va k q = pt_reach ops E l c va k q"
      if "i < 512" "child_of ops (Suc l) (E t i) = Some c" for i c
      by (rule Suc.IH) (use pt_tables_child [of _ ops l E, OF that] Suc.prems in blast)
    have tabs: "(case child_of ops (Suc l) (E' t i) of None \<Rightarrow> {} | Some c \<Rightarrow> pt_tables ops E' l c) =
        (case child_of ops (Suc l) (E t i) of None \<Rightarrow> {} | Some c \<Rightarrow> pt_tables ops E l c)"
      if "i < 512" for i
      using ent [OF that] sub [OF that] by (cases "child_of ops (Suc l) (E t i)") simp_all
    have "pt_tables ops E' (Suc l) t = pt_tables ops E (Suc l) t"
      using tabs by simp
    moreover have "pt_wf ops E' (Suc l) t = pt_wf ops E (Suc l) t"
      using ent sub by (simp cong: conj_cong imp_cong)
    moreover have "pt_lookup ops E' (Suc l) t va = pt_lookup ops E (Suc l) t va"
      using ent [OF get_pt_index_lt] sub [OF get_pt_index_lt [of va "Suc l"]]
      by (simp add: Let_def child_of_def)
    moreover have "pt_reach ops E' (Suc l) t va k q = pt_reach ops E (Suc l) t va k q"
      using ent [OF get_pt_index_lt] sub [OF get_pt_index_lt [of va "Suc l"]]
      by (cases "child_of ops (Suc l) (E t (get_pt_index va (Suc l)))") simp_all
    ultimately show ?case by blast
  qed
  then show "pt_tables ops E' l t = pt_tables ops E l t" and "pt_wf ops E' l t = pt_wf ops E l t"
    and "pt_lookup ops E' l t va = pt_lookup ops E l t va"
    and "pt_reach ops E' l t va k q = pt_reach ops E l t va k q" by auto
qed

section \<open>Changing one entry\<close>

definition subtables :: "pte_ops \<Rightarrow> entries \<Rightarrow> nat \<Rightarrow> u64 \<Rightarrow> nat \<Rightarrow> u64 set" where
  "subtables ops E l t i =
     (case child_of ops (Suc l) (E t i) of None \<Rightarrow> {} | Some c \<Rightarrow> pt_tables ops E l c)"

lemma pt_tables_Suc: "pt_tables ops E (Suc l) t = insert t (\<Union>i \<in> {i. i < 512}. subtables ops E l t i)"
  by (simp add: subtables_def)

lemma node_step:
  assumes wf: "pt_wf ops E (Suc l) t"
    and sub: "\<And>i c. i < 512 \<Longrightarrow> child_of ops (Suc l) (E' t i) = Some c \<Longrightarrow>
      pt_wf ops E' l c \<and> pt_tables ops E' l c \<subseteq> subtables ops E l t i \<union> (if i = i0 then N else {})"
    and fresh: "N \<inter> pt_tables ops E (Suc l) t = {}"
  shows "pt_wf ops E' (Suc l) t" and "pt_tables ops E' (Suc l) t \<subseteq> pt_tables ops E (Suc l) t \<union> N"
proof -
  have t_out: "t \<notin> subtables ops E l t i" if "i < 512" for i
    using pt_wf_child(2) [OF wf that] by (auto simp: subtables_def split: option.splits)
  have disj: "subtables ops E l t i \<inter> subtables ops E l t j = {}" if "i < 512" "j < 512" "i \<noteq> j" for i j
    using pt_wf_disjoint [OF wf that] by (auto simp: subtables_def split: option.splits)
  have N_out: "t \<notin> N" "N \<inter> subtables ops E l t i = {}" if "i < 512" for i
    using fresh that unfolding pt_tables_Suc by blast+
  have "pt_tables ops E' l c \<inter> pt_tables ops E' l d = {}"
    if ij: "i < 512" "j < 512" "i \<noteq> j" and cd: "child_of ops (Suc l) (E' t i) = Some c"
      "child_of ops (Suc l) (E' t j) = Some d" for i j c d
  proof -
    have "(subtables ops E l t i \<union> (if i = i0 then N else {})) \<inter>
        (subtables ops E l t j \<union> (if j = i0 then N else {})) = {}"
      using disj [OF ij] N_out(2) ij by auto
    then show ?thesis using sub [OF ij(1) cd(1)] sub [OF ij(2) cd(2)] by blast
  qed
  moreover have "t \<notin> pt_tables ops E' l c" if "i < 512" "child_of ops (Suc l) (E' t i) = Some c" for i c
    using sub [OF that] t_out [OF that(1)] N_out(1) [OF that(1)] by (auto split: if_splits)
  ultimately show "pt_wf ops E' (Suc l) t"
    using sub pt_wf_page [OF wf] by simp
  show "pt_tables ops E' (Suc l) t \<subseteq> pt_tables ops E (Suc l) t \<union> N"
  proof
    fix p assume "p \<in> pt_tables ops E' (Suc l) t"
    then show "p \<in> pt_tables ops E (Suc l) t \<union> N"
    proof (rule pt_tablesE)
      fix i c assume "i < 512" "child_of ops (Suc l) (E' t i) = Some c" "p \<in> pt_tables ops E' l c"
      then show ?thesis using sub [of i c] unfolding pt_tables_Suc by (auto split: if_splits)
    qed simp
  qed
qed

text \<open>
  The change: \<open>E'\<close> differs from \<open>E\<close> on the tables of the tree only in the entry that \<open>va\<close> uses
  in table \<open>q\<close> of level \<open>k\<close>; if that entry now points to a table, the new subtree is well-formed
  and lies in \<open>N\<close>, outside the tree.
\<close>

definition entry_change ::
  "pte_ops \<Rightarrow> entries \<Rightarrow> entries \<Rightarrow> nat \<Rightarrow> u64 \<Rightarrow> u64 \<Rightarrow> nat \<Rightarrow> u64 \<Rightarrow> u64 set \<Rightarrow> bool" where
  "entry_change ops E E' l t va k q N \<longleftrightarrow>
     (\<forall>p i. p \<in> pt_tables ops E l t \<and> i < 512 \<and> (p, i) \<noteq> (q, get_pt_index va k) \<longrightarrow> E' p i = E p i) \<and>
     (\<forall>c. child_of ops k (E' q (get_pt_index va k)) = Some c \<longrightarrow>
        0 < k \<and> pt_wf ops E' (k - 1) c \<and> pt_tables ops E' (k - 1) c \<subseteq> N) \<and>
     N \<inter> pt_tables ops E l t = {}"

text \<open>Its effect: on the tables, on every lookup and on every walk that does not pass the entry.\<close>

definition tree_change ::
  "pte_ops \<Rightarrow> entries \<Rightarrow> entries \<Rightarrow> nat \<Rightarrow> u64 \<Rightarrow> u64 \<Rightarrow> nat \<Rightarrow> u64 \<Rightarrow> u64 set \<Rightarrow> bool" where
  "tree_change ops E E' l t va k q N \<longleftrightarrow>
     pt_wf ops E' l t \<and> pt_tables ops E' l t \<subseteq> pt_tables ops E l t \<union> N \<and>
     (\<forall>va'. pt_lookup ops E' l t va' =
       (if same_path k l va va' then pt_lookup ops E' k q va' else pt_lookup ops E l t va')) \<and>
     (\<forall>va' k' q'. pt_reach ops E l t va' k' q' \<and>
       (k \<le> k' \<or> child_of ops k (E q (get_pt_index va k)) = None) \<longrightarrow> pt_reach ops E' l t va' k' q')"

lemma entry_changeD:
  assumes "entry_change ops E E' l t va k q N"
  shows "p \<in> pt_tables ops E l t \<Longrightarrow> i < 512 \<Longrightarrow> (p, i) \<noteq> (q, get_pt_index va k) \<Longrightarrow> E' p i = E p i"
    and "child_of ops k (E' q (get_pt_index va k)) = Some c \<Longrightarrow>
      0 < k \<and> pt_wf ops E' (k - 1) c \<and> pt_tables ops E' (k - 1) c \<subseteq> N"
    and "N \<inter> pt_tables ops E l t = {}"
  using assms unfolding entry_change_def by blast+

text \<open>A subtree that does not contain the changed table is not affected.\<close>

lemma untouched_child:
  assumes wf: "pt_wf ops E (Suc l) t" and ch: "entry_change ops E E' (Suc l) t va k q N"
    and i: "i < 512" and c: "child_of ops (Suc l) (E t i) = Some c" and q: "q \<notin> pt_tables ops E l c"
  shows "pt_wf ops E' l c" "pt_tables ops E' l c = subtables ops E l t i"
    "pt_lookup ops E' l c va' = pt_lookup ops E l c va'"
    "pt_reach ops E' l c va' k' q' = pt_reach ops E l c va' k' q'"
proof -
  have "E' p j = E p j" if "p \<in> pt_tables ops E l c" "j < 512" for p j
    using entry_changeD(1) [OF ch, of p j] that q pt_tables_child [of i ops l E t c, OF i c] by auto
  note * = tree_cong [of ops E l c E', OF this]
  show "pt_wf ops E' l c" using * pt_wf_child(1) [OF wf i c] by simp
  show "pt_tables ops E' l c = subtables ops E l t i" using * c by (simp add: subtables_def)
  show "pt_lookup ops E' l c va' = pt_lookup ops E l c va'" using * by simp
  show "pt_reach ops E' l c va' k' q' = pt_reach ops E l c va' k' q'" using * by simp
qed

lemma update_here:
  assumes wf: "pt_wf ops E (Suc l) t" and ch: "entry_change ops E E' (Suc l) t va (Suc l) t N"
  shows "tree_change ops E E' (Suc l) t va (Suc l) t N"
proof -
  let ?i0 = "get_pt_index va (Suc l)"
  note cong = untouched_child [OF wf ch]
  have other: "E' t i = E t i" if "i < 512" "i \<noteq> ?i0" for i
    using entry_changeD(1) [OF ch, of t i] that by simp
  have sub: "pt_wf ops E' l c \<and> pt_tables ops E' l c \<subseteq> subtables ops E l t i \<union> (if i = ?i0 then N else {})"
    if i: "i < 512" and c: "child_of ops (Suc l) (E' t i) = Some c" for i c
  proof (cases "i = ?i0")
    case True
    then show ?thesis using entry_changeD(2) [OF ch, of c] c by auto
  next
    case False
    then have c': "child_of ops (Suc l) (E t i) = Some c" using c other i by simp
    show ?thesis using cong [OF i c'] pt_wf_child(2) [OF wf i c'] False by simp
  qed
  have "pt_lookup ops E' (Suc l) t va' = pt_lookup ops E (Suc l) t va'"
    if "\<not> same_path (Suc l) (Suc l) va va'" for va'
  proof -
    let ?i = "get_pt_index va' (Suc l)"
    have e: "E' t ?i = E t ?i"
      using other [of ?i] that by (auto simp: same_path_def get_pt_index_lt)
    show ?thesis
      using cong(3) [OF get_pt_index_lt, of va' "Suc l" _ va']
        pt_wf_child(2) [OF wf get_pt_index_lt, of va' "Suc l"] e
      by (simp add: Let_def child_of_def)
  qed
  moreover have "pt_reach ops E' (Suc l) t va' k' q'"
    if r: "pt_reach ops E (Suc l) t va' k' q'"
      and k: "Suc l \<le> k' \<or> child_of ops (Suc l) (E t ?i0) = None" for va' k' q'
  proof (cases "k' = Suc l")
    case False
    then obtain c where c: "child_of ops (Suc l) (E t (get_pt_index va' (Suc l))) = Some c"
      and r': "pt_reach ops E l c va' k' q'" using r by (auto split: option.splits)
    have "get_pt_index va' (Suc l) \<noteq> ?i0" using c k pt_reach_level [OF r'] by auto
    then have "E' t (get_pt_index va' (Suc l)) = E t (get_pt_index va' (Suc l))"
      using other get_pt_index_lt by blast
    then show ?thesis
      using cong(4) [OF get_pt_index_lt c pt_wf_child(2) [OF wf get_pt_index_lt c]] c r' False by simp
  qed (use r in simp)
  ultimately show ?thesis
    unfolding tree_change_def using node_step [OF wf sub entry_changeD(3) [OF ch]] by auto
qed

text \<open>The step to a parent table: the change happened below the child on the path of \<open>va\<close>.\<close>

lemma update_below:
  assumes wf: "pt_wf ops E (Suc l) t" and ch: "entry_change ops E E' (Suc l) t va k q N"
    and c0: "child_of ops (Suc l) (E t (get_pt_index va (Suc l))) = Some c0"
    and r0: "pt_reach ops E l c0 va k q"
    and IH: "tree_change ops E E' l c0 va k q N"
  shows "tree_change ops E E' (Suc l) t va k q N"
proof -
  let ?j0 = "get_pt_index va (Suc l)"
  note cong = untouched_child [OF wf ch] and IH = IH [unfolded tree_change_def]
  have q0: "q \<in> pt_tables ops E l c0" using pt_reach_tables [OF r0] .
  have ent: "E' t i = E t i" if "i < 512" for i
    using entry_changeD(1) [OF ch, of t i] that q0 pt_wf_child(2) [OF wf get_pt_index_lt c0] by auto
  have out: "q \<notin> pt_tables ops E l c" if "i < 512" "i \<noteq> ?j0" "child_of ops (Suc l) (E t i) = Some c" for i c
    using pt_wf_disjoint [OF wf that(1) get_pt_index_lt that(2,3) c0] q0 by blast
  have sub: "pt_wf ops E' l c \<and> pt_tables ops E' l c \<subseteq> subtables ops E l t i \<union> (if i = ?j0 then N else {})"
    if i: "i < 512" and c: "child_of ops (Suc l) (E' t i) = Some c" for i c
  proof (cases "i = ?j0")
    case True
    then show ?thesis using c c0 ent [OF i] IH by (simp add: subtables_def)
  next
    case False
    have c': "child_of ops (Suc l) (E t i) = Some c" using c ent [OF i] by simp
    show ?thesis using cong [OF i c' out [OF i False c']] False by simp
  qed
  have "pt_lookup ops E' (Suc l) t va' =
      (if same_path k (Suc l) va va' then pt_lookup ops E' k q va' else pt_lookup ops E (Suc l) t va')" for va'
  proof (cases "get_pt_index va' (Suc l) = ?j0")
    case True
    have "same_path k (Suc l) va va' = same_path k l va va'"
      using True pt_reach_level [OF r0] by (auto simp: same_path_def le_Suc_eq)
    moreover have down: "pt_lookup ops X (Suc l) t va' = pt_lookup ops X l c0 va'" if "X t ?j0 = E t ?j0" for X
      using True c0 that by (auto simp: child_of_def Let_def split: if_splits)
    ultimately show ?thesis
      unfolding down [of E, OF refl] down [of E', OF ent [OF get_pt_index_lt]] using IH by simp
  next
    case False
    have "\<not> same_path k (Suc l) va va'"
      using False pt_reach_level [OF r0] by (auto simp: same_path_def intro!: exI [of _ "Suc l"])
    then show ?thesis
      using cong(3) [OF get_pt_index_lt, of va' "Suc l" _ va'] out [OF get_pt_index_lt False]
        ent [OF get_pt_index_lt [of va' "Suc l"]]
      by (simp add: Let_def child_of_def)
  qed
  moreover have "pt_reach ops E' (Suc l) t va' k' q'"
    if r: "pt_reach ops E (Suc l) t va' k' q'"
      and k: "k \<le> k' \<or> child_of ops k (E q (get_pt_index va k)) = None" for va' k' q'
  proof (cases "k' = Suc l")
    case False
    then obtain c where c: "child_of ops (Suc l) (E t (get_pt_index va' (Suc l))) = Some c"
      and r': "pt_reach ops E l c va' k' q'" using r by (auto split: option.splits)
    have "pt_reach ops E' l c va' k' q'"
      using IH r' k c c0 cong(4) [OF get_pt_index_lt c] out [OF get_pt_index_lt _ c]
      by (cases "get_pt_index va' (Suc l) = ?j0") auto
    then show ?thesis using c ent [OF get_pt_index_lt] False by simp
  qed (use r in simp)
  ultimately show ?thesis
    unfolding tree_change_def using node_step [OF wf sub entry_changeD(3) [OF ch]] by blast
qed

lemma update_leaf_table:
  assumes "pt_wf ops E 0 t" and ch: "entry_change ops E E' 0 t va 0 t N"
  shows "tree_change ops E E' 0 t va 0 t N"
proof -
  have "child_of ops 0 (E' t i) = None" if "i < 512" for i
    using assms(1) entry_changeD(1) [OF ch, of t i] entry_changeD(2) [OF ch] that
    by (cases "i = get_pt_index va 0"; cases "child_of ops 0 (E' t i)") auto
  moreover have "E' t (get_pt_index va' 0) = E t (get_pt_index va' 0)" if "\<not> same_path 0 0 va va'" for va'
    using entry_changeD(1) [OF ch] that by (auto simp: same_path_def get_pt_index_lt)
  ultimately show ?thesis using assms(1) by (simp add: tree_change_def)
qed

theorem update_tree:
  assumes "pt_wf ops E l t" and "pt_reach ops E l t va k q" and "entry_change ops E E' l t va k q N"
  shows "tree_change ops E E' l t va k q N"
  using assms
proof (induction l arbitrary: t)
  case 0
  then show ?case using update_leaf_table [of ops E t E' va N] by simp
next
  case (Suc l)
  show ?case
  proof (cases "k = Suc l")
    case True
    then show ?thesis using update_here [of ops E l t E' va N] Suc.prems by simp
  next
    case False
    then obtain c0 where c0: "child_of ops (Suc l) (E t (get_pt_index va (Suc l))) = Some c0"
      and r0: "pt_reach ops E l c0 va k q"
      using Suc.prems(2) by (auto split: option.splits)
    have "entry_change ops E E' l c0 va k q N"
      using Suc.prems(3) pt_tables_child [of _ ops l E t c0, OF get_pt_index_lt c0]
      unfolding entry_change_def by blast
    then show ?thesis
      using update_below [OF Suc.prems(1,3) c0 r0] Suc.IH [OF pt_wf_child(1) [OF Suc.prems(1) get_pt_index_lt c0] r0]
      by blast
  qed
qed

end
