(* ===== verification/Sky_Vmproof.thy ===== *)
theory Sky_Vmproof
  imports Sky_Ptree
begin

text \<open>
  Correctness of src/kernel/vm.c. The tree of \<open>Sky_Ptree\<close> is read out of memory by \<open>ent\<close>; the
  lemmas here connect loads, stores and \<open>memset\<close> with it, and then follow \<open>map_page\<close>,
  \<open>unmap_page\<close> and \<open>page_set_cache_policy\<close> through the interface \<open>pte_laws\<close>, once for all ISAs.
\<close>

section \<open>Entries in memory\<close>

definition ent :: "memory \<Rightarrow> entries" where
  "ent m t i = load64 m (pte_addr t i)"

definition in_page :: "u64 \<Rightarrow> u64 \<Rightarrow> bool" where
  "in_page t a \<longleftrightarrow> unat (a - t) < 4096"

lemma page_ok_dvd: "page_ok t \<Longrightarrow> 4096 dvd unat t"
  by (simp add: page_ok_def aligned_iff_dvd)

lemma page_top:
  assumes "4096 dvd unat (t :: u64)"
  shows "unat t + 4096 \<le> 2 ^ 64"
proof -
  obtain x where "unat t = 4096 * x" using assms ..
  with unat_bound_64 [of t] show ?thesis by simp
qed

lemma pte_addr_unat:
  assumes "page_ok t" and "i < 512" and "k < 8"
  shows "unat (pte_addr t i + of_nat k) = unat t + 8 * i + k"
proof -
  have "pte_addr t i + of_nat k = t + of_nat (8 * i + k)" by (simp add: pte_addr_def)
  moreover have "unat (t + of_nat (8 * i + k)) = unat t + (8 * i + k)"
    by (rule unat_add_of_nat) (use page_top [OF page_ok_dvd [OF assms(1)]] assms in simp)
  ultimately show ?thesis by (simp only: add.assoc)
qed

lemma far_apart:
  fixes a b :: u64
  assumes "unat b + n \<le> 2 ^ 64" and "unat b + n \<le> unat a \<or> unat a < unat b"
  shows "n \<le> unat (a - b)"
proof (cases "b \<le> a")
  case True
  then show ?thesis using assms by (auto simp: unat_sub word_le_nat_alt)
next
  case False
  then have "unat (a - b) = 2 ^ 64 + unat a - unat b"
    by (simp add: unat_sub_if_size word_le_nat_alt word_size)
  then show ?thesis using assms(1) False by (simp add: word_le_nat_alt)
qed

lemma pages_apart:
  assumes "4096 dvd unat (t :: u64)" and "4096 dvd unat (t' :: u64)" and "t \<noteq> t'"
  shows "unat t + 4096 \<le> unat t' \<or> unat t' + 4096 \<le> unat t"
proof -
  obtain x y where x: "unat t = 4096 * x" and y: "unat t' = 4096 * y" using assms by (auto elim!: dvdE)
  have "x \<noteq> y" using assms(3) x y by (auto simp: word_unat_eq_iff)
  with x y show ?thesis by auto
qed

lemma ent_store:
  assumes "page_ok t" "page_ok t'" "i < 512" "i' < 512"
  shows "ent (store64 m (pte_addr t i) e) t' i' = (if t' = t \<and> i' = i then e else ent m t' i')"
proof (cases "t' = t \<and> i' = i")
  case True
  then show ?thesis by (simp add: ent_def)
next
  case False
  have "store64 m (pte_addr t i) e (pte_addr t' i' + of_nat k) = m (pte_addr t' i' + of_nat k)" if "k < 8" for k
  proof (rule store64_other, rule far_apart)
    have u: "unat (pte_addr t i) = unat t + 8 * i" using pte_addr_unat [OF assms(1,3), of 0] by simp
    show "unat (pte_addr t i) + 8 \<le> 2 ^ 64"
      using u page_top [OF page_ok_dvd [OF assms(1)]] assms(3) by simp
    show "unat (pte_addr t i) + 8 \<le> unat (pte_addr t' i' + of_nat k) \<or>
        unat (pte_addr t' i' + of_nat k) < unat (pte_addr t i)"
    proof (cases "t' = t")
      case True
      then have "i' \<noteq> i" using False by simp
      then show ?thesis
        unfolding u pte_addr_unat [OF assms(2,4) that] unfolding True using that by linarith
    next
      case False
      then show ?thesis
        unfolding u pte_addr_unat [OF assms(2,4) that]
        using pages_apart [OF page_ok_dvd [OF assms(1)] page_ok_dvd [OF assms(2)] not_sym [OF False]]
          assms(3,4) that
        by linarith
    qed
  qed
  then have "ent (store64 m (pte_addr t i) e) t' i' = ent m t' i'" unfolding ent_def by (rule load64_cong)
  then show ?thesis by (simp only: if_not_P [OF False])
qed

lemma ent_memset:
  assumes "page_ok t" "page_ok p" "i < 512"
  shows "ent (memset p 0 SMALL_PAGE_SIZE m) t i = (if t = p then 0 else ent m t i)"
proof (cases "t = p")
  case True
  have "memset p 0 SMALL_PAGE_SIZE m (pte_addr p i + of_nat k) = 0" if "k < 8" for k
  proof -
    have "pte_addr p i + of_nat k - p = of_nat (8 * i + k)" by (simp add: pte_addr_def)
    moreover have "unat (of_nat (8 * i + k) :: u64) = 8 * i + k"
      by (rule unat_of_nat_64) (use that assms(3) in simp)
    ultimately have "unat (pte_addr p i + of_nat k - p) = 8 * i + k" by (simp only:)
    then have "unat (pte_addr p i + of_nat k - p) < 4096" using that assms(3) by linarith
    then show ?thesis by (simp add: memset_apply size_consts)
  qed
  then show ?thesis unfolding ent_def by (simp add: True load64_zero)
next
  case False
  have "memset p 0 SMALL_PAGE_SIZE m (pte_addr t i + of_nat k) = m (pte_addr t i + of_nat k)" if "k < 8" for k
  proof -
    have "4096 \<le> unat (pte_addr t i + of_nat k - p)"
    proof (rule far_apart)
      show "unat p + 4096 \<le> 2 ^ 64" by (rule page_top [OF page_ok_dvd [OF assms(2)]])
      show "unat p + 4096 \<le> unat (pte_addr t i + of_nat k) \<or> unat (pte_addr t i + of_nat k) < unat p"
        unfolding pte_addr_unat [OF assms(1,3) that]
        using pages_apart [OF page_ok_dvd [OF assms(1)] page_ok_dvd [OF assms(2)] False] assms(3) that
        by linarith
    qed
    then show ?thesis by (simp add: memset_apply size_consts)
  qed
  then have "ent (memset p 0 SMALL_PAGE_SIZE m) t i = ent m t i" unfolding ent_def by (rule load64_cong)
  with False show ?thesis by simp
qed

text \<open>Stores into an entry stay inside the page of its table.\<close>

lemma store_in_page:
  assumes "page_ok t" and "i < 512" and "\<not> in_page t a"
  shows "store64 m (pte_addr t i) e a = m a"
proof (rule store64_other, rule far_apart)
  have u: "unat (pte_addr t i) = unat t + 8 * i" using pte_addr_unat [OF assms(1,2), of 0] by simp
  then show "unat (pte_addr t i) + 8 \<le> 2 ^ 64"
    using page_top [OF page_ok_dvd [OF assms(1)]] assms(2) by simp
  show "unat (pte_addr t i) + 8 \<le> unat a \<or> unat a < unat (pte_addr t i)"
  proof (cases "t \<le> a")
    case True
    then have "unat t + 4096 \<le> unat a"
      using assms(3) by (simp add: in_page_def unat_sub word_le_nat_alt)
    then show ?thesis using u assms(2) by simp
  next
    case False
    then show ?thesis using u by (simp add: word_le_nat_alt)
  qed
qed

lemma memset_in_page: "\<not> in_page p a \<Longrightarrow> memset p 0 SMALL_PAGE_SIZE m a = m a"
  by (simp add: memset_apply in_page_def size_consts)

lemma pte_addr_nonzero: "page_ok t \<Longrightarrow> i < 512 \<Longrightarrow> pte_addr t i \<noteq> 0"
proof
  assume "page_ok t" "i < 512" and "pte_addr t i = 0"
  then have "unat t = 0" using pte_addr_unat [of t i 0] by simp
  with \<open>page_ok t\<close> show False by (simp add: page_ok_def kern_addr_iff word_le_nat_alt KERNEL_LINK_ADDRESS_def)
qed

lemma pte_update_run:
  "f (load64 (mem s) a) = Inr e' \<Longrightarrow> pte_update a f s = Inr ((), s\<lparr>mem := store64 (mem s) a e'\<rparr>)"
  by (simp add: pte_update_def kop_simps)

section \<open>The invariant\<close>

abbreviation small_used :: "'z kheap_state_scheme \<Rightarrow> u64 set" where
  "small_used s \<equiv> used_pages (small_kheap s)"

abbreviation small_free :: "'z kheap_state_scheme \<Rightarrow> u64 set" where
  "small_free s \<equiv> heap_pages (small_kheap s) - used_pages (small_kheap s)"

abbreviation vm_tables :: "pte_ops \<Rightarrow> u64 \<Rightarrow> 'z kheap_state_scheme \<Rightarrow> u64 set" where
  "vm_tables ops root s \<equiv> pt_tables ops (ent (mem s)) 3 root"

abbreviation vm_lookup :: "pte_ops \<Rightarrow> u64 \<Rightarrow> 'z kheap_state_scheme \<Rightarrow> u64 \<Rightarrow> (u64 \<times> nat) option" where
  "vm_lookup ops root s \<equiv> pt_lookup ops (ent (mem s)) 3 root"

abbreviation vm_reach :: "pte_ops \<Rightarrow> u64 \<Rightarrow> 'z kheap_state_scheme \<Rightarrow> u64 \<Rightarrow> nat \<Rightarrow> u64 \<Rightarrow> bool" where
  "vm_reach ops root s \<equiv> pt_reach ops (ent (mem s)) 3 root"

text \<open>The page table at \<open>root\<close> is a tree of tables, each in a page that the small heap has handed out.\<close>

definition vm_ok :: "pte_ops \<Rightarrow> u64 \<Rightarrow> 'z kheap_state_scheme \<Rightarrow> bool" where
  "vm_ok ops root s \<longleftrightarrow> wf_kheap s \<and> pt_wf ops (ent (mem s)) 3 root \<and> vm_tables ops root s \<subseteq> small_used s"

text \<open>
  What every operation on the page table keeps: nothing of the state changes but memory and the
  small heap; no page is released; memory changes only in the tables and in pages newly taken.
\<close>

definition vm_step :: "pte_ops \<Rightarrow> u64 \<Rightarrow> 'z kheap_state_scheme \<Rightarrow> 'z kheap_state_scheme \<Rightarrow> bool" where
  "vm_step ops root s s' \<longleftrightarrow> vm_ok ops root s' \<and>
     s' = s\<lparr>mem := mem s', small_kheap := small_kheap s'\<rparr> \<and>
     heap_pages (small_kheap s') = heap_pages (small_kheap s) \<and> small_used s \<subseteq> small_used s' \<and>
     vm_tables ops root s' \<subseteq> vm_tables ops root s \<union> (small_used s' - small_used s) \<and>
     (\<forall>a. (\<forall>p \<in> vm_tables ops root s \<union> (small_used s' - small_used s). \<not> in_page p a) \<longrightarrow> mem s' a = mem s a)"

lemma vm_stepD:
  assumes "vm_step ops root s s'"
  shows "vm_ok ops root s'" "s' = s\<lparr>mem := mem s', small_kheap := small_kheap s'\<rparr>"
    "heap_pages (small_kheap s') = heap_pages (small_kheap s)" "small_used s \<subseteq> small_used s'"
    "vm_tables ops root s' \<subseteq> vm_tables ops root s \<union> (small_used s' - small_used s)"
    "(\<And>p. p \<in> vm_tables ops root s \<union> (small_used s' - small_used s) \<Longrightarrow> \<not> in_page p a) \<Longrightarrow> mem s' a = mem s a"
  using assms unfolding vm_step_def by auto

lemma vm_step_refl: "vm_ok ops root s \<Longrightarrow> vm_step ops root s s"
  by (simp add: vm_step_def)

lemma vm_step_trans:
  assumes "vm_step ops root s s'" and "vm_step ops root s' s''"
  shows "vm_step ops root s s''"
  unfolding vm_step_def
proof (intro conjI allI impI)
  note a = vm_stepD [OF assms(1)] and b = vm_stepD [OF assms(2)]
  show "s'' = s\<lparr>mem := mem s'', small_kheap := small_kheap s''\<rparr>"
    by (subst b(2), subst a(2)) simp
  show "vm_tables ops root s'' \<subseteq> vm_tables ops root s \<union> (small_used s'' - small_used s)"
    using a(4,5) b(4,5) by blast
  fix x assume out: "\<forall>p \<in> vm_tables ops root s \<union> (small_used s'' - small_used s). \<not> in_page p x"
  have "mem s'' x = mem s' x" by (rule b(6)) (use out a(4,5) b(4) in blast)
  also have "\<dots> = mem s x" by (rule a(6)) (use out b(4) in blast)
  finally show "mem s'' x = mem s x" .
qed (use vm_stepD [OF assms(1)] vm_stepD [OF assms(2)] in auto)

lemma vm_ok_page: "vm_ok ops root s \<Longrightarrow> q \<in> vm_tables ops root s \<Longrightarrow> page_ok q"
  unfolding vm_ok_def using pt_wf_tables_page by blast

lemma vm_ok_reach_page: "vm_ok ops root s \<Longrightarrow> vm_reach ops root s va k q \<Longrightarrow> page_ok q"
  using vm_ok_page pt_reach_tables by blast

text \<open>Storing an entry that does not point to a table, anywhere in the tree.\<close>

lemma store_entry:
  assumes ok: "vm_ok ops root s" and r: "vm_reach ops root s va k q" and e: "child_of ops k e = None"
  defines "s' \<equiv> s\<lparr>mem := store64 (mem s) (pte_addr q (get_pt_index va k)) e\<rparr>"
  shows "vm_step ops root s s'"
    and "vm_lookup ops root s' va' =
      (if same_path k 3 va va' then if pte_is_valid ops e then Some (e, k) else None
       else vm_lookup ops root s va')"
    and "vm_reach ops root s va' k' q' \<Longrightarrow> k \<le> k' \<Longrightarrow> vm_reach ops root s' va' k' q'"
    and "child_of ops k (ent (mem s) q (get_pt_index va k)) = None \<Longrightarrow> vm_reach ops root s va' k' q' \<Longrightarrow> vm_reach ops root s' va' k' q'"
proof -
  let ?E = "ent (mem s)" and ?E' = "ent (mem s')"
  have q: "page_ok q" "q \<in> vm_tables ops root s" using vm_ok_reach_page [OF ok r] pt_reach_tables [OF r] by auto
  have E': "?E' p i = (if p = q \<and> i = get_pt_index va k then e else ?E p i)" if "page_ok p" "i < 512" for p i
    unfolding s'_def using ent_store [OF q(1) that(1) get_pt_index_lt that(2)] by simp
  have wf: "pt_wf ops ?E 3 root" using ok by (simp add: vm_ok_def)
  have ch: "entry_change ops ?E ?E' 3 root va k q {}"
    unfolding entry_change_def using E' vm_ok_page [OF ok] q e by (auto simp: get_pt_index_lt)
  note tc = update_tree [OF wf r ch, unfolded tree_change_def]
  then have ok': "vm_ok ops root s'" using ok unfolding vm_ok_def by (auto simp: s'_def wf_kheap_def)
  show "vm_step ops root s s'"
    unfolding vm_step_def using ok' tc q store_in_page [OF q(1) get_pt_index_lt]
    by (auto simp: s'_def)
  have "pt_lookup ops ?E' k q va' = (if pte_is_valid ops e then Some (e, k) else None)"
    if "same_path k 3 va va'"
  proof -
    have "get_pt_index va' k = get_pt_index va k"
      using that pt_reach_level [OF r] by (simp add: same_path_def)
    then show ?thesis using E' [OF q(1) get_pt_index_lt, of va k] e
      by (cases k) (auto simp: child_of_def split: if_splits)
  qed
  then show "vm_lookup ops root s' va' =
      (if same_path k 3 va va' then if pte_is_valid ops e then Some (e, k) else None
       else vm_lookup ops root s va')" using tc by simp
  show "vm_reach ops root s va' k' q' \<Longrightarrow> k \<le> k' \<Longrightarrow> vm_reach ops root s' va' k' q'" using tc by blast
  show "child_of ops k (?E q (get_pt_index va k)) = None \<Longrightarrow> vm_reach ops root s va' k' q' \<Longrightarrow> vm_reach ops root s' va' k' q'"
    using tc by blast
qed

section \<open>Linking a new table\<close>

lemma small_alloc:
  assumes "wf_kheap s" and "small_free s \<noteq> {}"
  obtains p h where "alloc_page PAGE_SMALL s = Inr (p, s\<lparr>small_kheap := h\<rparr>)" "p \<in> small_free s" "page_ok p"
    "used_pages h = insert p (small_used s)" "heap_pages h = heap_pages (small_kheap s)"
    "wf_kheap (s\<lparr>small_kheap := h\<rparr>)"
proof -
  note ok = wf_heap_of [OF assms(1), of PAGE_SMALL]
  have h: "heap_of PAGE_SMALL t = small_kheap t" for t :: "'a kheap_state_scheme" by (simp add: heap_of_def)
  have ne: "used_pages (heap_of PAGE_SMALL s) \<noteq> heap_pages (heap_of PAGE_SMALL s)"
    using assms(2) h by auto
  obtain i where i: "first_free (small_kheap s) = Some i"
    using first_free_None [OF ok heap_bits_lt] ne h by auto
  have lt: "i \<le> heap_count PAGE_SMALL"
    using first_free_Some [OF i] heap_okD(3) [OF ok] h by simp
  have run: "alloc_page PAGE_SMALL s = Inr (heap_page (small_kheap s) i,
      s\<lparr>small_kheap := small_kheap (set_alloc_map PAGE_SMALL i True s)\<rparr>)"
    using alloc_page_run [OF assms(1), of PAGE_SMALL] i h by (simp add: set_alloc_map_def)
  show ?thesis
  proof (rule that [OF run])
    show "page_ok (heap_page (small_kheap s) i)"
      using heap_page_aligned [OF ok heap_bits_lt lt] heap_page_kern [OF ok heap_bits_lt lt]
      by (simp add: page_ok_def aligned_iff_dvd h heap_bits_def)
  qed (use alloc_page_contract [OF assms(1) _ ne] run h in \<open>simp_all add: runs_def\<close>)
qed

lemma same_path_lookup:
  assumes "pt_reach ops E l t va k q" and "same_path k l va va'"
  shows "pt_lookup ops E l t va' = pt_lookup ops E k q va'"
  using assms
proof (induction l arbitrary: t)
  case 0
  then show ?case by simp
next
  case (Suc l)
  show ?case
  proof (cases "k = Suc l")
    case True
    then show ?thesis using Suc.prems by simp
  next
    case False
    then obtain c where c: "child_of ops (Suc l) (E t (get_pt_index va (Suc l))) = Some c"
      and r: "pt_reach ops E l c va k q" using Suc.prems(1) by (auto split: option.splits)
    have "get_pt_index va' (Suc l) = get_pt_index va (Suc l)" "same_path k l va va'"
      using Suc.prems(2) pt_reach_level [OF r] by (auto simp: same_path_def)
    then show ?thesis using Suc.IH [OF r] c by (auto simp: child_of_def Let_def split: if_splits)
  qed
qed

lemma zero_table:
  assumes "page_ok p" and "\<And>i. i < 512 \<Longrightarrow> E p i = 0" and "\<not> pte_is_valid ops 0"
  shows "pt_wf ops E l p" "pt_tables ops E l p = {p}" "pt_lookup ops E l p va = None"
proof -
  have "child_of ops l' (E p i) = None" if "i < 512" for i l'
    using assms that by (simp add: child_of_def)
  then show "pt_wf ops E l p" "pt_tables ops E l p = {p}" "pt_lookup ops E l p va = None"
    using assms by (cases l; simp add: get_pt_index_lt Let_def)+
qed

text \<open>A fresh zeroed page \<open>p\<close> linked below an invalid entry: no lookup changes.\<close>

lemma link_entry:
  assumes ok: "vm_ok ops root s" and r: "vm_reach ops root s va (Suc k) q"
    and inv: "\<not> pte_is_valid ops (ent (mem s) q (get_pt_index va (Suc k)))"
    and z: "\<not> pte_is_valid ops 0" and e: "child_of ops (Suc k) e = Some p"
    and p: "p \<in> small_free s" "page_ok p"
    and m': "mem s' = store64 (memset p 0 SMALL_PAGE_SIZE (mem s)) (pte_addr q (get_pt_index va (Suc k))) e"
    and s': "s' = s\<lparr>mem := mem s', small_kheap := small_kheap s'\<rparr>" "wf_kheap s'"
      "small_used s' = insert p (small_used s)" "heap_pages (small_kheap s') = heap_pages (small_kheap s)"
  shows "vm_step ops root s s'" and "vm_lookup ops root s' = vm_lookup ops root s"
    and "vm_reach ops root s' va k p" and "vm_reach ops root s va' k' q' \<Longrightarrow> vm_reach ops root s' va' k' q'"
proof -
  let ?E = "ent (mem s)" and ?E' = "ent (mem s')" and ?i = "get_pt_index va (Suc k)"
  have q: "page_ok q" "q \<in> vm_tables ops root s" using vm_ok_reach_page [OF ok r] pt_reach_tables [OF r] by auto
  have fresh: "p \<notin> vm_tables ops root s" using ok p by (auto simp: vm_ok_def)
  have E': "?E' x i = (if x = q \<and> i = ?i then e else if x = p then 0 else ?E x i)" if "page_ok x" "i < 512" for x i
    unfolding m' by (simp only: ent_store [OF q(1) that(1) get_pt_index_lt that(2)] ent_memset [OF that(1) p(2) that(2)])
  have wf: "pt_wf ops ?E 3 root" using ok by (simp add: vm_ok_def)
  have zero: "?E' p i = 0" if "i < 512" for i using E' [OF p(2) that] fresh q by auto
  note zt = zero_table [of p ?E', OF p(2) zero z]
  have ch: "entry_change ops ?E ?E' 3 root va (Suc k) q {p}"
    unfolding entry_change_def using E' vm_ok_page [OF ok] q e zt fresh by (auto simp: get_pt_index_lt)
  note tc = update_tree [OF wf r ch, unfolded tree_change_def]
  have ok': "vm_ok ops root s'" using tc s' ok unfolding vm_ok_def by auto
  have "mem s' a = mem s a" if "\<not> in_page q a" "\<not> in_page p a" for a
    unfolding m' using store_in_page [OF q(1) get_pt_index_lt that(1)] memset_in_page [OF that(2)] by simp
  then show "vm_step ops root s s'"
    unfolding vm_step_def using ok' tc s' q p by auto
  have nochild: "child_of ops (Suc k) (?E q ?i) = None" using inv by (simp add: child_of_def)
  then show "vm_reach ops root s va' k' q' \<Longrightarrow> vm_reach ops root s' va' k' q'" for va' k' q' using tc by blast
  then have r': "vm_reach ops root s' va (Suc k) q" using r .
  show "vm_reach ops root s' va k p"
    using pt_reach_step [OF r'] E' [OF q(1) get_pt_index_lt, of va "Suc k"] e by simp
  show "vm_lookup ops root s' = vm_lookup ops root s"
  proof
    fix va'
    show "vm_lookup ops root s' va' = vm_lookup ops root s va'"
    proof (cases "same_path (Suc k) 3 va va'")
      case True
      then have i: "get_pt_index va' (Suc k) = ?i" using pt_reach_level [OF r] by (simp add: same_path_def)
      have "pt_lookup ops ?E (Suc k) q va' = None" using inv i by simp
      moreover have "pt_lookup ops ?E' (Suc k) q va' = None"
        using E' [OF q(1) get_pt_index_lt, of va "Suc k"] e i zt(3)
        by (auto simp: child_of_def Let_def split: if_splits)
      ultimately show ?thesis
        using same_path_lookup [OF r True] same_path_lookup [OF r' True] by simp
    qed (use tc in simp)
  qed
qed

lemma reach_between:
  assumes "pt_reach ops E l t va k' q'" and "k' \<le> k" and "k \<le> l"
  shows "\<exists>c. pt_reach ops E l t va k c"
  using assms
proof (induction l arbitrary: t)
  case 0
  then show ?case by simp
next
  case (Suc l)
  show ?case
  proof (cases "k = Suc l")
    case False
    then have "k' \<noteq> Suc l" "k \<le> l" using Suc.prems by auto
    with Suc.prems obtain c where "child_of ops (Suc l) (E t (get_pt_index va (Suc l))) = Some c"
      and "pt_reach ops E l c va k' q'" by (auto split: option.splits)
    with Suc.IH [of c] Suc.prems(2) \<open>k \<le> l\<close> False show ?thesis by auto
  qed simp
qed

section \<open>The operations\<close>

text \<open>
  After the descending loop of \<open>map_page\<close>: the walk of \<open>va\<close> arrives at table \<open>q'\<close> of level \<open>k\<close>, no
  lookup has changed, no walk is lost, at most \<open>n\<close> pages were taken and none if the table was there.
\<close>

definition map_loop_post ::
  "pte_ops \<Rightarrow> u64 \<Rightarrow> u64 \<Rightarrow> nat \<Rightarrow> nat \<Rightarrow> 'z kheap_state_scheme \<Rightarrow> u64 \<Rightarrow> 'z kheap_state_scheme \<Rightarrow> bool" where
  "map_loop_post ops root va k n s q' s' \<longleftrightarrow> vm_step ops root s s' \<and>
     vm_lookup ops root s' = vm_lookup ops root s \<and> vm_reach ops root s' va k q' \<and>
     (\<forall>va' k' q'. vm_reach ops root s va' k' q' \<longrightarrow> vm_reach ops root s' va' k' q') \<and>
     card (small_free s) - n \<le> card (small_free s') \<and>
     ((\<exists>q'. vm_reach ops root s va k q') \<longrightarrow> s' = s)"

text \<open>
  After \<open>map_page\<close>: exactly the addresses that share the page of \<open>va\<close> now find the leaf \<open>e\<close>; the
  tables on the way exist; at most three pages were taken, none if the last table was there.
\<close>

definition map_post ::
  "pte_ops \<Rightarrow> u64 \<Rightarrow> u64 \<Rightarrow> nat \<Rightarrow> u64 \<Rightarrow> 'z kheap_state_scheme \<Rightarrow> 'z kheap_state_scheme \<Rightarrow> bool" where
  "map_post ops root va k e s s' \<longleftrightarrow> vm_step ops root s s' \<and>
     (\<forall>va'. vm_lookup ops root s' va' = (if same_path k 3 va va' then Some (e, k) else vm_lookup ops root s va')) \<and>
     (\<exists>q. vm_reach ops root s' va k q) \<and>
     (\<forall>va' k' q'. vm_reach ops root s va' k' q' \<and> k \<le> k' \<longrightarrow> vm_reach ops root s' va' k' q') \<and>
     card (small_free s) - (3 - k) \<le> card (small_free s') \<and>
     ((\<exists>q'. vm_reach ops root s va k q') \<longrightarrow> small_kheap s' = small_kheap s)"

context pte_laws
begin

text \<open>\<open>map_page\<close> gives a table's page an address its parent's entry can hold.\<close>

lemma table_pa_fits: "page_ok p \<Longrightarrow> pa_fits width (KERN_V2P p)"
  using width_40
  by (auto simp: pa_fits_def page_ok_def KERN_V2P_take_bit aligned_iff_take_bit min_def)

lemma link_run:
  assumes ok: "vm_ok ops root s" and r: "vm_reach ops root s va (Suc k) q"
    and inv: "\<not> pte_is_valid ops (ent (mem s) q (get_pt_index va (Suc k)))"
    and free: "small_free s \<noteq> {}"
  defines "entry \<equiv> pte_addr q (get_pt_index va (Suc k))"
  shows "runs (kbind alloc_pagetable (\<lambda>new_ptable.
      kseq (pte_update entry (\<lambda>e. Inr (pte_set_valid ops e True)))
      (kseq (pte_update entry (\<lambda>e. pte_set_phys ops e (KERN_V2P new_ptable)))
      (pte_update entry (\<lambda>e. Inr (pte_set_leaf ops e (Suc k) False)))))) s
    (\<lambda>_ s'. vm_step ops root s s' \<and> vm_lookup ops root s' = vm_lookup ops root s \<and>
      (\<forall>va' k' q'. vm_reach ops root s va' k' q' \<longrightarrow> vm_reach ops root s' va' k' q') \<and>
      (\<exists>p. vm_reach ops root s' va k p) \<and> card (small_free s') = card (small_free s) - 1)"
proof -
  obtain p h where al: "alloc_page PAGE_SMALL s = Inr (p, s\<lparr>small_kheap := h\<rparr>)"
    and p: "p \<in> small_free s" "page_ok p"
    and h: "used_pages h = insert p (small_used s)" "heap_pages h = heap_pages (small_kheap s)"
      "wf_kheap (s\<lparr>small_kheap := h\<rparr>)"
    using small_alloc [of s] ok free unfolding vm_ok_def by blast
  let ?m = "memset p 0 SMALL_PAGE_SIZE (mem s)"
  obtain e1 where e1: "pte_set_phys ops (pte_set_valid ops (load64 ?m entry) True) (KERN_V2P p) = Inr e1"
    and e2: "pte_is_valid ops (pte_set_leaf ops e1 (Suc k) False)"
      "\<not> pte_is_leaf ops (pte_set_leaf ops e1 (Suc k) False) (Suc k)"
      "pte_get_phys ops (pte_set_leaf ops e1 (Suc k) False) = KERN_V2P p"
    by (rule table_entry [OF table_pa_fits [OF p(2)], of "Suc k" "load64 ?m entry"]) simp_all
  let ?e = "pte_set_leaf ops e1 (Suc k) False"
  have child: "child_of ops (Suc k) ?e = Some p"
    using e2 p(2) by (simp add: child_of_def page_ok_def kern_addr_back)
  define s2 where "s2 = s\<lparr>mem := store64 ?m entry ?e, small_kheap := h\<rparr>"
  have s2: "s2 = s\<lparr>mem := mem s2, small_kheap := small_kheap s2\<rparr>" "wf_kheap s2"
    "small_used s2 = insert p (small_used s)" "heap_pages (small_kheap s2) = heap_pages (small_kheap s)"
    "mem s2 = store64 ?m (pte_addr q (get_pt_index va (Suc k))) ?e"
    using h by (simp_all add: s2_def wf_kheap_def entry_def)
  note le = link_entry [OF ok r inv zero_invalid child p s2(5) s2(1-4)]
  have "card (small_free s2) = card (small_free s) - 1"
    using s2(3,4) p(1) by (simp add: Diff_insert [of _ p "small_used s"] heap_pages_def)
  moreover have "runs (kbind alloc_pagetable (\<lambda>new_ptable.
      kseq (pte_update entry (\<lambda>e. Inr (pte_set_valid ops e True)))
      (kseq (pte_update entry (\<lambda>e. pte_set_phys ops e (KERN_V2P new_ptable)))
      (pte_update entry (\<lambda>e. Inr (pte_set_leaf ops e (Suc k) False)))))) s (\<lambda>_ s'. s' = s2)"
    by (simp add: alloc_pagetable_def runs_def kop_simps al pte_update_def e1 s2_def)
  ultimately show ?thesis using le by (auto elim!: runs_mono)
qed

lemma map_page_loop_runs:
  assumes "vm_ok ops root s" and "vm_reach ops root s va l q" and "k \<le> l"
    and "\<And>e j. vm_lookup ops root s va = Some (e, j) \<Longrightarrow> j \<le> k"
    and "(\<exists>q'. vm_reach ops root s va k q') \<or> l - k \<le> card (small_free s)"
  shows "runs (map_page_loop ops va k l q) s (map_loop_post ops root va k (l - k) s)"
  using assms
proof (induction l arbitrary: s q)
  case 0
  then show ?case by (simp add: vm_step_refl map_loop_post_def)
next
  case (Suc l)
  let ?i = "get_pt_index va (Suc l)" and ?e = "ent (mem s) q (get_pt_index va (Suc l))"
  note ok = Suc.prems(1) and r = Suc.prems(2)
  consider "k = Suc l" | (valid) "k \<le> l" "pte_is_valid ops ?e" | (inv) "k \<le> l" "\<not> pte_is_valid ops ?e"
    using Suc.prems(3) by linarith
  then show ?case
  proof cases
    case 1
    then show ?thesis using Suc.prems by (simp add: vm_step_refl map_loop_post_def)
  next
    case valid
    have "\<not> pte_is_leaf ops ?e (Suc l)"
    proof
      assume "pte_is_leaf ops ?e (Suc l)"
      then have "vm_lookup ops root s va = Some (?e, Suc l)"
        using same_path_lookup [OF r, of va] valid by (simp add: same_path_def)
      then show False using Suc.prems(4) valid(1) by fastforce
    qed
    then have "vm_reach ops root s va l (KERN_P2V (pte_get_phys ops ?e))"
      using pt_reach_step [OF r] valid by (simp add: child_of_def)
    then have "runs (map_page_loop ops va k l (KERN_P2V (pte_get_phys ops ?e))) s
        (map_loop_post ops root va k (l - k) s)"
      by (rule Suc.IH [OF ok _ valid(1) Suc.prems(4)]) (use Suc.prems(5) valid in auto)
    then have "runs (map_page_loop ops va k l (KERN_P2V (pte_get_phys ops ?e))) s
        (map_loop_post ops root va k (Suc l - k) s)"
      by (rule runs_mono) (auto simp: map_loop_post_def)
    then show ?thesis
      by (simp only: map_page_loop.simps less_Suc_eq_le valid if_True Let_def runs_simps
          ent_def [symmetric] not_True_eq_False if_False)
  next
    case inv
    have none: "\<not> (\<exists>q'. vm_reach ops root s va k q')"
      using reach_between [of ops _ 3 root va k _ l] inv pt_reach_level [OF r] pt_reach_step [OF r]
      by (fastforce simp: child_of_def)
    then have free: "Suc l - k \<le> card (small_free s)" using Suc.prems(5) by blast
    then have some: "small_free s \<noteq> {}" using inv(1) by (intro notI) (simp only: card.empty)
    let ?entry = "pte_addr q ?i"
    define link :: "('a kheap_state_scheme, unit) kop" where "link = kbind alloc_pagetable (\<lambda>new_ptable.
      kseq (pte_update ?entry (\<lambda>e. Inr (pte_set_valid ops e True)))
      (kseq (pte_update ?entry (\<lambda>e. pte_set_phys ops e (KERN_V2P new_ptable)))
      (pte_update ?entry (\<lambda>e. Inr (pte_set_leaf ops e (Suc l) False)))))"
    obtain u s1 p where run: "link s = Inr (u, s1)"
      and A: "vm_step ops root s s1" "vm_lookup ops root s1 = vm_lookup ops root s"
        "\<And>va' k' q'. vm_reach ops root s va' k' q' \<Longrightarrow> vm_reach ops root s1 va' k' q'"
        "card (small_free s1) = card (small_free s) - 1"
      and p: "vm_reach ops root s1 va l p"
      using link_run [OF ok r inv(2) some] unfolding runs_def link_def by blast
    have e1: "KERN_P2V (pte_get_phys ops (load64 (mem s1) ?entry)) = p"
      using pt_reach_step [OF A(3) [OF r]] p by (auto simp: child_of_def ent_def split: if_splits)
    have "runs (map_page_loop ops va k l p) s1 (map_loop_post ops root va k (l - k) s1)"
      by (rule Suc.IH [OF _ p inv(1)]) (use A Suc.prems(4) free vm_stepD(1) in auto)
    then have "runs (map_page_loop ops va k l p) s1 (map_loop_post ops root va k (Suc l - k) s)"
      by (rule runs_mono) (use A none inv(1) vm_step_trans in \<open>auto simp: map_loop_post_def\<close>)
    moreover have "map_page_loop ops va k (Suc l) q s = map_page_loop ops va k l p s1"
      using inv run e1 unfolding link_def by (simp add: kop_simps ent_def Let_def)
    ultimately show ?thesis by (simp only: runs_def)
  qed
qed

lemma map_page_runs:
  assumes ok: "vm_ok ops root s" and sz: "sz \<noteq> N_PAGETABLE_LEVELS"
    and al: "is_aligned va sz = Inr True" "is_aligned pa sz = Inr True"
    and pa: "pa_fits width pa" and priv: "priv \<noteq> CPU_MODE_UNDEFINED"
    and above: "\<And>e j. vm_lookup ops root s va = Some (e, j) \<Longrightarrow> j \<le> page_size_to_level sz"
    and free: "(\<exists>q. vm_reach ops root s va (page_size_to_level sz) q) \<or>
      3 - page_size_to_level sz \<le> card (small_free s)"
  shows "runs (map_page ops root va pa sz priv) s (\<lambda>_ s'. \<exists>e. pte_is_valid ops e \<and>
    pte_is_leaf ops e (page_size_to_level sz) \<and> pte_get_phys ops e = pa \<and> user e = (priv = MODE_USER) \<and>
    map_post ops root va (page_size_to_level sz) e s s')"
proof -
  define k where "k = page_size_to_level sz"
  have k: "k \<le> 3" using sz by (cases sz) (simp_all add: k_def)
  obtain q s1 where loop: "map_page_loop ops va k 3 root s = Inr (q, s1)"
    and A: "map_loop_post ops root va k (3 - k) s q s1"
    using map_page_loop_runs [OF ok pt_reach_refl k] above free unfolding k_def runs_def by blast
  let ?a = "pte_addr q (get_pt_index va k)"
  obtain e1 e2 where e1: "pte_set_phys ops (pte_set_valid ops (load64 (mem s1) ?a) True) pa = Inr e1"
    and e2: "pte_set_priv ops e1 priv = Inr e2"
    and e: "pte_is_valid ops (pte_set_leaf ops e2 k True)" "pte_is_leaf ops (pte_set_leaf ops e2 k True) k"
      "pte_get_phys ops (pte_set_leaf ops e2 k True) = pa"
      "user (pte_set_leaf ops e2 k True) = (priv = MODE_USER)"
    by (rule leaf_entry [OF pa priv, of "load64 (mem s1) ?a" k])
  define e where "e = pte_set_leaf ops e2 k True"
  define s2 where "s2 = s1\<lparr>mem := store64 (mem s1) ?a e\<rparr>"
  have ok1: "vm_ok ops root s1" and r1: "vm_reach ops root s1 va k q"
    using A vm_stepD(1) by (auto simp: map_loop_post_def)
  have nz: "?a \<noteq> 0" by (rule pte_addr_nonzero [OF vm_ok_reach_page [OF ok1 r1] get_pt_index_lt])
  have "child_of ops k e = None" using e by (simp add: child_of_def e_def)
  note se = store_entry [OF ok1 r1 this, folded s2_def]
  have run: "map_page ops root va pa sz priv s = Inr ((), s2)"
    using loop al nz by (simp add: map_page_def kop_simps pte_update_def Let_def e1 e2 s2_def e_def flip: k_def)
  have "map_post ops root va k e s s2"
    unfolding map_post_def
  proof (intro conjI allI impI)
    show "vm_step ops root s s2" using A se(1) vm_step_trans by (auto simp: map_loop_post_def)
    show "vm_lookup ops root s2 va' = (if same_path k 3 va va' then Some (e, k) else vm_lookup ops root s va')" for va'
      using se(2) [of va'] A e by (simp add: map_loop_post_def e_def)
    show "\<exists>q. vm_reach ops root s2 va k q" using se(3) [OF r1] by auto
    show "vm_reach ops root s2 va' k' q'" if "vm_reach ops root s va' k' q' \<and> k \<le> k'" for va' k' q'
      using se(3) A that by (auto simp: map_loop_post_def)
  qed (use A in \<open>auto simp: map_loop_post_def s2_def\<close>)
  then show ?thesis using run e unfolding runs_def by (auto simp: e_def k_def)
qed

text \<open>\<open>walk_page\<close> finds the entry of the lookup.\<close>

lemma walk_loop:
  assumes "pt_wf ops (ent m) l t"
  shows "case pt_lookup ops (ent m) l t va of
      None \<Rightarrow> walk_page_loop ops m va l t = Inr 0
    | Some (e, k) \<Rightarrow> \<exists>q. pt_reach ops (ent m) l t va k q \<and> e = ent m q (get_pt_index va k) \<and>
        walk_page_loop ops m va l t = Inr (pte_addr q (get_pt_index va k)) \<and>
        pte_is_valid ops e \<and> pte_is_leaf ops e k"
  using assms
proof (induction l arbitrary: t)
  case 0
  then have "pte_is_valid ops (ent m t (get_pt_index va 0)) \<Longrightarrow> pte_is_leaf ops (ent m t (get_pt_index va 0)) 0"
    using get_pt_index_lt [of va 0] by (auto simp: child_of_def split: if_splits)
  then show ?case by (auto simp: ent_def Let_def)
next
  case (Suc l)
  let ?e = "ent m t (get_pt_index va (Suc l))"
  show ?case
  proof (cases "child_of ops (Suc l) ?e")
    case None
    then show ?thesis by (auto simp: child_of_def ent_def Let_def split: if_splits)
  next
    case (Some c)
    have e: "pte_is_valid ops ?e" "\<not> pte_is_leaf ops ?e (Suc l)" "KERN_P2V (pte_get_phys ops ?e) = c"
      using Some by (auto simp: child_of_def split: if_splits)
    have down: "pt_lookup ops (ent m) (Suc l) t va = pt_lookup ops (ent m) l c va"
      "walk_page_loop ops m va (Suc l) t = walk_page_loop ops m va l c"
      using e by (auto simp: Let_def ent_def)
    have up: "pt_reach ops (ent m) (Suc l) t va k q" if "pt_reach ops (ent m) l c va k q" for k q
      using that Some pt_reach_level [OF that] by auto
    note IH = Suc.IH [OF pt_wf_child(1) [OF Suc.prems get_pt_index_lt Some]]
    show ?thesis
    proof (cases "pt_lookup ops (ent m) l c va")
      case None
      then show ?thesis unfolding down using IH by simp
    next
      case (Some ek)
      obtain e k where "ek = (e, k)" by (cases ek)
      then show ?thesis unfolding down Some using IH up unfolding Some prod.case option.case by blast
    qed
  qed
qed

lemma walk_page_cases:
  assumes "vm_ok ops root s"
  obtains (unmapped) "vm_lookup ops root s va = None" "walk_page ops root va (mem s) = Inr 0"
  | (mapped) e k q where "vm_lookup ops root s va = Some (e, k)" "vm_reach ops root s va k q"
      "walk_page ops root va (mem s) = Inr (pte_addr q (get_pt_index va k))"
      "load64 (mem s) (pte_addr q (get_pt_index va k)) = e" "pte_addr q (get_pt_index va k) \<noteq> 0"
      "pte_is_valid ops e" "pte_is_leaf ops e k"
proof (cases "vm_lookup ops root s va")
  case None
  then show ?thesis
    using walk_loop [of "mem s" 3 root va] assms unmapped by (simp add: vm_ok_def walk_page_def)
next
  case (Some ek)
  then obtain e k q where ek: "ek = (e, k)" and q: "vm_reach ops root s va k q"
    "e = ent (mem s) q (get_pt_index va k)" "walk_page ops root va (mem s) = Inr (pte_addr q (get_pt_index va k))"
    "pte_is_valid ops e" "pte_is_leaf ops e k"
    using walk_loop [of "mem s" 3 root va] assms by (cases ek) (auto simp: vm_ok_def walk_page_def)
  have "pte_addr q (get_pt_index va k) \<noteq> 0"
    by (rule pte_addr_nonzero [OF vm_ok_reach_page [OF assms q(1)] get_pt_index_lt])
  with q Some ek mapped show ?thesis by (auto simp: ent_def)
qed

text \<open>Changing the entry that a walk found.\<close>

lemma unmap_page_runs:
  assumes ok: "vm_ok ops root s"
  shows "runs (unmap_page ops root va) s (\<lambda>_ s'. vm_step ops root s s' \<and> small_kheap s' = small_kheap s \<and>
    (\<forall>va' k' q'. vm_reach ops root s va' k' q' \<longrightarrow> vm_reach ops root s' va' k' q') \<and>
    (\<forall>va'. vm_lookup ops root s' va' =
      (case vm_lookup ops root s va of
         None \<Rightarrow> vm_lookup ops root s va'
       | Some (e, k) \<Rightarrow> if same_path k 3 va va' then None else vm_lookup ops root s va')))"
  using ok
proof (cases rule: walk_page_cases [where va = va])
  case unmapped
  then have "unmap_page ops root va s = Inr ((), s)" by (simp add: unmap_page_def kop_simps)
  then show ?thesis using unmapped ok by (simp add: runs_def vm_step_refl)
next
  case (mapped e k q)
  let ?e = "pte_set_valid ops e False"
  have "child_of ops k ?e = None" by (simp add: child_of_def set_valid)
  note se = store_entry [OF ok mapped(2) this]
  have "child_of ops k (ent (mem s) q (get_pt_index va k)) = None" using mapped by (simp add: child_of_def ent_def)
  note reach = se(4) [OF this]
  show ?thesis
    by (rule runs_InrI [where s' = "s\<lparr>mem := store64 (mem s) (pte_addr q (get_pt_index va k)) ?e\<rparr>"])
      (use se(1,2) reach mapped in \<open>simp_all add: unmap_page_def kop_simps pte_update_def set_valid\<close>)
qed

lemma page_set_cache_policy_runs:
  assumes ok: "vm_ok ops root s"
  shows "runs (page_set_cache_policy ops root va pol) s (\<lambda>_ s'. vm_step ops root s s' \<and>
    small_kheap s' = small_kheap s \<and>
    (\<forall>va' k' q'. vm_reach ops root s va' k' q' \<and>
      (\<forall>e k. vm_lookup ops root s va = Some (e, k) \<longrightarrow> k \<le> k') \<longrightarrow> vm_reach ops root s' va' k' q') \<and>
    (\<forall>va'. vm_lookup ops root s' va' =
      (case vm_lookup ops root s va of
         None \<Rightarrow> vm_lookup ops root s va'
       | Some (e, k) \<Rightarrow> if same_path k 3 va va' then Some (pte_set_cache_policy ops e pol, k)
           else vm_lookup ops root s va')))"
  using ok
proof (cases rule: walk_page_cases [where va = va])
  case unmapped
  then have "page_set_cache_policy ops root va pol s = Inr ((), s)"
    by (simp add: page_set_cache_policy_def kop_simps)
  then show ?thesis using unmapped ok by (simp add: runs_def vm_step_refl)
next
  case (mapped e k q)
  let ?e = "pte_set_cache_policy ops e pol"
  have "child_of ops k ?e = None" using mapped by (simp add: child_of_def set_cache_leaf)
  note se = store_entry [OF ok mapped(2) this]
  show ?thesis
    by (rule runs_InrI [where s' = "s\<lparr>mem := store64 (mem s) (pte_addr q (get_pt_index va k)) ?e\<rparr>"])
      (use se mapped in \<open>simp_all add: page_set_cache_policy_def kop_simps pte_update_def set_cache_valid\<close>)
qed

lemma translate_page_lookup:
  assumes "vm_ok ops root s"
  shows "translate_page ops root va (mem s) = Inr (case vm_lookup ops root s va of
      None \<Rightarrow> PHYS_ADDR_INVALID
    | Some (e, k) \<Rightarrow> pte_get_phys ops e OR (va AND MASK PAGE_OFFSET_BITS))"
  using assms by (cases rule: walk_page_cases [where va = va]) (simp_all add: translate_page_def)

lemma get_page_size_loop_lookup:
  assumes "pt_wf ops (ent m) l t"
  shows "get_page_size_loop ops m va l t = Inr (case pt_lookup ops (ent m) l t va of
      None \<Rightarrow> 0 | Some (e, k) \<Rightarrow> page_size_in_bytes (page_level_to_size k))"
  using assms
proof (induction l arbitrary: t)
  case 0
  then have "pte_is_valid ops (ent m t (get_pt_index va 0)) \<Longrightarrow> pte_is_leaf ops (ent m t (get_pt_index va 0)) 0"
    using get_pt_index_lt [of va 0] by (auto simp: child_of_def split: if_splits)
  then show ?case by (auto simp: ent_def Let_def)
next
  case (Suc l)
  let ?e = "ent m t (get_pt_index va (Suc l))"
  show ?case
  proof (cases "child_of ops (Suc l) ?e")
    case None
    then show ?thesis by (auto simp: child_of_def ent_def Let_def split: if_splits)
  next
    case (Some c)
    then have "pte_is_valid ops ?e" "\<not> pte_is_leaf ops ?e (Suc l)" "KERN_P2V (pte_get_phys ops ?e) = c"
      by (auto simp: child_of_def split: if_splits)
    then show ?thesis
      using Suc.IH [OF pt_wf_child(1) [OF Suc.prems get_pt_index_lt Some]] by (simp add: Let_def ent_def)
  qed
qed

end

section \<open>The three ISAs\<close>

primrec isa_width :: "isa \<Rightarrow> nat" where
  "isa_width X86_64 = 52"
| "isa_width AARCH64 = 52"
| "isa_width RISCV64 = 55"

text \<open>The bit of a leaf entry with which the CPU grants user mode access.\<close>

primrec isa_user :: "isa \<Rightarrow> u64 \<Rightarrow> bool" where
  "isa_user X86_64 e = bit e 2"
| "isa_user AARCH64 e = bit e 6"
| "isa_user RISCV64 e = bit e 4"

lemma isa_laws: "pte_laws (isa_pte arch) (isa_width arch) (isa_user arch)"
proof (cases arch)
  case X86_64
  then show ?thesis using x86.pte_laws_axioms by (simp add: isa_user_def isa_pte.simps)
next
  case AARCH64
  then show ?thesis using arm.pte_laws_axioms by (simp add: isa_user_def isa_pte.simps)
next
  case RISCV64
  then show ?thesis using riscv.pte_laws_axioms by (simp add: isa_user_def isa_pte.simps)
qed

interpretation isa: pte_laws "isa_pte arch" "isa_width arch" "isa_user arch" for arch
  by (rule isa_laws)

text \<open>Two addresses lie in the same page of a size: their 48 bits agree above the page offset.\<close>

definition same_page :: "pagesize \<Rightarrow> u64 \<Rightarrow> u64 \<Rightarrow> bool" where
  "same_page sz va va' \<longleftrightarrow>
     drop_bit (12 + 9 * page_size_to_level sz) (take_bit 48 va) =
     drop_bit (12 + 9 * page_size_to_level sz) (take_bit 48 va')"

lemma field_eq_iff:
  fixes x y :: u64
  shows "take_bit n (drop_bit k x) = take_bit n (drop_bit k y) \<longleftrightarrow> (\<forall>i. k \<le> i \<and> i < k + n \<longrightarrow> bit x i = bit y i)"
proof
  assume eq: "take_bit n (drop_bit k x) = take_bit n (drop_bit k y)"
  show "\<forall>i. k \<le> i \<and> i < k + n \<longrightarrow> bit x i = bit y i"
  proof (intro allI impI)
    fix i assume "k \<le> i \<and> i < k + n"
    then have "i - k < n" "k + (i - k) = i" by auto
    moreover have "bit (take_bit n (drop_bit k x)) (i - k) = bit (take_bit n (drop_bit k y)) (i - k)"
      using eq by simp
    ultimately show "bit x i = bit y i" by (simp add: bit_simps)
  qed
next
  assume "\<forall>i. k \<le> i \<and> i < k + n \<longrightarrow> bit x i = bit y i"
  then show "take_bit n (drop_bit k x) = take_bit n (drop_bit k y)"
    by (intro bit_word_eqI) (auto simp: bit_simps)
qed

lemma get_pt_index_eq:
  "get_pt_index va j = get_pt_index va' j \<longleftrightarrow>
    (\<forall>i. 12 + 9 * j \<le> i \<and> i < 12 + 9 * j + 9 \<longrightarrow> bit va i = bit va' i)"
proof -
  have "get_pt_index va j = get_pt_index va' j \<longleftrightarrow>
      take_bit 9 (drop_bit (12 + 9 * j) va) = take_bit 9 (drop_bit (12 + 9 * j) va')"
    by (simp add: get_pt_index_def PAGE_OFFSET_BITS_def PAGE_BITS_PER_LEVEL_def MASK_eq_mask
        word_unat_eq_iff flip: take_bit_eq_mask)
  then show ?thesis by (simp only: field_eq_iff)
qed

lemma same_path_page:
  assumes "k \<le> 3"
  shows "same_path k 3 va va' \<longleftrightarrow> drop_bit (12 + 9 * k) (take_bit 48 va) = drop_bit (12 + 9 * k) (take_bit 48 va')"
proof -
  have "drop_bit (12 + 9 * k) (take_bit 48 x) = take_bit (48 - (12 + 9 * k)) (drop_bit (12 + 9 * k) x)" for x :: u64
    by (rule bit_word_eqI) (auto simp: bit_simps)
  then have "drop_bit (12 + 9 * k) (take_bit 48 va) = drop_bit (12 + 9 * k) (take_bit 48 va') \<longleftrightarrow>
      (\<forall>i. 12 + 9 * k \<le> i \<and> i < 48 \<longrightarrow> bit va i = bit va' i)"
    using assms by (simp add: field_eq_iff)
  moreover have "same_path k 3 va va' \<longleftrightarrow> (\<forall>i. 12 + 9 * k \<le> i \<and> i < 48 \<longrightarrow> bit va i = bit va' i)"
  proof
    assume sp: "same_path k 3 va va'"
    show "\<forall>i. 12 + 9 * k \<le> i \<and> i < 48 \<longrightarrow> bit va i = bit va' i"
    proof (intro allI impI)
      fix i assume i: "12 + 9 * k \<le> i \<and> i < 48"
      define j where "j = (i - 12) div 9"
      have "12 + 9 * j \<le> i" "i < 12 + 9 * j + 9" "k \<le> j" "j \<le> 3" using i by (auto simp: j_def)
      then show "bit va i = bit va' i" using sp unfolding same_path_def get_pt_index_eq by blast
    qed
  next
    assume "\<forall>i. 12 + 9 * k \<le> i \<and> i < 48 \<longrightarrow> bit va i = bit va' i"
    then show "same_path k 3 va va'" unfolding same_path_def get_pt_index_eq by auto
  qed
  ultimately show ?thesis by simp
qed

lemma same_page_path:
  assumes "sz \<noteq> N_PAGETABLE_LEVELS"
  shows "same_path (page_size_to_level sz) 3 va va' \<longleftrightarrow> same_page sz va va'"
proof -
  have "page_size_to_level sz \<le> 3" using assms by (cases sz) simp_all
  then show ?thesis by (simp add: same_path_page same_page_def)
qed

text \<open>The addresses of a page share its entry.\<close>

lemma same_leaf:
  assumes "vm_ok (isa_pte arch) root s" and "vm_lookup (isa_pte arch) root s va = Some (e, k)" and "same_path k 3 va va'"
  shows "vm_lookup (isa_pte arch) root s va' = Some (e, k)"
  using assms(1)
proof (cases rule: isa.walk_page_cases [where va = va])
  case (mapped e0 k0 q)
  then have eq: "e0 = e" "k0 = k" using assms(2) by simp_all
  have "get_pt_index va' k = get_pt_index va k" using assms(3) pt_reach_level [OF mapped(2)] eq by (simp add: same_path_def)
  then have "pt_lookup (isa_pte arch) (ent (mem s)) k q va' = Some (e, k)"
    using mapped(4,6,7) unfolding eq by (cases k) (simp_all add: ent_def Let_def)
  then show ?thesis using same_path_lookup [OF mapped(2)] assms(3) unfolding eq by simp
qed (use assms(2) in simp)

section \<open>A concrete page table\<close>

text \<open>A fresh heap whose first small page holds an empty root table.\<close>

definition vm_demo :: kheap_state where
  "vm_demo = kheap_demo\<lparr>small_kheap := (small_kheap kheap_demo)\<lparr>alloc_map := (alloc_map (small_kheap kheap_demo))[0 := True]\<rparr>\<rparr>"

abbreviation vm_demo_root :: u64 where "vm_demo_root \<equiv> 0xFFFFFF0010000000"

lemma vm_demo_used: "small_used vm_demo = {vm_demo_root}"
  and vm_demo_free: "card (small_free vm_demo) = 1023"
proof -
  have len: "length (alloc_map (small_kheap kheap_demo)) = 1024"
    and pg: "heap_page (small_kheap kheap_demo) 0 = vm_demo_root"
    by (simp_all add: kheap_demo_def fresh_heap_def heap_page_def)
  show used: "small_used vm_demo = {vm_demo_root}"
    using used_pages_insert [of 0 "small_kheap kheap_demo"] len pg kheap_demo_free(1) [of PAGE_SMALL]
    by (simp add: vm_demo_def heap_of_def)
  have "heap_pages (small_kheap vm_demo) = heap_pages (small_kheap kheap_demo)" by (simp add: vm_demo_def)
  moreover have "vm_demo_root \<in> heap_pages (small_kheap kheap_demo)"
    using heap_page_in_pages [of 0 "small_kheap kheap_demo"] len pg by simp
  ultimately show "card (small_free vm_demo) = 1023"
    using used kheap_demo_pages by (simp add: heap_of_def card_Diff_singleton)
qed

lemma vm_demo_zero: "ent (mem vm_demo) t i = 0"
  by (simp add: ent_def load64_zero vm_demo_def kheap_demo_def)

lemma vm_demo_page: "page_ok vm_demo_root"
  by (simp add: page_ok_def kern_addr_iff KERNEL_LINK_ADDRESS_def IS_ALIGNED_SMALL_def size_consts)

lemma vm_demo_ok: "vm_ok (isa_pte arch) vm_demo_root vm_demo"
  and vm_demo_lookup: "vm_lookup (isa_pte arch) vm_demo_root vm_demo va = None"
proof -
  note z = zero_table [of vm_demo_root "ent (mem vm_demo)" "isa_pte arch", OF vm_demo_page vm_demo_zero isa.zero_invalid]
  show "vm_lookup (isa_pte arch) vm_demo_root vm_demo va = None" by (rule z(3))
  have "wf_kheap vm_demo" using kheap_demo_wf by (simp add: vm_demo_def wf_kheap_def)
  then show "vm_ok (isa_pte arch) vm_demo_root vm_demo"
    using z by (simp add: vm_ok_def vm_demo_used)
qed

section \<open>Properties\<close>

lemma page_level_le: "sz \<noteq> N_PAGETABLE_LEVELS \<Longrightarrow> page_size_to_level sz \<le> 3"
  by (cases sz) simp_all

lemma page_level_size: "sz \<noteq> N_PAGETABLE_LEVELS \<Longrightarrow> page_level_to_size (page_size_to_level sz) = sz"
  by (cases sz) (simp_all add: numeral_2_eq_2 numeral_3_eq_3)

text \<open>
  What a caller of \<open>map_page\<close> has to ensure: a well-formed page table, aligned addresses, a physical
  address the entries can hold, a privilege, no larger page in the way of \<open>va\<close>, and a free page for
  each table that may be missing.
\<close>

definition map_pre ::
  "isa \<Rightarrow> u64 \<Rightarrow> u64 \<Rightarrow> u64 \<Rightarrow> pagesize \<Rightarrow> cpu_mode \<Rightarrow> 'z kheap_state_scheme \<Rightarrow> bool" where
  "map_pre arch root va pa sz priv s \<longleftrightarrow> vm_ok (isa_pte arch) root s \<and> sz \<noteq> N_PAGETABLE_LEVELS \<and>
     is_aligned va sz = Inr True \<and> is_aligned pa sz = Inr True \<and> pa_fits (isa_width arch) pa \<and>
     priv \<noteq> CPU_MODE_UNDEFINED \<and>
     (\<forall>e k. vm_lookup (isa_pte arch) root s va = Some (e, k) \<longrightarrow> k \<le> page_size_to_level sz) \<and>
     3 - page_size_to_level sz \<le> card (small_free s)"

lemma isa_map_page:
  assumes "map_pre arch root va pa sz priv s"
  shows "runs (map_page (isa_pte arch) root va pa sz priv) s (\<lambda>_ s'.
    \<exists>e. pte_get_phys (isa_pte arch) e = pa \<and> isa_user arch e = (priv = MODE_USER) \<and>
      vm_step (isa_pte arch) root s s' \<and>
      card (small_free s) - (3 - page_size_to_level sz) \<le> card (small_free s') \<and>
      (\<forall>va'. vm_lookup (isa_pte arch) root s' va' =
        (if same_page sz va va' then Some (e, page_size_to_level sz)
         else vm_lookup (isa_pte arch) root s va')))"
proof -
  have pre: "vm_ok (isa_pte arch) root s" "sz \<noteq> N_PAGETABLE_LEVELS" "is_aligned va sz = Inr True"
    "is_aligned pa sz = Inr True" "pa_fits (isa_width arch) pa" "priv \<noteq> CPU_MODE_UNDEFINED"
    "3 - page_size_to_level sz \<le> card (small_free s)"
    and above: "\<And>e k. vm_lookup (isa_pte arch) root s va = Some (e, k) \<Longrightarrow> k \<le> page_size_to_level sz"
    using assms by (auto simp: map_pre_def)
  show ?thesis
    by (rule runs_mono [OF isa.map_page_runs [OF pre(1-6) above disjI2 [OF pre(7)]]], assumption)
      (auto simp: map_post_def same_page_path [OF pre(2)])
qed

lemma map_pre_ok: "map_pre arch root va pa sz priv s \<Longrightarrow> vm_ok (isa_pte arch) root s"
  by (simp add: map_pre_def)

lemma map_pre_demo:
  assumes "sz \<noteq> N_PAGETABLE_LEVELS" "is_aligned va sz = Inr True" "is_aligned pa sz = Inr True"
    "pa_fits (isa_width arch) pa" "priv \<noteq> CPU_MODE_UNDEFINED"
  shows "map_pre arch vm_demo_root va pa sz priv vm_demo"
  using assms by (simp add: map_pre_def vm_demo_ok vm_demo_lookup vm_demo_free)

lemma demo_aligned:
  "is_aligned 0x400000 PAGE_LARGE = Inr True" "is_aligned 0x80200000 PAGE_LARGE = Inr True"
  "is_aligned 0x400000 PAGE_SMALL = Inr True" "is_aligned 0x7000 PAGE_SMALL = Inr True"
  "pa_fits (isa_width arch) 0x80200000" "pa_fits (isa_width arch) 0x7000"
  by (cases arch; simp add: IS_ALIGNED_LARGE_def IS_ALIGNED_SMALL_def size_consts pa_fits_def
      take_bit_eq_mask mask_eq_exp_minus_1)+

lemma demo_same_page:
  "same_page PAGE_LARGE 0x400000 0x412345" "\<not> same_page PAGE_LARGE 0x400000 0x600000"
  "same_page PAGE_SMALL 0x400000 0x400123" "\<not> same_page PAGE_SMALL 0x400000 0x401000"
  by (simp_all add: same_page_def take_bit_eq_mask mask_eq_exp_minus_1)

text \<open>C2: \<open>map_page\<close> installs exactly the mapping asked for, on every ISA and for every page size.
  It returns, keeps the page table well-formed, every address of the page of \<open>va\<close> finds one leaf of
  the right level that holds \<open>pa\<close> and is accessible to user mode exactly if \<open>MODE_USER\<close> was asked
  for, and every other address finds what it found before.\<close>

theorem map_page_correct:
  assumes "map_pre arch root va pa sz priv s"
  shows "runs (map_page (isa_pte arch) root va pa sz priv) s (\<lambda>_ s'. vm_ok (isa_pte arch) root s' \<and>
    (\<exists>e. pte_get_phys (isa_pte arch) e = pa \<and> isa_user arch e = (priv = MODE_USER) \<and>
      (\<forall>va'. vm_lookup (isa_pte arch) root s' va' =
        (if same_page sz va va' then Some (e, page_size_to_level sz)
         else vm_lookup (isa_pte arch) root s va'))))"
  by (rule runs_mono [OF isa_map_page [OF assms]]) (auto dest: vm_stepD(1))

theorem map_page_correct_witness:
  "map_pre RISCV64 vm_demo_root 0x400000 0x80200000 PAGE_LARGE MODE_USER vm_demo \<and>
   runs (map_page (isa_pte RISCV64) vm_demo_root 0x400000 0x80200000 PAGE_LARGE MODE_USER) vm_demo
    (\<lambda>_ s'. \<exists>e. pte_get_phys (isa_pte RISCV64) e = 0x80200000 \<and> isa_user RISCV64 e \<and>
      vm_lookup (isa_pte RISCV64) vm_demo_root s' 0x412345 = Some (e, 1) \<and>
      vm_lookup (isa_pte RISCV64) vm_demo_root s' 0x600000 = None)"
proof -
  have pre: "map_pre RISCV64 vm_demo_root 0x400000 0x80200000 PAGE_LARGE MODE_USER vm_demo"
    by (rule map_pre_demo) (rule demo_aligned | simp)+
  show ?thesis
    by (rule conjI [OF pre], rule runs_mono [OF map_page_correct [OF pre]])
      (use demo_same_page in \<open>auto simp: vm_demo_lookup\<close>)
qed

text \<open>C3: \<open>map_page\<close> writes nothing but the page table: memory changes only inside the tables of this
  page table and the pages newly taken for it; no page in use is released, every page taken was
  free, and the large heap and the rest of the kernel state are untouched.\<close>

theorem map_page_frame:
  assumes "map_pre arch root va pa sz priv s"
  shows "runs (map_page (isa_pte arch) root va pa sz priv) s (\<lambda>_ s'.
    (\<exists>m h. s' = s\<lparr>mem := m, small_kheap := h\<rparr>) \<and> small_used s \<subseteq> small_used s' \<and>
    card (small_free s) - (3 - page_size_to_level sz) \<le> card (small_free s') \<and>
    vm_tables (isa_pte arch) root s' \<subseteq> vm_tables (isa_pte arch) root s \<union> (small_used s' - small_used s) \<and>
    (\<forall>a. (\<forall>p \<in> vm_tables (isa_pte arch) root s \<union> (small_used s' - small_used s). \<not> in_page p a) \<longrightarrow>
      mem s' a = mem s a))"
  by (rule runs_mono [OF isa_map_page [OF assms]])
    (unfold vm_step_def, elim exE conjE, intro conjI exI; assumption)

theorem map_page_frame_witness:
  "runs (map_page (isa_pte X86_64) vm_demo_root 0x400000 0x7000 PAGE_SMALL MODE_USER) vm_demo
    (\<lambda>_ s'. large_kheap s' = large_kheap vm_demo \<and> vm_demo_root \<in> small_used s' \<and> 1020 \<le> card (small_free s'))"
proof -
  have pre: "map_pre X86_64 vm_demo_root 0x400000 0x7000 PAGE_SMALL MODE_USER vm_demo"
    by (rule map_pre_demo) (rule demo_aligned | simp)+
  show ?thesis
    by (rule runs_mono [OF map_page_frame [OF pre]]) (use vm_demo_used vm_demo_free in auto)
qed

text \<open>C4: After \<open>map_page\<close> of a 4 KB page, \<open>translate_page\<close> gives \<open>pa\<close> plus the page offset for every
  address of the page and the old answer for every other address.\<close>

theorem map_then_translate:
  assumes "map_pre arch root va pa PAGE_SMALL priv s"
  shows "runs (map_page (isa_pte arch) root va pa PAGE_SMALL priv) s (\<lambda>_ s'.
    \<forall>va'. translate_page (isa_pte arch) root va' (mem s') =
      (if same_page PAGE_SMALL va va' then Inr (pa + (va' AND 0xFFF))
       else translate_page (isa_pte arch) root va' (mem s)))"
proof -
  have pa: "IS_ALIGNED_SMALL pa" using assms by (simp add: map_pre_def pa_fits_def)
  have or_add: "pa OR (va' AND 0xFFF) = pa + (va' AND 0xFFF)" for va'
  proof -
    have "va' AND 0xFFF = take_bit 12 va'" by (simp add: take_bit_eq_mask mask_eq_exp_minus_1)
    then have "pa AND (va' AND 0xFFF) = 0"
      using pa by (intro bit_word_eqI) (auto simp: bit_simps dest: aligned_small_bit)
    then show ?thesis by (simp add: disjunctive_add_eq_or)
  qed
  have m: "MASK PAGE_OFFSET_BITS = 0xFFF" by (simp add: MASK_def BIT_def PAGE_OFFSET_BITS_def)
  show ?thesis
  proof (rule runs_mono [OF isa_map_page [OF assms]], elim exE conjE, intro allI)
    fix u s' e va'
    assume e: "pte_get_phys (isa_pte arch) e = pa" and st: "vm_step (isa_pte arch) root s s'"
      and l: "\<forall>va'. vm_lookup (isa_pte arch) root s' va' =
        (if same_page PAGE_SMALL va va' then Some (e, page_size_to_level PAGE_SMALL)
         else vm_lookup (isa_pte arch) root s va')"
    show "translate_page (isa_pte arch) root va' (mem s') =
      (if same_page PAGE_SMALL va va' then Inr (pa + (va' AND 0xFFF))
       else translate_page (isa_pte arch) root va' (mem s))"
      using e l or_add m
      unfolding isa.translate_page_lookup [OF vm_stepD(1) [OF st]] isa.translate_page_lookup [OF map_pre_ok [OF assms]]
      by simp
  qed
qed

theorem map_then_translate_witness:
  "runs (map_page (isa_pte AARCH64) vm_demo_root 0x400000 0x7000 PAGE_SMALL MODE_USER) vm_demo
    (\<lambda>_ s'. translate_page (isa_pte AARCH64) vm_demo_root 0x400123 (mem s') = Inr 0x7123)"
proof -
  have pre: "map_pre AARCH64 vm_demo_root 0x400000 0x7000 PAGE_SMALL MODE_USER vm_demo"
    by (rule map_pre_demo) (rule demo_aligned | simp)+
  show ?thesis
    by (rule runs_mono [OF map_then_translate [OF pre]]) (use demo_same_page in simp)
qed

text \<open>C8: \<open>translate_page\<close> adds only a 12-bit offset, whatever the size of the page: after a 2 MB page
  is mapped, every address of it whose bits 12 to 20 are not all zero translates to a physical
  address other than the one the mapping gives it (the base plus its 21-bit offset).\<close>

theorem translate_large_page_wrong:
  assumes "map_pre arch root va pa PAGE_LARGE priv s" and "same_page PAGE_LARGE va va'"
    and "va' AND 0x1FF000 \<noteq> 0"
  shows "runs (map_page (isa_pte arch) root va pa PAGE_LARGE priv) s (\<lambda>_ s'.
    \<exists>r. translate_page (isa_pte arch) root va' (mem s') = Inr r \<and> r = pa OR (va' AND 0xFFF) \<and>
      r \<noteq> pa OR (va' AND 0x1FFFFF))"
proof -
  have pa: "IS_ALIGNED_LARGE pa" using assms(1) by (simp add: map_pre_def)
  have m: "MASK PAGE_OFFSET_BITS = 0xFFF" by (simp add: MASK_def BIT_def PAGE_OFFSET_BITS_def)
  have masks: "va' AND 0xFFF = take_bit 12 va'" "va' AND 0x1FFFFF = take_bit 21 va'"
    "va' AND 0x1FF000 = push_bit 12 (take_bit 9 (drop_bit 12 va'))"
  proof -
    have "va' AND push_bit 12 (mask 9) = push_bit 12 (take_bit 9 (drop_bit 12 va'))"
      by (rule bit_word_eqI) (auto simp: bit_simps)
    then show "va' AND 0x1FF000 = push_bit 12 (take_bit 9 (drop_bit 12 va'))"
      by (simp add: mask_eq_exp_minus_1)
  qed (simp_all add: take_bit_eq_mask mask_eq_exp_minus_1)
  have "pa OR (va' AND 0xFFF) \<noteq> pa OR (va' AND 0x1FFFFF)"
  proof
    assume eq: "pa OR (va' AND 0xFFF) = pa OR (va' AND 0x1FFFFF)"
    have "\<not> bit va' n" if "12 \<le> n" "n < 21" for n
    proof -
      have "\<not> bit (take_bit 21 pa) n" using pa unfolding aligned_iff_take_bit by simp
      then have "\<not> bit pa n" using that by (simp add: bit_simps)
      then show ?thesis using arg_cong [OF eq, of "\<lambda>w. bit w n"] that by (simp add: masks bit_simps)
    qed
    then have "push_bit 12 (take_bit 9 (drop_bit 12 va')) = 0"
      by (intro bit_word_eqI) (auto simp: bit_simps)
    then show False using assms(3) masks(3) by simp
  qed
  then show ?thesis
    by (intro runs_mono [OF isa_map_page [OF assms(1)]])
      (use assms(2) m in \<open>auto simp: isa.translate_page_lookup dest!: vm_stepD(1)\<close>)
qed

theorem translate_large_page_wrong_witness:
  "runs (map_page (isa_pte X86_64) vm_demo_root 0x400000 0x80200000 PAGE_LARGE MODE_USER) vm_demo
    (\<lambda>_ s'. translate_page (isa_pte X86_64) vm_demo_root 0x412345 (mem s') = Inr 0x80200345)"
proof -
  have pre: "map_pre X86_64 vm_demo_root 0x400000 0x80200000 PAGE_LARGE MODE_USER vm_demo"
    by (rule map_pre_demo) (rule demo_aligned | simp)+
  show ?thesis
    by (rule runs_mono [OF translate_large_page_wrong [OF pre demo_same_page(1)]]) auto
qed

text \<open>C5: \<open>unmap_page\<close> never fails on a well-formed page table: if \<open>va\<close> was mapped, exactly the addresses
  of its page become unmapped, and otherwise nothing changes; no table is freed, and memory changes
  only inside the tables.\<close>

theorem unmap_page_correct:
  assumes "vm_ok (isa_pte arch) root s"
  shows "runs (unmap_page (isa_pte arch) root va) s (\<lambda>_ s'. vm_ok (isa_pte arch) root s' \<and>
    (\<exists>m. s' = s\<lparr>mem := m\<rparr>) \<and> vm_lookup (isa_pte arch) root s' va = None \<and>
    (\<forall>a. (\<forall>p \<in> vm_tables (isa_pte arch) root s. \<not> in_page p a) \<longrightarrow> mem s' a = mem s a) \<and>
    (\<forall>va'. vm_lookup (isa_pte arch) root s' va' =
      (case vm_lookup (isa_pte arch) root s va of
         None \<Rightarrow> vm_lookup (isa_pte arch) root s va'
       | Some (e, k) \<Rightarrow> if same_path k 3 va va' then None else vm_lookup (isa_pte arch) root s va')))"
proof (rule runs_mono [OF isa.unmap_page_runs [OF assms]], elim conjE, intro conjI)
  fix u s'
  assume st: "vm_step (isa_pte arch) root s s'" and h: "small_kheap s' = small_kheap s"
    and l: "\<forall>va'. vm_lookup (isa_pte arch) root s' va' =
      (case vm_lookup (isa_pte arch) root s va of
         None \<Rightarrow> vm_lookup (isa_pte arch) root s va'
       | Some (e, k) \<Rightarrow> if same_path k 3 va va' then None else vm_lookup (isa_pte arch) root s va')"
  show "vm_lookup (isa_pte arch) root s' va = None"
    using l by (simp add: same_path_def split: option.splits)
  show "\<exists>m. s' = s\<lparr>mem := m\<rparr>"
    using vm_stepD(2) [OF st] h by (intro exI [of _ "mem s'"]) simp
  show "\<forall>a. (\<forall>p \<in> vm_tables (isa_pte arch) root s. \<not> in_page p a) \<longrightarrow> mem s' a = mem s a"
    using vm_stepD(6) [OF st] h by simp
qed (blast dest: vm_stepD(1))+

theorem unmap_page_correct_witness:
  "vm_ok (isa_pte X86_64) vm_demo_root vm_demo \<and>
   runs (unmap_page (isa_pte X86_64) vm_demo_root 0x400000) vm_demo
     (\<lambda>_ s'. vm_lookup (isa_pte X86_64) vm_demo_root s' 0x400000 = None)"
  by (rule conjI [OF vm_demo_ok], rule runs_mono [OF unmap_page_correct [OF vm_demo_ok]]) blast

lemma get_page_size_lookup:
  assumes "vm_ok (isa_pte arch) root s"
  shows "get_page_size (isa_pte arch) root va (mem s) = Inr (case vm_lookup (isa_pte arch) root s va of
    None \<Rightarrow> 0 | Some (e, k) \<Rightarrow> page_size_in_bytes (page_level_to_size k))"
  using assms isa.get_page_size_loop_lookup by (simp add: get_page_size_def vm_ok_def)

lemma is_page_mapped_lookup:
  assumes "vm_ok (isa_pte arch) root s"
  shows "is_page_mapped (isa_pte arch) root va (mem s) = Inr (vm_lookup (isa_pte arch) root s va \<noteq> None)"
proof -
  have "\<not> bit (pte_get_phys (isa_pte arch) e OR (va AND MASK PAGE_OFFSET_BITS)) 63" for e
    using isa.get_phys_top [of arch e] by (simp add: bit_simps bit_MASK PAGE_OFFSET_BITS_def)
  moreover have "bit PHYS_ADDR_INVALID 63" by (simp add: PHYS_ADDR_INVALID_def bit_iff_odd_drop_bit)
  ultimately have "PHYS_ADDR_INVALID \<noteq> pte_get_phys (isa_pte arch) e OR (va AND MASK PAGE_OFFSET_BITS)" for e
    by metis
  then show ?thesis
    using isa.translate_page_lookup [OF assms, of va]
    by (auto simp: is_page_mapped_def split: option.splits)
qed

end
