(* ===== verification/Sky_Access.thy ===== *)
theory Sky_Access
  imports Sky_Proc Sky_Vmproof
begin

text \<open>
  What \<open>access_ok\<close>, \<open>copyin\<close> and \<open>copyout\<close> (src/kernel/copyio.c) promise: the check looks at one address
  per page and yet decides about every byte, because all addresses of a page find the same leaf.
\<close>

section \<open>Pages of a page table\<close>

lemma pt_lookup_level: "pt_lookup ops E l t va = Some (e, k) \<Longrightarrow> k \<le> l"
  by (induction l arbitrary: t) (auto simp: Let_def split: if_splits intro: le_SucI)

lemma pt_lookup_same_path:
  "pt_lookup ops E l t va = Some (e, k) \<Longrightarrow> same_path k l va va' \<Longrightarrow> pt_lookup ops E l t va' = Some (e, k)"
proof (induction l arbitrary: t)
  case 0
  then have "k = 0" by (auto simp: Let_def split: if_splits)
  with "0.prems" show ?case by (simp add: same_path_def)
next
  case (Suc l)
  have k: "k \<le> Suc l" by (rule pt_lookup_level [OF Suc.prems(1)])
  then have idx: "get_pt_index va (Suc l) = get_pt_index va' (Suc l)"
    using Suc.prems(2) by (simp add: same_path_def)
  have "same_path k l va va'" using Suc.prems(2) by (simp add: same_path_def)
  then show ?case
    using Suc.prems(1) Suc.IH by (auto simp: Let_def idx split: if_splits)
qed

lemma level_bytes:
  assumes "k \<le> 3"
  shows "page_size_in_bytes (page_level_to_size k) = 2 ^ (12 + 9 * k)"
proof -
  from assms consider "k = 0" | "k = 1" | "k = 2" | "k = 3" by linarith
  then show ?thesis
    by cases (simp_all add: size_consts numeral_2_eq_2 numeral_3_eq_3 del: numeral_eq_Suc)
qed

text \<open>The first address after the page of size \<open>2 ^ n\<close> that contains \<open>c\<close>, as the loop computes it.\<close>

lemma next_page:
  fixes c :: u64
  assumes n: "n \<le> 48" and c: "unat c < 2 ^ 48"
  shows "unat (c + (2 ^ n - c mod 2 ^ n)) = (unat c div 2 ^ n + 1) * 2 ^ n" (is "unat ?next = _")
    and "unat (c + (2 ^ n - c mod 2 ^ n)) \<le> 2 ^ 48"
    and "unat c < unat (c + (2 ^ n - c mod 2 ^ n))"
proof -
  have pn: "unat (2 ^ n :: u64) = 2 ^ n"
    using n by (intro unat_exp_64) simp
  have cm: "unat (c mod 2 ^ n) = unat c mod 2 ^ n" by (simp add: unat_mod pn)
  have lt: "unat c mod 2 ^ n < 2 ^ n" by simp
  have d: "unat (2 ^ n - c mod 2 ^ n) = 2 ^ n - unat c mod 2 ^ n"
    using lt by (subst unat_sub) (simp_all add: word_le_nat_alt pn cm)
  have q: "(unat c div 2 ^ n + 1) * 2 ^ n = unat c + (2 ^ n - unat c mod 2 ^ n)"
    using lt div_mult_mod_eq [of "unat c" "2 ^ n"] unfolding add_mult_distrib mult_1 by linarith
  have "unat c div 2 ^ n < 2 ^ (48 - n)"
    using c n by (simp add: less_mult_imp_div_less flip: power_add)
  then have "(unat c div 2 ^ n + 1) * 2 ^ n \<le> 2 ^ (48 - n) * 2 ^ n"
    by (intro mult_right_mono) simp_all
  also have "\<dots> = 2 ^ 48" using n by (simp flip: power_add)
  finally have le: "(unat c div 2 ^ n + 1) * 2 ^ n \<le> 2 ^ 48" .
  have "unat c + unat (2 ^ n - c mod 2 ^ n) < 2 ^ 64"
    using le unfolding q d by (rule le_less_trans) simp
  then have "unat ?next = unat c + unat (2 ^ n - c mod 2 ^ n)"
    by (intro unat_add_lem [THEN iffD1]) simp
  then show e: "unat ?next = (unat c div 2 ^ n + 1) * 2 ^ n" by (simp only: d q)
  show "unat ?next \<le> 2 ^ 48" using le by (simp only: e)
  show "unat c < unat ?next" unfolding e q using lt by linarith
qed

lemma same_page_path_le:
  fixes c a :: u64
  assumes k: "k \<le> 3" and c: "unat c < 2 ^ 48" and a: "unat c \<le> unat a" "unat a < (unat c div 2 ^ (12 + 9 * k) + 1) * 2 ^ (12 + 9 * k)"
  shows "same_path k 3 c a" and "unat a < 2 ^ 48"
proof -
  define n where "n = 12 + 9 * k"
  have n: "n \<le> 48" using k by (simp add: n_def)
  have "(unat c div 2 ^ n + 1) * 2 ^ n \<le> 2 ^ 48"
    using next_page(1,2) [OF n c] by simp
  then show lt: "unat a < 2 ^ 48" using a(2) unfolding n_def by linarith
  have tb: "take_bit 48 x = x" if "unat x < 2 ^ 48" for x :: u64
    using that by (simp add: word_unat_eq_iff unsigned_take_bit_eq take_bit_nat_eq_self)
  have "unat a div 2 ^ n = unat c div 2 ^ n"
  proof (rule antisym)
    show "unat a div 2 ^ n \<le> unat c div 2 ^ n"
      using a(2) unfolding n_def [symmetric] by (simp add: less_mult_imp_div_less flip: less_Suc_eq_le)
    show "unat c div 2 ^ n \<le> unat a div 2 ^ n" using a(1) by (rule div_le_mono)
  qed
  then have "drop_bit n c = drop_bit n a"
    by (simp only: word_unat_eq_iff unat_drop_bit_eq) (simp add: drop_bit_eq_div)
  then show "same_path k 3 c a"
    using k c lt by (simp add: same_path_page tb n_def)
qed

section \<open>The check\<close>

text \<open>The bytes \<open>access_ok\<close> accepts: below \<open>2 ^ 48\<close> and mapped, whatever the mapping allows.\<close>

definition mapped_byte :: "isa \<Rightarrow> u64 \<Rightarrow> 'z kheap_state_scheme \<Rightarrow> u64 \<Rightarrow> bool" where
  "mapped_byte arch root s a \<longleftrightarrow> is_user_va a \<and> vm_lookup (isa_pte arch) root s a \<noteq> None"

lemma is_user_va_unat: "is_user_va a \<longleftrightarrow> unat a < 2 ^ 48"
  by (simp add: is_user_va_def BIT_def word_less_nat_alt)

lemma access_loop_user:
  assumes ok: "vm_ok (isa_pte arch) (pagetable t) s" and user: "taskmode t = MODE_USER"
  shows "access_loop (isa_pte arch) t limit c (mem s) =
    Some (Inr (\<forall>a. c \<le> a \<and> a < limit \<longrightarrow> mapped_byte arch (pagetable t) s a))"
proof (induction "unat limit - unat c" arbitrary: c rule: less_induct)
  case less
  let ?lk = "vm_lookup (isa_pte arch) (pagetable t) s"
  show ?case
  proof (cases "c < limit")
    case False
    then show ?thesis by (subst access_loop.simps) auto
  next
    case lt: True
    show ?thesis
    proof (cases "mapped_byte arch (pagetable t) s c")
      case False
      then have "access_step (isa_pte arch) t c (mem s) = Inr None"
        using user by (auto simp: access_step_def get_page_size_lookup [OF ok] is_page_mapped_lookup [OF ok] mapped_byte_def)
      then show ?thesis using lt False by (subst access_loop.simps) auto
    next
      case True
      then obtain e k where ek: "?lk c = Some (e, k)" and c48: "unat c < 2 ^ 48"
        by (auto simp: mapped_byte_def is_user_va_unat)
      have k: "k \<le> 3" by (rule pt_lookup_level [OF ek])
      define n where "n = 12 + 9 * k"
      have n: "n \<le> 48" using k by (simp add: n_def)
      define c' where "c' = c + (2 ^ n - c mod 2 ^ n)"
      note np = next_page [OF n c48, folded c'_def]
      have "access_step (isa_pte arch) t c (mem s) = Inr (Some (2 ^ n))"
        using ek True user level_bytes [OF k]
        by (simp add: access_step_def get_page_size_lookup [OF ok] is_page_mapped_lookup [OF ok] mapped_byte_def n_def)
      moreover have "(2 ^ n :: u64) \<noteq> 0" using n by simp
      ultimately have "access_loop (isa_pte arch) t limit c (mem s) = access_loop (isa_pte arch) t limit c' (mem s)"
        using lt by (subst access_loop.simps) (simp add: c'_def)
      moreover have "unat limit - unat c' < unat limit - unat c"
        using lt np(3) by (simp add: word_less_nat_alt)
      moreover have "mapped_byte arch (pagetable t) s a" if "c \<le> a" "a < c'" for a
        using same_page_path_le [OF k c48, of a, folded n_def] that pt_lookup_same_path [OF ek]
        by (simp add: mapped_byte_def is_user_va_unat word_le_nat_alt word_less_nat_alt np(1))
      moreover have "c \<le> c'" using np(3) by (simp add: word_le_nat_alt)
      ultimately show ?thesis
        using less [of c'] by (auto simp: not_less dest: order.trans leI)
    qed
  qed
qed

text \<open>
  A byte that a user task may touch: in the user half of the address space, which ends at \<open>2 ^ 47 - 1\<close> on all
  three ISAs (inc/arch/aarch64/defs.h draws it), and mapped by a leaf that allows user mode. In a page table
  whose lower half holds user mappings only these are the accepted bytes of that half.
\<close>

definition user_byte :: "isa \<Rightarrow> u64 \<Rightarrow> 'z kheap_state_scheme \<Rightarrow> u64 \<Rightarrow> bool" where
  "user_byte arch root s a \<longleftrightarrow> a < BIT 47 \<and> (\<exists>e k. vm_lookup (isa_pte arch) root s a = Some (e, k) \<and> isa_user arch e)"

definition user_half :: "isa \<Rightarrow> u64 \<Rightarrow> 'z kheap_state_scheme \<Rightarrow> bool" where
  "user_half arch root s \<longleftrightarrow> (\<forall>a e k. a < BIT 47 \<and> vm_lookup (isa_pte arch) root s a = Some (e, k) \<longrightarrow> isa_user arch e)"

lemma low_user_va: "a < BIT 47 \<Longrightarrow> is_user_va a"
  by (simp add: is_user_va_unat word_less_nat_alt BIT_def)

lemma user_byte_mapped: "user_byte arch root s a \<Longrightarrow> mapped_byte arch root s a"
  unfolding user_byte_def mapped_byte_def using low_user_va by auto

lemma mapped_user_byte:
  assumes "user_half arch root s" and "a < BIT 47"
  shows "mapped_byte arch root s a \<longleftrightarrow> user_byte arch root s a"
proof
  assume "mapped_byte arch root s a"
  then obtain e k where "vm_lookup (isa_pte arch) root s a = Some (e, k)" unfolding mapped_byte_def by auto
  then show "user_byte arch root s a" unfolding user_byte_def using assms unfolding user_half_def by blast
qed (rule user_byte_mapped)

text \<open>\<open>map_page\<close> for user mode keeps the lower half free of kernel mappings.\<close>

lemma user_half_map_page:
  assumes "map_pre arch root va pa sz MODE_USER s" and half: "user_half arch root s"
  shows "runs (map_page (isa_pte arch) root va pa sz MODE_USER) s (\<lambda>_ s'. user_half arch root s')"
proof (rule runs_mono [OF isa_map_page [OF assms(1)]], elim exE conjE)
  fix s' e assume e: "isa_user arch e = (MODE_USER = MODE_USER)"
    and lk: "\<forall>va'. vm_lookup (isa_pte arch) root s' va' =
      (if same_page sz va va' then Some (e, page_size_to_level sz) else vm_lookup (isa_pte arch) root s va')"
  have "isa_user arch e'" if "a < BIT 47" "vm_lookup (isa_pte arch) root s' a = Some (e', k)" for a e' k
    using that half e lk [rule_format, of a] by (cases "same_page sz va a") (auto simp: user_half_def)
  then show "user_half arch root s'" by (auto simp: user_half_def)
qed

text \<open>Task \<open>i\<close> is a user task of the pool with a well-formed page table.\<close>

definition user_task :: "isa \<Rightarrow> nat \<Rightarrow> 'z task_state_scheme \<Rightarrow> bool" where
  "user_task arch i s \<longleftrightarrow> i < length (task_pool s) \<and> taskmode (task_pool s ! i) = MODE_USER \<and>
     vm_ok (isa_pte arch) (pagetable (task_pool s ! i)) s"

lemma access_ok_run:
  assumes "user_task arch i s"
  shows "access_ok (isa_pte arch) (Some i) va len s =
    Inr (\<forall>a. va \<le> a \<and> a < va + len \<longrightarrow> mapped_byte arch (pagetable (task_pool s ! i)) s a, s)"
  using assms access_loop_user [of arch "task_pool s ! i" s "va + len" va]
  by (simp add: access_ok_def user_task_def kop_defs get_task_run)

lemma run_bytes:
  fixes va len :: u64
  assumes "unat va + unat len < 2 ^ 64"
  shows "va \<le> a \<and> a < va + len \<longleftrightarrow> (\<exists>j < unat len. a = va + of_nat j)"
proof -
  have "unat (va + len) = unat va + unat len" using assms by (intro unat_add_lem [THEN iffD1]) simp
  then have "va \<le> a \<and> a < va + len \<longleftrightarrow> unat va \<le> unat a \<and> unat a < unat va + unat len"
    by (simp add: word_le_nat_alt word_less_nat_alt)
  also have "\<dots> \<longleftrightarrow> (\<exists>j < unat len. unat a = unat va + j)"
    by (metis add_less_cancel_left le_add1 le_iff_add)
  also have "\<dots> \<longleftrightarrow> (\<exists>j < unat len. a = va + of_nat j)"
    using assms by (auto simp: word_unat_eq_iff [of a] unat_add_of_nat)
  finally show ?thesis .
qed

lemma low_bytes:
  fixes va len :: u64
  assumes "unat va + unat len \<le> 2 ^ 47" and "j < unat len"
  shows "va + of_nat j < BIT 47"
  using assms unat_add_of_nat [of va j] by (simp add: word_less_nat_alt BIT_def)

lemma user_range:
  fixes va len :: u64
  assumes "user_half arch root s" and "unat va + unat len \<le> 2 ^ 47"
  shows "(\<forall>j < unat len. mapped_byte arch root s (va + of_nat j)) \<longleftrightarrow> (\<forall>j < unat len. user_byte arch root s (va + of_nat j))"
  using mapped_user_byte [OF assms(1) low_bytes [OF assms(2)]] by blast

section \<open>Properties\<close>

text \<open>C29: For a user task and a range that does not run past the end of the 64-bit address space, \<open>access_ok\<close>
  always returns, changes nothing, and decides exactly whether every one of the \<open>len\<close> bytes from \<open>va\<close> is below
  \<open>2 ^ 48\<close> and mapped by the task's page table, although it looks at one address per page only. It never refuses
  a range of user bytes, and it accepts a range in the user half (below \<open>2 ^ 47\<close>) exactly when each byte of it is
  a user byte, one whose mapping allows user mode, provided that half of the page table holds user mappings
  only.\<close>

theorem access_ok_correct:
  assumes "user_task arch i s" "unat va + unat len < 2 ^ 64"
  shows "\<exists>r. access_ok (isa_pte arch) (Some i) va len s = Inr (r, s) \<and>
    (r \<longleftrightarrow> (\<forall>j < unat len. mapped_byte arch (pagetable (task_pool s ! i)) s (va + of_nat j))) \<and>
    ((\<forall>j < unat len. user_byte arch (pagetable (task_pool s ! i)) s (va + of_nat j)) \<longrightarrow> r) \<and>
    (user_half arch (pagetable (task_pool s ! i)) s \<and> unat va + unat len \<le> 2 ^ 47 \<longrightarrow>
      (r \<longleftrightarrow> (\<forall>j < unat len. user_byte arch (pagetable (task_pool s ! i)) s (va + of_nat j))))"
proof (intro exI conjI impI)
  show "access_ok (isa_pte arch) (Some i) va len s =
      Inr (\<forall>j < unat len. mapped_byte arch (pagetable (task_pool s ! i)) s (va + of_nat j), s)"
    unfolding access_ok_run [OF assms(1)] run_bytes [OF assms(2)] by auto
qed (rule refl, use user_byte_mapped in blast, use user_range in blast)

text \<open>C30: When \<open>va + len\<close> runs past the end of the address space, \<open>access_ok\<close> accepts every range whose
  wrapped end lies at or below its start, without looking at a single page: the check can be passed with
  kernel addresses.\<close>

theorem access_ok_wraps:
  assumes "i < length (task_pool s)" "2 ^ 64 \<le> unat va + unat len"
  shows "access_ok ops (Some i) va len s = Inr (True, s)"
proof -
  have "unat (va + len) = unat va + unat len - 2 ^ 64"
    using assms(2) unat_bound_64 [of va] unat_bound_64 [of len] by (simp add: unat_plus_if')
  then have "\<not> va < va + len" using unat_bound_64 [of len] by (simp add: word_less_nat_alt)
  then show ?thesis
    using assms(1) access_loop.simps [of ops "task_pool s ! i" "va + len" va "mem s"]
    by (simp add: access_ok_def kop_defs get_task_run)
qed

text \<open>C31: \<open>copyout\<close> to a user task, for a range that does not run past the end of the 64-bit address space,
  always returns, and when it refuses it changes nothing. For a destination in the user half (below \<open>2 ^ 47\<close>) of
  a page table that holds user mappings only there, it refuses exactly when some destination byte is not a user
  byte of the task; otherwise every destination byte holds the byte of the kernel buffer afterwards, memory
  outside the destination is unchanged, and so is the rest of the state.\<close>

theorem copyout_correct:
  assumes "user_task arch i s" "unat va + unat len < 2 ^ 64" "copy_ok va buf len"
  shows "runs (copyout (isa_pte arch) (Some i) va buf len) s (\<lambda>r s'.
    (\<not> r \<longrightarrow> s' = s) \<and>
    (user_half arch (pagetable (task_pool s ! i)) s \<and> unat va + unat len \<le> 2 ^ 47 \<longrightarrow>
      r = (\<forall>j < unat len. user_byte arch (pagetable (task_pool s ! i)) s (va + of_nat j)) \<and>
      (\<exists>m. s' = s\<lparr>mem := m\<rparr>) \<and>
      (\<forall>a. mem s' a = (if r \<and> unat (a - va) < unat len then mem s (buf + (a - va)) else mem s a))))"
proof -
  define ok where "ok = (\<forall>j < unat len. mapped_byte arch (pagetable (task_pool s ! i)) s (va + of_nat j))"
  have acc: "access_ok (isa_pte arch) (Some i) va len s = Inr (ok, s)"
    unfolding access_ok_run [OF assms(1)] run_bytes [OF assms(2)] ok_def by auto
  have eq: "copyout (isa_pte arch) (Some i) va buf len s = Inr (ok, if ok then s\<lparr>mem := memcpy va buf len (mem s)\<rparr> else s)"
    by (simp add: copyout_def kop_defs acc)
  have "\<exists>m. s = s\<lparr>mem := m\<rparr>" by (rule exI [of _ "mem s"]) simp
  moreover have "ok = (\<forall>j < unat len. user_byte arch (pagetable (task_pool s ! i)) s (va + of_nat j))"
    if "user_half arch (pagetable (task_pool s ! i)) s \<and> unat va + unat len \<le> 2 ^ 47"
    unfolding ok_def using that by (intro user_range) simp_all
  ultimately show ?thesis
    unfolding runs_def eq by (auto simp: memcpy_apply [OF assms(3)])
qed

section \<open>A user task with one page\<close>

text \<open>Task 1 with an empty page table, then with its page at 0x400000 mapped.\<close>

definition access_demo :: task_state where
  "access_demo = (sched_demo 1)\<lparr>small_kheap := small_kheap vm_demo,
     task_pool := demo_pool[1 := (demo_task 1 THREAD_READY)\<lparr>pagetable := vm_demo_root\<rparr>]\<rparr>"

lemma access_demo_vm: "kheap_state.truncate access_demo = vm_demo"
  by (simp add: access_demo_def sched_demo_def kheap_state.truncate_def vm_demo_def kheap_demo_def)

lemma access_demo_pre: "map_pre arch vm_demo_root 0x400000 0x7000 PAGE_SMALL MODE_USER access_demo"
proof -
  have "map_pre arch vm_demo_root 0x400000 0x7000 PAGE_SMALL MODE_USER (kheap_state.truncate access_demo)"
    unfolding access_demo_vm by (rule map_pre_demo) (rule demo_aligned | simp)+
  then show ?thesis
    by (simp add: map_pre_def vm_ok_def wf_kheap_def heap_of_def kheap_state.truncate_def)
qed

lemma access_demo_mapped:
  "\<exists>s'. map_page (isa_pte arch) vm_demo_root 0x400000 0x7000 PAGE_SMALL MODE_USER access_demo = Inr ((), s') \<and>
     user_task arch 1 s' \<and> user_half arch (pagetable (task_pool s' ! 1)) s' \<and>
     (\<forall>va. user_byte arch (pagetable (task_pool s' ! 1)) s' va \<longleftrightarrow> va < BIT 47 \<and> same_page PAGE_SMALL 0x400000 va)"
proof -
  have lk: "vm_lookup (isa_pte arch) vm_demo_root access_demo va = None" for va
    using vm_demo_lookup [of arch va] unfolding access_demo_vm [symmetric] by (simp add: kheap_state.truncate_def)
  obtain s' e where run: "map_page (isa_pte arch) vm_demo_root 0x400000 0x7000 PAGE_SMALL MODE_USER access_demo = Inr ((), s')"
      and st: "vm_step (isa_pte arch) vm_demo_root access_demo s'" and e: "isa_user arch e"
      and l0: "\<And>va. vm_lookup (isa_pte arch) vm_demo_root s' va = (if same_page PAGE_SMALL 0x400000 va then Some (e, page_size_to_level PAGE_SMALL)
        else vm_lookup (isa_pte arch) vm_demo_root access_demo va)"
    using isa_map_page [OF access_demo_pre, of arch] unfolding runs_def by auto
  note l = l0 [unfolded lk]
  note ok = vm_stepD(1) [OF st] and s' = vm_stepD(2) [OF st]
  have "task_pool s' = task_pool access_demo" using arg_cong [OF s', of task_pool] by simp
  then have "length (task_pool s') = 2048" "task_pool s' ! 1 = (demo_task 1 THREAD_READY)\<lparr>pagetable := vm_demo_root\<rparr>"
    by (simp_all add: access_demo_def)
  with run ok l show ?thesis by (intro exI [of _ s']) (simp add: user_task_def user_byte_def user_half_def e demo_task_def)
qed

lemma access_demo_bytes:
  "0x400000 < BIT 47 \<and> same_page PAGE_SMALL 0x400000 0x400000" "0x400001 < BIT 47 \<and> same_page PAGE_SMALL 0x400000 0x400001"
  "0x400FFF < BIT 47 \<and> same_page PAGE_SMALL 0x400000 0x400FFF" "\<not> same_page PAGE_SMALL 0x400000 0x401000"
  "\<not> is_user_va vm_demo_root"
  by (simp_all add: is_user_va_def BIT_def same_page_def take_bit_eq_mask mask_eq_exp_minus_1)

lemma less_2_all: "(\<forall>j < (2 :: nat). P j) \<longleftrightarrow> P 0 \<and> P 1"
  by (auto simp: less_2_cases_iff)

theorem access_ok_correct_witness:
  "\<exists>s :: task_state. user_task RISCV64 1 s \<and> access_ok (isa_pte RISCV64) (Some 1) 0x400000 2 s = Inr (True, s) \<and>
     access_ok (isa_pte RISCV64) (Some 1) 0x400FFF 2 s = Inr (False, s)"
proof -
  obtain s :: task_state where s: "user_task RISCV64 1 s" and half: "user_half RISCV64 (pagetable (task_pool s ! 1)) s"
    and b: "\<And>va. user_byte RISCV64 (pagetable (task_pool s ! 1)) s va \<longleftrightarrow> va < BIT 47 \<and> same_page PAGE_SMALL 0x400000 va"
    using access_demo_mapped [of RISCV64] by blast
  have "access_ok (isa_pte RISCV64) (Some 1) 0x400000 2 s = Inr (True, s)"
    using access_ok_correct [OF s, of "0x400000" "2"] access_demo_bytes half by (simp add: b [simplified One_nat_def] less_2_all)
  moreover have "access_ok (isa_pte RISCV64) (Some 1) 0x400FFF 2 s = Inr (False, s)"
    using access_ok_correct [OF s, of "0x400FFF" "2"] access_demo_bytes half by (simp add: b [simplified One_nat_def] less_2_all)
  ultimately show ?thesis using s by blast
qed

theorem access_ok_wraps_witness:
  "\<not> is_user_va vm_demo_root \<and> access_ok (isa_pte X86_64) (Some 1) vm_demo_root 0x10000000000 access_demo = Inr (True, access_demo)"
proof -
  have "1 < length (task_pool access_demo)" by (simp add: access_demo_def)
  moreover have "2 ^ 64 \<le> unat vm_demo_root + unat (0x10000000000 :: u64)" by simp
  ultimately show ?thesis using access_ok_wraps access_demo_bytes(5) by blast
qed

theorem copyout_correct_witness:
  "\<exists>s :: task_state. user_task AARCH64 1 s \<and> runs (copyout (isa_pte AARCH64) (Some 1) 0x400000 vm_demo_root 2) s
     (\<lambda>r s'. r \<and> mem s' 0x400001 = mem s (vm_demo_root + 1))"
proof -
  obtain s :: task_state where s: "user_task AARCH64 1 s" and half: "user_half AARCH64 (pagetable (task_pool s ! 1)) s"
    and b: "\<And>va. user_byte AARCH64 (pagetable (task_pool s ! 1)) s va \<longleftrightarrow> va < BIT 47 \<and> same_page PAGE_SMALL 0x400000 va"
    using access_demo_mapped [of AARCH64] by blast
  have "runs (copyout (isa_pte AARCH64) (Some 1) 0x400000 vm_demo_root 2) s
     (\<lambda>r s'. r \<and> mem s' 0x400001 = mem s (vm_demo_root + 1))"
    by (rule runs_mono [OF copyout_correct [OF s, of "0x400000" "2" vm_demo_root]])
      (use access_demo_bytes half in \<open>auto simp: b [simplified One_nat_def] less_2_all copy_ok_def\<close>)
  with s show ?thesis by blast
qed

end
