(* ===== verification/Sky_Kmap.thy ===== *)
theory Sky_Kmap
  imports Sky_Vmproof
begin

text \<open>
  The kernel's own mappings: \<open>map_kernel\<close> and \<open>unmap_kernel\<close> of src/kernel/vm.c and \<open>init_vm\<close>. Each
  of the three linear maps is 512 GB, one entry of the root table, filled with 1 GB leaves.

  A 1 GB page is named by its slot, the bits 30 to 47 of an address; slot \<open>c + i\<close> of the map that
  starts at slot \<open>c\<close> holds the \<open>i\<close>-th gigabyte of physical memory.
\<close>

section \<open>Slots\<close>

definition slot30 :: "u64 \<Rightarrow> nat" where
  "slot30 va = unat va mod 2 ^ 48 div 2 ^ 30"

lemma same_path_slot: "same_path 2 3 va va' \<longleftrightarrow> slot30 va = slot30 va'"
proof -
  have "slot30 x = unat (drop_bit 30 (take_bit 48 x))" for x
    unfolding unat_drop_bit_64 slot30_def unsigned_take_bit_eq by (simp add: take_bit_eq_mod)
  then show ?thesis by (simp add: same_path_page word_unat_eq_iff)
qed

lemma slot30_add:
  assumes "2 ^ 39 dvd unat b" and "x < 2 ^ 39"
  shows "slot30 (b + of_nat x) = slot30 b + x div 2 ^ 30"
proof -
  obtain y where y: "unat b = 2 ^ 39 * y" using assms(1) ..
  have "y < 2 ^ 25" using unat_bound_64 [of b] y by simp
  then have "unat (b + of_nat x) = 2 ^ 39 * y + x"
    using unat_add_of_nat [of b x] y assms(2) by simp
  moreover have "(2 ^ 39 * y + x) mod 2 ^ 48 = 2 ^ 39 * (y mod 512) + x"
  proof -
    have "(2 ^ 39 * y + x) mod 2 ^ 48 = ((2 ^ 39 * y) mod (2 ^ 39 * 512) + x) mod 2 ^ 48"
      by (simp add: mod_simps)
    also have "(2 ^ 39 * y) mod (2 ^ 39 * 512) = 2 ^ 39 * (y mod 512)" by (rule mult_mod_right [symmetric])
    also have "(2 ^ 39 * (y mod 512) + x) mod 2 ^ 48 = 2 ^ 39 * (y mod 512) + x"
    proof (rule mod_less)
      have "y mod 512 < 512" by simp
      then show "2 ^ 39 * (y mod 512) + x < 2 ^ 48" using assms(2) by simp
    qed
    finally show ?thesis .
  qed
  moreover have "unat b mod 2 ^ 48 = 2 ^ 39 * (y mod 512)"
    using mult_mod_right [of "2 ^ 39" y 512] y by simp
  moreover have "(2 ^ 39 * (y mod 512) + x) div 2 ^ 30 = 2 ^ 9 * (y mod 512) + x div 2 ^ 30"
  proof -
    have "2 ^ 39 * (y mod 512) + x = x + 2 ^ 30 * (2 ^ 9 * (y mod 512))" by simp
    then show ?thesis by (simp only: div_mult_self2 [of "2 ^ 30 :: nat"] power_not_zero) simp
  qed
  moreover have "2 ^ 39 * (y mod 512) div 2 ^ 30 = 2 ^ 9 * (y mod 512)" by simp
  ultimately show ?thesis by (simp only: slot30_def)
qed

lemma root_index_slot: "get_pt_index va 3 = slot30 va div 512"
proof -
  have "get_pt_index va 3 = unat (take_bit 9 (drop_bit 39 va))"
    by (simp add: get_pt_index_def PAGE_OFFSET_BITS_def PAGE_BITS_PER_LEVEL_def MASK_eq_mask flip: take_bit_eq_mask)
  also have "\<dots> = take_bit 9 (drop_bit 39 (unat va))"
    unfolding unsigned_take_bit_eq unat_drop_bit_64 by (simp add: drop_bit_eq_div)
  also have "\<dots> = drop_bit 39 (take_bit 48 (unat va))" by (simp add: drop_bit_take_bit)
  also have "\<dots> = slot30 va div 512" by (simp add: slot30_def drop_bit_eq_div take_bit_eq_mod div_mult2_eq [symmetric])
  finally show ?thesis .
qed

lemma reach_2: "pt_reach ops E 3 root va 2 q \<longleftrightarrow> child_of ops 3 (E root (get_pt_index va 3)) = Some q"
proof -
  have "pt_reach ops E 2 c va 2 q \<longleftrightarrow> q = c" for c
    using pt_reach_fun [of ops E 2 c va 2 q c] by auto
  then show ?thesis by (auto simp: numeral_3_eq_3 numeral_2_eq_2 split: option.splits)
qed

text \<open>The three maps and their first slots.\<close>

definition kernel_maps :: "(u64 \<times> nat) list" where
  "kernel_maps = [(KERNEL_LINK_ADDRESS, 0x3FC00), (KERNEL_DEVICE_MAP, 0x37400), (WRITE_COMB_MAP, 0x33000)]"

lemma kernel_maps_slot:
  assumes "(b, c) \<in> set kernel_maps"
  shows "2 ^ 39 dvd unat b" and "slot30 b = c"
  using assms by (auto simp: kernel_maps_def slot30_def KERNEL_LINK_ADDRESS_def KERNEL_DEVICE_MAP_def WRITE_COMB_MAP_def)

section \<open>One gigabyte of one map\<close>

lemma pa_fits_below:
  assumes "IS_ALIGNED_SMALL pa" and "unat pa < 2 ^ 40" and "40 \<le> width"
  shows "pa_fits width pa"
proof -
  have "(2 :: nat) ^ 40 \<le> 2 ^ width" using assms(3) by (rule power_increasing) simp
  then have "unat pa < 2 ^ width" using assms(2) by linarith
  then have "unat (take_bit width pa) = unat pa"
    unfolding unsigned_take_bit_eq by (rule take_bit_nat_eq_self)
  then show ?thesis using assms(1) by (simp add: pa_fits_def word_unat_eq_iff)
qed

lemma giant_offset:
  assumes "j < 512"
  shows "of_nat j * GIANT_PAGE_SIZE = of_nat (j * 2 ^ 30)" and "unat (of_nat j * GIANT_PAGE_SIZE) = j * 2 ^ 30"
    and "IS_ALIGNED_GIANT (of_nat j * GIANT_PAGE_SIZE)" and "pa_fits (isa_width arch) (of_nat j * GIANT_PAGE_SIZE)"
proof -
  show eq: "of_nat j * GIANT_PAGE_SIZE = of_nat (j * 2 ^ 30)" by (simp add: size_consts)
  show u: "unat (of_nat j * GIANT_PAGE_SIZE) = j * 2 ^ 30"
    unfolding eq by (rule unat_of_nat_64) (use assms in simp)
  show "IS_ALIGNED_GIANT (of_nat j * GIANT_PAGE_SIZE)" unfolding aligned_iff_dvd u by simp
  show "pa_fits (isa_width arch) (of_nat j * GIANT_PAGE_SIZE)"
  proof (rule pa_fits_below)
    show "IS_ALIGNED_SMALL (of_nat j * GIANT_PAGE_SIZE)"
      unfolding aligned_iff_dvd u using dvd_mult [of "2 ^ 12" "2 ^ 30 :: nat" j] by simp
    show "unat (of_nat j * GIANT_PAGE_SIZE) < 2 ^ 40" unfolding u using assms by simp
    show "40 \<le> isa_width arch" by (rule isa.width_40)
  qed
qed

lemma giant_va:
  assumes "(b, c) \<in> set kernel_maps" and "j < 512"
  shows "IS_ALIGNED_GIANT (b + of_nat j * GIANT_PAGE_SIZE)" and "slot30 (b + of_nat j * GIANT_PAGE_SIZE) = c + j"
    and "get_pt_index (b + of_nat j * GIANT_PAGE_SIZE) 3 = c div 512"
proof -
  note b = kernel_maps_slot [OF assms(1)]
  have lt: "j * 2 ^ 30 < 2 ^ 39" using assms(2) by simp
  show slot: "slot30 (b + of_nat j * GIANT_PAGE_SIZE) = c + j"
    using slot30_add [OF b(1) lt] b(2) by (simp add: giant_offset(1) [OF assms(2)])
  have "512 dvd c" using assms(1) by (auto simp: kernel_maps_def)
  then show "get_pt_index (b + of_nat j * GIANT_PAGE_SIZE) 3 = c div 512"
    using assms(2) slot by (auto simp: root_index_slot elim!: dvdE)
  have "unat b + j * 2 ^ 30 < 2 ^ 64"
    using assms by (auto simp: kernel_maps_def KERNEL_LINK_ADDRESS_def KERNEL_DEVICE_MAP_def WRITE_COMB_MAP_def)
  then have "unat (b + of_nat j * GIANT_PAGE_SIZE) = unat b + j * 2 ^ 30"
    unfolding giant_offset(1) [OF assms(2)] by (rule unat_add_of_nat)
  moreover have "2 ^ 30 dvd unat b" using dvd_trans [of "2 ^ 30" "2 ^ 39" "unat b"] b(1) by simp
  ultimately show "IS_ALIGNED_GIANT (b + of_nat j * GIANT_PAGE_SIZE)" by (simp add: aligned_iff_dvd)
qed

definition map_there :: "isa \<Rightarrow> u64 \<Rightarrow> nat \<Rightarrow> 'z kheap_state_scheme \<Rightarrow> bool" where
  "map_there arch root c s \<longleftrightarrow> child_of (isa_pte arch) 3 (ent (mem s) root (c div 512)) \<noteq> None"

definition no_super :: "isa \<Rightarrow> u64 \<Rightarrow> 'z kheap_state_scheme \<Rightarrow> bool" where
  "no_super arch root s \<longleftrightarrow> (\<forall>va e k. vm_lookup (isa_pte arch) root s va = Some (e, k) \<longrightarrow> k \<le> 2)"

definition kernel_leaf :: "isa \<Rightarrow> nat \<Rightarrow> u64 \<Rightarrow> bool" where
  "kernel_leaf arch i e \<longleftrightarrow> pte_is_valid (isa_pte arch) e \<and> pte_is_leaf (isa_pte arch) e 2 \<and>
     pte_get_phys (isa_pte arch) e = of_nat i * GIANT_PAGE_SIZE \<and> \<not> isa_user arch e"

text \<open>Mapping gigabyte \<open>j\<close> of the map at slot \<open>c\<close> and setting its cache policy.\<close>

definition giga_post :: "isa \<Rightarrow> u64 \<Rightarrow> nat \<Rightarrow> nat \<Rightarrow> 'z kheap_state_scheme \<Rightarrow> 'z kheap_state_scheme \<Rightarrow> bool" where
  "giga_post arch root c j s s' \<longleftrightarrow> vm_step (isa_pte arch) root s s' \<and> no_super arch root s' \<and>
     map_there arch root c s' \<and> (\<forall>c' \<in> snd ` set kernel_maps. map_there arch root c' s \<longrightarrow> map_there arch root c' s') \<and>
     card (small_free s) - 1 \<le> card (small_free s') \<and>
     (\<exists>e. kernel_leaf arch j e \<and> (\<forall>va. vm_lookup (isa_pte arch) root s' va =
        (if slot30 va = c + j then Some (e, 2) else vm_lookup (isa_pte arch) root s va)))"

lemma map_there_reach:
  assumes "(b, c) \<in> set kernel_maps"
  shows "map_there arch root c s \<longleftrightarrow> (\<exists>q. vm_reach (isa_pte arch) root s b 2 q)"
  using giant_va(3) [OF assms, of 0] by (simp add: reach_2 map_there_def)

definition map_giga :: "isa \<Rightarrow> u64 \<Rightarrow> u64 \<Rightarrow> nat \<Rightarrow> cache_policy \<Rightarrow> ('z kheap_state_scheme, unit) kop" where
  "map_giga arch root b j pol = (let off = of_nat j * GIANT_PAGE_SIZE in
     kseq (map_page (isa_pte arch) root (b + off) off PAGE_GIANT MODE_KERN)
     (page_set_cache_policy (isa_pte arch) root (b + off) pol))"

lemma map_kernel_giga:
  "map_kernel (isa_pte arch) root = kfor [0..<512] (\<lambda>i.
     kseq (map_giga arch root KERNEL_LINK_ADDRESS i CACHE_WRITEBACK)
     (kseq (map_giga arch root KERNEL_DEVICE_MAP i CACHE_DISABLE)
     (map_giga arch root WRITE_COMB_MAP i CACHE_WRITECOMB)))"
  by (simp add: map_kernel_def map_giga_def Let_def kseq_assoc NUM_PT_ENTRIES_eq)

lemma giga_step:
  assumes ok: "vm_ok (isa_pte arch) root s" "no_super arch root s"
    and b: "(b, c) \<in> set kernel_maps" and j: "j < 512"
    and free: "map_there arch root c s \<or> 1 \<le> card (small_free s)"
  shows "runs (map_giga arch root b j pol) s (\<lambda>_. giga_post arch root c j s)"
proof -
  let ?ops = "isa_pte arch"
  define va where "va = b + of_nat j * GIANT_PAGE_SIZE"
  note g = giant_va [OF b j, folded va_def]
  have there: "(\<exists>q. vm_reach ?ops root t va 2 q) \<longleftrightarrow> map_there arch root c t" for t :: "'a kheap_state_scheme"
    by (simp add: reach_2 g(3) map_there_def)
  have "runs (map_page ?ops root va (of_nat j * GIANT_PAGE_SIZE) PAGE_GIANT MODE_KERN) s (\<lambda>_ s'. \<exists>e.
      pte_is_valid ?ops e \<and> pte_is_leaf ?ops e 2 \<and> pte_get_phys ?ops e = of_nat j * GIANT_PAGE_SIZE \<and>
      isa_user arch e = (MODE_KERN = MODE_USER) \<and> map_post ?ops root va 2 e s s')"
    by (rule isa.map_page_runs [where sz = PAGE_GIANT, simplified])
      (use ok free g(1) giant_offset [OF j] there [of s] in \<open>auto simp: no_super_def\<close>)
  then obtain e s1 where run: "map_page ?ops root va (of_nat j * GIANT_PAGE_SIZE) PAGE_GIANT MODE_KERN s = Inr ((), s1)"
    and e: "kernel_leaf arch j e" and post: "map_post ?ops root va 2 e s s1"
    by (auto simp: runs_def kernel_leaf_def)
  note post = post [unfolded map_post_def]
  have l1: "vm_lookup ?ops root s1 va' = (if slot30 va' = c + j then Some (e, 2) else vm_lookup ?ops root s va')" for va'
    using post same_path_slot [of va va'] g(2) by auto
  have ok1: "vm_ok ?ops root s1" using post vm_stepD(1) by blast
  have "runs (page_set_cache_policy ?ops root va pol) s1 (\<lambda>_ s2. giga_post arch root c j s s2)"
  proof (rule runs_mono [OF isa.page_set_cache_policy_runs [OF ok1]])
    fix u s2
    assume A: "vm_step ?ops root s1 s2 \<and> small_kheap s2 = small_kheap s1 \<and>
      (\<forall>va' k' q'. vm_reach ?ops root s1 va' k' q' \<and>
        (\<forall>e k. vm_lookup ?ops root s1 va = Some (e, k) \<longrightarrow> k \<le> k') \<longrightarrow> vm_reach ?ops root s2 va' k' q') \<and>
      (\<forall>va'. vm_lookup ?ops root s2 va' = (case vm_lookup ?ops root s1 va of
         None \<Rightarrow> vm_lookup ?ops root s1 va'
       | Some (e, k) \<Rightarrow> if same_path k 3 va va' then Some (pte_set_cache_policy ?ops e pol, k)
           else vm_lookup ?ops root s1 va'))"
    let ?e = "pte_set_cache_policy ?ops e pol"
    have lva: "vm_lookup ?ops root s1 va = Some (e, 2)" using l1 g(2) by simp
    have l2: "vm_lookup ?ops root s2 va' = (if slot30 va' = c + j then Some (?e, 2) else vm_lookup ?ops root s va')" for va'
      using A lva l1 [of va'] same_path_slot [of va va'] g(2) by auto
    have r12: "vm_reach ?ops root s2 va' 2 q" if "vm_reach ?ops root s1 va' 2 q" for va' q
      using A that lva by simp
    have keep: "map_there arch root c' s2" if "(b', c') \<in> set kernel_maps" "map_there arch root c' s" for b' c'
      using that(2) post r12 unfolding map_there_reach [OF that(1)] by blast
    have "map_there arch root c s2" using post r12 there [of s2] by blast
    moreover have "kernel_leaf arch j ?e"
      using e by (simp add: kernel_leaf_def isa.set_cache_valid isa.set_cache_leaf isa.set_cache_phys isa.set_cache_user)
    moreover have "no_super arch root s2" using ok(2) by (simp add: no_super_def l2)
    moreover have "vm_step ?ops root s s2" using post A vm_step_trans by blast
    moreover have "card (small_free s) - 1 \<le> card (small_free s2)" using post A by simp
    ultimately show "giga_post arch root c j s s2" using keep l2 unfolding giga_post_def by fastforce
  qed
  then show ?thesis using run by (simp add: map_giga_def runs_def kop_simps flip: va_def)
qed

section \<open>The loop of \<open>map_kernel\<close>\<close>

definition kmap_inv :: "isa \<Rightarrow> u64 \<Rightarrow> 'z kheap_state_scheme \<Rightarrow> nat \<Rightarrow> 'z kheap_state_scheme \<Rightarrow> bool" where
  "kmap_inv arch root s0 i s \<longleftrightarrow> vm_step (isa_pte arch) root s0 s \<and> no_super arch root s \<and>
     ((\<forall>c \<in> snd ` set kernel_maps. map_there arch root c s) \<or> 3 \<le> card (small_free s)) \<and>
     (\<forall>va. (\<forall>c \<in> snd ` set kernel_maps. c \<le> slot30 va \<and> slot30 va < c + i \<longrightarrow>
          (\<exists>e. kernel_leaf arch (slot30 va - c) e \<and> vm_lookup (isa_pte arch) root s va = Some (e, 2))) \<and>
        ((\<forall>c \<in> snd ` set kernel_maps. \<not> (c \<le> slot30 va \<and> slot30 va < c + i)) \<longrightarrow>
          vm_lookup (isa_pte arch) root s va = vm_lookup (isa_pte arch) root s0 va))"

lemma kernel_maps_slots: "snd ` set kernel_maps = {0x3FC00, 0x37400, 0x33000}"
  by (simp add: kernel_maps_def)

lemma giga_posts:
  assumes inv: "kmap_inv arch root s0 i s" and i: "i < 512"
    and "giga_post arch root 0x3FC00 i s s1" "giga_post arch root 0x37400 i s1 s2" "giga_post arch root 0x33000 i s2 s3"
  shows "kmap_inv arch root s0 (Suc i) s3"
proof -
  let ?L = "vm_lookup (isa_pte arch) root"
  obtain e1 where e1: "kernel_leaf arch i e1" "\<And>va. ?L s1 va = (if slot30 va = 0x3FC00 + i then Some (e1, 2) else ?L s va)"
    using assms(3) unfolding giga_post_def by blast
  obtain e2 where e2: "kernel_leaf arch i e2" "\<And>va. ?L s2 va = (if slot30 va = 0x37400 + i then Some (e2, 2) else ?L s1 va)"
    using assms(4) unfolding giga_post_def by blast
  obtain e3 where e3: "kernel_leaf arch i e3" "\<And>va. ?L s3 va = (if slot30 va = 0x33000 + i then Some (e3, 2) else ?L s2 va)"
    using assms(5) unfolding giga_post_def by blast
  have "vm_step (isa_pte arch) root s0 s" "vm_step (isa_pte arch) root s s1"
    "vm_step (isa_pte arch) root s1 s2" "vm_step (isa_pte arch) root s2 s3"
    using inv assms(3-5) by (simp_all add: kmap_inv_def giga_post_def)
  then have steps: "vm_step (isa_pte arch) root s0 s3" using vm_step_trans by blast
  have there: "\<forall>c \<in> snd ` set kernel_maps. map_there arch root c s3"
    using assms(3-5) unfolding giga_post_def kernel_maps_slots by blast
  have sup: "no_super arch root s3" using assms(5) by (simp add: giga_post_def)
  have new: "\<exists>e. kernel_leaf arch (slot30 va - c) e \<and> ?L s3 va = Some (e, 2)"
    if c: "c \<in> snd ` set kernel_maps" and sl: "c \<le> slot30 va" "slot30 va < c + Suc i" for va c
  proof (cases "slot30 va = c + i")
    case True
    then show ?thesis using c e1 e2 e3 i unfolding kernel_maps_slots by auto
  next
    case False
    then have old: "slot30 va < c + i" using sl by simp
    then have "?L s3 va = ?L s va" using c sl i e1(2) e2(2) e3(2) unfolding kernel_maps_slots by auto
    then show ?thesis using inv c sl(1) old unfolding kmap_inv_def by auto
  qed
  have keep: "?L s3 va = ?L s0 va"
    if out: "\<forall>c \<in> snd ` set kernel_maps. \<not> (c \<le> slot30 va \<and> slot30 va < c + Suc i)" for va
  proof -
    have ne: "slot30 va \<noteq> c + i" "\<not> (c \<le> slot30 va \<and> slot30 va < c + i)" if "c \<in> snd ` set kernel_maps" for c
      using that out by auto
    then have "?L s3 va = ?L s va" using e1(2) e2(2) e3(2) unfolding kernel_maps_slots by simp
    then show ?thesis using inv ne(2) unfolding kmap_inv_def by auto
  qed
  show ?thesis
    unfolding kmap_inv_def by (intro conjI disjI1 allI ballI impI steps sup new keep; (elim conjE)?) (use there in blast)+
qed

lemma kernel_maps_mem:
  "(KERNEL_LINK_ADDRESS, 0x3FC00) \<in> set kernel_maps" "(KERNEL_DEVICE_MAP, 0x37400) \<in> set kernel_maps"
  "(WRITE_COMB_MAP, 0x33000) \<in> set kernel_maps"
  by (simp_all add: kernel_maps_def)

lemma giga_postD:
  assumes "giga_post arch root c j s s'"
  shows "vm_ok (isa_pte arch) root s'" "no_super arch root s'"
    "c' \<in> {0x3FC00, 0x37400, 0x33000} \<Longrightarrow> map_there arch root c' s \<Longrightarrow> map_there arch root c' s'"
    "card (small_free s) - 1 \<le> card (small_free s')"
  using assms unfolding giga_post_def kernel_maps_slots by (auto dest: vm_stepD(1))

lemma kmap_body:
  assumes inv: "kmap_inv arch root s i t" and i: "i < 512"
  shows "runs (kseq (map_giga arch root KERNEL_LINK_ADDRESS i CACHE_WRITEBACK)
     (kseq (map_giga arch root KERNEL_DEVICE_MAP i CACHE_DISABLE)
     (map_giga arch root WRITE_COMB_MAP i CACHE_WRITECOMB))) t (\<lambda>_. kmap_inv arch root s (Suc i))"
proof (rule runs_seqI [OF giga_step [OF _ _ kernel_maps_mem(1) i]])
  let ?free = "\<lambda>n t. (\<forall>c \<in> {0x3FC00, 0x37400, 0x33000}. map_there arch root c t) \<or> n \<le> card (small_free t)"
  have free: "?free 3 t" using inv unfolding kmap_inv_def kernel_maps_slots by blast
  show "vm_ok (isa_pte arch) root t" "no_super arch root t"
    using inv by (auto simp: kmap_inv_def dest: vm_stepD(1))
  show "map_there arch root 0x3FC00 t \<or> 1 \<le> card (small_free t)" using free by auto
  fix u t1 assume p1: "giga_post arch root 0x3FC00 i t t1"
  have free1: "?free 2 t1" using free giga_postD(3,4) [OF p1] by fastforce
  show "runs (kseq (map_giga arch root KERNEL_DEVICE_MAP i CACHE_DISABLE)
     (map_giga arch root WRITE_COMB_MAP i CACHE_WRITECOMB)) t1 (\<lambda>_. kmap_inv arch root s (Suc i))"
  proof (rule runs_seqI [OF giga_step [OF giga_postD(1,2) [OF p1] kernel_maps_mem(2) i]])
    show "map_there arch root 0x37400 t1 \<or> 1 \<le> card (small_free t1)" using free1 by auto
    fix u t2 assume p2: "giga_post arch root 0x37400 i t1 t2"
    have free2: "?free 1 t2" using free1 giga_postD(3,4) [OF p2] by fastforce
    show "runs (map_giga arch root WRITE_COMB_MAP i CACHE_WRITECOMB) t2 (\<lambda>_. kmap_inv arch root s (Suc i))"
    proof (rule runs_mono [OF giga_step [OF giga_postD(1,2) [OF p2] kernel_maps_mem(3) i]])
      show "map_there arch root 0x33000 t2 \<or> 1 \<le> card (small_free t2)" using free2 by auto
    qed (rule giga_posts [OF inv i p1 p2])
  qed
qed

lemma map_kernel_runs:
  assumes ok: "vm_ok (isa_pte arch) root s" "no_super arch root s" and free: "3 \<le> card (small_free s)"
  shows "runs (map_kernel (isa_pte arch) root) s (\<lambda>_. kmap_inv arch root s 512)"
  unfolding map_kernel_giga
proof (rule runs_kfor_upt)
  show "kmap_inv arch root s 0 s" using ok free by (auto simp: kmap_inv_def vm_step_refl)
qed (rule kmap_body)

section \<open>Properties\<close>

lemma kmap_invD:
  assumes "kmap_inv arch root s i s'" and "c \<in> snd ` set kernel_maps" and "c \<le> slot30 va" and "slot30 va < c + i"
  shows "\<exists>e. kernel_leaf arch (slot30 va - c) e \<and> vm_lookup (isa_pte arch) root s' va = Some (e, 2)"
  using assms unfolding kmap_inv_def by blast

lemma kmap_inv_done:
  assumes "kmap_inv arch root s 512 s'"
  shows "vm_ok (isa_pte arch) root s'"
    and "b \<in> {KERNEL_LINK_ADDRESS, KERNEL_DEVICE_MAP, WRITE_COMB_MAP} \<Longrightarrow> x < 2 ^ 39 \<Longrightarrow>
      \<exists>e. vm_lookup (isa_pte arch) root s' (b + of_nat x) = Some (e, 2) \<and> kernel_leaf arch (x div 2 ^ 30) e"
    and "va < BIT 47 \<Longrightarrow> vm_lookup (isa_pte arch) root s' va = vm_lookup (isa_pte arch) root s va"
proof -
  show "vm_ok (isa_pte arch) root s'" using assms by (auto simp: kmap_inv_def dest: vm_stepD(1))
  show "\<exists>e. vm_lookup (isa_pte arch) root s' (b + of_nat x) = Some (e, 2) \<and> kernel_leaf arch (x div 2 ^ 30) e"
    if b: "b \<in> {KERNEL_LINK_ADDRESS, KERNEL_DEVICE_MAP, WRITE_COMB_MAP}" and x: "x < 2 ^ 39"
  proof -
    obtain c where c: "(b, c) \<in> set kernel_maps" using b kernel_maps_mem by blast
    have slot: "slot30 (b + of_nat x) = c + x div 2 ^ 30"
      using slot30_add [OF kernel_maps_slot(1) [OF c] x] kernel_maps_slot(2) [OF c] by simp
    have "x div 2 ^ 30 < 512" using x by (simp add: less_mult_imp_div_less)
    moreover have "c \<in> snd ` set kernel_maps" using c by force
    ultimately show ?thesis using kmap_invD [OF assms, of c "b + of_nat x"] slot by auto
  qed
  show "vm_lookup (isa_pte arch) root s' va = vm_lookup (isa_pte arch) root s va" if "va < BIT 47"
  proof -
    have "unat va < 2 ^ 47" using that by (simp add: word_less_nat_alt BIT_def)
    then have "slot30 va < 0x20000" by (simp add: slot30_def less_mult_imp_div_less)
    then show ?thesis using assms unfolding kmap_inv_def kernel_maps_slots by auto
  qed
qed

text \<open>C6: \<open>map_kernel\<close> builds the three linear maps: from a well-formed page table without 512 GB leaves
  and with three free pages it returns, every address of the first 512 GB of each map finds a 1 GB
  leaf at the matching physical address that user mode cannot access, and the lower half of the
  address space, where user programs live, is mapped as before.\<close>

theorem map_kernel_correct:
  assumes "vm_ok (isa_pte arch) root s" and "no_super arch root s" and "3 \<le> card (small_free s)"
  shows "runs (map_kernel (isa_pte arch) root) s (\<lambda>_ s'. vm_ok (isa_pte arch) root s' \<and>
    (\<forall>b x. b \<in> {KERNEL_LINK_ADDRESS, KERNEL_DEVICE_MAP, WRITE_COMB_MAP} \<and> x < 2 ^ 39 \<longrightarrow>
      (\<exists>e. vm_lookup (isa_pte arch) root s' (b + of_nat x) = Some (e, 2) \<and>
        pte_get_phys (isa_pte arch) e = of_nat (x div 2 ^ 30) * GIANT_PAGE_SIZE \<and> \<not> isa_user arch e)) \<and>
    (\<forall>va < BIT 47. vm_lookup (isa_pte arch) root s' va = vm_lookup (isa_pte arch) root s va))"
proof (rule runs_mono [OF map_kernel_runs [OF assms]], intro conjI allI impI)
  fix u s' b and x :: nat assume inv: "kmap_inv arch root s 512 s'"
    and "b \<in> {KERNEL_LINK_ADDRESS, KERNEL_DEVICE_MAP, WRITE_COMB_MAP} \<and> x < 2 ^ 39"
  then show "\<exists>e. vm_lookup (isa_pte arch) root s' (b + of_nat x) = Some (e, 2) \<and>
      pte_get_phys (isa_pte arch) e = of_nat (x div 2 ^ 30) * GIANT_PAGE_SIZE \<and> \<not> isa_user arch e"
    using kmap_inv_done(2) [OF inv, of b x] by (auto simp: kernel_leaf_def)
qed (use kmap_inv_done in blast)+

theorem map_kernel_correct_witness:
  "runs (map_kernel (isa_pte RISCV64) vm_demo_root) vm_demo (\<lambda>_ s'. \<exists>e.
    vm_lookup (isa_pte RISCV64) vm_demo_root s' (KERNEL_LINK_ADDRESS + of_nat 0x80000000) = Some (e, 2) \<and>
    pte_get_phys (isa_pte RISCV64) e = of_nat 2 * GIANT_PAGE_SIZE)"
proof -
  have "no_super RISCV64 vm_demo_root vm_demo" by (simp add: no_super_def vm_demo_lookup)
  moreover have "3 \<le> card (small_free vm_demo)" by (simp add: vm_demo_free)
  ultimately show ?thesis
    by (rule runs_mono [OF map_kernel_correct [OF vm_demo_ok]])
      (elim conjE, erule allE [where x = KERNEL_LINK_ADDRESS], erule allE [where x = "0x80000000"], auto)
qed


section \<open>What the MMU finds\<close>














section \<open>\<open>init_vm\<close>\<close>




end
