(* ===== verification/Sky_Alias.thy ===== *)
theory Sky_Alias
  imports Sky_Access Sky_Kmap
begin

text \<open>
  The access check and the kernel's mappings together (src/kernel/copyio.c, src/kernel/vm.c). The check takes an address below \<open>2 ^ 48\<close> for
  a user address, and the walk through the page table looks at 48 bits: the upper half of those addresses leads to the kernel's
  entries, which are in the page table of every task.
\<close>

section \<open>The user half of a new page table\<close>

text \<open>The page table of a new task has no kernel mapping in its lower half: \<open>alloc_pagetable\<close> maps nothing and \<open>map_kernel\<close> keeps the half.\<close>

lemma user_half_empty: "(\<And>va. vm_lookup (isa_pte arch) root s va = None) \<Longrightarrow> user_half arch root s"
  by (simp add: user_half_def)

lemma user_half_map_kernel:
  assumes "vm_ok (isa_pte arch) root s" and "no_super arch root s" and "3 \<le> card (small_free s)" and "user_half arch root s"
  shows "runs (map_kernel (isa_pte arch) root) s (\<lambda>_ s'. user_half arch root s')"
proof (rule runs_mono [OF map_kernel_runs [OF assms(1-3)]])
  fix s' assume "kmap_inv arch root s 512 s'"
  then show "user_half arch root s'" using assms(4) kmap_inv_done(3) by (fastforce simp: user_half_def)
qed

section \<open>Aliases\<close>

text \<open>The address with the upper 16 bits cleared, for the start of one of the three maps.\<close>

lemma alias_base:
  assumes "b \<in> {KERNEL_LINK_ADDRESS, KERNEL_DEVICE_MAP, WRITE_COMB_MAP}"
  shows "2 ^ 39 dvd unat b" "2 ^ 39 dvd unat (take_bit 48 b)" "slot30 (take_bit 48 b) = slot30 b" "unat (take_bit 48 b) + 2 ^ 39 < 2 ^ 48"
  using assms by (auto simp: KERNEL_LINK_ADDRESS_def KERNEL_DEVICE_MAP_def WRITE_COMB_MAP_def slot30_def take_bit_eq_mod unat_mod)

lemma alias_leaf:
  assumes inv: "kmap_inv arch root s 512 s'" and b: "b \<in> {KERNEL_LINK_ADDRESS, KERNEL_DEVICE_MAP, WRITE_COMB_MAP}" and y: "y < 2 ^ 39"
  shows "is_user_va (take_bit 48 b + of_nat y) \<and>
    (\<exists>e. vm_lookup (isa_pte arch) root s' (take_bit 48 b + of_nat y) = Some (e, 2) \<and> \<not> isa_user arch e)"
proof
  note base = alias_base [OF b]
  have "unat (take_bit 48 b + of_nat y) = unat (take_bit 48 b) + y" by (rule unat_add_of_nat) (use base(4) y in simp)
  then show "is_user_va (take_bit 48 b + of_nat y)" using base(4) y by (simp add: is_user_va_def BIT_def word_less_nat_alt)
  obtain e where e: "vm_lookup (isa_pte arch) root s' (b + of_nat y) = Some (e, 2)" "kernel_leaf arch (y div 2 ^ 30) e"
    using kmap_inv_done(2) [OF inv b y] by blast
  have "same_path 2 3 (b + of_nat y) (take_bit 48 b + of_nat y)"
    unfolding same_path_slot using slot30_add [OF base(1) y] slot30_add [OF base(2) y] base(3) by simp
  with e show "\<exists>e. vm_lookup (isa_pte arch) root s' (take_bit 48 b + of_nat y) = Some (e, 2) \<and> \<not> isa_user arch e"
    using same_leaf [OF kmap_inv_done(1) [OF inv] e(1)] by (auto simp: kernel_leaf_def)
qed

text \<open>The access check of a user task accepts the kernel's mappings under their aliases: once \<open>map_kernel\<close> has run on the page table of the
  task, as it does for every task, \<open>access_ok\<close> returns true for every range inside one of the three maps with the upper 16
  address bits cleared, although no byte of it can be accessed by user mode.\<close>

theorem access_ok_kernel_alias:
  fixes s :: "'z task_state_scheme"
  assumes "user_task arch i s" and "no_super arch (pagetable (task_pool s ! i)) s" and "3 \<le> card (small_free s)"
    and "b \<in> {KERNEL_LINK_ADDRESS, KERNEL_DEVICE_MAP, WRITE_COMB_MAP}" and "x + unat len \<le> 2 ^ 39"
  shows "runs (kseq (map_kernel (isa_pte arch) (pagetable (task_pool s ! i)))
      (access_ok (isa_pte arch) (Some i) (take_bit 48 b + of_nat x) len)) s
    (\<lambda>r s'. r \<and> (\<forall>j < unat len. \<exists>e.
       vm_lookup (isa_pte arch) (pagetable (task_pool s ! i)) s' (take_bit 48 b + of_nat (x + j)) = Some (e, 2) \<and> \<not> isa_user arch e))"
proof -
  let ?ops = "isa_pte arch" and ?root = "pagetable (task_pool s ! i)" and ?va = "take_bit 48 b + of_nat x :: u64"
  have ok: "vm_ok ?ops ?root s" using assms(1) by (simp add: user_task_def)
  have "runs (map_kernel ?ops ?root) s (\<lambda>_ t. runs (access_ok ?ops (Some i) ?va len) t (\<lambda>r s'. r \<and> (\<forall>j < unat len. \<exists>e.
       vm_lookup ?ops ?root s' (take_bit 48 b + of_nat (x + j)) = Some (e, 2) \<and> \<not> isa_user arch e)))"
  proof (rule runs_mono [OF map_kernel_runs [OF ok assms(2,3)]])
    fix t assume inv: "kmap_inv arch ?root s 512 t"
    then have "vm_step ?ops ?root s t" by (simp add: kmap_inv_def)
    then have pool: "task_pool t = task_pool s" using arg_cong [OF vm_stepD(2), of ?ops ?root s t task_pool] by simp
    have user: "user_task arch i t" using assms(1) kmap_inv_done(1) [OF inv] by (simp add: user_task_def pool)
    have leaf: "is_user_va (take_bit 48 b + of_nat (x + j)) \<and> (\<exists>e. vm_lookup ?ops ?root t (take_bit 48 b + of_nat (x + j)) = Some (e, 2) \<and> \<not> isa_user arch e)"
      if "j < unat len" for j by (rule alias_leaf [OF inv assms(4)]) (use that assms(5) in simp)
    have "unat ?va = unat (take_bit 48 b) + x" by (rule unat_add_of_nat) (use alias_base(4) [OF assms(4)] assms(5) in simp)
    then have "unat ?va + unat len < 2 ^ 64" using alias_base(4) [OF assms(4)] assms(5) by simp
    note bytes = run_bytes [OF this]
    have "access_ok ?ops (Some i) ?va len t = Inr (True, t)"
      unfolding access_ok_run [OF user] bytes using leaf by (fastforce simp: mapped_byte_def pool add.assoc)
    then show "runs (access_ok ?ops (Some i) ?va len) t (\<lambda>r s'. r \<and> (\<forall>j < unat len. \<exists>e.
       vm_lookup ?ops ?root s' (take_bit 48 b + of_nat (x + j)) = Some (e, 2) \<and> \<not> isa_user arch e))"
      unfolding runs_def using leaf by blast
  qed
  then show ?thesis by simp
qed

text \<open>Address \<open>0xFF0080000000\<close>, the alias of the kernel's third gigabyte, passes the check.\<close>

theorem access_ok_kernel_alias_witness:
  "is_user_va 0xFF0080000000 \<and> runs (kseq (map_kernel (isa_pte X86_64) vm_demo_root) (access_ok (isa_pte X86_64) (Some 1) 0xFF0080000000 0x1000)) access_demo
     (\<lambda>r _. r)"
proof
  show "is_user_va 0xFF0080000000" by (simp add: is_user_va_def BIT_def)
  have x: "length (task_pool access_demo) = 2048" "task_pool access_demo ! 1 = (demo_task 1 THREAD_READY)\<lparr>pagetable := vm_demo_root\<rparr>"
    by (simp_all add: access_demo_def)
  have root: "pagetable (task_pool access_demo ! 1) = vm_demo_root" unfolding x by simp
  have lk: "vm_lookup (isa_pte X86_64) vm_demo_root access_demo va = None" for va
    using vm_demo_lookup [of X86_64 va] unfolding access_demo_vm [symmetric] by (simp add: kheap_state.truncate_def)
  have "user_task X86_64 1 access_demo"
    unfolding user_task_def root using map_pre_ok [OF access_demo_pre] x by (simp add: demo_task_def)
  moreover have "no_super X86_64 vm_demo_root access_demo" by (simp add: no_super_def lk)
  moreover have "3 \<le> card (small_free access_demo)" using vm_demo_free by (simp add: access_demo_def)
  ultimately have "runs (kseq (map_kernel (isa_pte X86_64) vm_demo_root) (access_ok (isa_pte X86_64) (Some 1) (take_bit 48 KERNEL_LINK_ADDRESS + of_nat 0x80000000) 0x1000))
      access_demo (\<lambda>r _. r)"
    by (intro runs_mono [OF access_ok_kernel_alias [where i = 1 and s = access_demo and arch = X86_64 and x = "0x80000000" and b = KERNEL_LINK_ADDRESS, unfolded root]])
      simp_all
  moreover have "take_bit 48 KERNEL_LINK_ADDRESS + of_nat 0x80000000 = (0xFF0080000000 :: u64)" by (simp add: KERNEL_LINK_ADDRESS_def take_bit_eq_mod)
  ultimately show "runs (kseq (map_kernel (isa_pte X86_64) vm_demo_root) (access_ok (isa_pte X86_64) (Some 1) 0xFF0080000000 0x1000)) access_demo
     (\<lambda>r _. r)" by (simp only:)
qed

end
