(* ===== verification/Sky_Syscall.thy ===== *)
theory Sky_Syscall
  imports Sky_Proc
begin

text \<open>
  The start of the scheduler (\<open>init_scheduler\<close> of src/kernel/scheduler.c), the system calls
  (src/kernel/syscall.c), exceptions (src/kernel/exception.c), interrupts (src/kernel/interrupt.c) and the
  trap handlers of the three ISAs (src/arch/*/trap.c). The interrupt controller and the one-shot timer of
  the ISA are used through their operations, as arguments.
\<close>

section \<open>src/kernel/scheduler.c\<close>

definition INIT_TASK_NAME :: string where "INIT_TASK_NAME = ''shell''"

text \<open>One round of the loop of \<open>thread_root\<close>; \<open>args\<close> is the array on its stack, with the name and NULL.\<close>

definition thread_root_round ::
  "'z disp_state_scheme kenv \<Rightarrow> elf_frame \<Rightarrow> u64 \<Rightarrow> ('z disp_state_scheme, unit) kop" where
  "thread_root_round env fr args =
     kbind current_task (\<lambda>t.
     kbind (get_task t) (\<lambda>x.
     kbind (case fds x ! FD_STDIN of None \<Rightarrow> kfault ''file: NULL'' | Some f \<Rightarrow> get_file f) (\<lambda>file.
     kseq (display_reset_tty (f_tty file))
     (kseq (task_spawn_user env fr (lit INIT_TASK_NAME) SPAWN_WAIT args)
     (kreturn ())))))"

definition display_path :: "nat \<Rightarrow> string" where
  "display_path i = DISPLAY_DEVICE_PREFIX @ [char_of (i + 48)]"

text \<open>The part of \<open>init_scheduler\<close> that creates the first tasks; it returns the root task.\<close>

definition init_task_list :: "'z task_state_scheme kenv \<Rightarrow> ('z task_state_scheme, nat option) kop" where
  "init_task_list env =
     (let arch = k_arch env in
      kbind current_thread (\<lambda>c.
      kseq (kassert (c = None) ''assert'')
      (kseq (upd_links (\<lambda>k. Inr (list_init ListHead k)))
      (kbind (task_spawn_kernel arch (lit ''root'') (lit ''/dev/serial'') (k_thread_root env)) (\<lambda>root_task.
      kbind (task_spawn_kernel arch (lit ''idle'') (lit ''/dev/null'') (k_thread_idle env)) (\<lambda>idle.
      kseq (kmodify (\<lambda>s. s\<lparr>idle_task := idle\<rparr>))
      (kbind is_display_active (\<lambda>active.
      kseq
        (kwhen active
          (kbind (task_spawn_kernel arch (lit ''renderer'') (lit ''/dev/null'') (k_thread_display_update env)) (\<lambda>_.
           kfor [0..<NUM_DISPLAYS] (\<lambda>i.
             kbind (task_spawn_kernel arch (lit ''display_root'') (lit (display_path i)) (k_thread_root env)) (\<lambda>_.
             kreturn ())))))
      (kreturn root_task)))))))))"

definition init_scheduler :: "'z task_state_scheme kenv \<Rightarrow> ('z task_state_scheme, unit) kop" where
  "init_scheduler env =
     kbind (init_task_list env) (\<lambda>root_task.
     kseq (kmodify (\<lambda>s. s\<lparr>cur_thread := Some ScratchThread\<rparr>))
     (kseq (switchto (k_arch env) (k_cswitch env) (map_option TaskThread root_task))
     (kpanic ''init_scheduler returned'')))"

section \<open>src/kernel/syscall.c\<close>

definition SYS_EXIT :: nat where "SYS_EXIT = 0"
definition SYS_SPAWN :: nat where "SYS_SPAWN = 1"
definition SYS_OPEN :: nat where "SYS_OPEN = 2"
definition SYS_READ :: nat where "SYS_READ = 3"
definition SYS_WRITE :: nat where "SYS_WRITE = 4"
definition SYS_CLOSE :: nat where "SYS_CLOSE = 5"
definition SYS_GETDENTS :: nat where "SYS_GETDENTS = 6"
definition SYS_UNAME :: nat where "SYS_UNAME = 7"
definition NUM_SYSCALLS :: nat where "NUM_SYSCALLS = 8"

definition MINUS_2 :: u64 where "MINUS_2 = - 2"

definition cur_task_data :: "('z task_state_scheme, task_t) kop" where
  "cur_task_data = kbind current_task get_task"

definition fd_valid :: "u64 \<Rightarrow> ('z task_state_scheme, bool) kop" where
  "fd_valid fd =
     (if of_nat TASK_NUM_FILES \<le> fd then kreturn False
      else kbind cur_task_data (\<lambda>x. kreturn (fds x ! unat fd \<noteq> None)))"

definition find_free_fd :: "('z task_state_scheme, nat option) kop" where
  "find_free_fd = kbind cur_task_data (\<lambda>x. kreturn (find_from (\<lambda>i. fds x ! i = None) 0 TASK_NUM_FILES))"

text \<open>The open file behind a valid descriptor.\<close>

definition fd_file :: "u64 \<Rightarrow> ('z task_state_scheme, nat) kop" where
  "fd_file fd = kbind cur_task_data (\<lambda>x. case fds x ! unat fd of None \<Rightarrow> kfault ''file: NULL'' | Some f \<Rightarrow> kreturn f)"

definition access_ok_cur :: "isa \<Rightarrow> u64 \<Rightarrow> usize \<Rightarrow> ('z task_state_scheme, bool) kop" where
  "access_ok_cur arch va len = kbind current_task (\<lambda>t. access_ok (isa_pte arch) t va len)"

definition sys_open :: "'z task_state_scheme kenv \<Rightarrow> u64 \<Rightarrow> ('z task_state_scheme, u64) kop" where
  "sys_open env user_path =
     kbind (access_ok_cur (k_arch env) user_path MAX_PATHLEN) (\<lambda>ok.
       if \<not> ok then kreturn MINUS_1
       else
         kbind find_free_fd (\<lambda>new_fd.
           case new_fd of None \<Rightarrow> kreturn MINUS_2
           | Some fd \<Rightarrow>
               kbind (file_open (ptr user_path)) (\<lambda>new_file.
                 if new_file \<noteq> None then
                   kbind current_task (\<lambda>t. kseq (set_fd t fd new_file) (kreturn (of_nat fd)))
                 else kreturn MINUS_1)))"

definition sys_read :: "'z disp_state_scheme kenv \<Rightarrow> u64 \<Rightarrow> u64 \<Rightarrow> usize \<Rightarrow> ('z disp_state_scheme, u64) kop" where
  "sys_read env fd user_buf len =
     kbind (fd_valid fd) (\<lambda>v.
       if \<not> v then kreturn MINUS_1
       else
         kbind (access_ok_cur (k_arch env) user_buf len) (\<lambda>ok.
           if \<not> ok then kreturn MINUS_2
           else kbind (fd_file fd) (\<lambda>f. file_read (k_arch env) (k_cswitch env) f user_buf len)))"

definition sys_write :: "'z disp_state_scheme kenv \<Rightarrow> u64 \<Rightarrow> u64 \<Rightarrow> usize \<Rightarrow> ('z disp_state_scheme, u64) kop" where
  "sys_write env fd user_buf len =
     kbind (fd_valid fd) (\<lambda>v.
       if \<not> v then kreturn MINUS_1
       else
         kbind (access_ok_cur (k_arch env) user_buf len) (\<lambda>ok.
           if \<not> ok then kreturn MINUS_2
           else kbind (fd_file fd) (\<lambda>f. file_write (k_uart env) f (ptr user_buf) len)))"

definition sys_getdents :: "'z task_state_scheme kenv \<Rightarrow> u64 \<Rightarrow> u64 \<Rightarrow> ('z task_state_scheme, u64) kop" where
  "sys_getdents env fd user_dent =
     kbind (fd_valid fd) (\<lambda>v.
       if \<not> v then kreturn MINUS_1
       else
         kbind (access_ok_cur (k_arch env) user_dent dirent_size) (\<lambda>ok.
           if \<not> ok then kreturn MINUS_2
           else kbind (fd_file fd) (\<lambda>f. file_getdents f user_dent)))"

definition sys_close :: "u64 \<Rightarrow> ('z task_state_scheme, u64) kop" where
  "sys_close fd =
     kbind (fd_valid fd) (\<lambda>v.
       if \<not> v then kreturn MINUS_1
       else if of_nat FD_STDIN = fd \<or> of_nat FD_STDOUT = fd \<or> of_nat FD_STDERR = fd then kreturn MINUS_2
       else
         kbind (fd_file fd) (\<lambda>f.
         kseq (file_close f)
         (kbind current_task (\<lambda>t.
         kseq (set_fd t (unat fd) None)
         (kreturn 0)))))"

definition sys_exit :: "'z task_state_scheme kenv \<Rightarrow> u64 \<Rightarrow> ('z task_state_scheme, u64) kop" where
  "sys_exit env retcode =
     kbind current_task (\<lambda>t.
     kseq (task_exit (k_arch env) (k_cswitch env) t retcode)
     (kpanic ''sys_exit: task_exit returned''))"

definition sys_spawn ::
  "'z task_state_scheme kenv \<Rightarrow> elf_frame \<Rightarrow> u64 \<Rightarrow> u64 \<Rightarrow> u64 \<Rightarrow> ('z task_state_scheme, u64) kop" where
  "sys_spawn env fr user_path flags argv =
     kbind (access_ok_cur (k_arch env) user_path MAX_PATHLEN) (\<lambda>ok.
       if \<not> ok then kreturn MINUS_1
       else
         kbind (access_ok_cur (k_arch env) argv (of_nat TASK_MAX_ARGS * 8)) (\<lambda>ok.
           if \<not> ok then kreturn MINUS_2
           else task_spawn_user env fr (ptr user_path) flags argv))"

definition sys_uname :: "'z task_state_scheme kenv \<Rightarrow> u64 \<Rightarrow> ('z task_state_scheme, u64) kop" where
  "sys_uname env user_utsname =
     kbind (access_ok_cur (k_arch env) user_utsname (5 * UTSNAMELEN)) (\<lambda>ok.
       if \<not> ok then kreturn MINUS_1
       else
         kseq (kmodify (\<lambda>s. s\<lparr>mem := uname (k_variant env) (k_arch_name env) user_utsname (mem s)\<rparr>))
         (kreturn 0))"

definition do_syscall ::
  "'z disp_state_scheme kenv \<Rightarrow> elf_frame \<Rightarrow> u64 \<Rightarrow> u64 \<Rightarrow> u64 \<Rightarrow> u64 \<Rightarrow> u64 \<Rightarrow> u64 \<Rightarrow> ('z disp_state_scheme, u64) kop" where
  "do_syscall env fr num arg0 arg1 arg2 arg3 arg4 =
     (if of_nat NUM_SYSCALLS \<le> num then kreturn MINUS_1
      else if unat num = SYS_EXIT then sys_exit env arg0
      else if unat num = SYS_SPAWN then sys_spawn env fr arg0 arg1 arg2
      else if unat num = SYS_OPEN then sys_open env arg0
      else if unat num = SYS_READ then sys_read env arg0 arg1 arg2
      else if unat num = SYS_WRITE then sys_write env arg0 arg1 arg2
      else if unat num = SYS_CLOSE then sys_close arg0
      else if unat num = SYS_GETDENTS then sys_getdents env arg0 arg1
      else sys_uname env arg0)"

section \<open>src/kernel/exception.c\<close>

datatype exception_kind = EX_UNKNOWN | EX_PAGEFAULT

definition CRASH_MESSAGE :: string where "CRASH_MESSAGE = ''Segmentation Fault'' @ [CHR 0x0A]"

definition do_exception :: "'z disp_state_scheme kenv \<Rightarrow> u64 \<Rightarrow> exception_kind \<Rightarrow> u64 \<Rightarrow> ('z disp_state_scheme, unit) kop" where
  "do_exception env regs kind error_code =
     kbind (kgets (\<lambda>s. get_reg_mode (k_arch env) regs (mem s))) (\<lambda>r.
     kbind (klift r) (\<lambda>mode.
     kseq
       (kwhen (mode = MODE_USER)
         (kbind current_thread (\<lambda>c.
          kbind (get_thread c) (\<lambda>th.
          kseq (kassert (1 = trapdepth th) ''assert'')
          (kbind current_task (\<lambda>t.
          kbind (get_task t) (\<lambda>x.
          kseq (case fds x ! FD_STDOUT of None \<Rightarrow> kfault ''file: NULL''
                | Some f \<Rightarrow> kseq (file_write (k_uart env) f (lit CRASH_MESSAGE) (of_nat (length CRASH_MESSAGE))) (kreturn ()))
          (task_exit (k_arch env) (k_cswitch env) t 1))))))))
     (case kind of EX_PAGEFAULT \<Rightarrow> kpanic ''Page Fault: 0x%X'' | EX_UNKNOWN \<Rightarrow> kpanic ''Unknown CPU exception'')))"

section \<open>src/kernel/interrupt.c\<close>

record 's intctl_ops =
  intc_init :: "('s, unit) kop"
  intc_claim :: "('s, u64) kop"
  intc_eoi :: "u64 \<Rightarrow> ('s, unit) kop"
  intc_map :: "u64 \<Rightarrow> u64 \<Rightarrow> ('s, unit) kop"

definition timer_intr :: "'z task_state_scheme kenv \<Rightarrow> ('z task_state_scheme, unit) kop" where
  "timer_intr env = scheduler (k_arch env) (k_cswitch env)"

definition claim_interrupt :: "'s intctl_ops \<Rightarrow> ('s, u64) kop" where
  "claim_interrupt intc = intc_claim intc"

definition send_eoi :: "'s intctl_ops \<Rightarrow> u64 \<Rightarrow> ('s, unit) kop" where
  "send_eoi intc irqnum = intc_eoi intc irqnum"

text \<open>The first two steps of every external interrupt.\<close>

definition claim_and_ack :: "'s intctl_ops \<Rightarrow> ('s, u64) kop" where
  "claim_and_ack intc = kbind (claim_interrupt intc) (\<lambda>irq. kseq (send_eoi intc irq) (kreturn irq))"

text \<open>\<open>ext_irq\<close> and \<open>core_irq\<close> are those of the serial port, \<open>uart_irq\<close> is that of the platform's header.\<close>

definition init_intctl :: "'s intctl_ops \<Rightarrow> u64 \<Rightarrow> u64 \<Rightarrow> u64 \<Rightarrow> ('s, unit) kop" where
  "init_intctl intc uart_irq ext_irq core_irq =
     kseq (kassert (core_irq = uart_irq) ''assert'')
     (kseq (intc_init intc)
     (intc_map intc ext_irq core_irq))"

section \<open>src/arch/x86_64/trap.c\<close>

definition X86_IRQ_PAGEFAULT :: u64 where "X86_IRQ_PAGEFAULT = 14"
definition X86_UART_IRQ :: u64 where "X86_UART_IRQ = 36"
definition LAPIC_TIMER_IRQ :: u64 where "LAPIC_TIMER_IRQ = 55"
definition PS2_KEYBOARD_IRQ :: u64 where "PS2_KEYBOARD_IRQ = 33"

definition reg_val :: "u64 \<Rightarrow> nat \<Rightarrow> ('z machine_scheme, u64) kop" where
  "reg_val regs i = kgets (\<lambda>s. load64 (mem s) (reg_at regs i))"

definition set_reg :: "u64 \<Rightarrow> nat \<Rightarrow> u64 \<Rightarrow> ('z machine_scheme, unit) kop" where
  "set_reg regs i v = kmodify (\<lambda>s. s\<lparr>mem := store64 (mem s) (reg_at regs i) v\<rparr>)"

text \<open>\<open>do_syscall\<close> on the registers that hold the number and the five arguments, result into the first of \<open>out\<close>.\<close>

definition syscall_on_regs ::
  "'z disp_state_scheme kenv \<Rightarrow> elf_frame \<Rightarrow> u64 \<Rightarrow> nat \<Rightarrow> nat \<Rightarrow> nat \<Rightarrow> nat \<Rightarrow> nat \<Rightarrow> nat \<Rightarrow> ('z disp_state_scheme, unit) kop" where
  "syscall_on_regs env fr regs num r0 r1 r2 r3 r4 =
     kbind (reg_val regs num) (\<lambda>n. kbind (reg_val regs r0) (\<lambda>a. kbind (reg_val regs r1) (\<lambda>b. kbind (reg_val regs r2) (\<lambda>c.
     kbind (reg_val regs r3) (\<lambda>d. kbind (reg_val regs r4) (\<lambda>e.
     kbind (do_syscall env fr n a b c d e) (\<lambda>r. set_reg regs num r)))))))"

definition x86_handle_syscall :: "'z disp_state_scheme kenv \<Rightarrow> elf_frame \<Rightarrow> u64 \<Rightarrow> ('z disp_state_scheme, unit) kop" where
  "x86_handle_syscall env fr regs =
     kseq (thread_trap_enter (k_arch env) regs)
     (kseq (syscall_on_regs env fr regs 0 4 5 3 9 7)
     (thread_trap_exit (k_arch env)))"

definition x86_handle_interrupt ::
  "'z disp_state_scheme kenv \<Rightarrow> 'z disp_state_scheme intctl_ops \<Rightarrow> ('z disp_state_scheme, unit) kop \<Rightarrow> u64 \<Rightarrow> u64 \<Rightarrow>
     ('z disp_state_scheme, unit) kop" where
  "x86_handle_interrupt env intc ps2_intr cr2 regs =
     kseq (thread_trap_enter (k_arch env) regs)
     (kbind (reg_val regs 15) (\<lambda>n.
     kseq
       (if n = X86_UART_IRQ then kseq (claim_and_ack intc) (serial_intr (k_uart env))
        else if n = LAPIC_TIMER_IRQ then kseq (claim_and_ack intc) (timer_intr env)
        else if n = PS2_KEYBOARD_IRQ then kseq (claim_and_ack intc) ps2_intr
        else if n = X86_IRQ_PAGEFAULT then do_exception env regs EX_PAGEFAULT cr2
        else do_exception env regs EX_UNKNOWN 0)
     (kseq (run_scheduler_if_idle (k_arch env) (k_cswitch env))
     (thread_trap_exit (k_arch env)))))"

section \<open>src/arch/aarch64/trap.c\<close>

definition ARM_UART_IRQ :: u64 where "ARM_UART_IRQ = 153"
definition ARM_TIMER_IRQ :: u64 where "ARM_TIMER_IRQ = 27"

definition ESR_REASON :: "u64 \<Rightarrow> u64" where "ESR_REASON x = drop_bit 26 x AND MASK 6"
definition ESR_SVC64 :: u64 where "ESR_SVC64 = 0x15"
definition ESR_INST_ABORT_LOWLEVEL :: u64 where "ESR_INST_ABORT_LOWLEVEL = 0x20"
definition ESR_INST_ABORT_NOCHANGE :: u64 where "ESR_INST_ABORT_NOCHANGE = 0x21"
definition ESR_DATA_ABORT_LOWLEVEL :: u64 where "ESR_DATA_ABORT_LOWLEVEL = 0x24"
definition ESR_DATA_ABORT_NOCHANGE :: u64 where "ESR_DATA_ABORT_NOCHANGE = 0x25"

definition arm_handle_sync_exception ::
  "'z disp_state_scheme kenv \<Rightarrow> elf_frame \<Rightarrow> u64 \<Rightarrow> u64 \<Rightarrow> ('z disp_state_scheme, unit) kop" where
  "arm_handle_sync_exception env fr far_el1 regs =
     kseq (thread_trap_enter (k_arch env) regs)
     (kbind (reg_val regs 33) (\<lambda>esr.
     kseq
       (if ESR_REASON esr = ESR_SVC64 then syscall_on_regs env fr regs 0 1 2 3 4 5
        else if ESR_REASON esr \<in> {ESR_DATA_ABORT_LOWLEVEL, ESR_DATA_ABORT_NOCHANGE, ESR_INST_ABORT_LOWLEVEL, ESR_INST_ABORT_NOCHANGE}
        then do_exception env regs EX_PAGEFAULT far_el1
        else do_exception env regs EX_UNKNOWN 0)
     (thread_trap_exit (k_arch env))))"

definition arm_handle_interrupt ::
  "'z disp_state_scheme kenv \<Rightarrow> 'z disp_state_scheme intctl_ops \<Rightarrow> ('z disp_state_scheme, unit) kop \<Rightarrow> u64 \<Rightarrow>
     ('z disp_state_scheme, unit) kop" where
  "arm_handle_interrupt env intc arm_timer_schedule regs =
     kseq (thread_trap_enter (k_arch env) regs)
     (kbind (claim_and_ack intc) (\<lambda>irq.
     kseq
       (if irq = ARM_UART_IRQ then serial_intr (k_uart env)
        else if irq = ARM_TIMER_IRQ then kseq (timer_intr env) arm_timer_schedule
        else kpanic ''Unknown interrupt'')
     (kseq (run_scheduler_if_idle (k_arch env) (k_cswitch env))
     (thread_trap_exit (k_arch env)))))"

definition arm_handle_serror :: "'z disp_state_scheme kenv \<Rightarrow> u64 \<Rightarrow> ('z disp_state_scheme, unit) kop" where
  "arm_handle_serror env regs =
     kseq (thread_trap_enter (k_arch env) regs) (kseq (kpanic ''serror'') (thread_trap_exit (k_arch env)))"

section \<open>src/arch/riscv64/trap.c\<close>

definition RISCV_UART_IRQ :: u64 where "RISCV_UART_IRQ = 10"
definition RISCV_INST_LEN :: u64 where "RISCV_INST_LEN = 4"
definition SCAUSE_INTERRUPT :: u64 where "SCAUSE_INTERRUPT = BIT 63"
definition SCAUSE_TIMER :: u64 where "SCAUSE_TIMER = 5 OR SCAUSE_INTERRUPT"
definition SCAUSE_EXTERNAL :: u64 where "SCAUSE_EXTERNAL = 9 OR SCAUSE_INTERRUPT"
definition SCAUSE_SYSCALL :: u64 where "SCAUSE_SYSCALL = 8"
definition SCAUSE_INST_PAGEFAULT :: u64 where "SCAUSE_INST_PAGEFAULT = 12"
definition SCAUSE_DATA_PAGEFAULT :: u64 where "SCAUSE_DATA_PAGEFAULT = 13"
definition SCAUSE_SAMO_PAGEFAULT :: u64 where "SCAUSE_SAMO_PAGEFAULT = 15"

definition external_interrupt ::
  "'z disp_state_scheme kenv \<Rightarrow> 'z disp_state_scheme intctl_ops \<Rightarrow> ('z disp_state_scheme, unit) kop" where
  "external_interrupt env intc =
     kbind (claim_and_ack intc) (\<lambda>irq.
       if irq = RISCV_UART_IRQ then serial_intr (k_uart env) else kpanic ''Unknown interrupt'')"

text \<open>The assertions after the handler: which mode is returned to, and what sscratch must hold then.\<close>

definition riscv_return_checks :: "isa \<Rightarrow> u64 \<Rightarrow> ('z task_state_scheme, unit) kop" where
  "riscv_return_checks arch regs =
     kbind (kgets (\<lambda>s. get_reg_mode arch regs (mem s))) (\<lambda>r.
     kbind (klift r) (\<lambda>mode.
     kbind (reg_val regs riscv_sstatus) (\<lambda>sstatus.
     kbind (kgets entry_kstack) (\<lambda>sscratch.
     kseq (kwhen (MODE_USER = mode)
       (kbind current_thread (\<lambda>c.
        kbind (get_thread c) (\<lambda>th.
        kseq (kassert (trapdepth th = 0) ''assert'')
        (kseq (kassert (SSTATUS_GET_SPP sstatus = RISCV_MODE_U) ''assert'')
        (kassert (sscratch \<noteq> 0) ''assert''))))))
     (kwhen (MODE_KERN = mode)
       (kseq (kassert (SSTATUS_GET_SPP sstatus = RISCV_MODE_S) ''assert'')
       (kassert (sscratch = 0) ''assert'')))))))"

definition riscv_handle_interrupt ::
  "'z disp_state_scheme kenv \<Rightarrow> elf_frame \<Rightarrow> 'z disp_state_scheme intctl_ops \<Rightarrow> ('z disp_state_scheme, unit) kop \<Rightarrow> u64 \<Rightarrow> u64 \<Rightarrow>
     ('z disp_state_scheme, unit) kop" where
  "riscv_handle_interrupt env fr intc riscv_timer_schedule stval regs =
     kbind (kgets entry_kstack) (\<lambda>sscratch.
     kseq (kassert (sscratch = 0) ''assert'')
     (kseq (thread_trap_enter (k_arch env) regs)
     (kbind (reg_val regs 33) (\<lambda>scause.
     kseq
       (if scause = SCAUSE_SYSCALL then
          kseq (syscall_on_regs env fr regs 9 10 11 12 13 14)
          (kbind (reg_val regs riscv_sepc) (\<lambda>pc. set_reg regs riscv_sepc (pc + RISCV_INST_LEN)))
        else if scause = SCAUSE_EXTERNAL then external_interrupt env intc
        else if scause = SCAUSE_TIMER then kseq (timer_intr env) riscv_timer_schedule
        else if scause \<in> {SCAUSE_DATA_PAGEFAULT, SCAUSE_INST_PAGEFAULT, SCAUSE_SAMO_PAGEFAULT}
        then do_exception env regs EX_PAGEFAULT stval
        else kseq (printf (k_uart env) (lit (''unknown scause reason: 0x%X'' @ [CHR 0x0A])) [VaInt scause])
          (do_exception env regs EX_UNKNOWN 0))
     (kseq (run_scheduler_if_idle (k_arch env) (k_cswitch env))
     (kseq (thread_trap_exit (k_arch env))
     (riscv_return_checks (k_arch env) regs)))))))"

end
