(* ===== verification/Sky_Fds.thy ===== *)
theory Sky_Fds
  imports Sky_Syscall
begin

text \<open>
  File descriptors of tasks (src/kernel/syscall.c over src/kernel/file.c): what the descriptor tables of all
  tasks promise together, and that \<open>sys_close\<close> keeps it.
\<close>

section \<open>The invariant\<close>

text \<open>Descriptor \<open>j\<close> of task \<open>i\<close> refers to file \<open>f\<close>.\<close>

definition fd_refers :: "'z task_state_scheme \<Rightarrow> nat \<Rightarrow> nat \<Rightarrow> nat \<Rightarrow> bool" where
  "fd_refers s i j f \<longleftrightarrow> i < length (task_pool s) \<and> t_valid (task_pool s ! i) \<and> j < TASK_NUM_FILES \<and>
     fds (task_pool s ! i) ! j = Some f"

text \<open>
  Every task has sixteen descriptors; each refers to an open file; a file that is not a console file, which
  all tasks share, is referred to by one descriptor only.
\<close>

definition fd_inv :: "'z task_state_scheme \<Rightarrow> bool" where
  "fd_inv s \<longleftrightarrow> fs_inv s \<and> (\<forall>i < length (task_pool s). length (fds (task_pool s ! i)) = TASK_NUM_FILES) \<and>
     (\<forall>i j f. fd_refers s i j f \<longrightarrow> f \<in> open_files s) \<and>
     (\<forall>i j f i' j'. fd_refers s i j f \<and> fd_refers s i' j' f \<longrightarrow> f \<in> stdio_files s \<or> i = i' \<and> j = j')"

text \<open>Task \<open>c\<close> is running.\<close>

definition runs_task :: "nat \<Rightarrow> 'z task_state_scheme \<Rightarrow> bool" where
  "runs_task c s \<longleftrightarrow> cur_thread s = Some (TaskThread c) \<and> c < length (task_pool s) \<and> t_valid (task_pool s ! c) \<and>
     th_task (thread (task_pool s ! c)) = Some c"

lemma current_task_run: "runs_task c s \<Longrightarrow> current_task s = Inr (Some c, s)"
  by (simp add: runs_task_def current_task_def current_thread_def get_thread_def get_task_run kop_simps)

lemma cur_task_data_run: "runs_task c s \<Longrightarrow> cur_task_data s = Inr (task_pool s ! c, s)"
  using current_task_run [of c s] by (simp add: cur_task_data_def kbind_def) (simp add: get_task_run runs_task_def)

lemma file_close_run:
  assumes inv: "fs_inv s" and f: "f \<in> open_files s"
  obtains x where "file_close f s = Inr ((), s\<lparr>filetab := (filetab s)[f := x]\<rparr>)"
proof -
  have lt: "f < length (filetab s)" using f by (simp add: open_files_def)
  obtain fs where fs: "f_ops (filetab s ! f) = Some fs" using inv f by (auto simp: fs_inv_def)
  have "file_close f s = (case fs of TarFs \<Rightarrow> tar_close f | StdioFs \<Rightarrow> stdio_close f) s"
    by (simp add: file_close_def file_fs_def kop_simps get_file_run lt fs)
  moreover have "\<exists>x. tar_close f s = Inr ((), s\<lparr>filetab := (filetab s)[f := x]\<rparr>)" if "fs = TarFs"
    using tarfs.close_own [OF inv f] fs that by blast
  moreover have "\<exists>x. stdio_close f s = Inr ((), s\<lparr>filetab := (filetab s)[f := x]\<rparr>)" if "fs = StdioFs"
    using stdiofs.close_own [OF inv f] fs that by blast
  ultimately show ?thesis using that by (cases fs) (simp_all, blast+)
qed

lemma fs_inv_pool [simp]: "fs_inv (s\<lparr>task_pool := p\<rparr>) = fs_inv s" "open_files (s\<lparr>task_pool := p\<rparr>) = open_files s"
  "stdio_files (s\<lparr>task_pool := p\<rparr>) = stdio_files s"
  by (simp_all add: fs_inv_def files_ok_def open_files_def stdio_files_def file_is_stdio_def)

section \<open>Properties\<close>

text \<open>C39: \<open>sys_close\<close> on every descriptor: a number that is out of range or closed gives -1, one of the three
  standard descriptors gives -2, both without any effect; every other descriptor is closed and gives 0, and
  its file is released unless it is a console file. The descriptor tables stay sound: every descriptor of
  every task still refers to an open file, and no two share a file of the ramdisk.\<close>

theorem sys_close_correct:
  assumes inv: "fd_inv s" and cur: "runs_task c s"
  shows "runs (sys_close fd) s (\<lambda>r s'. fd_inv s' \<and>
    (if unat fd \<ge> TASK_NUM_FILES \<or> fds (task_pool s ! c) ! unat fd = None then r = - 1 \<and> s' = s
     else if unat fd \<le> 2 then r = - 2 \<and> s' = s
     else r = 0 \<and> fds (task_pool s' ! c) = (fds (task_pool s ! c))[unat fd := None] \<and>
       open_files s' = open_files s - ({the (fds (task_pool s ! c) ! unat fd)} - stdio_files s)))"
proof -
  let ?fd = "unat fd" and ?x = "task_pool s ! c"
  have le: "of_nat TASK_NUM_FILES \<le> fd \<longleftrightarrow> TASK_NUM_FILES \<le> ?fd" by (simp add: word_le_nat_alt TASK_NUM_FILES_def)
  have std: "of_nat FD_STDIN = fd \<or> of_nat FD_STDOUT = fd \<or> of_nat FD_STDERR = fd \<longleftrightarrow> ?fd \<le> 2"
    by (auto simp: FD_STDIN_def FD_STDOUT_def FD_STDERR_def word_unat_eq_iff)
  have fv: "fd_valid fd s = Inr (?fd < TASK_NUM_FILES \<and> fds ?x ! ?fd \<noteq> None, s)"
    using le by (auto simp: fd_valid_def kop_simps cur_task_data_run [OF cur])
  show ?thesis
  proof (cases "?fd < TASK_NUM_FILES \<and> fds ?x ! ?fd \<noteq> None \<and> \<not> ?fd \<le> 2")
    case False
    then show ?thesis
      using inv fv std by (auto simp: sys_close_def runs_def kop_simps MINUS_1_def MINUS_2_def)
  next
    case True
    then obtain f where f: "fds ?x ! ?fd = Some f" by auto
    have c: "c < length (task_pool s)" "t_valid ?x" using cur by (simp_all add: runs_task_def)
    have ref: "fd_refers s c ?fd f" using True f c by (simp add: fd_refers_def)
    then have op: "f \<in> open_files s" and fs: "fs_inv s" using inv by (auto simp: fd_inv_def)
    obtain x where run: "file_close f s = Inr ((), s\<lparr>filetab := (filetab s)[f := x]\<rparr>)" by (rule file_close_run [OF fs op])
    define s1 where "s1 = s\<lparr>filetab := (filetab s)[f := x]\<rparr>"
    define s2 where "s2 = s1\<lparr>task_pool := (task_pool s)[c := ?x\<lparr>fds := (fds ?x)[?fd := None]\<rparr>]\<rparr>"
    have s1: "fs_inv s1" "open_files s1 = (if f \<in> stdio_files s then open_files s else open_files s - {f})"
      using file_close_runs [OF fs op] run by (simp_all add: runs_def s1_def)
    have cur1: "runs_task c s1" using cur by (simp add: runs_task_def s1_def)
    have close: "sys_close fd s = Inr (0, s2)"
      using True f fv std run c
      by (simp add: sys_close_def kop_simps fd_file_def cur_task_data_run [OF cur] s1_def [symmetric] current_task_run [OF cur1] set_fd_def upd_task_run)
        (simp add: s2_def s1_def upd_task_run kop_simps)
    have ref2: "fd_refers s2 i j g \<longleftrightarrow> fd_refers s i j g \<and> (i, j) \<noteq> (c, ?fd)" for i j g
      using c True inv by (auto simp: fd_refers_def s2_def s1_def nth_list_update fd_inv_def)
    have sf: "stdio_files s2 = stdio_files s" by (simp add: s2_def s1_def stdio_files_def file_is_stdio_def)
    have of2: "open_files s2 = open_files s1" "fs_inv s2" using s1(1) by (simp_all add: s2_def)
    have "fd_inv s2" unfolding fd_inv_def
    proof (intro conjI allI impI)
      fix i assume "i < length (task_pool s2)"
      then show "length (fds (task_pool s2 ! i)) = TASK_NUM_FILES"
        using inv by (cases "i = c") (auto simp: s2_def s1_def fd_inv_def)
    next
      fix i j g assume "fd_refers s2 i j g"
      then have g: "fd_refers s i j g" "(i, j) \<noteq> (c, ?fd)" by (simp_all add: ref2)
      then have "g \<in> open_files s" "g \<noteq> f \<or> f \<in> stdio_files s" using inv ref unfolding fd_inv_def by blast+
      then show "g \<in> open_files s2" unfolding of2 s1(2) by auto
    next
      fix i j g i' j' assume "fd_refers s2 i j g \<and> fd_refers s2 i' j' g"
      then show "g \<in> stdio_files s2 \<or> i = i' \<and> j = j'" using inv unfolding ref2 sf fd_inv_def by blast
    qed (rule of2)
    moreover have "fds (task_pool s2 ! c) = (fds ?x)[?fd := None]" using c by (simp add: s2_def s1_def)
    ultimately show ?thesis
      using True f close s1(2) of2(1) by (auto simp: runs_def)
  qed
qed

section \<open>Opening\<close>

text \<open>
  What a path names, read from the name alone: outside of \<open>/dev/\<close> the first file of the archive with that name,
  or the directory \<open>/\<close>; under \<open>/dev/\<close> the null device, the serial console and the displays, where \<open>display\<close>
  is the first one and \<open>display0\<close> to \<open>display8\<close> are numbered by the character after the word; every other name
  there stops the kernel.
\<close>

datatype opened = Console nat | Ramdisk file_t

definition device_target :: "'z fs_state_scheme \<Rightarrow> u8 list \<Rightarrow> kerr + opened option" where
  "device_target s d =
     (if d = bytes ''null'' then Inr None
      else if d = bytes ''serial'' then Inr (map_option Console (stdio_serial s))
      else if take 7 d = bytes ''display'' then
        (if \<not> is_gui_enabled s then Inr None
         else if length d = 7 then Inr (map_option Console (stdio_display s ! 0))
         else if d ! 7 \<in> {0x30..0x38} then Inr (map_option Console (stdio_display s ! (unat (d ! 7) - 0x30)))
         else Inl (Panic ''assert''))
      else if d = bytes ''panic1'' then Inl (Fault ''write to 0xDEADC0DE'')
      else if d = bytes ''panic2'' then Inl (Panic ''assert'')
      else Inl (Panic ''stdio_open: unknown stdio device''))"

definition path_target :: "'z fs_state_scheme \<Rightarrow> tfile list \<Rightarrow> u8 list \<Rightarrow> kerr + opened option" where
  "path_target s fs xs =
     (if take 5 xs = bytes ''/dev/'' then device_target s (drop 5 xs)
      else case tar_lookup (g_initrd s) fs xs of
             Some h \<Rightarrow> Inr (Some (Ramdisk (tar_regular h)))
           | None \<Rightarrow> Inr (if xs = [0x2F] then Some (Ramdisk tar_rootdir) else None))"

lemma dev_name: "xs = bytes (''/dev/'' @ n) \<longleftrightarrow> take 5 xs = bytes ''/dev/'' \<and> drop 5 xs = bytes n"
proof
  assume h: "take 5 xs = bytes ''/dev/'' \<and> drop 5 xs = bytes n"
  have "xs = take 5 xs @ drop 5 xs" by simp
  also have "\<dots> = bytes ''/dev/'' @ bytes n" using h by simp
  finally show "xs = bytes (''/dev/'' @ n)" by (simp add: bytes_def)
qed (simp add: bytes_def)

lemma dev_display: "take 12 xs = bytes ''/dev/display'' \<longleftrightarrow> take 5 xs = bytes ''/dev/'' \<and> take 7 (drop 5 xs) = bytes ''display''"
  using dev_name [of "take 12 xs" "''display''"] by (simp add: take_drop)


lemma display_digit: "0x30 \<le> c \<and> c < 0x39 \<longleftrightarrow> c \<in> {0x30..(0x38 :: u8)}" "0x30 \<le> c \<Longrightarrow> unat (c - 0x30) = unat c - 0x30"
  by (auto simp: word_le_nat_alt word_less_nat_alt unat_sub)

lemma stdio_open_target:
  fixes s :: "'a fs_state_scheme"
  assumes "take 5 xs = bytes ''/dev/''" and path: "cstr path (mem s) xs" and len: "length (stdio_display s) = NUM_DISPLAYS"
  shows "file_open path s = (case device_target s (drop 5 xs) of Inl e \<Rightarrow> Inl e
    | Inr None \<Rightarrow> Inr (None, s) | Inr (Some (Console f)) \<Rightarrow> Inr (Some f, s) | Inr (Some (Ramdisk x)) \<Rightarrow> Inr (None, s))"
proof -
  define g :: "kerr + opened option \<Rightarrow> kerr + nat option \<times> 'a fs_state_scheme" where
    "g r = (case r of Inl e \<Rightarrow> Inl e | Inr None \<Rightarrow> Inr (None, s) | Inr (Some (Console f)) \<Rightarrow> Inr (Some f, s)
      | Inr (Some (Ramdisk x)) \<Rightarrow> Inr (None, s))" for r
  have g: "g (Inl e) = Inl e" "g (Inr None) = Inr (None, s)" "g (Inr (map_option Console z)) = Inr (z, s)" for e z
    by (simp_all add: g_def split: option.split)
  have n: "xs = bytes ''/dev/null'' \<longleftrightarrow> drop 5 xs = bytes ''null''" "xs = bytes ''/dev/serial'' \<longleftrightarrow> drop 5 xs = bytes ''serial''"
    "xs = bytes ''/dev/panic1'' \<longleftrightarrow> drop 5 xs = bytes ''panic1''" "xs = bytes ''/dev/panic2'' \<longleftrightarrow> drop 5 xs = bytes ''panic2''"
    "xs = bytes ''/dev/display'' \<longleftrightarrow> drop 5 xs = bytes ''display''"
    "take 12 xs = bytes ''/dev/display'' \<longleftrightarrow> take 7 (drop 5 xs) = bytes ''display''"
    using dev_name [of xs "''null''"] dev_name [of xs "''serial''"] dev_name [of xs "''panic1''"] dev_name [of xs "''panic2''"]
      dev_name [of xs "''display''"] dev_display [of xs] assms(1) by simp_all
  define d where "d = drop 5 xs"
  have "length (take 5 xs) = 5" unfolding assms(1) by (simp add: bytes_def)
  then have "5 \<le> length xs" by simp
  then have at: "xs ! 12 = d ! 7" unfolding d_def by (subst nth_drop) simp_all
  have full: "d = bytes ''display'' \<longleftrightarrow> take 7 d = bytes ''display'' \<and> length d = 7"
    by (auto simp: bytes_def)
  have ne: "bytes ''null'' \<noteq> bytes ''panic1''" "bytes ''serial'' \<noteq> bytes ''panic1''" "take 7 (bytes ''panic1'') \<noteq> bytes ''display''"
    "take 7 (bytes ''panic2'') \<noteq> bytes ''display''" "bytes ''panic1'' \<noteq> bytes ''panic2''" "bytes ''null'' \<noteq> bytes ''serial''"
    "take 7 (bytes ''null'') \<noteq> bytes ''display''" "take 7 (bytes ''serial'') \<noteq> bytes ''display''"
    by (simp_all add: bytes_def)
  note run = file_open_run [OF path len, unfolded n, folded d_def, unfolded at full display_digit(1)] assms(1)
  consider "take 7 d = bytes ''display''" "d \<noteq> bytes ''null''" "d \<noteq> bytes ''serial''" "d \<noteq> bytes ''panic1''"
    | "take 7 d \<noteq> bytes ''display''" using ne by metis
  then have "file_open path s = g (device_target s d)"
  proof cases
    case 1
    then show ?thesis unfolding device_target_def using run
      by (cases "is_gui_enabled s"; cases "length d = 7"; cases "d ! 7 \<in> {0x30..0x38}")
        (simp_all add: g display_digit(2) del: map_option_eq_Some option.map_comp)
  next
    case 2
    then show ?thesis unfolding device_target_def using run ne by (auto simp: g)
  qed
  then show ?thesis by (simp add: g_def d_def)
qed

lemma tar_open_full:
  assumes img: "tar_image (mem s) (g_initrd s) fs" and p: "cstr path (mem s) xs" and al: "file_alloc s = Inl e"
  shows "tar_open path s = (if tar_lookup (g_initrd s) fs xs = None \<and> xs \<noteq> [0x2F] then Inr (None, s) else Inl e)"
proof -
  have f: "tar_find path (mem s) (g_initrd s) = Some (Inr (tar_lookup (g_initrd s) fs xs))"
    by (rule tar_find_image [OF img p])
  have "cstr (lit ''/'') (mem s) [0x2F]" using lit_cstr [of "''/''" "mem s"] by simp
  then have root: "strequal (lit ''/'') path (mem s) = Some (xs = [0x2F])" using strequal_cstr [OF _ p] by auto
  show ?thesis using f root al
    by (cases "tar_lookup (g_initrd s) fs xs") (simp_all add: tar_open_def kop_simps kloop_def)
qed

text \<open>What \<open>file_open\<close> does for each target.\<close>

lemma file_open_opens:
  fixes s :: "'z fs_state_scheme"
  assumes inv: "fs_inv s" and img: "tar_image (mem s) (g_initrd s) fs" and path: "cstr path (mem s) xs"
  obtains (stop) e where "path_target s fs xs = Inl e" "file_open path s = Inl e"
  | (none) "path_target s fs xs = Inr None" "file_open path s = Inr (None, s)"
  | (console) f where "path_target s fs xs = Inr (Some (Console f))" "f \<in> stdio_files s" "file_open path s = Inr (Some f, s)"
  | (full) x where "path_target s fs xs = Inr (Some (Ramdisk x))" "open_files s = {i. i < NUM_FILES}"
      "file_open path s = Inl (Panic ''file_alloc: out of available files'')"
  | (new) f x where "path_target s fs xs = Inr (Some (Ramdisk x))" "open_files s \<noteq> {i. i < NUM_FILES}"
      "f \<notin> open_files s" "f < length (filetab s)" "f_valid x" "f_ops x = Some TarFs"
      "file_open path s = Inr (Some f, s\<lparr>filetab := (filetab s)[f := x]\<rparr>)"
proof (cases "take 5 xs = bytes ''/dev/''")
  case True
  have len: "length (stdio_display s) = NUM_DISPLAYS" using inv by (simp add: fs_inv_def)
  have t: "path_target s fs xs = device_target s (drop 5 xs)" using True by (simp add: path_target_def)
  have console_file: "f \<in> stdio_files s" if "device_target s d = Inr (Some (Console f))" for f d
  proof -
    have "f \<in> stdio_files s" if "stdio_display s ! k = Some f" "k < NUM_DISPLAYS" for k
      using that len by (auto simp: stdio_files_def file_is_stdio_def in_set_conv_nth)
    moreover have "unat (d ! 7) - 0x30 < NUM_DISPLAYS" if "d ! 7 \<in> {0x30..0x38}"
      using that by (auto simp: NUM_DISPLAYS_def word_le_nat_alt)
    moreover have "0 < NUM_DISPLAYS" by (simp add: NUM_DISPLAYS_def)
    ultimately show ?thesis using that
      by (auto simp: device_target_def stdio_files_def file_is_stdio_def split: if_splits)
  qed
  have no_ramdisk: "device_target s d \<noteq> Inr (Some (Ramdisk x))" for d x
    by (auto simp: device_target_def split: if_splits)
  consider e where "device_target s (drop 5 xs) = Inl e" | "device_target s (drop 5 xs) = Inr None"
    | f where "device_target s (drop 5 xs) = Inr (Some (Console f))"
    using no_ramdisk [of "drop 5 xs"] by (metis opened.exhaust option.exhaust sum.exhaust)
  then show ?thesis
  proof cases
    case (1 e)
    then show ?thesis using stop t stdio_open_target [OF True path len] by simp
  next
    case 2
    then show ?thesis using none t stdio_open_target [OF True path len] by simp
  next
    case (3 f)
    then show ?thesis using console [of f] t stdio_open_target [OF True path len] console_file by simp
  qed
next
  case False
  have ok: "length (stdio_display s) = NUM_DISPLAYS" "files_ok s" using inv by (simp_all add: fs_inv_def)
  have "xs \<noteq> bytes ''/dev/panic1''" using False by (auto simp: bytes_def)
  then have r: "file_open path s = tar_open path s" using file_open_run [OF path ok(1)] False by simp
  have t: "path_target s fs xs = (case tar_lookup (g_initrd s) fs xs of Some h \<Rightarrow> Inr (Some (Ramdisk (tar_regular h)))
      | None \<Rightarrow> Inr (if xs = [0x2F] then Some (Ramdisk tar_rootdir) else None))" using False by (simp add: path_target_def)
  have x: "path_target s fs xs = Inr None \<and> tar_lookup (g_initrd s) fs xs = None \<and> xs \<noteq> [0x2F] \<or>
      (\<exists>x. path_target s fs xs = Inr (Some (Ramdisk x)) \<and> f_valid x \<and> f_ops x = Some TarFs \<and> \<not> (tar_lookup (g_initrd s) fs xs = None \<and> xs \<noteq> [0x2F]))"
    unfolding t by (auto simp: tar_regular_def tar_rootdir_def blank_file_def split: option.splits)
  from ok(2) show ?thesis
  proof (cases rule: file_alloc_cases)
    case full: full
    note tf = tar_open_full [OF img path full(2), folded r]
    then show ?thesis using x none that(4) full(1) by auto
  next
    case (ok i)
    have i: "i < length (filetab s)" using ok \<open>files_ok s\<close> by (simp add: files_ok_def)
    have room: "open_files s \<noteq> {i. i < NUM_FILES}" using ok(1,2) by auto
    have tr: "file_open path s = (case path_target s fs xs of Inr (Some (Ramdisk x)) \<Rightarrow> Inr (Some i, s\<lparr>filetab := (filetab s)[i := x]\<rparr>) | _ \<Rightarrow> Inr (None, s))"
      unfolding r tar_open_run [OF img path ok(4) i] t by (auto split: option.splits)
    from x show ?thesis
    proof (elim disjE exE conjE)
      assume "path_target s fs xs = Inr None"
      then show ?thesis using none tr by simp
    next
      fix x assume "path_target s fs xs = Inr (Some (Ramdisk x))" "f_valid x" "f_ops x = Some TarFs"
      then show ?thesis using new [OF _ room ok(1) i] tr by simp
    qed
  qed
qed
text \<open>A new descriptor keeps the descriptor tables sound when its file is shared or fresh.\<close>

lemma fd_inv_set:
  fixes s s1 :: "'z task_state_scheme"
  assumes inv: "fd_inv s" and c: "c < length (task_pool s)" "t_valid (task_pool s ! c)" and j: "j < TASK_NUM_FILES"
    and s1: "fs_inv s1" "task_pool s1 = task_pool s" "stdio_files s1 = stdio_files s" "open_files s \<subseteq> open_files s1"
    and f: "f \<in> open_files s1" "f \<in> stdio_files s \<or> f \<notin> open_files s"
  shows "fd_inv (s1\<lparr>task_pool := (task_pool s)[c := (task_pool s ! c)\<lparr>fds := (fds (task_pool s ! c))[j := Some f]\<rparr>]\<rparr>)"
proof -
  define s2 where "s2 = s1\<lparr>task_pool := (task_pool s)[c := (task_pool s ! c)\<lparr>fds := (fds (task_pool s ! c))[j := Some f]\<rparr>]\<rparr>"
  have ref: "fd_refers s2 i k g \<longleftrightarrow> (if (i, k) = (c, j) then g = f else fd_refers s i k g)" for i k g
    using c j inv by (auto simp: fd_refers_def s2_def nth_list_update fd_inv_def)
  have s2: "fs_inv s2" "open_files s2 = open_files s1" "stdio_files s2 = stdio_files s" using s1 by (simp_all add: s2_def)
  have "fd_inv s2"
    unfolding fd_inv_def
  proof (intro conjI allI impI)
    show "length (fds (task_pool s2 ! i)) = TASK_NUM_FILES" if "i < length (task_pool s2)" for i
      using that inv by (cases "i = c") (auto simp: s2_def fd_inv_def)
    show "g \<in> open_files s2" if "fd_refers s2 i k g" for i k g
      using that inv f(1) s1(4) unfolding s2 ref fd_inv_def by (auto split: if_splits)
    show "g \<in> stdio_files s2 \<or> i = i' \<and> k = k'" if "fd_refers s2 i k g \<and> fd_refers s2 i' k' g" for i k g i' k'
    proof -
      have old: "g \<in> open_files s" if "fd_refers s i k g" for i k using that inv unfolding fd_inv_def by blast
      show ?thesis
      proof (cases "fd_refers s i k g \<and> fd_refers s i' k' g")
        case True
        then show ?thesis using inv unfolding s2 fd_inv_def by blast
      next
        case False
        then show ?thesis using that old f(2) unfolding s2 ref by (auto split: if_splits)
      qed
    qed
  qed (rule s2)
  then show ?thesis by (simp add: s2_def)
qed

text \<open>Descriptor \<open>r\<close>, the lowest that is free in task \<open>c\<close>, refers to file \<open>f\<close> in \<open>s'\<close>, which is otherwise \<open>s1\<close>.\<close>

definition gets_fd :: "nat \<Rightarrow> 'z task_state_scheme \<Rightarrow> nat \<Rightarrow> 'z task_state_scheme \<Rightarrow> u64 \<Rightarrow> 'z task_state_scheme \<Rightarrow> bool" where
  "gets_fd c s f s1 r s' \<longleftrightarrow> (\<exists>j < TASK_NUM_FILES. r = of_nat j \<and> fds (task_pool s ! c) ! j = None \<and>
     (\<forall>i < j. fds (task_pool s ! c) ! i \<noteq> None) \<and>
     s' = s1\<lparr>task_pool := (task_pool s)[c := (task_pool s ! c)\<lparr>fds := (fds (task_pool s ! c))[j := Some f]\<rparr>]\<rparr>)"

text \<open>The outcome of \<open>sys_open\<close> after each outcome of the access check.\<close>

lemma sys_open_run:
  fixes s :: "'z task_state_scheme"
  assumes "fd_inv s" and "runs_task c s" and "access_ok_cur (k_arch env) path MAX_PATHLEN s = Inr (ok, s)"
    and "tar_image (mem s) (g_initrd s) fs" and "cstr (ptr path) (mem s) xs"
  shows "if \<not> ok then sys_open env path s = Inr (- 1, s)
    else if \<forall>j < TASK_NUM_FILES. fds (task_pool s ! c) ! j \<noteq> None then sys_open env path s = Inr (- 2, s)
    else case path_target s fs xs of
      Inl e \<Rightarrow> sys_open env path s = Inl e
    | Inr None \<Rightarrow> sys_open env path s = Inr (- 1, s)
    | Inr (Some (Console f)) \<Rightarrow> runs (sys_open env path) s (\<lambda>r s'. gets_fd c s f s r s' \<and> fd_inv s')
    | Inr (Some (Ramdisk x)) \<Rightarrow>
        if open_files s = {i. i < NUM_FILES} then sys_open env path s = Inl (Panic ''file_alloc: out of available files'')
        else runs (sys_open env path) s (\<lambda>r s'. \<exists>f. f \<notin> open_files s \<and> open_files s' = insert f (open_files s) \<and>
          gets_fd c s f (s\<lparr>filetab := (filetab s)[f := x]\<rparr>) r s' \<and> fd_inv s')"
proof (cases "ok \<and> (\<exists>j < TASK_NUM_FILES. fds (task_pool s ! c) ! j = None)")
  case False
  have "find_from (\<lambda>i. fds (task_pool s ! c) ! i = None) 0 TASK_NUM_FILES = None" if ok
    using that False by (auto simp: find_from_None_iff)
  then have "sys_open env path s = Inr (if ok then - 2 else - 1, s)"
    using assms(3) cur_task_data_run [OF assms(2)] by (simp add: sys_open_def kop_simps find_free_fd_def MINUS_1_def MINUS_2_def)
  then show ?thesis using False by auto
next
  case True
  let ?x = "task_pool s ! c"
  have c: "c < length (task_pool s)" "t_valid ?x" using assms(2) by (simp_all add: runs_task_def)
  obtain j where fj: "find_from (\<lambda>i. fds ?x ! i = None) 0 TASK_NUM_FILES = Some j"
    using True find_from_None_iff [of "\<lambda>i. fds ?x ! i = None" 0 TASK_NUM_FILES] by (metis add_0 le0 not_Some_eq)
  have j: "j < TASK_NUM_FILES" "fds ?x ! j = None" "\<forall>i < j. fds ?x ! i \<noteq> None" using find_from_Some [OF fj] by auto
  have inv: "fs_inv s" using assms(1) by (simp add: fd_inv_def)
  have run: "sys_open env path s = kbind (file_open (ptr path)) (\<lambda>new_file. if new_file \<noteq> None then
      kbind current_task (\<lambda>t. kseq (set_fd t j new_file) (kreturn (of_nat j))) else kreturn MINUS_1) s"
    using assms(3) True fj cur_task_data_run [OF assms(2)] by (simp add: sys_open_def kop_simps find_free_fd_def)
  have set: "kbind current_task (\<lambda>t. kseq (set_fd t j (Some f)) (kreturn (of_nat j))) s1 =
      Inr (of_nat j, s1\<lparr>task_pool := (task_pool s)[c := ?x\<lparr>fds := (fds ?x)[j := Some f]\<rparr>]\<rparr>)"
    if "runs_task c s1" "task_pool s1 = task_pool s" for s1 :: "'z task_state_scheme" and f
    using that c by (simp add: kop_simps current_task_run set_fd_def upd_task_run)
  have gets: "gets_fd c s f s1 (of_nat j) (s1\<lparr>task_pool := (task_pool s)[c := ?x\<lparr>fds := (fds ?x)[j := Some f]\<rparr>]\<rparr>)" for f s1
    unfolding gets_fd_def using j by blast
  have skip: "\<not> \<not> ok" "\<not> (\<forall>j < TASK_NUM_FILES. fds ?x ! j \<noteq> None)" using True by auto
  from inv assms(4,5) show ?thesis
  proof (cases rule: file_open_opens)
    case (stop e)
    then have "sys_open env path s = Inl e" using run by (simp add: kbind_def)
    then show ?thesis unfolding if_not_P [OF skip(1)] if_not_P [OF skip(2)] using stop(1) by simp
  next
    case none
    then have "sys_open env path s = Inr (- 1, s)" using run by (simp add: kop_simps MINUS_1_def)
    then show ?thesis unfolding if_not_P [OF skip(1)] if_not_P [OF skip(2)] using none(1) by simp
  next
    case (console f)
    have "fd_inv (s\<lparr>task_pool := (task_pool s)[c := ?x\<lparr>fds := (fds ?x)[j := Some f]\<rparr>]\<rparr>)"
      using inv console(2) by (intro fd_inv_set [OF assms(1) c j(1)]) (auto simp: fs_inv_def)
    moreover have "sys_open env path s = Inr (of_nat j, s\<lparr>task_pool := (task_pool s)[c := ?x\<lparr>fds := (fds ?x)[j := Some f]\<rparr>]\<rparr>)"
      using run console(3) set [OF assms(2) refl] by (simp add: kbind_def)
    ultimately show ?thesis unfolding if_not_P [OF skip(1)] if_not_P [OF skip(2)] using console(1) gets [of f s] by (simp add: runs_def)
  next
    case (full x)
    then have "sys_open env path s = Inl (Panic ''file_alloc: out of available files'')" using run by (simp add: kbind_def)
    then show ?thesis unfolding if_not_P [OF skip(1)] if_not_P [OF skip(2)] using full(1,2) by simp
  next
    case (new f x)
    let ?s1 = "s\<lparr>filetab := (filetab s)[f := x]\<rparr>"
    let ?s = "?s1\<lparr>task_pool := (task_pool s)[c := ?x\<lparr>fds := (fds ?x)[j := Some f]\<rparr>]\<rparr>"
    have op: "open_files ?s1 = insert f (open_files s)" using new open_files_update [of f s x] by simp
    have sf: "stdio_files ?s1 = stdio_files s" by (simp add: stdio_files_def file_is_stdio_def)
    have "fs_inv ?s1" using inv new unfolding fs_inv_def op sf by (auto simp: files_ok_def nth_list_update)
    then have "fd_inv ?s" using op sf new by (intro fd_inv_set [OF assms(1) c j(1)]) auto
    moreover have "runs_task c ?s1" using assms(2) by (simp add: runs_task_def)
    then have "sys_open env path s = Inr (of_nat j, ?s)" using run new(7) set [of ?s1 f] by (simp add: kbind_def)
    moreover have "open_files ?s = insert f (open_files s)" using op by (simp add: open_files_def)
    ultimately have "runs (sys_open env path) s (\<lambda>r s'. \<exists>f. f \<notin> open_files s \<and> open_files s' = insert f (open_files s) \<and>
        gets_fd c s f (s\<lparr>filetab := (filetab s)[f := x]\<rparr>) r s' \<and> fd_inv s')"
      using new(3) gets [of f ?s1] unfolding runs_def by blast
    then show ?thesis unfolding if_not_P [OF skip(1)] if_not_P [OF skip(2)] using new(1,2) by simp
  qed
qed

section \<open>An example\<close>

text \<open>The example system where task 1 has the file 0 of the ramdisk as descriptor 5 and all other descriptors are the console.\<close>

definition fds_demo :: task_state where
  "fds_demo = (sched_demo 1)\<lparr>filetab := filetab stdio_demo,
     task_pool := demo_pool[1 := (demo_task 1 THREAD_READY)\<lparr>fds := (replicate 16 (Some 1))[5 := Some 0]\<rparr>]\<rparr>"

lemma demo_pool_fds: "i < 2048 \<Longrightarrow> fds (demo_pool ! i) = replicate 16 (Some 1)"
proof -
  assume "i < 2048"
  have "\<forall>t \<in> set demo_pool. fds t = replicate 16 (Some 1)" by (simp add: demo_pool_def demo_task_def)
  with \<open>i < 2048\<close> show ?thesis by (simp add: nth_mem)
qed

lemma fds_demo_fds: "i < 2048 \<Longrightarrow> fds (task_pool fds_demo ! i) = (if i = 1 then (replicate 16 (Some 1))[5 := Some 0] else replicate 16 (Some 1))"
  by (simp add: fds_demo_def nth_list_update demo_pool_fds)

lemma fds_demo_refers:
  assumes "fd_refers fds_demo i j f"
  shows "f = 1 \<or> f = 0 \<and> i = 1 \<and> j = 5"
proof -
  have "length (task_pool fds_demo) = 2048" by (simp add: fds_demo_def)
  then have lt: "i < 2048" "j < 16" and f: "fds (task_pool fds_demo ! i) ! j = Some f"
    using assms by (simp_all add: fd_refers_def TASK_NUM_FILES_def)
  show ?thesis
  proof (cases "i = 1 \<and> j = 5")
    case True
    then show ?thesis using f fds_demo_fds [OF lt(1)] by simp
  next
    case False
    then have "Some 1 = Some f" using f fds_demo_fds [OF lt(1)] lt(2) by (simp split: if_splits)
    then show ?thesis by simp
  qed
qed

lemma fds_demo_inv: "fd_inv fds_demo" "runs_task 1 fds_demo" "stdio_files fds_demo = {1}" "open_files fds_demo = {0, 1}"
proof -
  show sf: "stdio_files fds_demo = {1}" by (auto simp: stdio_files_def file_is_stdio_def fds_demo_def sched_demo_def)
  have "open_files fds_demo = open_files stdio_demo" by (simp add: open_files_def fds_demo_def)
  then show op: "open_files fds_demo = {0, 1}" by (simp only: stdio_demo_inv(2))
  have "fs_inv fds_demo"
    using stdio_demo_inv(1) sf op by (simp add: fs_inv_def stdio_demo_inv files_ok_def)
      (simp add: fds_demo_def sched_demo_def NUM_DISPLAYS_def)
  moreover have "length (fds (task_pool fds_demo ! i)) = TASK_NUM_FILES" if "i < length (task_pool fds_demo)" for i
    using fds_demo_fds [of i] that by (auto simp: fds_demo_def TASK_NUM_FILES_def)
  ultimately show "fd_inv fds_demo"
    unfolding fd_inv_def sf op using fds_demo_refers by blast
  show "runs_task 1 fds_demo" by (simp add: runs_task_def fds_demo_def sched_demo_def demo_task_def)
qed

theorem sys_close_correct_witness:
  "runs (sys_close 5) fds_demo (\<lambda>r s'. r = 0 \<and> open_files s' = {1}) \<and> runs (sys_close 1) fds_demo (\<lambda>r s'. r = - 2 \<and> s' = fds_demo)"
proof
  have x: "fds (task_pool fds_demo ! 1) = (replicate 16 (Some 1))[5 := Some 0]" using fds_demo_fds [of 1] by simp
  note close = sys_close_correct [OF fds_demo_inv(1,2), unfolded x fds_demo_inv(3,4)]
  show "runs (sys_close 5) fds_demo (\<lambda>r s'. r = 0 \<and> open_files s' = {1})"
    by (rule runs_mono [OF close [of "5"]]) (auto simp: TASK_NUM_FILES_def)
  show "runs (sys_close 1) fds_demo (\<lambda>r s'. r = - 2 \<and> s' = fds_demo)"
    by (rule runs_mono [OF close [of "1"]]) (simp add: TASK_NUM_FILES_def)
qed

end
