(* ===== verification/Sky_Loader.thy ===== *)
theory Sky_Loader
  imports Sky_Proc Sky_Vmproof
begin

text \<open>
  What loading a program promises (src/kernel/elf.c): \<open>load_seg\<close> maps every page of a segment, for user mode, to a page
  that was free, and fills that page from the file on the ramdisk. The proof composes the page heap, the page
  tables and the ramdisk.
\<close>

section \<open>Pages and memory\<close>

lemma in_page_unique:
  assumes "page_ok p" "page_ok q" "in_page p a" "in_page q a"
  shows "p = q"
proof (rule ccontr)
  assume "p \<noteq> q"
  have far: "\<not> in_page q' a" if "page_ok q'" "unat q' + 4096 \<le> unat a \<or> unat a < unat q'" for q'
    using far_apart [of q' 4096 a] page_top [OF page_ok_dvd [OF that(1)]] that(2) by (simp add: in_page_def)
  have near: "unat a < unat q' + 4096 \<and> unat q' \<le> unat a" if "page_ok q'" "in_page q' a" for q'
    using far [OF that(1)] that(2) by linarith
  show False
    using pages_apart [OF page_ok_dvd [OF assms(1)] page_ok_dvd [OF assms(2)] \<open>p \<noteq> q\<close>]
      near [OF assms(1,3)] near [OF assms(2,4)] by linarith
qed

lemma pte_in_page:
  assumes "page_ok q" "i < 512" "k < 8"
  shows "in_page q (pte_addr q i + of_nat k)"
proof -
  have "pte_addr q i + of_nat k - q = of_nat (8 * i + k)" by (simp add: pte_addr_def)
  moreover have "unat (of_nat (8 * i + k) :: u64) = 8 * i + k" by (rule unat_of_nat_64) (use assms in simp)
  ultimately have "unat (pte_addr q i + of_nat k - q) = 8 * i + k" by (simp only:)
  then show ?thesis using assms by (simp add: in_page_def)
qed

lemma ent_outside:
  assumes "page_ok q" "page_ok p" "p \<noteq> q" "i < 512" "\<And>a. \<not> in_page p a \<Longrightarrow> m' a = m a"
  shows "ent m' q i = ent m q i"
  unfolding ent_def
proof (rule load64_cong)
  fix k :: nat assume "k < 8"
  then have "in_page q (pte_addr q i + of_nat k)" using pte_in_page [OF assms(1,4)] by simp
  then show "m' (pte_addr q i + of_nat k) = m (pte_addr q i + of_nat k)"
    using assms(5) in_page_unique [OF assms(1,2)] assms(3) by blast
qed

text \<open>Writing a page that holds no table of the page table changes no translation.\<close>

lemma data_write:
  assumes ok: "vm_ok ops root s" and p: "page_ok p" "p \<notin> vm_tables ops root s"
    and out: "\<And>a. \<not> in_page p a \<Longrightarrow> m a = mem s a"
  shows "vm_ok ops root (s\<lparr>mem := m\<rparr>)" "vm_lookup ops root (s\<lparr>mem := m\<rparr>) va = vm_lookup ops root s va"
    "vm_tables ops root (s\<lparr>mem := m\<rparr>) = vm_tables ops root s"
proof -
  have E: "ent m q i = ent (mem s) q i" if "q \<in> vm_tables ops root s" "i < 512" for q i
    by (rule ent_outside [OF vm_ok_page [OF ok that(1)] p(1) _ that(2)]) (use that p(2) out in auto)
  note c = tree_cong [of ops "ent (mem s)" 3 root "ent m", OF E]
  show "vm_lookup ops root (s\<lparr>mem := m\<rparr>) va = vm_lookup ops root s va" using c(3) by simp
  show t: "vm_tables ops root (s\<lparr>mem := m\<rparr>) = vm_tables ops root s" using c(1) by simp
  show "vm_ok ops root (s\<lparr>mem := m\<rparr>)" using ok t c(2) by (simp add: vm_ok_def wf_kheap_def)
qed

lemma small_page_ok:
  assumes "wf_kheap s" "p \<in> heap_pages (small_kheap s)"
  shows "page_ok p"
proof -
  have ok: "heap_ok 12 KHEAP_NUM_SMALL_PAGES (small_kheap s)" using assms(1) by (simp add: wf_kheap_def)
  obtain i where i: "p = heap_page (small_kheap s) i" "i < length (alloc_map (small_kheap s))"
    using assms(2) by (auto simp: heap_pages_def)
  then have "i \<le> KHEAP_NUM_SMALL_PAGES" using heap_okD(3) [OF ok] by simp
  then show ?thesis
    using heap_page_aligned [OF ok] heap_page_kern [OF ok] i(1) by (simp add: page_ok_def aligned_iff_dvd)
qed

lemma used_in_pages: "used_pages h \<subseteq> heap_pages h"
  by (auto simp: used_pages_def heap_pages_def)

section \<open>The file in memory\<close>

text \<open>The header and the data of a file lie outside the small heap.\<close>

definition file_apart :: "u64 \<Rightarrow> nat \<Rightarrow> 'z kheap_state_scheme \<Rightarrow> bool" where
  "file_apart h n s \<longleftrightarrow> (\<forall>p \<in> heap_pages (small_kheap s). \<forall>a. in_page p a \<longrightarrow> 512 + n \<le> unat (a - h))"

lemma tar_entry_cong:
  assumes "tar_entry m h f" "length (fst f) < 512" "\<And>a. unat (a - h) < 512 + length (snd f) \<Longrightarrow> m' a = m a"
  shows "tar_entry m' h f"
proof -
  have N: "length (snd f) < 2 ^ 33" by (rule tar_entry_len [OF assms(1)])
  have same: "m' (h + of_nat i) = m (h + of_nat i)" if "i < 512 + length (snd f)" for i
  proof (rule assms(3))
    have "unat (of_nat i :: u64) = i" by (rule unat_of_nat_64) (use that N in simp)
    then show "unat (h + of_nat i - h) < 512 + length (snd f)" using that by simp
  qed
  have digits: "ptr (h + 124) m' j = ptr (h + 124) m j" if "j < 11" for j
    using same [of "124 + j"] that by (simp add: ptr_def add.assoc)
  have data: "m' (h + 512 + of_nat j) = m (h + 512 + of_nat j)" if "j < length (snd f)" for j
    using same [of "512 + j"] that by (simp add: add.assoc)
  have name: "ptr h m' j = ptr h m j" if "j \<le> length (fst f)" for j
    using same [of j] that assms(2) by (simp add: ptr_def)
  show ?thesis
    using assms(1) digits data name by (auto simp: tar_entry_def octal_field_def cstr_def)
qed

text \<open>A read behind the end of the file returns nothing.\<close>

lemma tar_read_raw_beyond:
  assumes "tar_entry (mem s) h f" "g_initrd s \<le> h" "h < g_initrd s + MAX_INITRD_SIZE" "h \<noteq> 0"
    and "of_nat (length (snd f)) < off"
  shows "tar_read_raw h buf len off s = Inr (0, s)"
  using assms tar_filesize_entry [OF assms(1)] by (simp add: tar_read_raw_def kop_simps Let_def)

text \<open>The byte at an offset of the file, zero behind its end.\<close>

definition seg_byte :: "tfile \<Rightarrow> nat \<Rightarrow> u8" where
  "seg_byte f k = (if k < length (snd f) then snd f ! k else 0)"

text \<open>An open file of the ramdisk, as the loader needs it.\<close>

definition elf_file :: "nat \<Rightarrow> tfile \<Rightarrow> 'z fs_state_scheme \<Rightarrow> bool" where
  "elf_file i f s \<longleftrightarrow> i < length (filetab s) \<and> length (fst f) < 512 \<and>
     (let h = f_inode (filetab s ! i) in tar_entry (mem s) h f \<and> g_initrd s \<le> h \<and> h < g_initrd s + MAX_INITRD_SIZE \<and> h \<noteq> 0 \<and>
        file_apart h (length (snd f)) s)"

lemma file_apart_copy:
  assumes apart: "file_apart h n s" and p: "p \<in> heap_pages (small_kheap s)" and n: "n < 2 ^ 33" and off: "unat off \<le> n"
    and b: "unat b \<le> n - unat off"
  shows "copy_ok p (h + 512 + off) b"
proof (rule ccontr)
  assume "\<not> ?thesis"
  then have lt: "unat (p - (h + 512 + off)) < unat b" by (simp add: copy_ok_def)
  let ?d = "unat (p - (h + 512 + off))"
  have u: "unat (of_nat (512 + unat off + ?d) :: u64) = 512 + unat off + ?d"
  proof (rule unat_of_nat_64)
    have "512 + unat off + ?d < 512 + n" using lt b off by linarith
    also have "\<dots> < 2 ^ 64" using n by simp
    finally show "512 + unat off + ?d < 2 ^ 64" .
  qed
  have "p - h = of_nat (512 + unat off + ?d)" by simp
  then have "unat (p - h) = 512 + unat off + ?d" using u by simp
  moreover have "in_page p p" by (simp add: in_page_def)
  then have "512 + n \<le> unat (p - h)" using apart p by (simp add: file_apart_def)
  ultimately show False using lt b off by linarith
qed

lemma fill_page:
  assumes f: "elf_file i f s" and p: "p \<in> heap_pages (small_kheap s)"
  shows "kseq (kmodify (\<lambda>s. s\<lparr>mem := memset p 0 SMALL_PAGE_SIZE (mem s)\<rparr>))
      (kseq (tar_read_at i p SMALL_PAGE_SIZE off) (kreturn ())) s =
    Inr ((), s\<lparr>mem := (\<lambda>a. if in_page p a then seg_byte f (unat off + unat (a - p)) else mem s a)\<rparr>)"
proof -
  define h where "h = f_inode (filetab s ! i)"
  have e: "tar_entry (mem s) h f" and ini: "g_initrd s \<le> h" "h < g_initrd s + MAX_INITRD_SIZE" "h \<noteq> 0"
    and apart: "file_apart h (length (snd f)) s" and i: "i < length (filetab s)" and nm: "length (fst f) < 512"
    using f by (simp_all add: elf_file_def Let_def h_def)
  let ?N = "length (snd f)"
  have N: "?N < 2 ^ 33" by (rule tar_entry_len [OF e])
  have uN: "unat (of_nat ?N :: u64) = ?N" by (rule unat_of_nat_64) (use N in simp)
  define t where "t = s\<lparr>mem := memset p 0 SMALL_PAGE_SIZE (mem s)\<rparr>"
  have mt: "mem t a = (if in_page p a then 0 else mem s a)" for a
    by (simp add: t_def memset_apply in_page_def size_consts)
  have e': "tar_entry (mem t) h f"
  proof (rule tar_entry_cong [OF e nm])
    fix a assume "unat (a - h) < 512 + ?N"
    then have "\<not> in_page p a" using apart p by (auto simp: file_apart_def not_less [symmetric])
    then show "mem t a = mem s a" by (simp add: mt)
  qed
  have ini': "g_initrd t \<le> h" "h < g_initrd t + MAX_INITRD_SIZE" using ini by (simp_all add: t_def)
  have "\<exists>r. tar_read_raw h p SMALL_PAGE_SIZE off t =
      Inr (r, s\<lparr>mem := (\<lambda>a. if in_page p a then seg_byte f (unat off + unat (a - p)) else mem s a)\<rparr>)"
  proof (cases "off \<le> of_nat ?N")
    case True
    then have uo: "unat off \<le> ?N" using uN by (simp add: word_le_nat_alt)
    have ub: "unat (min_u64 SMALL_PAGE_SIZE (of_nat ?N - off)) \<le> ?N - unat off"
      using True uN by (simp add: min_u64_def unat_sub word_less_nat_alt)
    note run = tar_read_raw_run [OF e' ini' ini(3) True file_apart_copy [OF apart p N uo ub], unfolded Let_def]
    have "unat (SMALL_PAGE_SIZE) = 4096" by (simp add: size_consts)
    then have "(\<lambda>a. if unat (a - p) < min (unat SMALL_PAGE_SIZE) (?N - unat off) then snd f ! (unat off + unat (a - p)) else mem t a) =
        (\<lambda>a. if in_page p a then seg_byte f (unat off + unat (a - p)) else mem s a)"
      using uo by (auto simp: fun_eq_iff mt in_page_def seg_byte_def)
    with run show ?thesis by (simp add: t_def)
  next
    case False
    then have "of_nat ?N < off" by simp
    from tar_read_raw_beyond [OF e' ini' ini(3) this] have "tar_read_raw h p SMALL_PAGE_SIZE off t = Inr (0, t)" .
    moreover have "?N < unat off" using False uN by (simp add: word_le_nat_alt)
    then have "mem t = (\<lambda>a. if in_page p a then seg_byte f (unat off + unat (a - p)) else mem s a)"
      by (auto simp: fun_eq_iff mt seg_byte_def)
    ultimately show ?thesis by (simp add: t_def)
  qed
  then show ?thesis
    using i by (auto simp: kop_simps tar_read_at_def get_file_run t_def h_def)
qed

section \<open>One page of a segment\<close>

lemma elf_file_step:
  fixes s s' :: "'z fs_state_scheme"
  assumes "vm_ok ops root s" "vm_step ops root s s'" "elf_file i f s"
  shows "elf_file i f s'"
proof -
  note st = vm_stepD [OF assms(2)]
  have eqs: "filetab s' = filetab s" "g_initrd s' = g_initrd s"
    using arg_cong [OF st(2), of filetab] arg_cong [OF st(2), of g_initrd] by simp_all
  let ?h = "f_inode (filetab s ! i)" and ?n = "length (snd f)"
  have f: "tar_entry (mem s) ?h f" "file_apart ?h ?n s" "length (fst f) < 512" using assms(3) by (simp_all add: elf_file_def Let_def)
  have "used_pages (small_kheap s') \<subseteq> heap_pages (small_kheap s)" using used_in_pages [of "small_kheap s'"] st(3) by simp
  then have sub: "vm_tables ops root s \<union> (small_used s' - small_used s) \<subseteq> heap_pages (small_kheap s)"
    using assms(1) used_in_pages [of "small_kheap s"] by (auto simp: vm_ok_def)
  have "tar_entry (mem s') ?h f"
  proof (rule tar_entry_cong [OF f(1,3)])
    fix a assume a: "unat (a - ?h) < 512 + ?n"
    have "\<not> in_page p a" if "p \<in> heap_pages (small_kheap s)" for p
      using f(2) a that by (auto simp: file_apart_def not_less [symmetric])
    then show "mem s' a = mem s a" by (intro st(6)) (use sub in blast)
  qed
  then show ?thesis using assms(3) eqs st(3) by (simp add: elf_file_def Let_def file_apart_def)
qed

text \<open>After the round for one page: \<open>p\<close> is the page taken for the contents and \<open>e\<close> the entry that maps it.\<close>

definition page_loaded ::
  "isa \<Rightarrow> u64 \<Rightarrow> tfile \<Rightarrow> nat \<Rightarrow> u64 \<Rightarrow> u64 \<Rightarrow> u64 \<Rightarrow> 'z kheap_state_scheme \<Rightarrow> 'z kheap_state_scheme \<Rightarrow> bool" where
  "page_loaded arch root f off va p e s s' \<longleftrightarrow>
     p \<in> small_used s' - small_used s \<and> p \<notin> vm_tables (isa_pte arch) root s' \<and>
     pte_get_phys (isa_pte arch) e = KERN_V2P p \<and> isa_user arch e \<and>
     (\<forall>va'. vm_lookup (isa_pte arch) root s' va' =
        (if same_page PAGE_SMALL va va' then Some (e, 0) else vm_lookup (isa_pte arch) root s va')) \<and>
     (\<forall>a. in_page p a \<longrightarrow> mem s' a = seg_byte f (off + unat (a - p)))"

lemma load_seg_page_runs:
  fixes s :: "'z fs_state_scheme"
  assumes ok: "vm_ok (isa_pte arch) root s" and f: "elf_file i f s"
    and va: "va = p_vaddr lc + SMALL_PAGE_SIZE * of_nat j" "IS_ALIGNED_SMALL va"
    and above: "\<And>e k. vm_lookup (isa_pte arch) root s va = Some (e, k) \<Longrightarrow> k = 0"
    and free: "4 \<le> card (small_free s)"
  shows "runs (load_seg_page (isa_pte arch) root i lc j) s (\<lambda>_ s'. vm_step (isa_pte arch) root s s' \<and>
    card (small_free s) - 4 \<le> card (small_free s') \<and>
    (\<exists>p e. page_loaded arch root f (unat (p_offset lc + SMALL_PAGE_SIZE * of_nat j)) va p e s s'))"
proof -
  let ?ops = "isa_pte arch" and ?off = "p_offset lc + SMALL_PAGE_SIZE * of_nat j"
  have wf: "wf_kheap s" using ok by (simp add: vm_ok_def)
  have "small_free s \<noteq> {}" using free by (metis card.empty not_numeral_le_zero)
  from small_alloc [OF wf this] obtain p h where al: "alloc_page PAGE_SMALL s = Inr (p, s\<lparr>small_kheap := h\<rparr>)"
    and p: "p \<in> small_free s" "page_ok p" and h: "used_pages h = insert p (small_used s)"
      "heap_pages h = heap_pages (small_kheap s)" "wf_kheap (s\<lparr>small_kheap := h\<rparr>)" by metis
  define s1 where "s1 = s\<lparr>small_kheap := h\<rparr>"
  have t1: "vm_tables ?ops root s1 = vm_tables ?ops root s" by (simp add: s1_def)
  have ok1: "vm_ok ?ops root s1" using ok h by (auto simp: vm_ok_def s1_def)
  have step1: "vm_step ?ops root s s1" using ok1 h t1 by (auto simp: vm_step_def s1_def)
  have fin: "finite (small_free s)" using free card.infinite by fastforce
  have "small_free s1 = small_free s - {p}" using h by (auto simp: s1_def)
  then have free1: "card (small_free s1) = card (small_free s) - 1" using p(1) fin by simp
  have pa: "pa_fits (isa_width arch) (KERN_V2P p)" by (rule isa.table_pa_fits [OF p(2)])
  have pre: "map_pre arch root va (KERN_V2P p) PAGE_SMALL MODE_USER s1"
    unfolding map_pre_def using ok1 va(2) pa above free free1 by (auto simp: s1_def pa_fits_def)
  obtain s2 e where mp: "map_page ?ops root va (KERN_V2P p) PAGE_SMALL MODE_USER s1 = Inr ((), s2)"
    and e: "pte_get_phys ?ops e = KERN_V2P p" "isa_user arch e" and step2: "vm_step ?ops root s1 s2"
    and free2: "card (small_free s1) - 3 \<le> card (small_free s2)"
    and lk2: "\<And>va'. vm_lookup ?ops root s2 va' = (if same_page PAGE_SMALL va va' then Some (e, 0) else vm_lookup ?ops root s1 va')"
    using isa_map_page [OF pre] by (auto simp: runs_def)
  note st1 = vm_stepD [OF step1] and st2 = vm_stepD [OF step2]
  have ph: "p \<in> heap_pages (small_kheap s2)" using p(1) st1(3) st2(3) by simp
  have f2: "elf_file i f s2" by (rule elf_file_step [OF ok1 step2 elf_file_step [OF ok step1 f]])
  define m where "m = (\<lambda>a. if in_page p a then seg_byte f (unat ?off + unat (a - p)) else mem s2 a)"
  define s3 where "s3 = s2\<lparr>mem := m\<rparr>"
  have pt: "p \<notin> vm_tables ?ops root s2"
  proof
    assume "p \<in> vm_tables ?ops root s2"
    then have "p \<in> vm_tables ?ops root s1" using st2(5) h(1) by (auto simp: s1_def)
    then show False using t1 ok p(1) by (auto simp: vm_ok_def)
  qed
  have out: "\<not> in_page p a \<Longrightarrow> m a = mem s2 a" for a by (simp add: m_def)
  note dw = data_write [OF st2(1) p(2) pt out, folded s3_def]
  have run: "load_seg_page ?ops root i lc j s = Inr ((), s3)"
    using al mp fill_page [OF f2 ph, of ?off] by (simp add: load_seg_page_def Let_def kop_simps s1_def s3_def m_def va(1))
  have step12: "vm_step ?ops root s s2" by (rule vm_step_trans [OF step1 step2])
  note st = vm_stepD [OF step12]
  have pu: "p \<in> small_used s2 - small_used s" using p(1) h(1) st2(4) by (auto simp: s1_def)
  have step: "vm_step ?ops root s s3"
    unfolding vm_step_def
  proof (intro conjI allI impI)
    show "s3 = s\<lparr>mem := mem s3, small_kheap := small_kheap s3\<rparr>" unfolding s3_def by (subst st(2)) simp
    show "heap_pages (small_kheap s3) = heap_pages (small_kheap s)" "small_used s \<subseteq> small_used s3" using st(3,4) by (simp_all add: s3_def)
    show "vm_tables ?ops root s3 \<subseteq> vm_tables ?ops root s \<union> (small_used s3 - small_used s)"
      using st(5) dw(3) by (simp add: s3_def)
    fix a assume a: "\<forall>q \<in> vm_tables ?ops root s \<union> (small_used s3 - small_used s). \<not> in_page q a"
    then have "\<not> in_page p a" using pu by (simp add: s3_def)
    moreover have "mem s2 a = mem s a" by (rule st(6)) (use a in \<open>simp add: s3_def\<close>)
    ultimately show "mem s3 a = mem s a" by (simp add: s3_def m_def)
  qed (rule dw(1))
  have "page_loaded arch root f (unat ?off) va p e s s3"
    unfolding page_loaded_def using pu pt e lk2 dw(2,3) by (auto simp: s3_def s1_def m_def)
  moreover have "card (small_free s) - 4 \<le> card (small_free s3)" using free1 free2 by (simp add: s3_def)
  ultimately show ?thesis unfolding runs_def using run step by blast
qed

section \<open>A whole segment\<close>

text \<open>Page \<open>j\<close> of a segment, and the number of its pages.\<close>

definition seg_va :: "proghdr_t \<Rightarrow> nat \<Rightarrow> u64" where
  "seg_va lc j = p_vaddr lc + SMALL_PAGE_SIZE * of_nat j"

definition seg_pages :: "proghdr_t \<Rightarrow> nat" where
  "seg_pages lc = (unat (p_memsz lc) + 4095) div 4096"

lemma seg_pages_code:
  assumes "unat (p_memsz lc) + 4096 \<le> 2 ^ 64"
  shows "unat (ROUND_UP_POW2 (p_memsz lc) SMALL_PAGE_SIZE div SMALL_PAGE_SIZE) = seg_pages lc"
proof -
  have "unat (ROUND_UP_POW2 (p_memsz lc) (2 ^ 12)) = (unat (p_memsz lc) + (2 ^ 12 - 1)) div 2 ^ 12 * 2 ^ 12"
    by (rule round_up_unat) (use assms in simp_all)
  then show ?thesis by (simp add: unat_div seg_pages_def size_consts)
qed

lemma seg_va_aligned:
  assumes "IS_ALIGNED_SMALL (p_vaddr lc)"
  shows "IS_ALIGNED_SMALL (seg_va lc j)"
proof -
  have "4096 dvd unat (p_vaddr lc)" using assms by (simp add: aligned_iff_dvd)
  moreover have "4096 dvd unat (SMALL_PAGE_SIZE * of_nat j :: u64)"
    by (simp add: unat_word_ariths size_consts) (rule dvd_mod, simp_all)
  ultimately have "4096 dvd (unat (p_vaddr lc) + unat (SMALL_PAGE_SIZE * of_nat j :: u64)) mod 2 ^ 64" by (intro dvd_mod dvd_add) simp_all
  then show ?thesis by (simp add: aligned_iff_dvd seg_va_def unat_word_ariths)
qed

lemma seg_va_page:
  assumes al: "IS_ALIGNED_SMALL (p_vaddr lc)" and "i < 2 ^ 36" "j < 2 ^ 36" and same: "same_page PAGE_SMALL (seg_va lc i) (seg_va lc j)"
  shows "i = j"
proof -
  obtain w where w: "unat (p_vaddr lc) = 4096 * w" using al by (auto simp: aligned_iff_dvd)
  have pg: "unat (drop_bit 12 (take_bit 48 (seg_va lc k))) = (w + k) mod 2 ^ 36" for k
  proof -
    have "unat (take_bit 48 (seg_va lc k)) = unat (seg_va lc k) mod 2 ^ 48" 
      by (simp only: unsigned_take_bit_eq) (simp add: take_bit_eq_mod)
    also have "unat (seg_va lc k) = (4096 * w + 4096 * k) mod 2 ^ 64"
      by (simp add: seg_va_def unat_word_ariths w size_consts unat_of_nat take_bit_eq_mod mod_simps)
    also have "\<dots> mod 2 ^ 48 = 4096 * ((w + k) mod 2 ^ 36)"
    proof -
      have "(4096 * w + 4096 * k) mod 2 ^ 64 mod 2 ^ 48 = (4096 * w + 4096 * k) mod (2 ^ 48 :: nat)" by (rule mod_mod_cancel) (simp add: le_imp_power_dvd)
      also have "\<dots> = 4096 * ((w + k) mod 2 ^ 36)" 
        using mult_mod_right [of 4096 "w + k" "2 ^ 36"] by (simp add: distrib_left)
      finally show ?thesis .
    qed
    finally show ?thesis by (simp add: drop_bit_eq_div unat_div)
  qed
  have "(w + i) mod 2 ^ 36 = (w + j) mod 2 ^ 36" 
    using same pg [of i] pg [of j] by (simp add: same_page_def)
  then have "int ((w + i) mod 2 ^ 36) = int ((w + j) mod 2 ^ 36)" by simp
  then have "int (w + i) mod 2 ^ 36 = int (w + j) mod 2 ^ 36" by (simp only: of_nat_mod of_nat_power of_nat_numeral)
  then have "(2 ^ 36 :: int) dvd int i - int j" by (simp add: mod_eq_dvd_iff)
  then show ?thesis using dvd_imp_le_int [of "int i - int j" "2 ^ 36"] assms(2,3) by fastforce
qed

text \<open>
  After \<open>n\<close> pages: page \<open>j\<close> of the segment is mapped for user mode by the entry \<open>e j\<close> to the page \<open>p j\<close>, which was free,
  holds no table and contains the bytes of the file from page \<open>j\<close> of the segment on, zeroes behind its end. No
  other translation has changed.
\<close>

definition seg_loaded ::
  "isa \<Rightarrow> u64 \<Rightarrow> tfile \<Rightarrow> proghdr_t \<Rightarrow> nat \<Rightarrow> (nat \<Rightarrow> u64) \<Rightarrow> (nat \<Rightarrow> u64) \<Rightarrow> 'z kheap_state_scheme \<Rightarrow> 'z kheap_state_scheme \<Rightarrow> bool" where
  "seg_loaded arch root f lc n p e s s' \<longleftrightarrow> inj_on p {..<n} \<and>
     (\<forall>j < n. p j \<in> small_used s' - small_used s \<and> p j \<notin> vm_tables (isa_pte arch) root s' \<and>
        pte_get_phys (isa_pte arch) (e j) = KERN_V2P (p j) \<and> isa_user arch (e j) \<and>
        (\<forall>va. same_page PAGE_SMALL (seg_va lc j) va \<longrightarrow> vm_lookup (isa_pte arch) root s' va = Some (e j, 0)) \<and>
        (\<forall>k < 4096. mem s' (p j + of_nat k) = seg_byte f (unat (p_offset lc) + 4096 * j + k))) \<and>
     (\<forall>va. (\<forall>j < n. \<not> same_page PAGE_SMALL (seg_va lc j) va) \<longrightarrow>
        vm_lookup (isa_pte arch) root s' va = vm_lookup (isa_pte arch) root s va)"

lemma seg_loaded_step:
  assumes n: "seg_loaded arch root f lc n p e s t" and step: "vm_step (isa_pte arch) root t t'"
    and old: "vm_ok (isa_pte arch) root t" "small_used s \<subseteq> small_used t"
    and new: "page_loaded arch root f (unat (p_offset lc) + 4096 * n) (seg_va lc n) q x t t'"
    and al: "IS_ALIGNED_SMALL (p_vaddr lc)" and lt: "n < 2 ^ 36"
  shows "seg_loaded arch root f lc (Suc n) (p(n := q)) (e(n := x)) s t'"
proof -
  let ?ops = "isa_pte arch"
  note st = vm_stepD [OF step]
  have q: "q \<in> small_used t' - small_used t" "q \<notin> vm_tables ?ops root t'" "pte_get_phys ?ops x = KERN_V2P q" "isa_user arch x"
    and lk: "\<And>va. vm_lookup ?ops root t' va = (if same_page PAGE_SMALL (seg_va lc n) va then Some (x, 0) else vm_lookup ?ops root t va)"
    and bytes: "\<And>a. in_page q a \<Longrightarrow> mem t' a = seg_byte f (unat (p_offset lc) + 4096 * n + unat (a - q))"
    using new by (simp_all add: page_loaded_def)
  have p: "p j \<in> small_used t" "p j \<notin> small_used s" "p j \<notin> vm_tables ?ops root t" "pte_get_phys ?ops (e j) = KERN_V2P (p j)" "isa_user arch (e j)"
    "\<And>va. same_page PAGE_SMALL (seg_va lc j) va \<Longrightarrow> vm_lookup ?ops root t va = Some (e j, 0)"
    "\<And>k. k < 4096 \<Longrightarrow> mem t (p j + of_nat k) = seg_byte f (unat (p_offset lc) + 4096 * j + k)" if "j < n" for j
    using n that by (auto simp: seg_loaded_def)
  have pages: "page_ok r" if "r \<in> small_used t'" for r
    using small_page_ok [of t' r] st(1) that used_in_pages by (auto simp: vm_ok_def)
  have inp: "in_page r (r + of_nat k)" "unat (of_nat k :: u64) = k" if "k < 4096" for r k
    using that by (simp_all add: in_page_def unat_of_nat_64)
  have keep: "mem t' (p j + of_nat k) = mem t (p j + of_nat k)" if "j < n" "k < 4096" for j k
  proof (rule st(6))
    fix r assume r: "r \<in> vm_tables ?ops root t \<union> (small_used t' - small_used t)"
    then have "r \<in> small_used t'" "r \<noteq> p j" using p(1,3) [OF that(1)] old(1) st(4) by (auto simp: vm_ok_def)
    then show "\<not> in_page r (p j + of_nat k)"
      using in_page_unique [OF pages pages _ inp(1) [OF that(2)]] p(1) [OF that(1)] st(4) by blast
  qed
  show ?thesis
    unfolding seg_loaded_def
  proof (intro conjI allI impI)
    have "inj_on p {..<n}" using n by (simp add: seg_loaded_def)
    moreover have "q \<notin> p ` {..<n}" using p(1) q(1) by auto
    ultimately show "inj_on (p(n := q)) {..<Suc n}" by (auto simp: inj_on_def less_Suc_eq)
    fix j assume j: "j < Suc n"
    show "(p(n := q)) j \<in> small_used t' - small_used s"
      using j q(1) p(1,2) [of j] st(4) old(2) by (cases "j = n") auto
    show "(p(n := q)) j \<notin> vm_tables ?ops root t'"
      using j q(2) p(1,3) [of j] st(5) by (cases "j = n") auto
    show "pte_get_phys ?ops ((e(n := x)) j) = KERN_V2P ((p(n := q)) j)" "isa_user arch ((e(n := x)) j)"
      using j q(3,4) p(4,5) [of j] by (cases "j = n"; simp)+
    show "vm_lookup ?ops root t' va = Some ((e(n := x)) j, 0)" if "same_page PAGE_SMALL (seg_va lc j) va" for va
    proof (cases "j = n")
      case False
      then have "\<not> same_page PAGE_SMALL (seg_va lc n) va"
        using that seg_va_page [OF al, of j n] j lt by (auto simp: same_page_def)
      then show ?thesis using lk [of va] p(6) that False j by simp
    qed (use lk that in simp)
    show "mem t' ((p(n := q)) j + of_nat k) = seg_byte f (unat (p_offset lc) + 4096 * j + k)" if "k < 4096" for k
      using bytes [OF inp(1) [OF that]] keep p(7) that inp(2) j by (cases "j = n") simp_all
  next
    fix va assume "\<forall>j < Suc n. \<not> same_page PAGE_SMALL (seg_va lc j) va"
    then show "vm_lookup ?ops root t' va = vm_lookup ?ops root s va"
      using lk [of va] n by (auto simp: seg_loaded_def)
  qed
qed

lemma small_free_bound:
  assumes "wf_kheap s"
  shows "card (small_free s) < 2 ^ 36"
proof -
  have "length (alloc_map (small_kheap s)) = KHEAP_NUM_SMALL_PAGES" using assms heap_okD(3) by (auto simp: wf_kheap_def)
  then have "card (heap_pages (small_kheap s)) \<le> KHEAP_NUM_SMALL_PAGES" "finite (heap_pages (small_kheap s))"
    unfolding heap_pages_def using card_image_le [of "{i. i < KHEAP_NUM_SMALL_PAGES}" "heap_page (small_kheap s)"] by simp_all
  then have "card (small_free s) \<le> KHEAP_NUM_SMALL_PAGES" using card_mono [of "heap_pages (small_kheap s)" "small_free s"] by auto
  then show ?thesis by (simp add: size_consts)
qed

text \<open>C9: \<open>load_seg\<close> loads a segment of a program. For an open file of the ramdisk, a page table with no larger page in the
  way and enough free pages it returns; every page of the segment is then mapped for user mode, by an entry of its own, to
  a page that was free before, is used for nothing else and holds the bytes of the file from the offset of the segment
  on, zeroes behind the end of the file; no other address is translated differently, the page table stays
  well formed, and memory changes only in its tables and in pages newly taken.\<close>

theorem load_seg_correct:
  fixes s :: "'z fs_state_scheme"
  assumes ok: "vm_ok (isa_pte arch) root s" and f: "elf_file i f s"
    and sz: "0 < p_memsz lc" "unat (p_memsz lc) + 4096 \<le> 2 ^ 64" and al: "IS_ALIGNED_SMALL (p_vaddr lc)"
    and off: "unat (p_offset lc) + 4096 * seg_pages lc \<le> 2 ^ 64"
    and above: "\<forall>j < seg_pages lc. \<forall>e k. vm_lookup (isa_pte arch) root s (seg_va lc j) = Some (e, k) \<longrightarrow> k = 0"
    and free: "4 * seg_pages lc \<le> card (small_free s)"
  shows "runs (load_seg (isa_pte arch) root i lc) s (\<lambda>_ s'. vm_step (isa_pte arch) root s s' \<and>
    (\<exists>p e. seg_loaded arch root f lc (seg_pages lc) p e s s'))"
proof -
  let ?ops = "isa_pte arch" and ?n = "seg_pages lc"
  define I where "I j t \<longleftrightarrow> vm_step ?ops root s t \<and> card (small_free s) - 4 * j \<le> card (small_free t) \<and>
      (\<exists>p e. seg_loaded arch root f lc j p e s t)" for j and t :: "'z fs_state_scheme"
  have small: "?n < 2 ^ 36" using free small_free_bound [of s] ok by (simp add: vm_ok_def)
  have "runs (kfor [0..<?n] (load_seg_page ?ops root i lc)) s (\<lambda>_. I ?n)"
  proof (rule runs_kfor_upt)
    show "I 0 s" using vm_step_refl [OF ok] by (simp add: I_def seg_loaded_def)
    fix j t assume j: "j < ?n" and "I j t"
    then obtain p e where st: "vm_step ?ops root s t" and fr: "card (small_free s) - 4 * j \<le> card (small_free t)"
      and ld: "seg_loaded arch root f lc j p e s t" by (auto simp: I_def)
    have okt: "vm_ok ?ops root t" by (rule vm_stepD(1) [OF st])
    have ft: "elf_file i f t" by (rule elf_file_step [OF ok st f])
    have "\<not> same_page PAGE_SMALL (seg_va lc j') (seg_va lc j)" if "j' < j" for j'
      using seg_va_page [OF al, of j' j] that j small by auto
    then have lk: "vm_lookup ?ops root t (seg_va lc j) = vm_lookup ?ops root s (seg_va lc j)"
      using ld unfolding seg_loaded_def by blast
    have fj: "4 \<le> card (small_free t)" using fr free j by linarith
    have "4096 * j < 2 ^ 64" using small j by simp
    then have uo: "unat (p_offset lc + SMALL_PAGE_SIZE * of_nat j) = unat (p_offset lc) + 4096 * j"
      using off j unat_add_of_nat [of "p_offset lc" "4096 * j"] by (simp add: size_consts)
    show "runs (load_seg_page ?ops root i lc j) t (\<lambda>_. I (Suc j))"
    proof (rule runs_mono [OF load_seg_page_runs [OF okt ft seg_va_def seg_va_aligned [OF al] _ fj]])
      show "k = 0" if "vm_lookup ?ops root t (seg_va lc j) = Some (e, k)" for e k using that lk above j by auto
      fix t' assume a: "vm_step ?ops root t t' \<and> card (small_free t) - 4 \<le> card (small_free t') \<and>
        (\<exists>p e. page_loaded arch root f (unat (p_offset lc + SMALL_PAGE_SIZE * of_nat j)) (seg_va lc j) p e t t')"
      then obtain q x where "page_loaded arch root f (unat (p_offset lc) + 4096 * j) (seg_va lc j) q x t t'" unfolding uo by blast
      then have "seg_loaded arch root f lc (Suc j) (p(j := q)) (e(j := x)) s t'"
        using seg_loaded_step [OF ld _ okt vm_stepD(4) [OF st] _ al] a j small by simp
      then show "I (Suc j) t'" unfolding I_def using vm_step_trans [OF st] a fr by (auto simp del: fun_upd_apply)
    qed
  qed
  then have "runs (kfor [0..<?n] (load_seg_page ?ops root i lc)) s (\<lambda>_ t. vm_step ?ops root s t \<and>
      (\<exists>p e. seg_loaded arch root f lc ?n p e s t))"
    by (rule runs_mono) (simp add: I_def)
  then show ?thesis using sz(1) al seg_pages_code [OF sz(2)] by (simp add: load_seg_def Let_def)
qed

text \<open>The example archive next to the example page table, and a segment of two pages.\<close>

definition loader_demo :: fs_state where
  "loader_demo = tar_demo_open\<lparr>small_kheap := small_kheap vm_demo, large_kheap := large_kheap vm_demo\<rparr>"

definition demo_seg :: proghdr_t where
  "demo_seg = \<lparr>p_type = PT_LOAD, p_offset = 0, p_vaddr = 0x400000, p_filesz = 2, p_memsz = 4097\<rparr>"

lemma loader_demo_simps [simp]:
  "mem loader_demo = demo_image" "filetab loader_demo ! 0 = tar_regular 0x1000" "0 < length (filetab loader_demo)" "g_initrd loader_demo = 0x1000"
  "small_kheap loader_demo = small_kheap vm_demo" "large_kheap loader_demo = large_kheap vm_demo"
  by (simp_all add: loader_demo_def tar_demo_open_def tar_demo_def)

lemma demo_image_high: "0x10000 \<le> a \<Longrightarrow> demo_image a = 0"
  by (auto simp: demo_image_def)

lemma loader_demo_ok: "vm_ok (isa_pte arch) vm_demo_root loader_demo"
  and loader_demo_lookup: "vm_lookup (isa_pte arch) vm_demo_root loader_demo va = None"
proof -
  have "ent demo_image vm_demo_root i = 0" if i: "i < 512" for i
    unfolding ent_def
  proof (rule load64_zero)
    fix k :: nat assume "k < 8"
    then have "unat (pte_addr vm_demo_root i + of_nat k) = unat vm_demo_root + 8 * i + k" by (rule pte_addr_unat [OF vm_demo_page i])
    then show "demo_image (pte_addr vm_demo_root i + of_nat k) = 0" by (intro demo_image_high) (simp add: word_le_nat_alt)
  qed
  note z = zero_table [of vm_demo_root "ent demo_image" "isa_pte arch", OF vm_demo_page this isa.zero_invalid]
  show "vm_lookup (isa_pte arch) vm_demo_root loader_demo va = None" using z(3) by simp
  have "wf_kheap loader_demo" using vm_demo_ok by (simp add: wf_kheap_def vm_ok_def)
  then show "vm_ok (isa_pte arch) vm_demo_root loader_demo" using z by (simp add: vm_ok_def vm_demo_used)
qed

lemma loader_demo_file: "elf_file 0 ([0x61], [0x68, 0x69]) loader_demo"
proof -
  have wf: "wf_kheap vm_demo" using vm_demo_ok by (simp add: vm_ok_def)
  have "514 \<le> unat (a - 0x1000)" if "p \<in> heap_pages (small_kheap vm_demo)" "in_page p a" for p a
  proof -
    have p: "page_ok p" by (rule small_page_ok [OF wf that(1)])
    then have lo: "unat (KERNEL_LINK_ADDRESS) \<le> unat p" by (simp add: page_ok_def kern_addr_iff word_le_nat_alt)
    have "\<not> unat a < unat p" using far_apart [of p 4096 a] page_top [OF page_ok_dvd [OF p]] that(2) by (auto simp: in_page_def)
    then have "0x2000 \<le> unat a" using lo by (simp add: KERNEL_LINK_ADDRESS_def)
    then show ?thesis by (simp add: unat_sub word_le_nat_alt)
  qed
  then have "file_apart 0x1000 (length (snd ([0x61 :: u8], [0x68, 0x69 :: u8]))) loader_demo" by (simp add: file_apart_def)
  moreover have "tar_entry demo_image 0x1000 ([0x61], [0x68, 0x69])"
    using demo_tar_image by (simp add: demo_files_def tar_demo_def)
  moreover have "filetab loader_demo \<noteq> []" using loader_demo_simps(3) by auto
  ultimately show ?thesis
    by (simp add: elf_file_def tar_regular_def blank_file_def MAX_INITRD_SIZE_def size_consts)
qed

theorem load_seg_correct_witness:
  "runs (load_seg (isa_pte AARCH64) vm_demo_root 0 demo_seg) loader_demo (\<lambda>_ s'. \<exists>(p :: nat \<Rightarrow> u64) (e :: nat \<Rightarrow> u64). p 0 \<noteq> p 1 \<and>
     vm_lookup (isa_pte AARCH64) vm_demo_root s' 0x400123 = Some (e 0, 0) \<and> isa_user AARCH64 (e 0) \<and>
     pte_get_phys (isa_pte AARCH64) (e 1) = KERN_V2P (p 1) \<and> mem s' (p 0 + of_nat 1) = 0x69 \<and> mem s' (p 1 + of_nat 1) = 0)"
proof -
  have n: "seg_pages demo_seg = 2" by (simp add: seg_pages_def demo_seg_def)
  have va: "same_page PAGE_SMALL (seg_va demo_seg 0) 0x400123" using demo_same_page by (simp add: seg_va_def demo_seg_def)
  have al: "IS_ALIGNED_SMALL (p_vaddr demo_seg)" using demo_aligned by (simp add: demo_seg_def)
  have free: "4 * seg_pages demo_seg \<le> card (small_free loader_demo)" using vm_demo_free by (simp add: n)
  show ?thesis
  proof (rule runs_mono [OF load_seg_correct [OF loader_demo_ok loader_demo_file _ _ al _ _ free]])
    show "0 < p_memsz demo_seg" "unat (p_memsz demo_seg) + 4096 \<le> 2 ^ 64"
      "unat (p_offset demo_seg) + 4096 * seg_pages demo_seg \<le> 2 ^ 64" by (simp_all add: demo_seg_def seg_pages_def)
    show "\<forall>j < seg_pages demo_seg. \<forall>e k. vm_lookup (isa_pte AARCH64) vm_demo_root loader_demo (seg_va demo_seg j) = Some (e, k) \<longrightarrow> k = 0"
      unfolding loader_demo_lookup by simp
    fix s' assume "vm_step (isa_pte AARCH64) vm_demo_root loader_demo s' \<and>
      (\<exists>p e. seg_loaded AARCH64 vm_demo_root ([0x61], [0x68, 0x69]) demo_seg (seg_pages demo_seg) p e loader_demo s')"
    then obtain p e where l: "seg_loaded AARCH64 vm_demo_root ([0x61], [0x68, 0x69]) demo_seg 2 p e loader_demo s'" by (auto simp: n)
    have two: "(0 :: nat) < 2" "(1 :: nat) < 2" "(1 :: nat) < 4096" by simp_all
    have "p 0 \<noteq> p 1" using l two unfolding seg_loaded_def by (metis inj_onD lessThan_iff zero_neq_one)
    moreover have "vm_lookup (isa_pte AARCH64) vm_demo_root s' 0x400123 = Some (e 0, 0)" "isa_user AARCH64 (e 0)"
      using l two(1) va unfolding seg_loaded_def by blast+
    moreover have "pte_get_phys (isa_pte AARCH64) (e 1) = KERN_V2P (p 1)" using l two(2) unfolding seg_loaded_def by blast
    moreover have "mem s' (p j + of_nat 1) = seg_byte ([0x61], [0x68, 0x69]) (unat (p_offset demo_seg) + 4096 * j + 1)" if "j < 2" for j
      using l that two(3) unfolding seg_loaded_def by blast
    then have "mem s' (p 0 + of_nat 1) = 0x69" "mem s' (p 1 + of_nat 1) = 0"
      using two by (simp_all add: seg_byte_def demo_seg_def)
    ultimately show "\<exists>(p :: nat \<Rightarrow> u64) (e :: nat \<Rightarrow> u64). p 0 \<noteq> p 1 \<and> vm_lookup (isa_pte AARCH64) vm_demo_root s' 0x400123 = Some (e 0, 0) \<and> isa_user AARCH64 (e 0) \<and>
      pte_get_phys (isa_pte AARCH64) (e 1) = KERN_V2P (p 1) \<and> mem s' (p 0 + of_nat 1) = 0x69 \<and> mem s' (p 1 + of_nat 1) = 0" by blast
  qed
qed

end
