(* ===== verification/Sky_Open.thy ===== *)
theory Sky_Open
  imports Sky_Fds Sky_Access Sky_Loader
begin

text \<open>
  The \<open>open\<close> system call from the user's pointer to the descriptor (src/kernel/syscall.c over copyio.c, file.c and the file systems).
\<close>

section \<open>The property\<close>

text \<open>C38: \<open>sys_open\<close> of a user task, for every null-terminated path at a pointer whose \<open>MAX_PATHLEN\<close> bytes lie in the
  user half (below \<open>2 ^ 47\<close>) or at or above \<open>2 ^ 48\<close> without running past the end of the address space. When one of the
  bytes is not a user byte of the task it gives -1, when its descriptor table is full -2, when the path names no
  file -1, each without any effect. A console or display path gets the lowest free descriptor for the shared file
  of the device; a path of the ramdisk, or its directory, gets it for a file that was not open before, and nothing
  else of the state changes; the descriptor tables of all tasks stay sound. Every other name under \<open>/dev/\<close>, a display that
  does not exist, and a ramdisk path when all files of the system are in use stop the kernel.\<close>

theorem sys_open_correct:
  fixes s :: "'z task_state_scheme"
  assumes "fd_inv s" and "runs_task c s" and "user_task (k_arch env) c s" and "user_half (k_arch env) (pagetable (task_pool s ! c)) s"
    and "unat path + unat MAX_PATHLEN \<le> 2 ^ 47 \<or> 2 ^ 48 \<le> unat path \<and> unat path + unat MAX_PATHLEN < 2 ^ 64"
    and "tar_image (mem s) (g_initrd s) fs" and "cstr (ptr path) (mem s) xs"
  shows "if \<not> (\<forall>j < unat MAX_PATHLEN. user_byte (k_arch env) (pagetable (task_pool s ! c)) s (path + of_nat j))
    then sys_open env path s = Inr (- 1, s)
    else if \<forall>j < TASK_NUM_FILES. fds (task_pool s ! c) ! j \<noteq> None then sys_open env path s = Inr (- 2, s)
    else case path_target s fs xs of
      Inl e \<Rightarrow> sys_open env path s = Inl e
    | Inr None \<Rightarrow> sys_open env path s = Inr (- 1, s)
    | Inr (Some (Console f)) \<Rightarrow> runs (sys_open env path) s (\<lambda>r s'. gets_fd c s f s r s' \<and> fd_inv s')
    | Inr (Some (Ramdisk x)) \<Rightarrow>
        if open_files s = {i. i < NUM_FILES} then sys_open env path s = Inl (Panic ''file_alloc: out of available files'')
        else runs (sys_open env path) s (\<lambda>r s'. \<exists>f. f \<notin> open_files s \<and> open_files s' = insert f (open_files s) \<and>
          gets_fd c s f (s\<lparr>filetab := (filetab s)[f := x]\<rparr>) r s' \<and> fd_inv s')"
proof (rule sys_open_run [OF assms(1,2) _ assms(6,7)])
  let ?root = "pagetable (task_pool s ! c)"
  have "unat path + unat MAX_PATHLEN < 2 ^ 64" using assms(5) by auto
  then have "access_ok_cur (k_arch env) path MAX_PATHLEN s =
      Inr (\<forall>j < unat MAX_PATHLEN. mapped_byte (k_arch env) ?root s (path + of_nat j), s)"
    using access_ok_run [OF assms(3), of path MAX_PATHLEN] run_bytes [of path MAX_PATHLEN]
    by (auto simp: access_ok_cur_def kop_simps current_task_run [OF assms(2)])
  also have "(\<forall>j < unat MAX_PATHLEN. mapped_byte (k_arch env) ?root s (path + of_nat j)) =
      (\<forall>j < unat MAX_PATHLEN. user_byte (k_arch env) ?root s (path + of_nat j))"
    using assms(5)
  proof
    assume "2 ^ 48 \<le> unat path \<and> unat path + unat MAX_PATHLEN < 2 ^ 64"
    then have "\<not> mapped_byte (k_arch env) ?root s (path + of_nat 0)" by (simp add: mapped_byte_def is_user_va_unat)
    moreover have "0 < unat MAX_PATHLEN" by (simp add: MAX_PATHLEN_def)
    ultimately show ?thesis using user_byte_mapped by blast
  qed (rule user_range [OF assms(4)])
  finally show "access_ok_cur (k_arch env) path MAX_PATHLEN s =
      Inr (\<forall>j < unat MAX_PATHLEN. user_byte (k_arch env) ?root s (path + of_nat j), s)" .
qed

section \<open>An example\<close>

text \<open>Task 1 runs; its descriptor 5 is free, the page at \<open>0x9000\<close> holds the path \<open>a\<close> and becomes its only page.\<close>

definition open_demo :: task_state where
  "open_demo = fds_demo\<lparr>mem := demo_image, g_initrd := 0x1000, small_kheap := small_kheap vm_demo,
     task_pool := (task_pool fds_demo)[1 := (demo_task 1 THREAD_READY)\<lparr>fds := (replicate 16 (Some 1))[5 := None], pagetable := vm_demo_root\<rparr>]\<rparr>"

lemma open_demo_vm: "vm_ok (isa_pte arch) vm_demo_root open_demo" "vm_lookup (isa_pte arch) vm_demo_root open_demo va = None"
proof -
  have e: "mem open_demo = mem loader_demo" "small_kheap open_demo = small_kheap loader_demo" "large_kheap open_demo = large_kheap loader_demo"
    by (simp_all add: open_demo_def fds_demo_def sched_demo_def vm_demo_def)
  show "vm_lookup (isa_pte arch) vm_demo_root open_demo va = None" unfolding e by (rule loader_demo_lookup)
  show "vm_ok (isa_pte arch) vm_demo_root open_demo" using loader_demo_ok [of arch] by (simp add: vm_ok_def wf_kheap_def e)
qed

lemma low_memory_kept:
  assumes "vm_step ops vm_demo_root open_demo s'" and "vm_ok ops vm_demo_root open_demo" and "a < 0x10000"
  shows "mem s' a = demo_image a"
proof -
  note st = vm_stepD [OF assms(1)]
  have wf: "wf_kheap open_demo" using assms(2) by (simp add: vm_ok_def)
  have "\<not> in_page p a" if p: "p \<in> vm_tables ops vm_demo_root open_demo \<union> (small_used s' - small_used open_demo)" for p
  proof -
    have "p \<in> heap_pages (small_kheap open_demo)"
      using p used_in_pages [of "small_kheap s'"] used_in_pages [of "small_kheap open_demo"] st(3) assms(2) by (auto simp: vm_ok_def)
    then have pok: "page_ok p" by (rule small_page_ok [OF wf])
    then have lo: "unat KERNEL_LINK_ADDRESS \<le> unat p" by (simp add: page_ok_def kern_addr_iff word_le_nat_alt)
    have "unat a < unat p" using lo assms(3) by (simp add: KERNEL_LINK_ADDRESS_def word_less_nat_alt)
    then show ?thesis using far_apart [of p 4096 a] page_top [OF page_ok_dvd [OF pok]] by (auto simp: in_page_def)
  qed
  then have "mem s' a = mem open_demo a" by (rule st(6))
  then show ?thesis by (simp add: open_demo_def)
qed

lemma open_demo_inv: "fd_inv open_demo" "runs_task 1 open_demo" "open_files open_demo = {0, 1}"
proof -
  have fs: "fs_inv open_demo = fs_inv fds_demo" "stdio_files open_demo = stdio_files fds_demo" "open_files open_demo = open_files fds_demo"
    by (simp_all add: open_demo_def fs_inv_def files_ok_def open_files_def stdio_files_def file_is_stdio_def)
  show "open_files open_demo = {0, 1}" unfolding fs by (rule fds_demo_inv)
  have f: "fds (task_pool open_demo ! i) = (if i = 1 then (replicate 16 (Some 1))[5 := None] else replicate 16 (Some 1))" if "i < 2048" for i
    using that fds_demo_fds [of i] by (auto simp: open_demo_def nth_list_update fds_demo_def)
  have len: "length (task_pool open_demo) = 2048" by (simp add: open_demo_def fds_demo_def)
  have r: "f = 1" if "fd_refers open_demo i j f" for i j f
    using that f [of i] len by (cases "j = 5") (auto simp: fd_refers_def TASK_NUM_FILES_def split: if_splits)
  show "fd_inv open_demo"
    unfolding fd_inv_def fs using r f len fds_demo_inv by (auto simp: fd_inv_def TASK_NUM_FILES_def)
  show "runs_task 1 open_demo" by (simp add: runs_task_def open_demo_def fds_demo_def sched_demo_def demo_task_def)
qed

lemma open_demo_mapped:
  "\<exists>m h e. map_page (isa_pte RISCV64) vm_demo_root 0x9000 0x7000 PAGE_SMALL MODE_USER open_demo = Inr ((), open_demo\<lparr>mem := m, small_kheap := h\<rparr>) \<and>
     vm_ok (isa_pte RISCV64) vm_demo_root (open_demo\<lparr>mem := m, small_kheap := h\<rparr>) \<and> (\<forall>a < 0x10000. m a = demo_image a) \<and> isa_user RISCV64 e \<and>
     (\<forall>va. vm_lookup (isa_pte RISCV64) vm_demo_root (open_demo\<lparr>mem := m, small_kheap := h\<rparr>) va = (if same_page PAGE_SMALL 0x9000 va then Some (e, 0) else None))"
proof -
  let ?ops = "isa_pte RISCV64"
  have pre: "map_pre RISCV64 vm_demo_root 0x9000 0x7000 PAGE_SMALL MODE_USER open_demo"
    unfolding map_pre_def open_demo_vm using open_demo_vm(1) vm_demo_free
    by (simp add: open_demo_def is_aligned_def IS_ALIGNED_SMALL_def size_consts pa_fits_def)
  obtain s' e where run: "map_page ?ops vm_demo_root 0x9000 0x7000 PAGE_SMALL MODE_USER open_demo = Inr ((), s')"
    and st: "vm_step ?ops vm_demo_root open_demo s'"
    and e: "isa_user RISCV64 e"
    and l0: "\<And>va. vm_lookup ?ops vm_demo_root s' va = (if same_page PAGE_SMALL 0x9000 va then Some (e, page_size_to_level PAGE_SMALL)
      else vm_lookup ?ops vm_demo_root open_demo va)"
    using isa_map_page [OF pre] unfolding runs_def by auto
  note l = l0 [unfolded open_demo_vm(2)]
  note sd = vm_stepD [OF st]
  show ?thesis
    by (intro exI [of _ "mem s'"] exI [of _ "small_kheap s'"] exI [of _ e])
      (use run sd(1) e l low_memory_kept [OF st open_demo_vm(1)] in \<open>simp add: sd(2) [symmetric] del: kheap_state.update_convs\<close>)
qed

lemma open_demo_bytes:
  assumes "j < 255"
  shows "0x9000 + of_nat j < BIT 47" and "same_page PAGE_SMALL 0x9000 (0x9000 + of_nat j)"
proof -
  have u: "unat (0x9000 + of_nat j :: u64) = 0x9000 + j" using unat_add_of_nat [of "0x9000" j] assms by simp
  have "drop_bit 12 (take_bit 48 (0x9000 + of_nat j :: u64)) = drop_bit 12 (take_bit 48 0x9000)"
    using assms by (simp add: word_unat_eq_iff drop_bit_eq_div take_bit_eq_mod unat_div unat_mod u)
  then show "same_page PAGE_SMALL 0x9000 (0x9000 + of_nat j)" by (simp add: same_page_def)
  show "0x9000 + of_nat j < BIT 47"
    using assms by (simp add: BIT_def word_less_nat_alt u)
qed

text \<open>The call opens the file of the archive as descriptor 5.\<close>

theorem sys_open_correct_witness:
  "\<exists>s :: task_state. \<forall>env. runs (sys_open (env\<lparr>k_arch := RISCV64\<rparr>) 0x9000) s
     (\<lambda>r s'. r = 5 \<and> (\<exists>f. fds (task_pool s' ! 1) ! 5 = Some f \<and> f \<notin> {0, 1} \<and> open_files s' = {0, 1, f}))"
proof -
  obtain m h e where ok: "vm_ok (isa_pte RISCV64) vm_demo_root (open_demo\<lparr>mem := m, small_kheap := h\<rparr>)"
    and m: "\<And>a. a < 0x10000 \<Longrightarrow> m a = demo_image a"
    and e: "isa_user RISCV64 e"
    and l: "\<And>va. vm_lookup (isa_pte RISCV64) vm_demo_root (open_demo\<lparr>mem := m, small_kheap := h\<rparr>) va = (if same_page PAGE_SMALL 0x9000 va then Some (e, 0) else None)"
    using open_demo_mapped by blast
  define s where "s = open_demo\<lparr>mem := m, small_kheap := h\<rparr>"
  have x: "task_pool s ! 1 = (demo_task 1 THREAD_READY)\<lparr>fds := (replicate 16 (Some 1))[5 := None], pagetable := vm_demo_root\<rparr>"
    "length (task_pool s) = 2048" by (simp_all add: s_def open_demo_def fds_demo_def)
  have files: "open_files s = {0, 1}" using open_demo_inv(3) by (simp add: s_def open_files_def)
  have "fd_inv s = fd_inv open_demo"
    by (simp add: s_def fd_inv_def fd_refers_def fs_inv_def files_ok_def open_files_def stdio_files_def file_is_stdio_def)
  then have inv: "fd_inv s" using open_demo_inv(1) by simp
  have run1: "runs_task 1 s" using open_demo_inv(2) by (simp add: runs_task_def s_def)
  have user: "user_task RISCV64 1 s" unfolding user_task_def x using ok by (simp add: s_def demo_task_def)
  have entry: "tar_entry m 0x1000 ([0x61], [0x68, 0x69])"
  proof (rule tar_entry_cong)
    show "tar_entry demo_image 0x1000 ([0x61], [0x68, 0x69])" using demo_tar_image by (simp add: demo_files_def tar_demo_def)
    fix a :: u64 assume "unat (a - 0x1000) < 512 + length (snd ([0x61 :: u8], [0x68, 0x69 :: u8]))"
    then have "unat (a - 0x1000) < 514" by simp
    then have "unat (0x1000 + (a - 0x1000)) < 0x10000" using unat_add_of_nat [of "0x1000" "unat (a - 0x1000)"] by simp
    then show "m a = demo_image a" by (intro m) (simp add: word_less_nat_alt)
  qed simp
  have img: "tar_image (mem s) (g_initrd s) demo_files"
    using entry m [of "0x1400"] by (simp add: s_def open_demo_def demo_files_def tar_blocks_def demo_image_def)
  have path: "cstr (ptr 0x9000) (mem s) [0x61]"
    using m [of "0x9000"] m [of "0x9001"] by (simp add: cstr_def ptr_def s_def demo_image_def)
  have bytes: "\<forall>j < unat MAX_PATHLEN. user_byte RISCV64 (pagetable (task_pool s ! 1)) s (0x9000 + of_nat j)"
    unfolding x user_byte_def using open_demo_bytes l e by (simp add: s_def MAX_PATHLEN_def)
  have half: "user_half RISCV64 (pagetable (task_pool s ! 1)) s"
    unfolding x user_half_def using l e by (simp add: s_def)
  have dev: "take 5 [0x61 :: u8] \<noteq> bytes ''/dev/''" "[0x61 :: u8] \<noteq> bytes ''/dev/serial''" by (simp_all add: bytes_def)
  have room: "open_files s \<noteq> {i. i < NUM_FILES}"
  proof
    assume "open_files s = {i. i < NUM_FILES}"
    then have "(2 :: nat) \<in> {0, 1}" unfolding files by (simp add: NUM_FILES_def)
    then show False by simp
  qed
  have free: "fds (task_pool s ! 1) = (replicate 16 (Some 1))[5 := None]" unfolding x by simp
  have full: "\<not> (\<forall>j < TASK_NUM_FILES. fds (task_pool s ! 1) ! j \<noteq> None)" unfolding free by (auto simp: TASK_NUM_FILES_def intro: exI [of _ 5])
  have lookup: "tar_lookup (g_initrd s) demo_files [0x61] = Some 0x1000" by (simp add: s_def open_demo_def demo_files_def)
  have target: "path_target s demo_files [0x61] = Inr (Some (Ramdisk (tar_regular 0x1000)))"
    unfolding path_target_def using dev lookup by simp
  have "runs (sys_open (env\<lparr>k_arch := RISCV64\<rparr>) 0x9000) s
     (\<lambda>r s'. r = 5 \<and> (\<exists>f. fds (task_pool s' ! 1) ! 5 = Some f \<and> f \<notin> {0, 1} \<and> open_files s' = {0, 1, f}))" for env
  proof -
    let ?env = "env\<lparr>k_arch := RISCV64\<rparr>"
    have u: "user_task (k_arch ?env) 1 s" "user_half (k_arch ?env) (pagetable (task_pool s ! 1)) s" using user half by simp_all
    have len: "unat (0x9000 :: u64) + unat MAX_PATHLEN \<le> 2 ^ 47 \<or> 2 ^ 48 \<le> unat (0x9000 :: u64) \<and> unat (0x9000 :: u64) + unat MAX_PATHLEN < 2 ^ 64"
      by (simp add: MAX_PATHLEN_def)
    have b: "\<not> \<not> (\<forall>j < unat MAX_PATHLEN. user_byte (k_arch ?env) (pagetable (task_pool s ! 1)) s (0x9000 + of_nat j))" using bytes by simp
    note open_run = sys_open_correct [OF inv run1 u len img path, unfolded if_not_P [OF b] if_not_P [OF full] target, simplified sum.case option.case opened.case, unfolded if_not_P [OF room]]
    then show ?thesis
    proof (rule runs_mono, elim exE conjE)
      fix r f s' assume f: "f \<notin> open_files s" "open_files s' = insert f (open_files s)"
        and g: "gets_fd 1 s f (s\<lparr>filetab := (filetab s)[f := tar_regular 0x1000]\<rparr>) r s'"
      obtain j where j: "j < TASK_NUM_FILES" "r = of_nat j" "fds (task_pool s ! 1) ! j = None"
        and s': "s' = s\<lparr>filetab := (filetab s)[f := tar_regular 0x1000], task_pool := (task_pool s)[1 := (task_pool s ! 1)\<lparr>fds := (fds (task_pool s ! 1))[j := Some f]\<rparr>]\<rparr>"
        using g unfolding gets_fd_def by blast
      have "j = 5"
      proof (rule ccontr)
        assume "j \<noteq> 5"
        then have "fds (task_pool s ! 1) ! j = Some 1" unfolding free using j(1) by (simp add: TASK_NUM_FILES_def)
        then show False using j(3) by simp
      qed
      have fs': "fds (task_pool s' ! 1) = (fds (task_pool s ! 1))[j := Some f]" unfolding s' using x(2) by simp
      have "fds (task_pool s' ! 1) ! 5 = Some f" unfolding fs' \<open>j = 5\<close> free by simp
      moreover have "r = 5" unfolding j(2) \<open>j = 5\<close> by simp
      moreover have "f \<notin> {0, 1}" "open_files s' = {0, 1, f}" using f unfolding files by blast+
      ultimately show "r = 5 \<and> (\<exists>f. fds (task_pool s' ! 1) ! 5 = Some f \<and> f \<notin> {0, 1} \<and> open_files s' = {0, 1, f})" by blast
    qed
  qed
  then show ?thesis by blast
qed

end
