(* ===== verification/Sky_Device.thy ===== *)
theory Sky_Device
  imports Sky_Syscall
begin

text \<open>
  Device drivers: the two UARTs (src/io/serial/uart16550.c, src/io/serial/pl011.c), the three interrupt
  controllers (src/io/interrupt/apic.c, gic.c, plic.c).

  A driver talks to the machine through a \<open>bus\<close>: port input and output, loads and stores of device
  registers, and model-specific registers. The hardware behind it is an argument; what a property needs of
  the hardware is stated as a predicate on the bus. A polling loop with no limit is a partial function; one
  with a limit is a recursion on the polls that remain.
\<close>

record 's bus =
  inb :: "u16 \<Rightarrow> ('s, u8) kop"
  outb :: "u16 \<Rightarrow> u8 \<Rightarrow> ('s, unit) kop"
  dev_read8 :: "u64 \<Rightarrow> ('s, u8) kop"
  dev_write8 :: "u64 \<Rightarrow> u8 \<Rightarrow> ('s, unit) kop"
  dev_read32 :: "u64 \<Rightarrow> ('s, u32) kop"
  dev_write32 :: "u64 \<Rightarrow> u32 \<Rightarrow> ('s, unit) kop"
  read_msr :: "u32 \<Rightarrow> ('s, u64) kop"
  write_msr :: "u32 \<Rightarrow> u64 \<Rightarrow> ('s, unit) kop"

text \<open>\<open>while (!ready ()) { }\<close>.\<close>

partial_function (option) poll_loop :: "('s, bool) kop \<Rightarrow> 's \<Rightarrow> (kerr + unit \<times> 's) option" where
  "poll_loop ready s =
     (case ready s of
        Inl e \<Rightarrow> Some (Inl e)
      | Inr (r, s') \<Rightarrow> if r then Some (Inr ((), s')) else poll_loop ready s')"

text \<open>
  \<open>while (!ready ()) { if (counter++ > limit) give up }\<close>: \<open>n\<close> polls may still fail before the loop gives up.
\<close>

primrec poll_limited :: "nat \<Rightarrow> ('s, bool) kop \<Rightarrow> ('s, bool) kop" where
  "poll_limited 0 ready = ready"
| "poll_limited (Suc n) ready = kbind ready (\<lambda>r. if r then kreturn True else poll_limited n ready)"

section \<open>src/io/serial/uart16550.c\<close>

definition UART16550_NUM_REGS :: u16 where "UART16550_NUM_REGS = 8"
definition UART16550_DATA_REG :: u16 where "UART16550_DATA_REG = 0"
definition UART16550_INTERRUPT_ENABLE_REG :: u16 where "UART16550_INTERRUPT_ENABLE_REG = 1"
definition UART16550_BAUD_RATE_LSB :: u16 where "UART16550_BAUD_RATE_LSB = 0"
definition UART16550_BAUD_RATE_MSB :: u16 where "UART16550_BAUD_RATE_MSB = 1"
definition UART16550_LINE_CONTROL_REG :: u16 where "UART16550_LINE_CONTROL_REG = 3"
definition UART16550_MODEM_CONTROL_REG :: u16 where "UART16550_MODEM_CONTROL_REG = 4"
definition UART16550_LINE_STATUS_REG :: u16 where "UART16550_LINE_STATUS_REG = 5"
definition UART16550_LSR_RECV_READY_MASK :: u8 where "UART16550_LSR_RECV_READY_MASK = 0x01"
definition UART16550_LSR_SEND_READY_MASK :: u8 where "UART16550_LSR_SEND_READY_MASK = 0x20"
definition RECV_TIMEOUT :: nat where "RECV_TIMEOUT = 5"

definition uart16550_write_reg :: "isa \<Rightarrow> 's bus \<Rightarrow> u64 \<Rightarrow> u16 \<Rightarrow> u8 \<Rightarrow> ('s, unit) kop" where
  "uart16550_write_reg arch b baseaddr reg val =
     (if reg > UART16550_NUM_REGS then kreturn ()
      else if arch = X86_64 then outb b (ucast (baseaddr + ucast reg)) val
      else dev_write8 b (baseaddr + ucast reg) val)"

definition uart16550_read_reg :: "isa \<Rightarrow> 's bus \<Rightarrow> u64 \<Rightarrow> u16 \<Rightarrow> ('s, u8) kop" where
  "uart16550_read_reg arch b baseaddr reg =
     (if reg > UART16550_NUM_REGS then kreturn 0
      else if arch = X86_64 then inb b (ucast (baseaddr + ucast reg))
      else dev_read8 b (baseaddr + ucast reg))"

definition uart16550_init :: "isa \<Rightarrow> 's bus \<Rightarrow> u64 \<Rightarrow> ('s, unit) kop" where
  "uart16550_init arch b base =
     kseq (uart16550_write_reg arch b base UART16550_INTERRUPT_ENABLE_REG 0x00)
     (kseq (uart16550_write_reg arch b base UART16550_LINE_CONTROL_REG 0x80)
     (kseq (uart16550_write_reg arch b base UART16550_BAUD_RATE_LSB 0x01)
     (kseq (uart16550_write_reg arch b base UART16550_BAUD_RATE_MSB 0x00)
     (kseq (uart16550_write_reg arch b base UART16550_LINE_CONTROL_REG 0x03)
     (kseq (uart16550_write_reg arch b base UART16550_MODEM_CONTROL_REG 0x0F)
     (uart16550_write_reg arch b base UART16550_INTERRUPT_ENABLE_REG 0x01))))))"

definition uart16550_status :: "isa \<Rightarrow> 's bus \<Rightarrow> u64 \<Rightarrow> u8 \<Rightarrow> ('s, bool) kop" where
  "uart16550_status arch b base flag =
     kbind (uart16550_read_reg arch b base UART16550_LINE_STATUS_REG) (\<lambda>v. kreturn (v AND flag \<noteq> 0))"

definition uart16550_send :: "isa \<Rightarrow> 's bus \<Rightarrow> u64 \<Rightarrow> u8 \<Rightarrow> ('s, unit) kop" where
  "uart16550_send arch b base c =
     kseq (khang (poll_loop (uart16550_status arch b base UART16550_LSR_SEND_READY_MASK)))
     (uart16550_write_reg arch b base UART16550_DATA_REG c)"

definition uart16550_recv :: "isa \<Rightarrow> 's bus \<Rightarrow> u64 \<Rightarrow> ('s, u8) kop" where
  "uart16550_recv arch b base =
     kbind (poll_limited (RECV_TIMEOUT + 1) (uart16550_status arch b base UART16550_LSR_RECV_READY_MASK)) (\<lambda>ready.
       if ready then uart16550_read_reg arch b base UART16550_DATA_REG else kreturn 0)"

definition uart16550_has_data :: "isa \<Rightarrow> 's bus \<Rightarrow> u64 \<Rightarrow> ('s, bool) kop" where
  "uart16550_has_data arch b base =
     kbind (uart16550_read_reg arch b base (UART16550_LINE_STATUS_REG AND ucast UART16550_LSR_RECV_READY_MASK)) (\<lambda>v.
       kreturn (v \<noteq> 0))"

definition uart16550_uart_ops :: "isa \<Rightarrow> 's bus \<Rightarrow> u64 \<Rightarrow> 's uart_ops" where
  "uart16550_uart_ops arch b base =
     \<lparr>uart_init = uart16550_init arch b base, uart_send = uart16550_send arch b base, uart_recv = uart16550_recv arch b base, uart_has_data = uart16550_has_data arch b base\<rparr>"

section \<open>src/io/serial/pl011.c\<close>

definition REG_DR :: u16 where "REG_DR = 0x00"
definition REG_FR :: u16 where "REG_FR = 0x18"
definition REG_LCRH :: u16 where "REG_LCRH = 0x2C"
definition REG_CR :: u16 where "REG_CR = 0x30"
definition REG_IMSC :: u16 where "REG_IMSC = 0x38"
definition REG_ICR :: u16 where "REG_ICR = 0x44"
definition FLAG_RECV_EMPTY :: u32 where "FLAG_RECV_EMPTY = ucast (BIT 4)"
definition FLAG_XMIT_EMPTY :: u32 where "FLAG_XMIT_EMPTY = ucast (BIT 5)"
definition IMSC_INTERRUPT_RECV :: u32 where "IMSC_INTERRUPT_RECV = ucast (BIT 4)"
definition CR_ENABLED :: u32 where "CR_ENABLED = ucast (BIT 0)"
definition CR_XMIT_ENABLE :: u32 where "CR_XMIT_ENABLE = ucast (BIT 8)"
definition CR_RECV_ENABLE :: u32 where "CR_RECV_ENABLE = ucast (BIT 9)"

definition pl011_write_reg :: "'s bus \<Rightarrow> u64 \<Rightarrow> u16 \<Rightarrow> u32 \<Rightarrow> ('s, unit) kop" where
  "pl011_write_reg b baseaddr reg val = dev_write32 b (baseaddr + ucast reg) val"

definition pl011_read_reg :: "'s bus \<Rightarrow> u64 \<Rightarrow> u16 \<Rightarrow> ('s, u32) kop" where
  "pl011_read_reg b baseaddr reg = dev_read32 b (baseaddr + ucast reg)"

definition pl011_init :: "'s bus \<Rightarrow> u64 \<Rightarrow> ('s, unit) kop" where
  "pl011_init b base =
     kseq (pl011_write_reg b base REG_CR 0)
     (kseq (pl011_write_reg b base REG_ICR 0x7FF)
     (kseq (pl011_write_reg b base REG_LCRH (push_bit 5 3))
     (kseq (pl011_write_reg b base REG_IMSC IMSC_INTERRUPT_RECV)
     (pl011_write_reg b base REG_CR (CR_ENABLED OR CR_RECV_ENABLE OR CR_XMIT_ENABLE)))))"

text \<open>Whether a flag of the flag register is clear.\<close>

definition pl011_clear :: "'s bus \<Rightarrow> u64 \<Rightarrow> u32 \<Rightarrow> ('s, bool) kop" where
  "pl011_clear b base flag = kbind (pl011_read_reg b base REG_FR) (\<lambda>v. kreturn (v AND flag = 0))"

definition pl011_send :: "'s bus \<Rightarrow> u64 \<Rightarrow> u8 \<Rightarrow> ('s, unit) kop" where
  "pl011_send b base c =
     kseq (khang (poll_loop (pl011_clear b base FLAG_XMIT_EMPTY))) (pl011_write_reg b base REG_DR (ucast c))"

definition pl011_recv :: "'s bus \<Rightarrow> u64 \<Rightarrow> ('s, u8) kop" where
  "pl011_recv b base =
     kbind (poll_limited (RECV_TIMEOUT + 1) (pl011_clear b base FLAG_RECV_EMPTY)) (\<lambda>ready.
       if ready then kbind (pl011_read_reg b base REG_DR) (\<lambda>v. kreturn (ucast v)) else kreturn 0)"

definition pl011_has_data :: "'s bus \<Rightarrow> u64 \<Rightarrow> ('s, bool) kop" where
  "pl011_has_data b base = pl011_clear b base FLAG_RECV_EMPTY"

definition pl011_uart_ops :: "'s bus \<Rightarrow> u64 \<Rightarrow> 's uart_ops" where
  "pl011_uart_ops b base =
     \<lparr>uart_init = pl011_init b base, uart_send = pl011_send b base, uart_recv = pl011_recv b base, uart_has_data = pl011_has_data b base\<rparr>"

section \<open>src/io/interrupt/apic.c\<close>

record intctl_t =
  distributor :: u64
  local_ctl :: u64

definition I8259A_PIC1_CMD :: u16 where "I8259A_PIC1_CMD = 0x20"
definition I8259A_PIC1_DATA :: u16 where "I8259A_PIC1_DATA = 0x21"
definition I8259A_PIC2_CMD :: u16 where "I8259A_PIC2_CMD = 0xA0"
definition I8259A_PIC2_DATA :: u16 where "I8259A_PIC2_DATA = 0xA1"
definition IOAPIC_IOREGSEL :: u64 where "IOAPIC_IOREGSEL = 0"
definition IOAPIC_IOWIN :: u64 where "IOAPIC_IOWIN = 0x10"
definition IOAPIC_REG_TABLE :: u32 where "IOAPIC_REG_TABLE = 0x10"
definition IOAPIC_INT_DISABLE :: u32 where "IOAPIC_INT_DISABLE = ucast (BIT 16)"
definition IOAPIC_DEST_SHIFT :: nat where "IOAPIC_DEST_SHIFT = 24"
definition APIC_TIMER_PERIODIC :: u32 where "APIC_TIMER_PERIODIC = ucast (BIT 17)"
definition LAPIC_REG_ID :: u32 where "LAPIC_REG_ID = 0x20"
definition LAPIC_REG_EOI :: u32 where "LAPIC_REG_EOI = 0xB0"
definition LAPIC_REG_TPR :: u32 where "LAPIC_REG_TPR = 0x80"
definition LAPIC_REG_TIMER_LVT :: u32 where "LAPIC_REG_TIMER_LVT = 0x320"
definition LAPIC_REG_TIMER_INIT_COUNT :: u32 where "LAPIC_REG_TIMER_INIT_COUNT = 0x380"
definition IOAPIC_NUM_INTERRUPTS :: nat where "IOAPIC_NUM_INTERRUPTS = 24"
definition MSR_APIC_BASE :: u32 where "MSR_APIC_BASE = 0x1B"
definition LAPIC_DEFAULT_PHYS_ADDR :: u64 where "LAPIC_DEFAULT_PHYS_ADDR = 0xFEE00000"
definition APIC_ENABLE :: u64 where "APIC_ENABLE = BIT 11"
definition LAPIC_TIMER_DEADLINE :: u32 where "LAPIC_TIMER_DEADLINE = 0x10000"

definition ioapic_read :: "'s bus \<Rightarrow> intctl_t \<Rightarrow> u32 \<Rightarrow> ('s, u32) kop" where
  "ioapic_read b c reg =
     kseq (dev_write32 b (distributor c + IOAPIC_IOREGSEL) reg) (dev_read32 b (distributor c + IOAPIC_IOWIN))"

definition ioapic_write :: "'s bus \<Rightarrow> intctl_t \<Rightarrow> u32 \<Rightarrow> u32 \<Rightarrow> ('s, unit) kop" where
  "ioapic_write b c reg val =
     kseq (dev_write32 b (distributor c + IOAPIC_IOREGSEL) reg) (dev_write32 b (distributor c + IOAPIC_IOWIN) val)"

definition lapic_read :: "'s bus \<Rightarrow> intctl_t \<Rightarrow> u32 \<Rightarrow> ('s, u32) kop" where
  "lapic_read b c reg = dev_read32 b (local_ctl c + ucast reg)"

definition lapic_write :: "'s bus \<Rightarrow> intctl_t \<Rightarrow> u32 \<Rightarrow> u32 \<Rightarrow> ('s, unit) kop" where
  "lapic_write b c reg val = dev_write32 b (local_ctl c + ucast reg) val"

definition legacy_pic_disable :: "'s bus \<Rightarrow> ('s, unit) kop" where
  "legacy_pic_disable b =
     kseq (outb b I8259A_PIC1_DATA 0xFF)
     (kseq (outb b I8259A_PIC2_DATA 0xFF)
     (kseq (outb b I8259A_PIC1_CMD 0x20)
     (outb b I8259A_PIC2_CMD 0x20)))"

definition lapic_enable :: "'s bus \<Rightarrow> ('s, unit) kop" where
  "lapic_enable b =
     kseq (legacy_pic_disable b)
     (kbind (read_msr b MSR_APIC_BASE) (\<lambda>apic_base.
     kseq (kassert (apic_base AND NOT (MASK 12) = LAPIC_DEFAULT_PHYS_ADDR) ''assert'')
     (write_msr b MSR_APIC_BASE (apic_base OR APIC_ENABLE))))"

definition get_lapic_id :: "'s bus \<Rightarrow> intctl_t \<Rightarrow> ('s, u32) kop" where
  "get_lapic_id b c = kbind (lapic_read b c LAPIC_REG_ID) (\<lambda>v. kreturn (drop_bit 24 v))"

definition ioapic_enable_irq :: "'s bus \<Rightarrow> intctl_t \<Rightarrow> u32 \<Rightarrow> u32 \<Rightarrow> u32 \<Rightarrow> ('s, unit) kop" where
  "ioapic_enable_irq b c extnum lapic_id intnum =
     kseq (kassert (intnum \<ge> 32) ''assert'')
     (kseq (kassert (extnum < of_nat IOAPIC_NUM_INTERRUPTS) ''assert'')
     (kseq (ioapic_write b c (IOAPIC_REG_TABLE + 2 * extnum + 0) intnum)
     (ioapic_write b c (IOAPIC_REG_TABLE + 2 * extnum + 1) (push_bit IOAPIC_DEST_SHIFT lapic_id))))"

definition ioapic_disable_irq :: "'s bus \<Rightarrow> intctl_t \<Rightarrow> u32 \<Rightarrow> ('s, unit) kop" where
  "ioapic_disable_irq b c int_num =
     kseq (ioapic_write b c (IOAPIC_REG_TABLE + 2 * int_num + 0) IOAPIC_INT_DISABLE)
     (ioapic_write b c (IOAPIC_REG_TABLE + 2 * int_num + 1) 0)"

definition ioapic_init :: "'s bus \<Rightarrow> intctl_t \<Rightarrow> ('s, unit) kop" where
  "ioapic_init b c = kfor [0..<IOAPIC_NUM_INTERRUPTS] (\<lambda>i. ioapic_disable_irq b c (of_nat i))"

definition lapic_init :: "'s bus \<Rightarrow> intctl_t \<Rightarrow> ('s, unit) kop" where
  "lapic_init b c =
     kseq (lapic_enable b)
     (kseq (lapic_write b c LAPIC_REG_TIMER_LVT (ucast LAPIC_TIMER_IRQ OR APIC_TIMER_PERIODIC))
     (kseq (lapic_write b c LAPIC_REG_TIMER_INIT_COUNT LAPIC_TIMER_DEADLINE)
     (kseq (lapic_write b c LAPIC_REG_EOI 0)
     (lapic_write b c LAPIC_REG_TPR 0))))"

definition apic_init :: "'s bus \<Rightarrow> intctl_t \<Rightarrow> ('s, unit) kop" where
  "apic_init b c = kseq (lapic_init b c) (ioapic_init b c)"

definition apic_claim :: "'s bus \<Rightarrow> intctl_t \<Rightarrow> ('s, u64) kop" where
  "apic_claim b c = kreturn 0"

definition apic_eoi :: "'s bus \<Rightarrow> intctl_t \<Rightarrow> u64 \<Rightarrow> ('s, unit) kop" where
  "apic_eoi b c irq = lapic_write b c LAPIC_REG_EOI 0"

definition apic_map :: "'s bus \<Rightarrow> intctl_t \<Rightarrow> u64 \<Rightarrow> u64 \<Rightarrow> ('s, unit) kop" where
  "apic_map b c extnum intnum =
     kbind (get_lapic_id b c) (\<lambda>id.
     kseq (kassert (id = 0) ''assert'')
     (kbind (get_lapic_id b c) (\<lambda>id. ioapic_enable_irq b c (ucast extnum) id (ucast intnum))))"

section \<open>src/io/interrupt/gic.c\<close>

definition GICD_CTLR :: u32 where "GICD_CTLR = 0"
definition GICD_ISENABLER :: u32 where "GICD_ISENABLER = 0x100"
definition GICD_ITARGET :: u32 where "GICD_ITARGET = 0x800"
definition GICC_CTLR :: u32 where "GICC_CTLR = 0"
definition GICC_PMR :: u32 where "GICC_PMR = 4"
definition GICC_IAR :: u32 where "GICC_IAR = 0xC"
definition GICC_EOIR :: u32 where "GICC_EOIR = 0x10"
definition PMR_PRIORITY_ALLOW_ALL :: u32 where "PMR_PRIORITY_ALLOW_ALL = ucast (MASK 8)"
definition CTLR_ENABLE :: u32 where "CTLR_ENABLE = ucast (BIT 0)"
definition ITARGET_CORE0 :: u8 where "ITARGET_CORE0 = ucast (BIT 0)"

definition gicd_read :: "'s bus \<Rightarrow> intctl_t \<Rightarrow> u32 \<Rightarrow> ('s, u32) kop" where
  "gicd_read b c reg = dev_read32 b (distributor c + ucast reg)"
definition gicd_read8 :: "'s bus \<Rightarrow> intctl_t \<Rightarrow> u32 \<Rightarrow> ('s, u8) kop" where
  "gicd_read8 b c reg = dev_read8 b (distributor c + ucast reg)"
definition gicc_read :: "'s bus \<Rightarrow> intctl_t \<Rightarrow> u32 \<Rightarrow> ('s, u32) kop" where
  "gicc_read b c reg = dev_read32 b (local_ctl c + ucast reg)"
definition gicd_write :: "'s bus \<Rightarrow> intctl_t \<Rightarrow> u32 \<Rightarrow> u32 \<Rightarrow> ('s, unit) kop" where
  "gicd_write b c reg val = dev_write32 b (distributor c + ucast reg) val"
definition gicd_write8 :: "'s bus \<Rightarrow> intctl_t \<Rightarrow> u32 \<Rightarrow> u8 \<Rightarrow> ('s, unit) kop" where
  "gicd_write8 b c reg val = dev_write8 b (distributor c + ucast reg) val"
definition gicc_write :: "'s bus \<Rightarrow> intctl_t \<Rightarrow> u32 \<Rightarrow> u32 \<Rightarrow> ('s, unit) kop" where
  "gicc_write b c reg val = dev_write32 b (local_ctl c + ucast reg) val"

definition gic_init :: "'s bus \<Rightarrow> intctl_t \<Rightarrow> ('s, unit) kop" where
  "gic_init b c =
     kseq (gicd_write b c GICD_CTLR CTLR_ENABLE)
     (kseq (gicc_write b c GICC_CTLR CTLR_ENABLE)
     (gicc_write b c GICC_PMR PMR_PRIORITY_ALLOW_ALL))"

definition gic_claim :: "'s bus \<Rightarrow> intctl_t \<Rightarrow> ('s, u64) kop" where
  "gic_claim b c = kbind (gicc_read b c GICC_IAR) (\<lambda>v. kreturn (ucast v))"

definition gic_eoi :: "'s bus \<Rightarrow> intctl_t \<Rightarrow> u64 \<Rightarrow> ('s, unit) kop" where
  "gic_eoi b c irq = gicc_write b c GICC_EOIR (ucast irq)"

definition gic_map :: "'s bus \<Rightarrow> intctl_t \<Rightarrow> u64 \<Rightarrow> u64 \<Rightarrow> ('s, unit) kop" where
  "gic_map b c extnum intnum =
     kseq (kassert (extnum = intnum) ''assert'')
     (kseq (gicd_write b c (ucast (ucast GICD_ISENABLER + 4 * (intnum div 32) :: u64)) (ucast (BIT (unat (intnum mod 32)))))
     (gicd_write8 b c (ucast (ucast GICD_ITARGET + intnum :: u64)) ITARGET_CORE0))"

section \<open>src/io/interrupt/plic.c\<close>

definition PLIC_CONTEXT :: u64 where "PLIC_CONTEXT = 1"
definition REG_PRIORITY :: u64 where "REG_PRIORITY = 0"
definition REG_ENABLE :: "u64 \<Rightarrow> u64" where "REG_ENABLE c = 0x2000 + c * 0x80"
definition REG_PRIORITY_THRESH :: "u64 \<Rightarrow> u64" where "REG_PRIORITY_THRESH c = 0x200000 + c * 0x1000"
definition REG_CLAIM :: "u64 \<Rightarrow> u64" where "REG_CLAIM c = REG_PRIORITY_THRESH c + 4"

definition plic_write :: "'s bus \<Rightarrow> intctl_t \<Rightarrow> u32 \<Rightarrow> u32 \<Rightarrow> ('s, unit) kop" where
  "plic_write b c reg val = dev_write32 b (distributor c + ucast reg) val"

definition plic_read :: "'s bus \<Rightarrow> intctl_t \<Rightarrow> u32 \<Rightarrow> ('s, u32) kop" where
  "plic_read b c reg = dev_read32 b (distributor c + ucast reg)"

definition plic_init :: "'s bus \<Rightarrow> intctl_t \<Rightarrow> ('s, unit) kop" where
  "plic_init b c = plic_write b c (ucast (REG_PRIORITY_THRESH PLIC_CONTEXT)) 0"

definition plic_claim :: "'s bus \<Rightarrow> intctl_t \<Rightarrow> ('s, u64) kop" where
  "plic_claim b c = kbind (plic_read b c (ucast (REG_CLAIM PLIC_CONTEXT))) (\<lambda>v. kreturn (ucast v))"

definition plic_eoi :: "'s bus \<Rightarrow> intctl_t \<Rightarrow> u64 \<Rightarrow> ('s, unit) kop" where
  "plic_eoi b c irq = plic_write b c (ucast (REG_CLAIM PLIC_CONTEXT)) (ucast irq)"

definition plic_map :: "'s bus \<Rightarrow> intctl_t \<Rightarrow> u64 \<Rightarrow> u64 \<Rightarrow> ('s, unit) kop" where
  "plic_map b c extnum intnum =
     kseq (kassert (extnum = intnum) ''assert'')
     (kseq (plic_write b c (ucast (REG_PRIORITY + 4 * intnum)) 1)
     (plic_write b c (ucast (REG_ENABLE PLIC_CONTEXT + intnum div 32)) (ucast (BIT (unat (intnum mod 32))))))"

definition apic_intc_ops :: "'s bus \<Rightarrow> intctl_t \<Rightarrow> 's intctl_ops" where
  "apic_intc_ops b c = \<lparr>intc_init = apic_init b c, intc_claim = apic_claim b c, intc_eoi = apic_eoi b c, intc_map = apic_map b c\<rparr>"

definition gic_intc_ops :: "'s bus \<Rightarrow> intctl_t \<Rightarrow> 's intctl_ops" where
  "gic_intc_ops b c = \<lparr>intc_init = gic_init b c, intc_claim = gic_claim b c, intc_eoi = gic_eoi b c, intc_map = gic_map b c\<rparr>"

definition plic_intc_ops :: "'s bus \<Rightarrow> intctl_t \<Rightarrow> 's intctl_ops" where
  "plic_intc_ops b c = \<lparr>intc_init = plic_init b c, intc_claim = plic_claim b c, intc_eoi = plic_eoi b c, intc_map = plic_map b c\<rparr>"

end
