(* ===== verification/Sky_Keyboard.thy ===== *)
theory Sky_Keyboard
  imports Sky_Device
begin

text \<open>
  The PS/2 keyboard: the decoder of scan codes (src/io/keyboard/ps2_keyboard.c), with its five static
  variables as a record, and the i8042 controller (src/io/keyboard/ps2_controller.c) over the \<open>bus\<close>.
\<close>

section \<open>src/io/keyboard/ps2_keyboard.c\<close>

record kbd_state = disp_state +
  is_letting_go :: bool
  lshift :: bool
  rshift :: bool
  lctrl :: bool
  rctrl :: bool

definition LSHIFT :: u8 where "LSHIFT = 0x12"
definition RSHIFT :: u8 where "RSHIFT = 0x59"
definition LCTRL :: u8 where "LCTRL = 0x14"
definition RCTRL :: u8 where "RCTRL = 0x58"
definition RELEASE_CODE :: u8 where "RELEASE_CODE = 0xF0"
definition TO_UPPERCASE :: u8 where "TO_UPPERCASE = 0x20"

definition is_lower_alphabet_char :: "u8 \<Rightarrow> bool" where
  "is_lower_alphabet_char c \<longleftrightarrow> of_char (CHR ''a'') \<le> c \<and> c \<le> of_char (CHR ''z'')"

definition is_num :: "u8 \<Rightarrow> bool" where
  "is_num c \<longleftrightarrow> of_char (CHR ''0'') \<le> c \<and> c \<le> of_char (CHR ''9'')"

text \<open>The entries of \<open>ps2_to_ascii\<close>; every other entry of the array is 0.\<close>

definition ps2_table :: "(u8 \<times> char) list" where
  "ps2_table =
    [(0x0E, CHR 0x60), (0x16, CHR ''1''), (0x1E, CHR ''2''), (0x26, CHR ''3''), (0x25, CHR ''4''), (0x2E, CHR ''5''),
     (0x36, CHR ''6''), (0x3D, CHR ''7''), (0x3E, CHR ''8''), (0x46, CHR ''9''), (0x45, CHR ''0''), (0x4E, CHR ''-''),
     (0x55, CHR ''=''), (0x66, CHR 0x08), (0x0D, CHR 0x09), (0x15, CHR ''q''), (0x1D, CHR ''w''), (0x24, CHR ''e''),
     (0x2D, CHR ''r''), (0x2C, CHR ''t''), (0x35, CHR ''y''), (0x3C, CHR ''u''), (0x43, CHR ''i''), (0x44, CHR ''o''),
     (0x4D, CHR ''p''), (0x54, CHR ''[''), (0x5B, CHR '']''), (0x1C, CHR ''a''), (0x1B, CHR ''s''), (0x23, CHR ''d''),
     (0x2B, CHR ''f''), (0x34, CHR ''g''), (0x33, CHR ''h''), (0x3B, CHR ''j''), (0x42, CHR ''k''), (0x4B, CHR ''l''),
     (0x4C, CHR '';''), (0x52, CHR 0x27), (0x5A, CHR 0x0A), (0x1A, CHR ''z''), (0x22, CHR ''x''), (0x21, CHR ''c''),
     (0x2A, CHR ''v''), (0x32, CHR ''b''), (0x31, CHR ''n''), (0x3A, CHR ''m''), (0x41, CHR '',''), (0x49, CHR ''.''),
     (0x4A, CHR ''/''), (0x29, CHR '' ''), (0x5D, CHR 0x5C)]"

definition ps2_to_ascii :: "u8 \<Rightarrow> u8" where
  "ps2_to_ascii code = (case map_of ps2_table code of None \<Rightarrow> 0 | Some c \<Rightarrow> of_char c)"

text \<open>The cases of the final switch.\<close>

definition shift_table :: "(char \<times> char) list" where
  "shift_table =
    [(CHR ''1'', CHR ''!''), (CHR ''2'', CHR ''@''), (CHR ''3'', CHR ''#''), (CHR ''4'', CHR ''$''), (CHR ''5'', CHR ''%''),
     (CHR ''6'', CHR ''^''), (CHR ''7'', CHR ''&''), (CHR ''8'', CHR ''*''), (CHR ''9'', CHR ''(''), (CHR ''0'', CHR '')''),
     (CHR ''-'', CHR ''_''), (CHR ''='', CHR ''+''), (CHR ''['', CHR ''{''), (CHR '']'', CHR ''}''), (CHR '','', CHR ''<''),
     (CHR ''.'', CHR ''>''), (CHR ''/'', CHR ''?''), (CHR 0x60, CHR ''~''), (CHR '';'', CHR '':''), (CHR 0x27, CHR 0x22),
     (CHR 0x5C, CHR ''|'')]"

definition shifted_char :: "u8 \<Rightarrow> u8" where
  "shifted_char c = (case find (\<lambda>(a, b). of_char a = c) shift_table of None \<Rightarrow> c | Some (a, b) \<Rightarrow> of_char b)"

definition track_modifiers :: "u8 \<Rightarrow> 'z kbd_state_scheme \<Rightarrow> 'z kbd_state_scheme" where
  "track_modifiers code s =
     (if code = LSHIFT then s\<lparr>lshift := \<not> is_letting_go s\<rparr>
      else if code = RSHIFT then s\<lparr>rshift := \<not> is_letting_go s\<rparr>
      else if code = LCTRL then s\<lparr>lctrl := \<not> is_letting_go s\<rparr>
      else if code = RCTRL then s\<lparr>rctrl := \<not> is_letting_go s\<rparr>
      else s)"

text \<open>What is returned for a key that is pressed, once the control combinations are handled.\<close>

definition plain_key :: "bool \<Rightarrow> u8 \<Rightarrow> u8" where
  "plain_key shift decoded =
     (if is_lower_alphabet_char decoded then (if shift then decoded - TO_UPPERCASE else decoded)
      else if shift then shifted_char decoded
      else decoded)"

definition ps2_decode_keypress :: "u8 \<Rightarrow> ('z kbd_state_scheme, u8) kop" where
  "ps2_decode_keypress code =
     (if RELEASE_CODE = code then kseq (kmodify (\<lambda>s. s\<lparr>is_letting_go := True\<rparr>)) (kreturn 0)
      else
        let decoded = ps2_to_ascii code in
        kseq (kmodify (track_modifiers code))
        (kbind (kgets is_letting_go) (\<lambda>release.
         if release then kseq (kmodify (\<lambda>s. s\<lparr>is_letting_go := False\<rparr>)) (kreturn 0)
         else
           kbind (kgets (\<lambda>s. lctrl s \<or> rctrl s)) (\<lambda>ctrl.
           kbind (kgets (\<lambda>s. lshift s \<or> rshift s)) (\<lambda>shift.
           if ctrl \<and> is_num decoded then
             kseq (display_switch (ucast decoded - of_char (CHR ''0'') - 1)) (kreturn 0)
           else if ctrl \<and> (decoded = of_char (CHR ''c'') \<or> decoded = of_char (CHR ''l'')) then
             kreturn (decoded - of_char (CHR ''a'') + 1)
           else kreturn (plain_key shift decoded))))))"

section \<open>src/io/keyboard/ps2_controller.c\<close>

definition PS2_IO_DATA :: u16 where "PS2_IO_DATA = 0x60"
definition PS2_IO_CMD :: u16 where "PS2_IO_CMD = 0x64"
definition PS2_IO_STATUS :: u16 where "PS2_IO_STATUS = 0x64"
definition PS2_KEYBOARD_LEGACY_IRQNUM :: u64 where "PS2_KEYBOARD_LEGACY_IRQNUM = 1"
definition STATUS_OUTPUT_FULL :: u8 where "STATUS_OUTPUT_FULL = ucast (BIT 0)"
definition STATUS_INPUT_FULL :: u8 where "STATUS_INPUT_FULL = ucast (BIT 1)"
definition CONFIG_DISABLE_INTERRUPTS :: u8 where "CONFIG_DISABLE_INTERRUPTS = 0"
definition CONFIG_PORT1_INTERRUPTS :: u8 where "CONFIG_PORT1_INTERRUPTS = ucast (BIT 0)"
definition CONFIG_DISABLE_PORT2_CLOCK :: u8 where "CONFIG_DISABLE_PORT2_CLOCK = ucast (BIT 5)"
definition SELFTEST_PASS :: u8 where "SELFTEST_PASS = 0x55"
definition PORTTEST_PASS :: u8 where "PORTTEST_PASS = 0"
definition PS2_TIMEOUT :: nat where "PS2_TIMEOUT = 100000"
definition CMD_WRITE_CONFIG :: u8 where "CMD_WRITE_CONFIG = 0x60"
definition CMD_SELFTEST :: u8 where "CMD_SELFTEST = 0xAA"
definition CMD_TEST_PORT1 :: u8 where "CMD_TEST_PORT1 = 0xAB"
definition CMD_DISABLE_PORT1 :: u8 where "CMD_DISABLE_PORT1 = 0xAD"
definition CMD_ENABLE_PORT1 :: u8 where "CMD_ENABLE_PORT1 = 0xAE"
definition CMD_DISABLE_PORT2 :: u8 where "CMD_DISABLE_PORT2 = 0xA7"
definition DEV_CMD_RESET :: u8 where "DEV_CMD_RESET = 0xFF"

definition ps2_intr :: "'z kbd_state_scheme uart_ops \<Rightarrow> 'z kbd_state_scheme bus \<Rightarrow> ('z kbd_state_scheme, unit) kop" where
  "ps2_intr ser b =
     kbind (inb b PS2_IO_DATA) (\<lambda>code.
     kbind (ps2_decode_keypress code) (\<lambda>key. kwhen (0 \<noteq> key) (display_handle_input ser key)))"

text \<open>The two conditions the driver polls for.\<close>

definition output_full :: "'s bus \<Rightarrow> ('s, bool) kop" where
  "output_full b = kbind (inb b PS2_IO_STATUS) (\<lambda>v. kreturn (v AND STATUS_OUTPUT_FULL \<noteq> 0))"

definition input_empty :: "'s bus \<Rightarrow> ('s, bool) kop" where
  "input_empty b = kbind (inb b PS2_IO_STATUS) (\<lambda>v. kreturn (v AND STATUS_INPUT_FULL = 0))"

definition i8042_read :: "'s bus \<Rightarrow> u8 \<Rightarrow> ('s, u8) kop" where
  "i8042_read b cmd =
     kseq (outb b PS2_IO_CMD cmd)
     (kbind (poll_limited (PS2_TIMEOUT + 1) (output_full b)) (\<lambda>ready.
        if ready then inb b PS2_IO_DATA else kpanic ''i8042_read: failed''))"

definition i8042_write :: "'s bus \<Rightarrow> u8 \<Rightarrow> u8 \<Rightarrow> ('s, unit) kop" where
  "i8042_write b cmd val =
     kseq (outb b PS2_IO_CMD cmd)
     (kbind (poll_limited (PS2_TIMEOUT + 1) (input_empty b)) (\<lambda>ready.
        if ready then outb b PS2_IO_DATA val else kpanic ''i8042_write: failed''))"

definition i8042_cmd :: "'s bus \<Rightarrow> u8 \<Rightarrow> ('s, unit) kop" where
  "i8042_cmd b cmd = outb b PS2_IO_CMD cmd"

definition i8042_flush :: "'s bus \<Rightarrow> ('s, unit) kop" where
  "i8042_flush b = kbind (inb b PS2_IO_DATA) (\<lambda>_. kreturn ())"

definition ps2_device_cmd :: "'s bus \<Rightarrow> u8 \<Rightarrow> ('s, unit) kop" where
  "ps2_device_cmd b cmd =
     kbind (poll_limited (PS2_TIMEOUT + 1) (input_empty b)) (\<lambda>ready.
       if ready then outb b PS2_IO_DATA cmd else kpanic ''ps2_device_cmd: failed'')"

text \<open>
  The loop of \<open>ps2_reset_device1\<close>: it ends after \<open>PS2_TIMEOUT\<close> polls in a row without data; each byte
  that arrives starts the count again.
\<close>

definition drain_step :: "'s bus \<Rightarrow> ('s, bool) kop" where
  "drain_step b = kbind (output_full b) (\<lambda>full. if full then kbind (inb b PS2_IO_DATA) (\<lambda>_. kreturn True) else kreturn False)"

partial_function (option) drain_loop :: "'s bus \<Rightarrow> nat \<Rightarrow> 's \<Rightarrow> (kerr + unit \<times> 's) option" where
  "drain_loop b retries s =
     (if retries < PS2_TIMEOUT
      then (case drain_step b s of
              Inl e \<Rightarrow> Some (Inl e)
            | Inr (got, s') \<Rightarrow> drain_loop b (if got then 0 else Suc retries) s')
      else Some (Inr ((), s)))"

definition ps2_reset_device1 :: "'s bus \<Rightarrow> ('s, unit) kop" where
  "ps2_reset_device1 b = kseq (ps2_device_cmd b DEV_CMD_RESET) (khang (drain_loop b 0))"

definition init_i8042 :: "'s bus \<Rightarrow> 's intctl_ops \<Rightarrow> ('s, bool) kop" where
  "init_i8042 b intc =
     kseq (i8042_cmd b CMD_DISABLE_PORT1)
     (kseq (i8042_cmd b CMD_DISABLE_PORT2)
     (kseq (i8042_flush b)
     (kseq (i8042_write b CMD_WRITE_CONFIG (CONFIG_DISABLE_INTERRUPTS OR CONFIG_DISABLE_PORT2_CLOCK))
     (kbind (i8042_read b CMD_SELFTEST) (\<lambda>tmp.
       if SELFTEST_PASS \<noteq> tmp then kreturn False
       else
         kbind (i8042_read b CMD_TEST_PORT1) (\<lambda>tmp.
           if PORTTEST_PASS \<noteq> tmp then kreturn False
           else
             kseq (i8042_cmd b CMD_ENABLE_PORT1)
             (kseq (ps2_reset_device1 b)
             (kseq (intc_map intc PS2_KEYBOARD_LEGACY_IRQNUM PS2_KEYBOARD_IRQ)
             (kseq (i8042_write b CMD_WRITE_CONFIG (CONFIG_PORT1_INTERRUPTS OR CONFIG_DISABLE_PORT2_CLOCK))
             (kreturn True))))))))))"

end
