(* ===== verification/Sky_Line.thy ===== *)
theory Sky_Line
  imports Sky_Keyboard
begin

text \<open>
  The serial terminal as a line editor (src/kernel/tty.c over src/kernel/serial.c). What the terminal relies on
  is the contract of a serial port: sending a character returns, appends the character to the output of the
  device and leaves the kernel's own state alone. On top of it \<open>tty_new_data\<close> implements editing of one line,
  and \<open>tty_readin\<close> delivers the line.
\<close>

section \<open>The contract of a serial port\<close>

lemma kseq_kreturn_unit: "kseq m (kreturn ()) = m"
  by (simp add: kseq_def kbind_def kreturn_def fun_eq_iff split: sum.splits)

lemma kseq_kreturn: "kseq (kreturn a) m = m"
  by (simp add: kseq_def kbind_def kreturn_def fun_eq_iff)

text \<open>Two states that agree on all of the kernel and may differ in the device.\<close>

definition same_kernel :: "'z disp_state_scheme \<Rightarrow> 'z disp_state_scheme \<Rightarrow> bool" where
  "same_kernel s s' \<longleftrightarrow> disp_state.truncate s' = disp_state.truncate s"

lemma same_kernel_refl [simp]: "same_kernel s s"
  by (simp add: same_kernel_def)

lemma same_kernel_trans: "same_kernel s t \<Longrightarrow> same_kernel t u \<Longrightarrow> same_kernel s u"
  by (simp add: same_kernel_def)

lemma same_kernelD:
  assumes "same_kernel s s'"
  shows "mem s' = mem s" "ints_on s' = ints_on s" "filetab s' = filetab s" "task_pool s' = task_pool s" "task_links s' = task_links s"
    "cur_thread s' = cur_thread s" "idle_task s' = idle_task s" "g_serial_tty s' = g_serial_tty s"
  using assms by (simp_all add: same_kernel_def disp_state.truncate_def)

locale serial_port =
  fixes ser :: "'z disp_state_scheme uart_ops" and dev_out :: "'z \<Rightarrow> u8 list"
  assumes send: "runs (uart_send ser c) s (\<lambda>_ s'. same_kernel s s' \<and>
    dev_out (disp_state.more s') = dev_out (disp_state.more s) @ [c])"
begin

abbreviation out :: "'z disp_state_scheme \<Rightarrow> u8 list" where "out s \<equiv> dev_out (disp_state.more s)"

lemma sends:
  "runs (kfor cs (uart_send ser)) s (\<lambda>_ s'. same_kernel s s' \<and> out s' = out s @ cs)"
proof (induction cs arbitrary: s)
  case Nil
  show ?case by simp
next
  case (Cons c cs)
  show ?case unfolding kfor.simps runs_kseq
    by (rule runs_mono [OF send], rule runs_mono [OF Cons.IH]) (auto intro: same_kernel_trans)
qed

lemma serial_putc_sends: "serial_putc ser c = kfor (if c = 0x0A then [0x0D, c] else [c]) (uart_send ser)"
  by (auto simp: serial_putc_def kop_defs fun_eq_iff split: sum.split)

end

section \<open>The line editor\<close>

definition LINE_MAX :: nat where "LINE_MAX = 4095"

definition icrnl :: "u8 \<Rightarrow> u8" where "icrnl c = (if c = 0x0D then 0x0A else c)"

definition line_step :: "u8 list \<Rightarrow> u8 \<Rightarrow> u8 list" where
  "line_step xs c =
     (if c = ASCII_EOT then xs
      else if c = ASCII_DELETE \<or> c = 0x08 then butlast xs
      else if length xs < LINE_MAX then xs @ [c]
      else xs)"

definition line_echo :: "u8 list \<Rightarrow> u8 \<Rightarrow> u8 list" where
  "line_echo xs c =
     (if c = ASCII_EOT then []
      else if c = ASCII_DELETE \<or> c = 0x08 then (if xs = [] then [] else [0x08, 0x20, 0x08])
      else if c = 0x0A then [0x0D, c]
      else [c])"

text \<open>The serial terminal holds the line \<open>xs\<close>: the first \<open>cursor\<close> bytes of its page.\<close>

definition tty_rep :: "u8 list \<Rightarrow> bool \<Rightarrow> 'z disp_state_scheme \<Rightarrow> bool" where
  "tty_rep xs rdy s \<longleftrightarrow> (let x = g_serial_tty s in
     port x = Some SerialUart \<and> unat (cursor x) = length xs \<and> length xs \<le> LINE_MAX \<and>
     data_ready x = rdy \<and> (\<forall>i < length xs. mem s (tty_buf x + of_nat i) = xs ! i))"

text \<open>The scheduler's invariant and interrupts off, as in an interrupt handler.\<close>

definition tty_inv :: "nat list \<Rightarrow> 'z task_state_scheme \<Rightarrow> bool" where
  "tty_inv order s \<longleftrightarrow> sched_inv order s \<and> \<not> ints_on s \<and> (\<forall>i \<in> set order. fds_ok (filetab s) (task_pool s ! i))"

text \<open>What one character may change: the terminal, its page and the state of threads.\<close>

definition line_frame :: "'z disp_state_scheme \<Rightarrow> 'z disp_state_scheme \<Rightarrow> bool" where
  "line_frame s s' \<longleftrightarrow> tty_buf (g_serial_tty s') = tty_buf (g_serial_tty s) \<and>
     (\<forall>a. 4096 \<le> unat (a - tty_buf (g_serial_tty s)) \<longrightarrow> mem s' a = mem s a) \<and>
     filetab s' = filetab s \<and> task_links s' = task_links s \<and> cur_thread s' = cur_thread s"

lemma get_serial_tty: "get_tty SerialTty s = Inr (g_serial_tty s, s)"
  by (simp add: get_tty_def kop_simps)

lemma upd_serial_tty: "upd_tty SerialTty f s = Inr ((), s\<lparr>g_serial_tty := f (g_serial_tty s)\<rparr>)"
  by (simp add: upd_tty_def get_serial_tty kop_simps)

lemma runs_serial_tty [simp]:
  "runs (get_tty SerialTty) s Q \<longleftrightarrow> Q (g_serial_tty s) s"
  "runs (upd_tty SerialTty f) s R \<longleftrightarrow> R () (s\<lparr>g_serial_tty := f (g_serial_tty s)\<rparr>)"
  by (simp_all add: runs_def get_serial_tty upd_serial_tty)

lemma tty_rep_same: "same_kernel s s' \<Longrightarrow> tty_rep xs rdy s' = tty_rep xs rdy s"
  by (simp add: tty_rep_def same_kernelD)

lemma tty_inv_same: "same_kernel s s' \<Longrightarrow> tty_inv order s' = tty_inv order s"
  by (simp add: tty_inv_def sched_inv_def same_kernelD)

lemma line_frame_same: "same_kernel s s' \<Longrightarrow> line_frame s s'"
  by (simp add: line_frame_def same_kernelD)

lemma line_frame_trans: "line_frame s t \<Longrightarrow> line_frame t u \<Longrightarrow> line_frame s u"
  by (simp add: line_frame_def)

lemma tty_wakeup:
  assumes "tty_inv order s"
  shows "runs (wakeup res) s (\<lambda>_ s'. \<exists>p. s' = s\<lparr>task_pool := p\<rparr> \<and> tty_inv order s' \<and>
    p = pool_map (awake res) order (task_pool s))"
proof -
  have a: "sched_inv order s" "\<not> ints_on s" and f: "\<forall>i \<in> set order. fds_ok (filetab s) (task_pool s ! i)"
    using assms by (auto simp: tty_inv_def)
  let ?p = "pool_map (awake res) order (task_pool s)"
  have "sched_inv order (s\<lparr>task_pool := ?p\<rparr>)" by (rule sched_inv_map [OF a(1)]) (auto simp: awake_def)
  moreover have "fds_ok (filetab s) (?p ! i)" if "i \<in> set order" for i
  proof -
    have "i < length (task_pool s)" using sched_inv_task [OF a(1) that] by simp
    then show ?thesis
      using f that by (auto simp: pool_map_nth [OF sched_inv_distinct [OF a(1)]] awake_def fds_ok_def)
  qed
  ultimately show ?thesis using a(2) by (simp add: runs_def wakeup_run [OF a] tty_inv_def)
qed

lemma tty_interrupt:
  assumes "tty_inv order s"
  shows "runs (task_interrupt_by_tty t) s (\<lambda>_ s'. \<exists>p. s' = s\<lparr>task_pool := p\<rparr> \<and> tty_inv order s' \<and>
    p = pool_map (interrupted (filetab s) t) order (task_pool s))"
proof -
  have a: "sched_inv order s" "\<not> ints_on s" and f: "\<forall>i \<in> set order. fds_ok (filetab s) (task_pool s ! i)"
    using assms by (auto simp: tty_inv_def)
  let ?p = "pool_map (interrupted (filetab s) t) order (task_pool s)"
  have "sched_inv order (s\<lparr>task_pool := ?p\<rparr>)" by (rule sched_inv_map [OF a(1)]) (auto simp: interrupted_def)
  moreover have "fds_ok (filetab s) (?p ! i)" if "i \<in> set order" for i
  proof -
    have "i < length (task_pool s)" using sched_inv_task [OF a(1) that] by simp
    then show ?thesis
      using f that by (auto simp: pool_map_nth [OF sched_inv_distinct [OF a(1)]] interrupted_def fds_ok_def)
  qed
  ultimately show ?thesis using a(2) by (simp add: runs_def interrupt_run [OF a(1) f] tty_inv_def)
qed

text \<open>Writing at the cursor and moving it.\<close>

definition put_at_cursor :: "u8 \<Rightarrow> (usize \<Rightarrow> usize) \<Rightarrow> 'z disp_state_scheme \<Rightarrow> 'z disp_state_scheme" where
  "put_at_cursor c f s = s\<lparr>mem := (mem s)(tty_buf (g_serial_tty s) + cursor (g_serial_tty s) := c),
     g_serial_tty := (g_serial_tty s)\<lparr>cursor := f (cursor (g_serial_tty s))\<rparr>\<rparr>"

lemma cursor_neq: "unat (k :: u64) = n \<Longrightarrow> i < n \<Longrightarrow> b + of_nat i \<noteq> b + k"
proof
  assume "unat k = n" "i < n" "b + of_nat i = b + k"
  then have "i < 2 ^ 64" "k = of_nat i" using unat_bound_64 [of k] by auto
  then have "unat k = i" using unat_of_nat_64 by blast
  with \<open>unat k = n\<close> \<open>i < n\<close> show False by simp
qed

lemma put_at_cursor_rep:
  assumes "tty_rep xs rdy s"
  shows "length xs < LINE_MAX \<Longrightarrow> tty_rep (xs @ [c]) rdy (put_at_cursor c (\<lambda>k. k + 1) s)"
    and "xs \<noteq> [] \<Longrightarrow> tty_rep (butlast xs) rdy (put_at_cursor c (\<lambda>k. k - 1) s)"
    and "tty_rep xs rdy (put_at_cursor c (\<lambda>k. k) s)"
    and "line_frame s (put_at_cursor c f s)"
proof -
  let ?x = "g_serial_tty s"
  have cur: "unat (cursor ?x) = length xs" and len: "length xs \<le> LINE_MAX" and po: "port ?x = Some SerialUart"
    "data_ready ?x = rdy" and b: "\<And>i. i < length xs \<Longrightarrow> mem s (tty_buf ?x + of_nat i) = xs ! i"
    using assms by (auto simp: tty_rep_def Let_def)
  note neq = cursor_neq [OF cur]
  have at: "tty_buf ?x + of_nat (length xs) = tty_buf ?x + cursor ?x" using cur [symmetric] by simp
  show "tty_rep (xs @ [c]) rdy (put_at_cursor c (\<lambda>k. k + 1) s)" if l: "length xs < LINE_MAX"
  proof -
    have "unat (cursor ?x + 1) = Suc (length xs)"
      using cur l unat_add_of_nat [of "cursor ?x" 1] by (simp add: LINE_MAX_def)
    moreover have "tty_buf ?x + of_nat i = tty_buf ?x + cursor ?x \<longleftrightarrow> i = length xs" if "i < Suc (length xs)" for i
      using that neq [of i] at by (cases "i = length xs") auto
    ultimately show ?thesis using l po b by (auto simp: tty_rep_def put_at_cursor_def nth_append less_Suc_eq)
  qed
  show "tty_rep (butlast xs) rdy (put_at_cursor c (\<lambda>k. k - 1) s)" if "xs \<noteq> []"
  proof -
    have "1 \<le> unat (cursor ?x)" using cur that by (simp add: Suc_le_eq)
    then have "unat (cursor ?x - 1) = length xs - 1" using cur by (simp add: unat_sub word_le_nat_alt)
    then show ?thesis using len po b neq by (auto simp: tty_rep_def put_at_cursor_def nth_butlast)
  qed
  show "tty_rep xs rdy (put_at_cursor c (\<lambda>k. k) s)"
    using len po b neq cur by (auto simp: tty_rep_def put_at_cursor_def)
  show "line_frame s (put_at_cursor c f s)"
    using cur len by (auto simp: line_frame_def put_at_cursor_def LINE_MAX_def)
qed

lemma put_at_cursor_inv: "tty_inv order (put_at_cursor c f s) = tty_inv order s"
  by (simp add: tty_inv_def sched_inv_def put_at_cursor_def)

context serial_port
begin

lemma serial_sends: "kseq (port_send ser (Some SerialUart) a) m = kseq (kfor [a] (uart_send ser)) m"
  by (simp add: port_send_def kseq_assoc kseq_kreturn)

text \<open>Backspace on a line that is not empty.\<close>

lemma erase_runs:
  assumes rep: "tty_rep xs rdy s" and inv: "tty_inv order s" and ne: "xs \<noteq> []"
    and eq: "g_serial_tty s0 = g_serial_tty s"
  shows "runs (kseq (kmodify (\<lambda>s. s\<lparr>mem := (mem s)(tty_buf (g_serial_tty s0) + cursor (g_serial_tty s0) := 0)\<rparr>))
    (kseq (upd_tty SerialTty (\<lambda>x. x\<lparr>cursor := cursor x - 1\<rparr>)) (kfor cs (uart_send ser)))) s
    (\<lambda>_ s'. tty_rep (butlast xs) rdy s' \<and> tty_inv order s' \<and> out s' = out s @ cs \<and> line_frame s s')"
proof -
  define s1 where "s1 = put_at_cursor 0 (\<lambda>k. k - 1) s"
  have "runs (kfor cs (uart_send ser)) s1
      (\<lambda>_ s'. tty_rep (butlast xs) rdy s' \<and> tty_inv order s' \<and> out s' = out s @ cs \<and> line_frame s s')"
  proof (rule runs_mono [OF sends])
    fix s' assume s': "same_kernel s1 s' \<and> out s' = out s1 @ cs"
    then have k: "same_kernel s1 s'" by simp
    have f: "line_frame s s1" unfolding s1_def by (rule put_at_cursor_rep(4) [OF rep])
    show "tty_rep (butlast xs) rdy s' \<and> tty_inv order s' \<and> out s' = out s @ cs \<and> line_frame s s'"
    proof (intro conjI)
      show "line_frame s s'" by (rule line_frame_trans [OF f line_frame_same [OF k]])
      show "tty_rep (butlast xs) rdy s'"
        unfolding tty_rep_same [OF k] s1_def by (rule put_at_cursor_rep(2) [OF rep ne])
      show "tty_inv order s'" unfolding tty_inv_same [OF k] s1_def put_at_cursor_inv by (rule inv)
      show "out s' = out s @ cs" using s' by (simp add: s1_def put_at_cursor_def)
    qed
  qed
  then show ?thesis using eq by (simp add: s1_def put_at_cursor_def)
qed

text \<open>The part of \<open>tty_new_data\<close> after the echo, and its part for a newline.\<close>

definition deliver :: "u8 \<Rightarrow> ('z disp_state_scheme, unit) kop" where
  "deliver c =
     kbind (get_tty SerialTty) (\<lambda>x.
     kseq (kwhen (cursor x = TTY_BUFIO_LEN - 1)
       (kmodify (\<lambda>s. s\<lparr>mem := (mem s)(tty_buf x + cursor x := c)\<rparr>)))
     (kseq (upd_tty SerialTty (\<lambda>x. x\<lparr>data_ready := True\<rparr>))
     (wakeup (TtyInput SerialTty))))"

definition store_char :: "u8 \<Rightarrow> ('z disp_state_scheme, unit) kop" where
  "store_char c =
     kbind (get_tty SerialTty) (\<lambda>x.
     kseq (kwhen (cursor x < TTY_BUFIO_LEN - 1)
       (kseq (kmodify (\<lambda>s. s\<lparr>mem := (mem s)(tty_buf x + cursor x := c)\<rparr>))
       (upd_tty SerialTty (\<lambda>x. x\<lparr>cursor := cursor x + 1\<rparr>))))
     (kwhen (c = 0x0A) (deliver c)))"

lemma store_newline:
  assumes rep: "tty_rep xs rdy s" and inv: "tty_inv order s"
  shows "runs (deliver c) s
    (\<lambda>_ s'. tty_rep xs True s' \<and> tty_inv order s' \<and> out s' = out s \<and> line_frame s s')"
proof -
  have "runs (wakeup (TtyInput SerialTty)) (s1\<lparr>g_serial_tty := (g_serial_tty s1)\<lparr>data_ready := True\<rparr>\<rparr>)
      (\<lambda>_ s'. tty_rep xs True s' \<and> tty_inv order s' \<and> out s' = out s \<and> line_frame s s')"
    if "tty_rep xs rdy s1" "tty_inv order s1" "line_frame s s1" "out s1 = out s" for s1
  proof -
    let ?s2 = "s1\<lparr>g_serial_tty := (g_serial_tty s1)\<lparr>data_ready := True\<rparr>\<rparr>"
    have "tty_inv order ?s2" using that(2) by (simp add: tty_inv_def sched_inv_def)
    then show ?thesis
      by (rule runs_mono [OF tty_wakeup]) (use that in \<open>auto simp: tty_rep_def line_frame_def Let_def\<close>)
  qed
  note wake = this
  define s1 where "s1 = s\<lparr>mem := (mem s)(tty_buf (g_serial_tty s) + cursor (g_serial_tty s) := c)\<rparr>"
  have s1: "s1 = put_at_cursor c (\<lambda>k. k) s" by (simp add: s1_def put_at_cursor_def)
  have "tty_rep xs rdy s1" "line_frame s s1"
    unfolding s1 by (rule put_at_cursor_rep(3) [OF rep], rule put_at_cursor_rep(4) [OF rep])
  moreover have "tty_inv order s1" "out s1 = out s" using inv by (simp_all add: s1 put_at_cursor_inv) (simp add: put_at_cursor_def)
  ultimately have "runs (wakeup (TtyInput SerialTty)) (s1\<lparr>g_serial_tty := (g_serial_tty s1)\<lparr>data_ready := True\<rparr>\<rparr>)
      (\<lambda>_ s'. tty_rep xs True s' \<and> tty_inv order s' \<and> out s' = out s \<and> line_frame s s')"
    using wake by blast
  moreover note wake [OF rep inv line_frame_same [OF same_kernel_refl] refl]
  ultimately show ?thesis
    by (cases "cursor (g_serial_tty s) = TTY_BUFIO_LEN - 1") (simp_all add: s1_def deliver_def)
qed

lemma store_char_runs:
  assumes rep: "tty_rep xs rdy s" and inv: "tty_inv order s"
    and c: "c \<noteq> ASCII_EOT" "c \<noteq> ASCII_DELETE" "c \<noteq> 0x08"
  shows "runs (store_char c) s (\<lambda>_ s'. tty_rep (line_step xs c) (rdy \<or> c = 0x0A) s' \<and> tty_inv order s' \<and>
    out s' = out s \<and> line_frame s s')"
proof -
  define s1 where "s1 = (if length xs < LINE_MAX then put_at_cursor c (\<lambda>k. k + 1) s else s)"
  have cur: "cursor (g_serial_tty s) < TTY_BUFIO_LEN - 1 \<longleftrightarrow> length xs < LINE_MAX"
    using rep by (simp add: tty_rep_def Let_def word_less_nat_alt TTY_BUFIO_LEN_def size_consts LINE_MAX_def)
  have rep1: "tty_rep (line_step xs c) rdy s1" and inv1: "tty_inv order s1" and out1: "out s1 = out s" and fr1: "line_frame s s1"
    using rep inv c put_at_cursor_rep(1,4) [OF rep, of c] line_frame_same [OF same_kernel_refl, of s]
    by (auto simp: line_step_def s1_def put_at_cursor_inv) (simp add: put_at_cursor_def)
  have st: "runs (store_char c) s Q" if "runs (kwhen (c = 0x0A) (deliver c)) s1 Q" for Q
    using that cur by (cases "length xs < LINE_MAX"; cases "c = 0x0A") (simp_all add: store_char_def s1_def put_at_cursor_def)
  show ?thesis
  proof (rule st, cases "c = 0x0A")
    case True
    show "runs (kwhen (c = 0x0A) (deliver c)) s1 (\<lambda>_ s'. tty_rep (line_step xs c) (rdy \<or> c = 0x0A) s' \<and> tty_inv order s' \<and>
    out s' = out s \<and> line_frame s s')"
      unfolding kwhen_def if_P [OF True]
      by (rule runs_mono [OF store_newline [OF rep1 inv1]]) (use out1 fr1 True line_frame_trans in auto)
  qed (use rep1 inv1 out1 fr1 in simp)
qed

lemma tty_new_data_line:
  assumes rep: "tty_rep xs rdy s" and inv: "tty_inv order s"
    and d_def: "d = icrnl c"
  shows "runs (tty_new_data ser SerialTty c) s (\<lambda>_ s'. tty_rep (line_step xs d) (rdy \<or> d = 0x0A) s' \<and> tty_inv order s' \<and>
    out s' = out s @ line_echo xs d \<and> line_frame s s')"
proof -
  have po: "port (g_serial_tty s) = Some SerialUart" and cur: "cursor (g_serial_tty s) > 0 \<longleftrightarrow> xs \<noteq> []"
    using rep by (auto simp: tty_rep_def Let_def word_less_nat_alt)
  consider "d = ASCII_EOT" | "d \<noteq> ASCII_EOT" "d = ASCII_DELETE \<or> d = 0x08" "xs = []"
    | "d \<noteq> ASCII_EOT" "d = ASCII_DELETE \<or> d = 0x08" "xs \<noteq> []" | (plain) "d \<noteq> ASCII_EOT" "d \<noteq> ASCII_DELETE" "d \<noteq> 0x08"
    by blast
  then show ?thesis
  proof cases
    case 1
    then have "tty_new_data ser SerialTty c = task_interrupt_by_tty SerialTty" "d \<noteq> 0x0A"
      by (auto simp: tty_new_data_def d_def icrnl_def Let_def ASCII_EOT_def)
    then show ?thesis
      using 1 rep
      by (auto simp: line_step_def line_echo_def tty_rep_def line_frame_def Let_def intro!: runs_mono [OF tty_interrupt [OF inv]])
  next
    case 2
    then have "d \<noteq> 0x0A" by (auto simp: ASCII_DELETE_def)
    moreover have "tty_new_data ser SerialTty c s = Inr ((), s)"
      using 2 cur by (auto simp: tty_new_data_def d_def icrnl_def Let_def get_serial_tty kop_simps)
    ultimately show ?thesis
      using 2 rep inv line_frame_same [OF same_kernel_refl] by (auto simp: runs_def line_step_def line_echo_def)
  next
    case 3
    then have nl: "d \<noteq> 0x0A" by (auto simp: ASCII_DELETE_def)
    have "tty_new_data ser SerialTty c s =
        kseq (kmodify (\<lambda>t. t\<lparr>mem := (mem t)(tty_buf (g_serial_tty s) + cursor (g_serial_tty s) := 0)\<rparr>))
        (kseq (upd_tty SerialTty (\<lambda>x. x\<lparr>cursor := cursor x - 1\<rparr>)) (kfor [0x08, 0x20, 0x08] (uart_send ser))) s"
      using 3 cur po by (auto simp: tty_new_data_def d_def icrnl_def Let_def get_serial_tty kop_simps port_send_def kseq_kreturn_unit)
    then show ?thesis
      using erase_runs [OF rep inv 3(3) refl, of "[0x08, 0x20, 0x08]"] 3 nl
      by (auto simp: runs_def line_step_def line_echo_def)
  next
    case plain
    have "tty_new_data ser SerialTty c s = kseq (kfor (line_echo xs d) (uart_send ser)) (store_char d) s"
    proof -
      have "tty_new_data ser SerialTty c = kbind (get_tty SerialTty) (\<lambda>x.
          kseq (kwhen (d = 0x0A) (port_send ser (port x) 0x0D)) (kseq (port_send ser (port x) d) (store_char d)))"
        using plain by (simp add: tty_new_data_def d_def icrnl_def Let_def store_char_def deliver_def)
      then show ?thesis
        using plain po by (cases "d = 0x0A") (simp_all add: get_serial_tty kop_simps line_echo_def port_send_def
          kwhen_def kseq_assoc kseq_kreturn)
    qed
    moreover have "runs (kseq (kfor (line_echo xs d) (uart_send ser)) (store_char d)) s
        (\<lambda>_ s'. tty_rep (line_step xs d) (rdy \<or> d = 0x0A) s' \<and> tty_inv order s' \<and>
          out s' = out s @ line_echo xs d \<and> line_frame s s')"
      unfolding runs_kseq
    proof (rule runs_mono [OF sends], elim conjE)
      fix s1 assume k: "same_kernel s s1" and o: "out s1 = out s @ line_echo xs d"
      have "tty_rep xs rdy s1" "tty_inv order s1" using rep inv by (simp_all add: tty_rep_same [OF k] tty_inv_same [OF k])
      then show "runs (store_char d) s1 (\<lambda>_ s'. tty_rep (line_step xs d) (rdy \<or> d = 0x0A) s' \<and> tty_inv order s' \<and>
          out s' = out s @ line_echo xs d \<and> line_frame s s')"
        by (rule runs_mono [OF store_char_runs [OF _ _ plain]]) (use o line_frame_trans [OF line_frame_same [OF k]] in auto)
    qed
    ultimately show ?thesis by (simp add: runs_def)
  qed
qed

lemma tty_types:
  assumes "tty_rep xs rdy s" and "tty_inv order s"
  shows "runs (kfor cs (tty_new_data ser SerialTty)) s (\<lambda>_ s'.
    tty_rep (foldl line_step xs (map icrnl cs)) (rdy \<or> 0x0A \<in> set (map icrnl cs)) s' \<and> tty_inv order s' \<and> line_frame s s')"
  using assms
proof (induction cs arbitrary: xs rdy s)
  case Nil
  then show ?case using line_frame_same [OF same_kernel_refl] by simp
next
  case (Cons c cs)
  show ?case unfolding kfor.simps runs_kseq
    by (rule runs_mono [OF tty_new_data_line [OF Cons.prems refl]], elim conjE, rule runs_mono [OF Cons.IH])
      (auto intro: line_frame_trans)
qed

end

section \<open>The drivers meet the contract\<close>

text \<open>
  A bus whose device is always ready and records the characters written to the data register at \<open>base\<close>; the
  recorded output is the part of the state beyond the kernel's.
\<close>

definition record_char :: "u8 \<Rightarrow> (u8 list disp_state_scheme, unit) kop" where
  "record_char c = kmodify (\<lambda>s. disp_state.extend (disp_state.truncate s) (disp_state.more s @ [c]))"

definition ready_bus :: "u64 \<Rightarrow> u8 list disp_state_scheme bus" where
  "ready_bus base = \<lparr>inb = \<lambda>_. kreturn 0x20, outb = \<lambda>p v. kwhen (p = ucast base) (record_char v),
     dev_read8 = \<lambda>_. kreturn 0x20, dev_write8 = \<lambda>a v. kwhen (a = base) (record_char v),
     dev_read32 = \<lambda>_. kreturn 0, dev_write32 = \<lambda>a v. kwhen (a = base) (record_char (ucast v)),
     read_msr = \<lambda>_. kreturn 0, write_msr = \<lambda>_ _. kreturn ()\<rparr>"

lemma record_char_runs: "runs (record_char c) s (\<lambda>_ s'. same_kernel s s' \<and> disp_state.more s' = disp_state.more s @ [c])"
  by (simp add: record_char_def same_kernel_def disp_state.defs)

lemma poll_loop_ready: "ready s = Inr (True, s) \<Longrightarrow> khang (poll_loop ready) s = Inr ((), s)"
  by (simp add: khang_def poll_loop.simps [of ready s])

lemma uart16550_sends: "uart_send (uart16550_uart_ops arch (ready_bus base) base) c s = record_char c s"
proof -
  have "uart16550_status arch (ready_bus base) base UART16550_LSR_SEND_READY_MASK s = Inr (True, s)"
    by (simp add: uart16550_status_def uart16550_read_reg_def ready_bus_def kop_simps UART16550_LINE_STATUS_REG_def
        UART16550_NUM_REGS_def UART16550_LSR_SEND_READY_MASK_def)
  from poll_loop_ready [of "uart16550_status arch (ready_bus base) base UART16550_LSR_SEND_READY_MASK", OF this]
  show ?thesis
    by (simp add: uart16550_uart_ops_def uart16550_send_def kop_simps uart16550_write_reg_def UART16550_NUM_REGS_def
        UART16550_DATA_REG_def ready_bus_def)
qed

lemma pl011_sends: "uart_send (pl011_uart_ops (ready_bus base) base) c s = record_char c s"
proof -
  have "pl011_clear (ready_bus base) base FLAG_XMIT_EMPTY s = Inr (True, s)"
    by (simp add: pl011_clear_def pl011_read_reg_def ready_bus_def kop_simps)
  note poll_loop_ready [of "pl011_clear (ready_bus base) base FLAG_XMIT_EMPTY", OF this]
  moreover have "ucast (ucast c :: u32) = c"
    by (rule bit_word_eqI) (auto simp: bit_simps)
  ultimately show ?thesis
    by (simp add: pl011_uart_ops_def pl011_send_def kop_simps pl011_write_reg_def REG_DR_def ready_bus_def)
qed

interpretation uart16550: serial_port "uart16550_uart_ops arch (ready_bus base) base" "\<lambda>z. z" for arch base
  by unfold_locales (use record_char_runs in \<open>simp add: runs_def uart16550_sends\<close>)

interpretation pl011: serial_port "pl011_uart_ops (ready_bus base) base" "\<lambda>z. z" for base
  by unfold_locales (use record_char_runs in \<open>simp add: runs_def pl011_sends\<close>)

section \<open>Reading\<close>

lemma tty_readin_line:
  assumes rep: "tty_rep xs True s"
  shows "runs (tty_readin arch cs SerialTty data len) s (\<lambda>n s'. unat n = min (unat len) (length xs) \<and> tty_rep [] False s' \<and>
    mem s' = memcpy data (tty_buf (g_serial_tty s)) n (mem s))"
proof -
  have cur: "unat (cursor (g_serial_tty s)) = length xs" and po: "port (g_serial_tty s) = Some SerialUart" "data_ready (g_serial_tty s)"
    using rep by (auto simp: tty_rep_def Let_def)
  have "khang (tty_wait_loop (sleep arch cs (TtyInput SerialTty)) SerialTty) s = Inr ((), s)"
    using po by (simp add: khang_def tty_wait_loop.simps [of _ _ s] get_serial_tty)
  then show ?thesis
    using po cur by (simp add: tty_readin_def runs_def kop_simps get_serial_tty upd_serial_tty Let_def tty_rep_def min_u64_def min_def word_less_nat_alt)
qed

section \<open>Properties\<close>

text \<open>C32: The serial terminal implements a line editor. On a working serial port every input returns; the
  bytes of the terminal's page up to its cursor are the line that the editor computes, where a carriage
  return counts as newline, backspace and delete remove the last character, an interrupt character leaves
  the line alone, and a line that has 4095 characters takes no more, a newline included; a newline makes the
  line ready. The echo is sent in order, and no memory outside the page changes.\<close>

theorem tty_line_refines:
  assumes "serial_port ser dev_out" "tty_rep xs rdy s" "tty_inv order s"
  shows "runs (tty_new_data ser SerialTty c) s (\<lambda>_ s'.
    tty_rep (line_step xs (icrnl c)) (rdy \<or> icrnl c = 0x0A) s' \<and> tty_inv order s' \<and>
    dev_out (disp_state.more s') = dev_out (disp_state.more s) @ line_echo xs (icrnl c) \<and>
    (\<forall>a. 4096 \<le> unat (a - tty_buf (g_serial_tty s)) \<longrightarrow> mem s' a = mem s a))"
  by (rule runs_mono [OF serial_port.tty_new_data_line [OF assms refl]]) (simp add: line_frame_def)

text \<open>C33: What is typed is what is read: after ordinary characters and the return key, a read returns at once
  with the characters and a newline, as many as fit the buffer, in the buffer, and leaves an empty line.\<close>

theorem typed_line_read:
  assumes "serial_port ser dev_out" "tty_rep [] False s" "tty_inv order s"
    and plain: "set xs \<inter> {ASCII_EOT, ASCII_DELETE, 0x08, 0x0A, 0x0D} = {}" "length xs < LINE_MAX"
    and dst: "copy_ok data (tty_buf (g_serial_tty s)) 4096"
  shows "runs (kseq (kfor (xs @ [0x0D]) (tty_new_data ser SerialTty)) (tty_readin arch cs SerialTty data len)) s
    (\<lambda>n s'. unat n = min (unat len) (length xs + 1) \<and> tty_rep [] False s' \<and>
      (\<forall>j < unat n. mem s' (data + of_nat j) = (xs @ [0x0A]) ! j))"
  unfolding runs_kseq
proof (rule runs_mono [OF serial_port.tty_types [OF assms(1-3)]], elim conjE)
  fix s1
  have ic: "map icrnl xs = xs" using plain(1) by (intro map_idI) (auto simp: icrnl_def)
  have "foldl line_step ys xs = ys @ xs" if "length ys + length xs \<le> LINE_MAX" for ys
    using that plain(1) by (induction xs arbitrary: ys) (auto simp: line_step_def)
  then have line: "foldl line_step [] (map icrnl (xs @ [0x0D])) = xs @ [0x0A]"
    using plain(2) ic by (simp add: icrnl_def line_step_def ASCII_EOT_def ASCII_DELETE_def)
  assume rep: "tty_rep (foldl line_step [] (map icrnl (xs @ [0x0D]))) (False \<or> 0x0A \<in> set (map icrnl (xs @ [0x0D]))) s1"
    and fr: "line_frame s s1"
  have buf: "tty_buf (g_serial_tty s1) = tty_buf (g_serial_tty s)" using fr by (simp add: line_frame_def)
  from rep have rep1: "tty_rep (xs @ [0x0A]) True s1" unfolding line by (simp add: icrnl_def)
  show "runs (tty_readin arch cs SerialTty data len) s1 (\<lambda>n s'. unat n = min (unat len) (length xs + 1) \<and>
      tty_rep [] False s' \<and> (\<forall>j < unat n. mem s' (data + of_nat j) = (xs @ [0x0A]) ! j))"
  proof (rule runs_mono [OF tty_readin_line [OF rep1]], intro conjI allI impI; (elim conjE)?)
    fix n and s' :: "'a disp_state_scheme" and j
    assume n: "unat n = min (unat len) (length (xs @ [0x0A]))" and m: "mem s' = memcpy data (tty_buf (g_serial_tty s1)) n (mem s1)"
      and j: "j < unat n"
    have "copy_ok data (tty_buf (g_serial_tty s1)) n"
      using dst plain(2) n by (auto simp: copy_ok_def buf LINE_MAX_def)
    moreover have "unat (of_nat j :: u64) = j" using j unat_bound_64 [of n] by (intro unat_of_nat_64) simp
    moreover have "j < length (xs @ [0x0A])" using j n by simp
    ultimately show "mem s' (data + of_nat j) = (xs @ [0x0A]) ! j"
      using j rep1 by (simp add: m memcpy_apply tty_rep_def Let_def)
  qed auto
qed

section \<open>An example\<close>

text \<open>The example system of the scheduler with a serial terminal whose page is at 0xFFFFFF0010001000.\<close>

definition line_demo :: "u8 list disp_state_scheme" where
  "line_demo = \<lparr>mem = mem (sched_demo 1), ints_on = ints_on (sched_demo 1), small_kheap = small_kheap (sched_demo 1), large_kheap =
     large_kheap (sched_demo 1), pt_regs = pt_regs (sched_demo 1), filetab = filetab (sched_demo 1), g_initrd = g_initrd
     (sched_demo 1), stdio_serial = stdio_serial (sched_demo 1), stdio_display = stdio_display (sched_demo 1), is_gui_enabled
     = is_gui_enabled (sched_demo 1), task_pool = task_pool (sched_demo 1), task_links = task_links (sched_demo 1),
     cur_thread = cur_thread (sched_demo 1), idle_task = idle_task (sched_demo 1), scratch_thread = scratch_thread
     (sched_demo 1), entry_kstack = entry_kstack (sched_demo 1),
     g_framebuffer = \<lparr>framebuffer = 0, pxwidth = 0, pxheight = 0\<rparr>, g_display = [], g_vuart = [], g_display_tty = [],
     g_serial_tty = \<lparr>tty_buf = 0xFFFFFF0010001000, port = Some SerialUart, cursor = 0, data_ready = False\<rparr>,
     active_display = None, active_display_idx = 0, \<dots> = []\<rparr>"

lemma line_demo_rep: "tty_rep [] False line_demo"
  by (simp add: tty_rep_def line_demo_def LINE_MAX_def)

lemma line_demo_inv: "tty_inv [3, 2, 1, 0] line_demo"
proof -
  have "sched_inv [3, 2, 1, 0] line_demo"
    using sched_demo_inv [of 1] by (simp add: sched_inv_def line_demo_def)
  moreover have "\<not> ints_on line_demo" "\<forall>i \<in> set [3, 2, 1, 0]. fds_ok (filetab line_demo) (task_pool line_demo ! i)"
    by (simp_all add: line_demo_def sched_demo_def fds_ok_def demo_task_def TASK_NUM_FILES_def)
  ultimately show ?thesis by (simp add: tty_inv_def)
qed

theorem tty_line_refines_witness:
  "runs (tty_new_data (uart16550_uart_ops X86_64 (ready_bus 0x3F8) 0x3F8) SerialTty 0x61) line_demo
     (\<lambda>_ s'. tty_rep [0x61] False s' \<and> disp_state.more s' = [0x61])"
  by (rule runs_mono [OF tty_line_refines [OF uart16550.serial_port_axioms line_demo_rep line_demo_inv]])
    (simp add: icrnl_def line_step_def line_echo_def ASCII_EOT_def ASCII_DELETE_def LINE_MAX_def line_demo_def)

theorem typed_line_read_witness:
  "runs (kseq (kfor ([0x68, 0x69] @ [0x0D]) (tty_new_data (pl011_uart_ops (ready_bus 0xFE201000) 0xFE201000) SerialTty))
      (tty_readin RISCV64 (\<lambda>_ _. kreturn ()) SerialTty 0x400000 100)) line_demo
     (\<lambda>n s'. unat n = 3 \<and> mem s' 0x400001 = 0x69)"
proof -
  have "set [0x68, 0x69] \<inter> {ASCII_EOT, ASCII_DELETE, 0x08, 0x0A, 0x0D} = {}" "length [0x68, 0x69 :: u8] < LINE_MAX"
    "copy_ok 0x400000 (tty_buf (g_serial_tty line_demo)) 4096"
    by (simp_all add: ASCII_EOT_def ASCII_DELETE_def LINE_MAX_def copy_ok_def line_demo_def)
  note read = typed_line_read [OF pl011.serial_port_axioms line_demo_rep line_demo_inv this]
  show ?thesis by (rule runs_mono [OF read]) (auto dest!: spec [of _ 1])
qed

end
