(* ===== verification/Sky_Text.thy ===== *)
theory Sky_Text
  imports Sky_Line
begin

text \<open>
  The text of a display (src/graphics/display.c): the grid of characters in the text buffer, scrolling, and
  what \<open>display_putc\<close> does to grid and cursor.
\<close>

section \<open>The grid\<close>

definition cols :: "display_t \<Rightarrow> nat" where "cols d = unat (textwidth d)"
definition rows :: "display_t \<Rightarrow> nat" where "rows d = unat (textheight d)"

text \<open>What \<open>display_setup\<close> asserts of the size, for a display with at least a line of text and the status line.\<close>

definition grid_ok :: "display_t \<Rightarrow> bool" where
  "grid_ok d \<longleftrightarrow> 0 < cols d \<and> 2 \<le> rows d \<and> cols d * rows d < 2 ^ 21"

definition cell :: "display_t \<Rightarrow> memory \<Rightarrow> nat \<Rightarrow> nat \<Rightarrow> u8" where
  "cell d m l c = m (textbuf d + of_nat (l * cols d + c))"

definition cur_row :: "display_t \<Rightarrow> nat" where "cur_row d = unat (d_cursor d) div cols d"
definition cur_col :: "display_t \<Rightarrow> nat" where "cur_col d = unat (d_cursor d) mod cols d"

lemma get_display_run: "p < length (g_display s) \<Longrightarrow> get_display p s = Inr (g_display s ! p, s)"
  by (simp add: get_display_def kop_simps)

lemma upd_display_run:
  "p < length (g_display s) \<Longrightarrow> upd_display p f s = Inr ((), s\<lparr>g_display := (g_display s)[p := f (g_display s ! p)]\<rparr>)"
  by (simp add: upd_display_def get_display_run kop_simps)

lemma grid_index: "l < r \<Longrightarrow> c < w \<Longrightarrow> l * w + c < w * (r :: nat)"
proof -
  assume "l < r" "c < w"
  then have "l * w + c < l * w + w" by simp
  also have "\<dots> \<le> w * r" using \<open>l < r\<close> mult_le_mono2 [of "Suc l" r w] by (simp add: algebra_simps)
  finally show ?thesis .
qed

lemma grid_sizes:
  assumes "grid_ok d"
  shows "unat (textheight d - 1) = rows d - 1" "unat (textwidth d * (textheight d - 1)) = cols d * (rows d - 1)"
    "textwidth d \<noteq> 0" "cols d < 2 ^ 21" "rows d < 2 ^ 21"
proof -
  have g: "0 < cols d" "2 \<le> rows d" "cols d * rows d < 2 ^ 21" using assms by (simp_all add: grid_ok_def)
  show h: "unat (textheight d - 1) = rows d - 1"
    using g(2) by (subst unat_sub) (simp_all add: rows_def word_le_nat_alt)
  have "cols d * (rows d - 1) \<le> cols d * rows d" by simp
  also note g(3)
  finally have "cols d * (rows d - 1) < 2 ^ 64" by (rule less_trans) simp
  then show "unat (textwidth d * (textheight d - 1)) = cols d * (rows d - 1)"
    by (subst unat_mult_lem [THEN iffD1]) (simp_all add: h cols_def)
  show "textwidth d \<noteq> 0" using g(1) by (auto simp: cols_def)
  have "cols d \<le> cols d * rows d" "rows d \<le> cols d * rows d" using g(1,2) by simp_all
  then show "cols d < 2 ^ 21" "rows d < 2 ^ 21" using g(3) by (blast intro: le_less_trans)+
qed

lemma nums: "(2 :: nat) ^ 21 = 2097152" "(2 :: nat) ^ 64 = 18446744073709551616"
  by simp_all

section \<open>Scrolling\<close>

lemma scroll_cells:
  assumes "grid_ok d"
    and m'_def: "m' = memcpy (textbuf d) (textbuf d + textwidth d) (textwidth d * (textheight d - 1)) m"
  shows "l < rows d \<Longrightarrow> c < cols d \<Longrightarrow> cell d m' l c = cell d m (min (l + 1) (rows d - 1)) c"
    and "cols d * rows d \<le> unat (a - textbuf d) \<Longrightarrow> m' a = m a"
proof -
  note g = grid_sizes [OF assms(1)]
  have g': "0 < cols d" "2 \<le> rows d" "cols d * rows d < 2 ^ 21" using assms(1) by (simp_all add: grid_ok_def)
  have le: "cols d * (rows d - 1) \<le> cols d * rows d" by simp
  have "unat (textbuf d - (textbuf d + textwidth d)) = 2 ^ 64 - cols d"
  proof -
    have "textbuf d - (textbuf d + textwidth d) = 0 - textwidth d" by simp
    moreover have "0 < unat (textwidth d)" using g'(1) by (simp add: cols_def)
    ultimately show ?thesis by (simp only: unat_sub_if') (simp add: cols_def)
  qed
  then have ok: "copy_ok (textbuf d) (textbuf d + textwidth d) (textwidth d * (textheight d - 1))"
    unfolding copy_ok_def g(2) using g(4) le_less_trans [OF le g'(3)] unfolding nums by (intro disjI2) linarith
  note ap = memcpy_apply [OF ok, of m, folded m'_def, unfolded g(2)]
  show "m' a = m a" if "cols d * rows d \<le> unat (a - textbuf d)" proof -
    have "\<not> unat (a - textbuf d) < cols d * (rows d - 1)" using that le by linarith
    then show ?thesis by (simp only: ap if_False)
  qed
  assume l: "l < rows d" and c: "c < cols d"
  have off: "l * cols d + c < 2 ^ 64" using grid_index [OF l c] g'(3) by simp
  have at: "m' (textbuf d + of_nat (l * cols d + c)) = (if l * cols d + c < cols d * (rows d - 1)
      then m (textbuf d + textwidth d + of_nat (l * cols d + c)) else m (textbuf d + of_nat (l * cols d + c)))"
    unfolding ap add_diff_cancel_left' unat_of_nat_64 [OF off] by (rule refl)
  show "cell d m' l c = cell d m (min (l + 1) (rows d - 1)) c"
  proof (cases "l < rows d - 1")
    case True
    have "textbuf d + textwidth d + of_nat (l * cols d + c) = textbuf d + of_nat ((l + 1) * cols d + c)"
      by (simp add: cols_def algebra_simps)
    moreover have "min (l + 1) (rows d - 1) = l + 1" using True by simp
    ultimately show ?thesis
      using grid_index [OF True c] by (simp only: cell_def at if_True)
  next
    case False
    then have "l = rows d - 1" using l by simp
    moreover have "min (l + 1) (rows d - 1) = rows d - 1" using False by simp
    moreover have "\<not> (rows d - 1) * cols d + c < cols d * (rows d - 1)" by (simp add: mult.commute)
    ultimately show ?thesis using at by (simp only: cell_def if_False)
  qed
qed

text \<open>How many times the loop scrolls before a character is written.\<close>

definition scrolls :: "display_t \<Rightarrow> nat" where "scrolls d = cur_row d + 2 - rows d"

lemma scroll_up_run:
  assumes "p < length (g_display s)" "d = g_display s ! p"
  shows "display_scroll_up (Some p) s = Inr ((), s\<lparr>
      mem := memcpy (textbuf d) (textbuf d + textwidth d) (textwidth d * (textheight d - 1)) (mem s),
      g_display := (g_display s)[p := d\<lparr>d_cursor := d_cursor d - textwidth d, last_clean_line := 0\<rparr>]\<rparr>)"
  using assms by (simp add: display_scroll_up_def kop_simps get_display_run upd_display_run)

lemma scroll_loop_run:
  assumes "p < length (g_display s)" "grid_ok (g_display s ! p)"
  shows "\<exists>m' cur lcl. scroll_loop p s = Some (Inr ((), s\<lparr>mem := m',
      g_display := (g_display s)[p := (g_display s ! p)\<lparr>d_cursor := cur, last_clean_line := lcl\<rparr>]\<rparr>)) \<and>
    unat cur = unat (d_cursor (g_display s ! p)) - scrolls (g_display s ! p) * cols (g_display s ! p) \<and>
    (\<forall>l < rows (g_display s ! p). \<forall>c < cols (g_display s ! p).
      cell (g_display s ! p) m' l c = cell (g_display s ! p) (mem s) (min (l + scrolls (g_display s ! p)) (rows (g_display s ! p) - 1)) c) \<and>
    (\<forall>a. cols (g_display s ! p) * rows (g_display s ! p) \<le> unat (a - textbuf (g_display s ! p)) \<longrightarrow> m' a = mem s a)"
  using assms
proof (induction "cur_row (g_display s ! p)" arbitrary: s rule: less_induct)
  case less
  define d where "d = g_display s ! p"
  note g = grid_sizes [OF less.prems(2), folded d_def]
  have g': "0 < cols d" "2 \<le> rows d" using less.prems(2) by (simp_all add: grid_ok_def d_def)
  have test: "textheight d - 1 \<le> d_cursor d div textwidth d \<longleftrightarrow> rows d - 1 \<le> cur_row d"
    by (simp add: word_le_nat_alt g(1) unat_div cur_row_def cols_def)
  show ?case
  proof (cases "rows d - 1 \<le> cur_row d")
    case False
    then have "scroll_loop p s = Some (Inr ((), s))"
      using less.prems(1) g(3) test by (subst scroll_loop.simps) (simp add: get_display_run d_def)
    moreover have "scrolls d = 0" using False by (simp add: scrolls_def)
    moreover have "s\<lparr>mem := mem s, g_display := (g_display s)[p := d\<lparr>d_cursor := d_cursor d, last_clean_line := last_clean_line d\<rparr>]\<rparr> = s"
      by (simp add: d_def)
    moreover have "min l (rows d - 1) = l" if "l < rows d" for l using that by simp
    ultimately show ?thesis unfolding d_def [symmetric]
      by (intro exI [of _ "mem s"] exI [of _ "d_cursor d"] exI [of _ "last_clean_line d"] conjI allI impI; simp only: add_0_right mult_0 diff_zero refl)
  next
    case True
    define m1 where "m1 = memcpy (textbuf d) (textbuf d + textwidth d) (textwidth d * (textheight d - 1)) (mem s)"
    define d1 where "d1 = d\<lparr>d_cursor := d_cursor d - textwidth d, last_clean_line := 0\<rparr>"
    define s1 where "s1 = s\<lparr>mem := m1, g_display := (g_display s)[p := d1]\<rparr>"
    have up: "display_scroll_up (Some p) s = Inr ((), s1)"
      using scroll_up_run [OF less.prems(1) d_def] by (simp add: s1_def m1_def d1_def)
    have d1: "g_display s1 ! p = d1" "cols d1 = cols d" "rows d1 = rows d" "textbuf d1 = textbuf d"
      using less.prems(1) by (simp_all add: s1_def d1_def cols_def rows_def)
    have row: "cols d \<le> unat (d_cursor d)"
    proof -
      have "0 < unat (d_cursor d) div cols d" using True g' by (simp add: cur_row_def)
      then show ?thesis by (simp add: div_greater_zero_iff)
    qed
    then have cur: "unat (d_cursor d - textwidth d) = unat (d_cursor d) - cols d"
      by (subst unat_sub) (simp_all add: word_le_nat_alt cols_def)
    have rows1: "cur_row d1 = cur_row d - 1"
      using row g'(1) by (simp add: cur_row_def d1(2) le_div_geq) (simp add: d1_def cur)
    have sc: "scrolls d = Suc (scrolls d1)" using True g' rows1 by (simp add: scrolls_def d1)
    have "scroll_loop p s = scroll_loop p s1"
      using less.prems(1) g(3) test True up by (subst scroll_loop.simps) (simp add: get_display_run d_def [symmetric])
    moreover have "cur_row (g_display s1 ! p) < cur_row (g_display s ! p)"
      using True g' rows1 by (simp add: d1 d_def [symmetric])
    moreover have "p < length (g_display s1)" "grid_ok (g_display s1 ! p)"
      using less.prems by (simp_all add: s1_def grid_ok_def d1_def cols_def rows_def d_def)
    ultimately obtain m' cur' lcl where IH: "scroll_loop p s = Some (Inr ((), s1\<lparr>mem := m',
        g_display := (g_display s1)[p := d1\<lparr>d_cursor := cur', last_clean_line := lcl\<rparr>]\<rparr>))"
      "unat cur' = unat (d_cursor d1) - scrolls d1 * cols d"
      "\<And>l c. l < rows d \<Longrightarrow> c < cols d \<Longrightarrow> cell d1 m' l c = cell d1 m1 (min (l + scrolls d1) (rows d - 1)) c"
      "\<And>a. cols d * rows d \<le> unat (a - textbuf d) \<Longrightarrow> m' a = m1 a"
      using less.hyps [of s1] unfolding d1 by (fastforce simp: s1_def)
    have cells: "cell d1 = cell d" by (simp add: cell_def d1 fun_eq_iff)
    have "cell d m' l c = cell d (mem s) (min (l + scrolls d) (rows d - 1)) c" if "l < rows d" "c < cols d" for l c
    proof -
      have "cell d m' l c = cell d m1 (min (l + scrolls d1) (rows d - 1)) c" using IH(3) [OF that] by (simp add: cells)
      also have "\<dots> = cell d (mem s) (min (min (l + scrolls d1) (rows d - 1) + 1) (rows d - 1)) c"
        by (rule scroll_cells(1) [OF less.prems(2) [folded d_def] m1_def]) (use that g' in auto)
      also have "min (min (l + scrolls d1) (rows d - 1) + 1) (rows d - 1) = min (l + scrolls d) (rows d - 1)"
        by (simp add: sc)
      finally show ?thesis .
    qed
    moreover have "m' a = mem s a" if "cols d * rows d \<le> unat (a - textbuf d)" for a
      using IH(4) [OF that] scroll_cells(2) [OF less.prems(2) [folded d_def] m1_def that] by simp
    moreover have "unat cur' = unat (d_cursor d) - scrolls d * cols d"
      using IH(2) by (simp add: sc d1_def cur)
    moreover have "scroll_loop p s = Some (Inr ((), s\<lparr>mem := m',
        g_display := (g_display s)[p := d\<lparr>d_cursor := cur', last_clean_line := lcl\<rparr>]\<rparr>))"
      using IH(1) by (simp add: s1_def d1_def)
    ultimately show ?thesis unfolding d_def [symmetric] by blast
  qed
qed

section \<open>Printing a character\<close>

definition plain_char :: "u8 \<Rightarrow> bool" where
  "plain_char c \<longleftrightarrow> c \<notin> {0, 0x08, 0x0A, 0x0D}"

text \<open>The display of index \<open>p\<close> is there, has a sound size, and the scheduler can be told about it.\<close>

definition disp_inv :: "nat list \<Rightarrow> nat \<Rightarrow> 'z disp_state_scheme \<Rightarrow> bool" where
  "disp_inv order p s \<longleftrightarrow> p < length (g_display s) \<and> grid_ok (g_display s ! p) \<and> sched_inv order s \<and> \<not> ints_on s"

lemma notify_runs:
  assumes "sched_inv order s" "\<not> ints_on s"
  shows "runs (notify_if_active p) s (\<lambda>_ s'. \<exists>q. s' = s\<lparr>task_pool := q\<rparr> \<and> sched_inv order s')"
proof (cases "active_display s = Some p")
  case True
  have "sched_inv order (s\<lparr>task_pool := pool_map (awake ActiveDisplay) order (task_pool s)\<rparr>)"
    by (rule sched_inv_map [OF assms(1)]) (auto simp: awake_def)
  then show ?thesis
    using True by (auto simp: notify_if_active_def runs_def kop_simps wakeup_run [OF assms])
next
  case False
  moreover have "s\<lparr>task_pool := task_pool s\<rparr> = s" by simp
  ultimately show ?thesis using assms(1) by (auto simp: notify_if_active_def intro!: exI [of _ "task_pool s"])
qed

text \<open>Marking the display dirty, the first steps for every character that is not ignored.\<close>

definition mark_dirty :: "display_t \<Rightarrow> display_t" where
  "mark_dirty d = d\<lparr>last_clean_line := (if is_dirty d then last_clean_line d else d_cursor d div textwidth d), is_dirty := True\<rparr>"

lemma mark_dirty_simps [simp]:
  "d_cursor (mark_dirty d) = d_cursor d" "textwidth (mark_dirty d) = textwidth d" "textheight (mark_dirty d) = textheight d"
  "textbuf (mark_dirty d) = textbuf d" "cols (mark_dirty d) = cols d" "rows (mark_dirty d) = rows d" "cell (mark_dirty d) = cell d"
  "cur_row (mark_dirty d) = cur_row d" "scrolls (mark_dirty d) = scrolls d" "grid_ok (mark_dirty d) = grid_ok d"
  by (simp_all add: mark_dirty_def cols_def rows_def cell_def cur_row_def scrolls_def grid_ok_def fun_eq_iff)

lemma putc_marks:
  assumes "p < length (g_display s)" "textwidth (g_display s ! p) \<noteq> 0" "c \<noteq> 0" "c \<noteq> 0x0D"
  shows "display_putc (Some p) c s =
    kseq
      (if c = 0x08 then kwhen (d_cursor (g_display s ! p) > 0) (upd_display p (\<lambda>d. d\<lparr>d_cursor := d_cursor d - 1\<rparr>))
       else if c = 0x0A then
         upd_display p (\<lambda>d. d\<lparr>d_cursor := textwidth d * (1 + d_cursor (g_display s ! p) div textwidth (g_display s ! p))\<rparr>)
       else
         kseq (khang (scroll_loop p))
         (kbind (get_display p) (\<lambda>d.
          kseq (kmodify (\<lambda>s. s\<lparr>mem := (mem s)(textbuf d + d_cursor d := c)\<rparr>))
          (upd_display p (\<lambda>d. d\<lparr>d_cursor := d_cursor d + 1\<rparr>)))))
      (notify_if_active p) (s\<lparr>g_display := (g_display s)[p := mark_dirty (g_display s ! p)]\<rparr>)"
    (is "_ = kseq ?A _ ?s'")
proof -
  let ?d = "g_display s ! p"
  let ?pre = "kwhen (\<not> is_dirty ?d) (upd_display p (\<lambda>d. d\<lparr>last_clean_line := d_cursor ?d div textwidth ?d\<rparr>))"
  let ?s1 = "s\<lparr>g_display := (g_display s)[p := ?d\<lparr>last_clean_line := (if is_dirty ?d then last_clean_line ?d else d_cursor ?d div textwidth ?d)\<rparr>]\<rparr>"
  have "display_putc (Some p) c s = kseq ?pre (kseq (upd_display p (\<lambda>d. d\<lparr>is_dirty := True\<rparr>)) (kseq ?A (notify_if_active p))) s"
    using assms(2-4)
    by (simp only: display_putc_def option.case Let_def if_False
        kbind_Inr [where m = "get_display p" and s = s, OF get_display_run [OF assms(1)]])
  also have "\<dots> = kseq (upd_display p (\<lambda>d. d\<lparr>is_dirty := True\<rparr>)) (kseq ?A (notify_if_active p)) ?s1"
    by (rule kseq_Inr [where m = ?pre and a = "()"]) (use assms(1) in \<open>simp add: kwhen_def kreturn_def upd_display_run\<close>)
  also have "\<dots> = kseq ?A (notify_if_active p) ?s'"
    by (rule kseq_Inr [where a = "()"]) (use assms(1) in \<open>simp add: upd_display_run mark_dirty_def\<close>)
  finally show ?thesis .
qed

lemma cell_upd:
  assumes "grid_ok d" "l < rows d" "x < cols d" "r < rows d" "y < cols d" "unat cur = r * cols d + y"
  shows "cell d (m(textbuf d + cur := c)) l x = (if l = r \<and> x = y then c else cell d m l x)"
proof -
  have lt: "l * cols d + x < 2 ^ 64"
    using grid_index [OF assms(2,3)] assms(1) unfolding grid_ok_def nums by linarith
  have "textbuf d + of_nat (l * cols d + x) = textbuf d + cur \<longleftrightarrow> unat (of_nat (l * cols d + x) :: u64) = unat cur"
    by (metis add_left_cancel word_unat_eq_iff)
  also have "\<dots> \<longleftrightarrow> l * cols d + x = r * cols d + y" by (simp only: unat_of_nat_64 [OF lt] assms(6))
  also have "\<dots> \<longleftrightarrow> l = r \<and> x = y"
  proof
    assume eq: "l * cols d + x = r * cols d + y"
    have "(l * cols d + x) div cols d = l" "(l * cols d + x) mod cols d = x" "(r * cols d + y) div cols d = r" "(r * cols d + y) mod cols d = y"
      using assms(3,5) by simp_all
    then show "l = r \<and> x = y" using eq by metis
  qed simp
  finally show ?thesis unfolding cell_def fun_upd_apply by simp
qed

lemma scrolled_cursor:
  assumes "grid_ok d"
  shows "unat (d_cursor d) - scrolls d * cols d = min (cur_row d) (rows d - 2) * cols d + cur_col d"
proof -
  have c: "unat (d_cursor d) = cur_row d * cols d + cur_col d" by (simp add: cur_row_def cur_col_def)
  have "cur_row d = min (cur_row d) (rows d - 2) + scrolls d" using assms by (auto simp: scrolls_def grid_ok_def min_def)
  then have "cur_row d * cols d = min (cur_row d) (rows d - 2) * cols d + scrolls d * cols d"
    by (metis add_mult_distrib)
  with c show ?thesis by linarith
qed

text \<open>The steps of \<open>display_putc\<close> for an ordinary character.\<close>

lemma putc_plain_run:
  assumes "disp_inv order p s" "plain_char c" and d_def: "d = g_display s ! p"
  obtains m cur lcl where "display_putc (Some p) c s = notify_if_active p (s\<lparr>mem := m(textbuf d + cur := c),
      g_display := (g_display s)[p := (mark_dirty d)\<lparr>last_clean_line := lcl, d_cursor := cur + 1\<rparr>]\<rparr>)"
    "unat cur = min (cur_row d) (rows d - 2) * cols d + cur_col d"
    "\<And>l x. l < rows d \<Longrightarrow> x < cols d \<Longrightarrow> cell d m l x = cell d (mem s) (min (l + scrolls d) (rows d - 1)) x"
    "\<And>a. cols d * rows d \<le> unat (a - textbuf d) \<Longrightarrow> m a = mem s a"
proof -
  have p: "p < length (g_display s)" and g: "grid_ok d"
    using assms(1) by (simp_all add: disp_inv_def d_def)
  have w: "textwidth (g_display s ! p) \<noteq> 0" using grid_sizes(3) [OF g] by (simp add: d_def)
  have c: "c \<noteq> 0" "c \<noteq> 0x0D" "c \<noteq> 0x08" "c \<noteq> 0x0A" using assms(2) by (simp_all add: plain_char_def)
  define s0 where "s0 = s\<lparr>g_display := (g_display s)[p := mark_dirty d]\<rparr>"
  have p0: "p < length (g_display s0)" and d0: "g_display s0 ! p = mark_dirty d" using p by (simp_all add: s0_def)
  have g0: "grid_ok (g_display s0 ! p)" using g by (simp add: d0)
  obtain m cur lcl where sl: "scroll_loop p s0 = Some (Inr ((), s0\<lparr>mem := m,
      g_display := (g_display s0)[p := (mark_dirty d)\<lparr>d_cursor := cur, last_clean_line := lcl\<rparr>]\<rparr>))"
    and cur: "unat cur = unat (d_cursor d) - scrolls d * cols d"
    and cells: "\<And>l x. l < rows d \<Longrightarrow> x < cols d \<Longrightarrow> cell d m l x = cell d (mem s) (min (l + scrolls d) (rows d - 1)) x"
    and frame: "\<And>a. cols d * rows d \<le> unat (a - textbuf d) \<Longrightarrow> m a = mem s a"
    using scroll_loop_run [OF p0 g0] unfolding d0 mark_dirty_simps by (auto simp: s0_def)
  have put: "display_putc (Some p) c s = notify_if_active p (s\<lparr>mem := m(textbuf d + cur := c),
      g_display := (g_display s)[p := (mark_dirty d)\<lparr>last_clean_line := lcl, d_cursor := cur + 1\<rparr>]\<rparr>)"
    unfolding putc_marks [OF p w c(1,2)] d_def [symmetric] s0_def [symmetric] using c(3,4) sl p
    by (simp add: kop_simps khang_def get_display_run upd_display_run s0_def)
  show ?thesis by (rule that [OF put cur [unfolded scrolled_cursor [OF g]] cells frame])
qed

text \<open>The line after that of the cursor.\<close>

lemma next_row:
  assumes "0 < cols d" "(cur_row d + 1) * cols d < 2 ^ 64"
  shows "unat (d_cursor d div textwidth d) = cur_row d" "unat (1 + d_cursor d div textwidth d) = cur_row d + 1"
proof -
  show row: "unat (d_cursor d div textwidth d) = cur_row d" by (simp add: unat_div cur_row_def cols_def)
  have "n \<le> n * c" if "0 < c" for n c :: nat using that by (cases c) auto
  from this [OF assms(1)] have "unat (d_cursor d div textwidth d) + 1 < 2 ^ 64"
    unfolding row using assms(2) by (rule le_less_trans)
  from unat_add_of_nat [OF this] row show "unat (1 + d_cursor d div textwidth d) = cur_row d + 1"
    by (simp add: add.commute)
qed

text \<open>A newline moves the cursor to the start of the next line and does nothing else to the text.\<close>

lemma putc_newline:
  assumes inv: "disp_inv order p s" and d_def: "d = g_display s ! p" and lt: "(cur_row d + 1) * cols d < 2 ^ 64"
    and cl: "unat (last_clean_line d) \<le> cur_row d"
  shows "runs (display_putc (Some p) 0x0A) s (\<lambda>_ s'. disp_inv order p s' \<and> mem s' = mem s \<and>
    cur_row (g_display s' ! p) = cur_row d + 1 \<and> unat (last_clean_line (g_display s' ! p)) \<le> cur_row d + 1 \<and>
    textwidth (g_display s' ! p) = textwidth d \<and> textheight (g_display s' ! p) = textheight d \<and> is_dirty (g_display s' ! p))"
proof -
  have p: "p < length (g_display s)" and g: "grid_ok d" and si: "sched_inv order s" "\<not> ints_on s"
    using inv by (simp_all add: disp_inv_def d_def)
  have w: "textwidth (g_display s ! p) \<noteq> 0" using grid_sizes(3) [OF g] by (simp add: d_def)
  have c0: "0 < cols d" using g by (simp add: grid_ok_def)
  note row = next_row(1) [OF c0 lt] and n = next_row(2) [OF c0 lt]
  define cur where "cur = textwidth d * (1 + d_cursor d div textwidth d)"
  have cur: "unat cur = (cur_row d + 1) * cols d"
    unfolding cur_def by (subst unat_mult_lem [THEN iffD1]) (use lt n in \<open>simp_all add: cols_def mult.commute\<close>)
  define s2 where "s2 = s\<lparr>g_display := (g_display s)[p := (mark_dirty d)\<lparr>d_cursor := cur\<rparr>]\<rparr>"
  have put: "display_putc (Some p) 0x0A s = notify_if_active p s2"
    unfolding putc_marks [OF p w, of "0x0A", simplified] d_def [symmetric] using p
    by (simp add: kop_simps upd_display_run s2_def cur_def)
  have inv2: "sched_inv order s2" "\<not> ints_on s2" using si by (simp_all add: s2_def sched_inv_def)
  have d2: "g_display s2 ! p = (mark_dirty d)\<lparr>d_cursor := cur\<rparr>" "p < length (g_display s2)" "mem s2 = mem s"
    using p by (simp_all add: s2_def)
  have "cur_row (g_display s2 ! p) = cur_row d + 1" unfolding d2(1) using cur c0 by (simp add: cur_row_def cols_def)
  moreover have "unat (last_clean_line (g_display s2 ! p)) \<le> cur_row d + 1"
    unfolding d2(1) using cl row by (simp add: mark_dirty_def)
  moreover have "grid_ok (g_display s2 ! p)" using g unfolding d2(1) by (simp add: grid_ok_def cols_def rows_def)
  moreover have "textwidth (g_display s2 ! p) = textwidth d" "textheight (g_display s2 ! p) = textheight d" "is_dirty (g_display s2 ! p)"
    unfolding d2(1) by (simp_all add: mark_dirty_def)
  ultimately have "runs (notify_if_active p) s2 (\<lambda>_ s'. disp_inv order p s' \<and> mem s' = mem s \<and>
    cur_row (g_display s' ! p) = cur_row d + 1 \<and> unat (last_clean_line (g_display s' ! p)) \<le> cur_row d + 1 \<and>
    textwidth (g_display s' ! p) = textwidth d \<and> textheight (g_display s' ! p) = textheight d \<and> is_dirty (g_display s' ! p))"
    using inv2 d2(2,3) by (intro runs_mono [OF notify_runs [OF inv2]], elim exE conjE) (simp add: disp_inv_def)
  then show ?thesis by (simp only: runs_def put)
qed

section \<open>Properties\<close>

text \<open>C35: \<open>display_putc\<close> of an ordinary character always returns, however far the cursor has run: it scrolls just
  enough for the cursor to be on a line above the status line, so every line moves up by that many lines and
  the last line fills the lines below, writes the character at the cursor, moves the cursor to the next
  position, and changes no memory outside the text buffer.\<close>

theorem display_putc_text:
  assumes "disp_inv order p s" "plain_char c"
  defines "d \<equiv> g_display s ! p" and "row \<equiv> min (cur_row (g_display s ! p)) (rows (g_display s ! p) - 2)"
  shows "runs (display_putc (Some p) c) s (\<lambda>_ s'. disp_inv order p s' \<and>
    unat (d_cursor (g_display s' ! p)) = row * cols d + cur_col d + 1 \<and>
    (\<forall>l < rows d. \<forall>x < cols d. cell d (mem s') l x =
      (if l = row \<and> x = cur_col d then c else cell d (mem s) (min (l + scrolls d) (rows d - 1)) x)) \<and>
    (\<forall>a. cols d * rows d \<le> unat (a - textbuf d) \<longrightarrow> mem s' a = mem s a))"
proof -
  have p: "p < length (g_display s)" and g: "grid_ok d" and inv: "sched_inv order s" "\<not> ints_on s"
    using assms(1) by (simp_all add: disp_inv_def d_def)
  have g': "0 < cols d" "2 \<le> rows d" "cols d * rows d < 2 ^ 21" using g by (simp_all add: grid_ok_def)
  have rowd: "row = min (cur_row d) (rows d - 2)" by (simp only: row_def d_def)
  obtain m cur lcl where put: "display_putc (Some p) c s = notify_if_active p (s\<lparr>mem := m(textbuf d + cur := c),
      g_display := (g_display s)[p := (mark_dirty d)\<lparr>last_clean_line := lcl, d_cursor := cur + 1\<rparr>]\<rparr>)"
    and cu: "unat cur = row * cols d + cur_col d"
    and cells: "\<And>l x. l < rows d \<Longrightarrow> x < cols d \<Longrightarrow> cell d m l x = cell d (mem s) (min (l + scrolls d) (rows d - 1)) x"
    and frame: "\<And>a. cols d * rows d \<le> unat (a - textbuf d) \<Longrightarrow> m a = mem s a"
    using that by (rule putc_plain_run [OF assms(1,2) meta_eq_to_obj_eq [OF d_def]]) (unfold rowd, assumption+)
  define e where "e = (mark_dirty d)\<lparr>last_clean_line := lcl, d_cursor := cur + 1\<rparr>"
  define s2 where "s2 = s\<lparr>mem := m(textbuf d + cur := c), g_display := (g_display s)[p := e]\<rparr>"
  have col: "cur_col d < cols d" using g'(1) by (simp add: cur_col_def)
  have row: "row < rows d" using g'(2) by (simp add: row_def d_def)
  have lt: "row * cols d + cur_col d < cols d * rows d" by (rule grid_index [OF row col])
  have cur1: "unat (cur + 1) = row * cols d + cur_col d + 1"
    using unat_add_of_nat [of cur 1] lt g'(3) cu unfolding nums by (simp only: of_nat_1)
  have inv2: "sched_inv order s2" "\<not> ints_on s2" using inv by (simp_all add: s2_def sched_inv_def)
  have e: "g_display s2 ! p = e" "p < length (g_display s2)" "grid_ok e" "d_cursor e = cur + 1"
    using p g by (simp_all add: s2_def e_def grid_ok_def cols_def rows_def mark_dirty_def)
  have mem2: "cell d (mem s2) l x = (if l = row \<and> x = cur_col d then c else cell d (mem s) (min (l + scrolls d) (rows d - 1)) x)"
    if "l < rows d" "x < cols d" for l x
    using cell_upd [OF g that row col cu] cells [OF that] by (simp add: s2_def)
  have fr2: "mem s2 a = mem s a" if a: "cols d * rows d \<le> unat (a - textbuf d)" for a
  proof -
    have "a \<noteq> textbuf d + cur" using a lt cu by auto
    then show ?thesis using frame [OF a] by (simp add: s2_def)
  qed
  have "runs (notify_if_active p) s2 (\<lambda>_ s'. disp_inv order p s' \<and>
    unat (d_cursor (g_display s' ! p)) = row * cols d + cur_col d + 1 \<and>
    (\<forall>l < rows d. \<forall>x < cols d. cell d (mem s') l x =
      (if l = row \<and> x = cur_col d then c else cell d (mem s) (min (l + scrolls d) (rows d - 1)) x)) \<and>
    (\<forall>a. cols d * rows d \<le> unat (a - textbuf d) \<longrightarrow> mem s' a = mem s a))"
    by (rule runs_mono [OF notify_runs [OF inv2]]) (use e inv2 mem2 fr2 cur1 in \<open>auto simp: disp_inv_def\<close>)
  then show ?thesis by (simp only: runs_def put s2_def e_def)
qed

text \<open>C36: Newlines never scroll: after \<open>n\<close> of them the cursor is \<open>n\<close> lines further down and the text is as
  before, and the next redraw draws that line. Once there are more newlines than lines below the cursor, the
  line it draws is not one of the lines of the grid.\<close>

theorem newline_never_scrolls:
  assumes "disp_inv order p s" "unat (last_clean_line (g_display s ! p)) \<le> cur_row (g_display s ! p)"
    "(cur_row (g_display s ! p) + n + 1) * cols (g_display s ! p) < 2 ^ 64"
  shows "runs (kfor (replicate n 0x0A) (display_putc (Some p))) s (\<lambda>_ s'. disp_inv order p s' \<and> mem s' = mem s \<and>
    cur_row (g_display s' ! p) = cur_row (g_display s ! p) + n \<and>
    cur_row (g_display s ! p) + n \<in> set (dirty_lines (g_display s' ! p)))"
proof -
  have "runs (kfor (replicate n 0x0A) (display_putc (Some p))) s (\<lambda>_ s'. disp_inv order p s' \<and> mem s' = mem s \<and>
    cur_row (g_display s' ! p) = r + n \<and> unat (last_clean_line (g_display s' ! p)) \<le> r + n \<and> cols (g_display s' ! p) = w)"
    if "disp_inv order p s" "cur_row (g_display s ! p) = r" "unat (last_clean_line (g_display s ! p)) \<le> r"
      "cols (g_display s ! p) = w" "(r + n) * w < 2 ^ 64" for r w
    using that
  proof (induction n arbitrary: s r)
    case 0
    then show ?case by simp
  next
    case (Suc n)
    have "(r + 1) * w \<le> (r + Suc n) * w" by simp
    then have lt: "(cur_row (g_display s ! p) + 1) * cols (g_display s ! p) < 2 ^ 64"
      using Suc.prems(5) unfolding Suc.prems(2,4) by (rule le_less_trans)
    show ?case unfolding replicate.simps kfor.simps runs_kseq
      by (rule runs_mono [OF putc_newline [OF Suc.prems(1) refl lt]], use Suc.prems in simp,
          rule runs_mono [OF Suc.IH [of _ "r + 1"]])
        (use Suc.prems in \<open>auto simp: cols_def\<close>)
  qed
  moreover have "(cur_row (g_display s ! p) + n) * cols (g_display s ! p) < 2 ^ 64"
    using assms(3) by (rule le_less_trans [rotated]) simp
  ultimately have "runs (kfor (replicate n 0x0A) (display_putc (Some p))) s (\<lambda>_ s'. disp_inv order p s' \<and> mem s' = mem s \<and>
    cur_row (g_display s' ! p) = cur_row (g_display s ! p) + n \<and>
    unat (last_clean_line (g_display s' ! p)) \<le> cur_row (g_display s ! p) + n \<and> cols (g_display s' ! p) = cols (g_display s ! p))"
    using assms(1,2) by blast
  then show ?thesis
  proof (rule runs_mono, elim conjE, intro conjI)
    fix s' assume s': "disp_inv order p s'" "cur_row (g_display s' ! p) = cur_row (g_display s ! p) + n"
      "unat (last_clean_line (g_display s' ! p)) \<le> cur_row (g_display s ! p) + n" "cols (g_display s' ! p) = cols (g_display s ! p)"
    let ?d = "g_display s' ! p"
    have "0 < cols ?d" using s'(1) by (simp add: disp_inv_def grid_ok_def)
    from next_row(2) [OF this] have "unat (1 + d_cursor ?d div textwidth ?d) = cur_row ?d + 1"
      using assms(3) by (simp only: s'(2,4))
    then show "cur_row (g_display s ! p) + n \<in> set (dirty_lines ?d)" using s'(2,3) by (simp add: dirty_lines_def)
  qed
qed

section \<open>An example\<close>

text \<open>A display of three lines of four characters, with the cursor at the start of the last line.\<close>

definition demo_display :: display_t where
  "demo_display = \<lparr>d_frame = None, d_tty = None, textbuf = 0xFFFFFF0010400000, textwidth = 4, textheight = 3, d_cursor = 8,
     is_dirty = False, needs_full_repaint = False, last_clean_line = 0\<rparr>"

definition text_demo :: "u8 list disp_state_scheme" where
  "text_demo = line_demo\<lparr>g_display := [demo_display], active_display := Some 0\<rparr>"

lemma text_demo_display:
  "g_display text_demo ! 0 = demo_display" "cols demo_display = 4" "rows demo_display = 3" "cur_row demo_display = 2"
  "cur_col demo_display = 0"
  by (simp_all add: text_demo_def demo_display_def cols_def rows_def cur_row_def cur_col_def)

lemma text_demo_inv: "disp_inv [3, 2, 1, 0] 0 text_demo"
proof -
  have "sched_inv [3, 2, 1, 0] text_demo" "\<not> ints_on text_demo"
    using line_demo_inv by (simp_all add: tty_inv_def text_demo_def sched_inv_def)
  moreover have "0 < length (g_display text_demo)" by (simp add: text_demo_def)
  ultimately show ?thesis by (simp add: disp_inv_def grid_ok_def text_demo_display)
qed

theorem display_putc_text_witness:
  "runs (display_putc (Some 0) 0x41) text_demo (\<lambda>_ s'. unat (d_cursor (g_display s' ! 0)) = 5 \<and> cell demo_display (mem s') 1 0 = 0x41)"
proof -
  have c: "plain_char 0x41" by (simp add: plain_char_def)
  show ?thesis
    by (rule runs_mono [OF display_putc_text [OF text_demo_inv c]]) (simp add: text_demo_display)
qed

theorem newline_never_scrolls_witness:
  "runs (kfor (replicate 5 0x0A) (display_putc (Some 0))) text_demo (\<lambda>_ s'. rows demo_display \<le> 7 \<and> 7 \<in> set (dirty_lines (g_display s' ! 0)))"
proof -
  have "unat (last_clean_line (g_display text_demo ! 0)) \<le> cur_row (g_display text_demo ! 0)"
    "(cur_row (g_display text_demo ! 0) + 5 + 1) * cols (g_display text_demo ! 0) < 2 ^ 64"
    unfolding text_demo_display by (simp_all add: demo_display_def)
  from newline_never_scrolls [OF text_demo_inv this] show ?thesis
    by (rule runs_mono) (simp add: text_demo_display)
qed

end
