(* ===== verification/Sky_Keys.thy ===== *)
theory Sky_Keys
  imports Sky_Text
begin

text \<open>
  The keyboard decoder (src/io/keyboard/ps2_keyboard.c) against a keyboard: a key that is pressed sends its
  scan code, a key that is released sends the release code and its scan code. What the keys mean is written
  down here on its own, as the rows of the US keyboard with the two characters printed on each key, and not
  read off the tables of the decoder. The static variables of the decoder and of the displays stand for the
  keys that are held and for the screen that is shown.
\<close>

section \<open>The US keyboard\<close>








section \<open>Events\<close>











section \<open>The tables of the decoder are the US keyboard\<close>












section \<open>The decoder\<close>





lemma track_modifiers_rest [simp]:
  "is_letting_go (track_modifiers k s) = is_letting_go s" "g_display (track_modifiers k s) = g_display s"
  "is_gui_enabled (track_modifiers k s) = is_gui_enabled s" "active_display (track_modifiers k s) = active_display s"
  "active_display_idx (track_modifiers k s) = active_display_idx s"
  "ints_on (track_modifiers k s) = ints_on s" "sched_inv order (track_modifiers k s) = sched_inv order s"
  by (simp_all add: track_modifiers_def sched_inv_def)







section \<open>Properties\<close>






end
