(* ===== verification/Sky_Boot.thy ===== *)
theory Sky_Boot
  imports Sky_Keyboard
begin

text \<open>
  The three platforms (src/platform/pc.c, raspi.c, virt_riscv.c) and the order in which \<open>kmain\<close>
  (src/kernel/kmain.c) starts the components. The addresses the linker chooses are arguments.
\<close>

section \<open>src/platform\<close>

record boot_state = kbd_state +
  g_kheap :: u64

datatype platform = PC | RASPI | VIRT_RISCV

definition UART_IRQ :: "platform \<Rightarrow> u64" where
  "UART_IRQ p = (case p of PC \<Rightarrow> X86_UART_IRQ | RASPI \<Rightarrow> ARM_UART_IRQ | VIRT_RISCV \<Rightarrow> RISCV_UART_IRQ)"

text \<open>The UART and the interrupt controller of each platform, with the external interrupt number of the UART.\<close>

definition pc_uart :: "'s bus \<Rightarrow> 's uart_ops \<times> u64" where
  "pc_uart b = (uart16550_uart_ops X86_64 b 0x3F8, 4)"

definition raspi_uart :: "'s bus \<Rightarrow> 's uart_ops \<times> u64" where
  "raspi_uart b = (pl011_uart_ops b (KERN_P2DV 0xFE201000), UART_IRQ RASPI)"

definition virt_riscv_uart :: "'s bus \<Rightarrow> 's uart_ops \<times> u64" where
  "virt_riscv_uart b = (uart16550_uart_ops RISCV64 b (KERN_P2DV 0x10000000), UART_IRQ VIRT_RISCV)"

definition g_uart :: "platform \<Rightarrow> 's bus \<Rightarrow> 's uart_ops" where
  "g_uart p b = (case p of PC \<Rightarrow> fst (pc_uart b) | RASPI \<Rightarrow> fst (raspi_uart b) | VIRT_RISCV \<Rightarrow> fst (virt_riscv_uart b))"

definition g_uart_ext_irq :: "platform \<Rightarrow> 's bus \<Rightarrow> u64" where
  "g_uart_ext_irq p b = (case p of PC \<Rightarrow> snd (pc_uart b) | RASPI \<Rightarrow> snd (raspi_uart b) | VIRT_RISCV \<Rightarrow> snd (virt_riscv_uart b))"

definition pc_intc :: "'s bus \<Rightarrow> 's intctl_ops" where
  "pc_intc b = apic_intc_ops b \<lparr>distributor = KERN_P2DV 0xFEC00000, local_ctl = KERN_P2DV 0xFEE00000\<rparr>"

definition raspi_intc :: "'s bus \<Rightarrow> 's intctl_ops" where
  "raspi_intc b = gic_intc_ops b \<lparr>distributor = KERN_P2DV 0xFF841000, local_ctl = KERN_P2DV 0xFF842000\<rparr>"

definition virt_riscv_intc :: "'s bus \<Rightarrow> 's intctl_ops" where
  "virt_riscv_intc b = plic_intc_ops b \<lparr>distributor = KERN_P2DV 0xC000000, local_ctl = 0\<rparr>"

definition g_intc :: "platform \<Rightarrow> 's bus \<Rightarrow> 's intctl_ops" where
  "g_intc p b = (case p of PC \<Rightarrow> pc_intc b | RASPI \<Rightarrow> raspi_intc b | VIRT_RISCV \<Rightarrow> virt_riscv_intc b)"

definition init_keyboard :: "platform \<Rightarrow> 's bus \<Rightarrow> ('s, unit) kop" where
  "init_keyboard p b = (case p of PC \<Rightarrow> kbind (init_i8042 b (g_intc PC b)) (\<lambda>_. kreturn ()) | _ \<Rightarrow> kreturn ())"

text \<open>The fields of \<open>multiboot_info_t\<close> and \<open>multiboot_mod_t\<close> that are used, at their offsets.\<close>

definition pc_init_framebuffer :: "u64 \<Rightarrow> ('z boot_state_scheme, unit) kop" where
  "pc_init_framebuffer mb_info =
     kbind (kgets (\<lambda>s. load64 (mem s) (mb_info + 88))) (\<lambda>addr.
       kwhen (0 \<noteq> addr)
         (kmodify (\<lambda>s. s\<lparr>g_framebuffer := \<lparr>framebuffer = KERN_P2WC addr, pxwidth = ucast (load32 (mem s) (mb_info + 100)),
            pxheight = ucast (load32 (mem s) (mb_info + 104))\<rparr>\<rparr>)))"

definition pc_init_memory :: "u64 \<Rightarrow> u64 \<Rightarrow> ('z boot_state_scheme, unit) kop" where
  "pc_init_memory multiboot_info_ptr last_kernel_addr =
     (let mb_info = KERN_P2V multiboot_info_ptr in
      kseq (pc_init_framebuffer mb_info)
      (kseq (kassert (0 \<noteq> multiboot_info_ptr) ''assert'')
      (kbind (kgets (\<lambda>s. load32 (mem s) (mb_info + 20))) (\<lambda>mods_count.
      kbind (kgets (\<lambda>s. load32 (mem s) (mb_info + 24))) (\<lambda>mods_addr.
      kseq (kassert (mods_count = 1) ''assert'')
      (kseq (kassert (0 \<noteq> mods_addr) ''assert'')
      (let boot_module = KERN_P2V (ucast mods_addr) in
       kbind (kgets (\<lambda>s. load32 (mem s) boot_module)) (\<lambda>mod_start.
       kbind (kgets (\<lambda>s. load32 (mem s) (boot_module + 4))) (\<lambda>mod_end.
       kseq (kassert (0 \<noteq> mod_start) ''assert'')
       (kseq (kassert (0 \<noteq> mod_end) ''assert'')
       (kseq (kmodify (\<lambda>s. s\<lparr>g_initrd := KERN_P2V (ucast mod_start)\<rparr>))
       (kseq (kmodify (\<lambda>s. s\<lparr>g_kheap := ALIGN_LARGE_PAGE (g_initrd s + MAX_INITRD_SIZE)\<rparr>))
       (kbind (kgets g_initrd) (\<lambda>a. kassert (a > last_kernel_addr) ''assert''))))))))))))))"

definition place_initrd :: "u64 \<Rightarrow> u64 \<Rightarrow> ('z boot_state_scheme, unit) kop" where
  "place_initrd phys last_kernel_addr =
     kseq (kmodify (\<lambda>s. s\<lparr>g_initrd := KERN_P2V phys\<rparr>))
     (kseq (kmodify (\<lambda>s. s\<lparr>g_kheap := g_initrd s + MAX_INITRD_SIZE\<rparr>))
     (kbind (kgets g_initrd) (\<lambda>a. kassert (a > last_kernel_addr) ''assert'')))"

definition raspi_init_memory :: "u64 \<Rightarrow> ('z boot_state_scheme, unit) kop" where
  "raspi_init_memory last_kernel_addr = place_initrd (128 * ONE_MB) last_kernel_addr"

definition virt_riscv_init_memory :: "u64 \<Rightarrow> u64 \<Rightarrow> ('z boot_state_scheme, unit) kop" where
  "virt_riscv_init_memory kernel_base_phys last_kernel_addr =
     place_initrd (512 * ONE_MB + kernel_base_phys) last_kernel_addr"

text \<open>What the link step and the boot loader provide.\<close>

record boot_args =
  last_kernel_addr :: u64
  multiboot_info_ptr :: u64
  kernel_base_phys :: u64

definition init_memory :: "platform \<Rightarrow> boot_args \<Rightarrow> ('z boot_state_scheme, unit) kop" where
  "init_memory p a =
     (case p of PC \<Rightarrow> pc_init_memory (multiboot_info_ptr a) (last_kernel_addr a)
      | RASPI \<Rightarrow> raspi_init_memory (last_kernel_addr a)
      | VIRT_RISCV \<Rightarrow> virt_riscv_init_memory (kernel_base_phys a) (last_kernel_addr a))"

section \<open>src/kernel/kmain.c\<close>

text \<open>
  \<open>init_cpu\<close> and \<open>init_timer\<close> write system registers, which a larger state has (\<open>Sky_Segment\<close>); they are
  arguments here, as is \<open>init_bss\<close>. \<open>kernel_main\<close> in \<open>Sky_Panic\<close> supplies all three.
\<close>

definition kmain ::
  "platform \<Rightarrow> boot_args \<Rightarrow> 'z boot_state_scheme bus \<Rightarrow> 'z boot_state_scheme kenv \<Rightarrow> ('z boot_state_scheme, unit) kop \<Rightarrow>
     ('z boot_state_scheme, unit) kop \<Rightarrow> ('z boot_state_scheme, unit) kop \<Rightarrow> ('z boot_state_scheme, unit) kop" where
  "kmain p a b env init_bss init_cpu init_timer =
     kseq init_bss
     (kseq init_cpu
     (kseq (init_memory p a)
     (kseq (kbind (kgets g_kheap) init_kheap)
     (kseq (init_vm (k_arch env))
     (kseq (init_intctl (g_intc p b) (UART_IRQ p) (g_uart_ext_irq p b) (UART_IRQ p))
     (kseq (init_serial (g_uart p b))
     (kseq init_tty
     (kseq init_timer
     (kseq init_files
     (kseq init_display
     (kseq init_stdio
     (kseq (init_keyboard p b)
     (kseq init_tasks
     (kseq (init_scheduler env)
     (kpanic ''kmain: init_scheduler returned'')))))))))))))))"

end
