(* ===== verification/Sky_Segment.thy ===== *)
theory Sky_Segment
  imports Sky_Boot
begin

text \<open>
  The start of the CPU: segments, task state and interrupt vectors of x86_64
  (src/arch/x86_64/segment.c, inc/arch/x86_64/segment.h), and \<open>init_cpu\<close> and \<open>init_timer\<close> of the three ISAs
  (src/arch/*/cpu.c).

  The tables and the system registers are fields of the state. A packed C structure is a record whose bit-fields
  are words of their width; \<open>tss_desc_qwords\<close> and \<open>idt_entry_qwords\<close> give its layout in memory. The
  field \<open>rsp0\<close> of the task state is the field \<open>entry_kstack\<close> of the task layer. The instructions that load
  a table register store the address and the limit they are given; the addresses of the tables and of the
  assembly entry points are arguments.
\<close>

section \<open>inc/arch/x86_64/segment.h\<close>

definition GDTENTRY_NONE :: nat where "GDTENTRY_NONE = 0"
definition GDTENTRY_KERNEL_CS :: nat where "GDTENTRY_KERNEL_CS = 1"
definition GDTENTRY_KERNEL_DS :: nat where "GDTENTRY_KERNEL_DS = 2"
definition GDTENTRY_UNUSED0 :: nat where "GDTENTRY_UNUSED0 = 3"
definition GDTENTRY_USER_DS :: nat where "GDTENTRY_USER_DS = 4"
definition GDTENTRY_USER_CS :: nat where "GDTENTRY_USER_CS = 5"
definition GDTENTRY_TSS0 :: nat where "GDTENTRY_TSS0 = 6"
definition GDTENTRY_TSS1 :: nat where "GDTENTRY_TSS1 = 7"
definition GDTENTRY_UNUSED1 :: nat where "GDTENTRY_UNUSED1 = 8"
definition GDT_NUM_ENTRIES :: nat where "GDT_NUM_ENTRIES = 9"

record tss_t =
  rsp1 :: u64
  rsp2 :: u64
  ist :: "u64 list"
  iomap_base :: u16

record tss_desc_t =
  td_limit0_15 :: u16
  td_base0_15 :: u16
  td_base16_23 :: u8
  td_type :: "5 word"
  td_dpl :: "2 word"
  td_present :: "1 word"
  td_limit16_19 :: "4 word"
  td_base24_31 :: u8
  td_base32_63 :: u32

record idt_entry_t =
  id_addr0_15 :: u16
  id_cs :: u16
  id_ist :: u8
  id_type :: "5 word"
  id_dpl :: "2 word"
  id_present :: "1 word"
  id_addr16_31 :: u16
  id_addr32_63 :: u32

text \<open>The two 64-bit words of a structure, least significant byte first, bit-fields from bit 0.\<close>

definition tss_desc_qwords :: "tss_desc_t \<Rightarrow> u64 list" where
  "tss_desc_qwords d =
     [ucast (td_limit0_15 d) OR push_bit 16 (ucast (td_base0_15 d)) OR push_bit 32 (ucast (td_base16_23 d)) OR
      push_bit 40 (ucast (td_type d)) OR push_bit 45 (ucast (td_dpl d)) OR push_bit 47 (ucast (td_present d)) OR
      push_bit 48 (ucast (td_limit16_19 d)) OR push_bit 56 (ucast (td_base24_31 d)),
      ucast (td_base32_63 d)]"

definition idt_entry_qwords :: "idt_entry_t \<Rightarrow> u64 list" where
  "idt_entry_qwords d =
     [ucast (id_addr0_15 d) OR push_bit 16 (ucast (id_cs d)) OR push_bit 32 (ucast (id_ist d)) OR
      push_bit 40 (ucast (id_type d)) OR push_bit 45 (ucast (id_dpl d)) OR push_bit 47 (ucast (id_present d)) OR
      push_bit 48 (ucast (id_addr16_31 d)),
      ucast (id_addr32_63 d)]"

definition TSS_MIN_SIZE :: u64 where "TSS_MIN_SIZE = 104"
definition GDT_IDX_TO_SELECTOR :: "nat \<Rightarrow> u64" where "GDT_IDX_TO_SELECTOR x = push_bit 3 (of_nat x)"
definition DPL_KERNEL :: u64 where "DPL_KERNEL = 0"
definition DPL_USER :: u64 where "DPL_USER = 3"
definition SELECTOR_TSS :: u64 where "SELECTOR_TSS = GDT_IDX_TO_SELECTOR GDTENTRY_TSS0 OR DPL_KERNEL"
definition SYSCALL_SELECTOR :: u64 where "SYSCALL_SELECTOR = KERNEL_CS"
definition SYSRET_SELECTOR :: u64 where "SYSRET_SELECTOR = GDT_IDX_TO_SELECTOR GDTENTRY_UNUSED0 OR DPL_USER"
definition SEGDESC_L :: u64 where "SEGDESC_L = BIT 53"
definition SEGDESC_P :: u64 where "SEGDESC_P = BIT 47"
definition SEGDESC_W :: u64 where "SEGDESC_W = BIT 41"
definition SEGDESC_DATA :: u64 where "SEGDESC_DATA = SEGDESC_P OR SEGDESC_W OR BIT 44"
definition SEGDESC_CODE :: u64 where "SEGDESC_CODE = SEGDESC_P OR SEGDESC_L OR BIT 44 OR BIT 43"
definition SEGDESC_DPL_SHIFT :: nat where "SEGDESC_DPL_SHIFT = 45"
definition SYSSEGMENT_TYPE_TSS :: u64 where "SYSSEGMENT_TYPE_TSS = 9"
definition SYSSEGMENT_TYPE_INT_GATE :: u64 where "SYSSEGMENT_TYPE_INT_GATE = 0xE"

section \<open>State\<close>

text \<open>The system registers that the C code writes, of the three ISAs.\<close>

datatype sysreg = MSR u32 | VBAR_EL1 | MAIR_EL1 | CNTV_TVAL_EL0 | CNTV_CTL_EL0 | SIE | STVEC | STIMECMP | TIME

record cpu_state = boot_state +
  sysregs :: "sysreg \<Rightarrow> u64"
  gdt :: "u64 list"
  tss :: tss_t
  idt :: "idt_entry_t list"
  gdtr :: "u64 \<times> u16"
  idtr :: "u64 \<times> u16"
  task_register :: u16
  seg_selectors :: "u16 \<times> u16"

text \<open>What the link step provides.\<close>

record cpu_args =
  gdt_addr :: u64
  idt_addr :: u64
  tss_addr :: u64
  x86_vectors :: "nat \<Rightarrow> u64"
  syscall_entry :: u64
  per_cpu_scratch :: u64
  exception_table :: u64
  riscv_trap :: u64

definition write_sysreg :: "sysreg \<Rightarrow> u64 \<Rightarrow> ('z cpu_state_scheme, unit) kop" where
  "write_sysreg r v = kmodify (\<lambda>s. s\<lparr>sysregs := (sysregs s)(r := v)\<rparr>)"

section \<open>src/arch/x86_64/segment.c\<close>

definition KERNEL_DS :: u64 where "KERNEL_DS = 0x10"
definition IDT_NUM_ENTRIES :: nat where "IDT_NUM_ENTRIES = 256"
definition TSS_RSP0 :: u64 where "TSS_RSP0 = 4"

text \<open>\<open>sizeof (tss)\<close> and \<open>offsetof (tss_t, rsp0)\<close>: the sizes of the fields of the packed structure, added up.\<close>

definition sizeof_tss :: u64 where "sizeof_tss = 4 + 3 * 8 + 8 + 7 * 8 + 8 + 2 + 2"
definition offsetof_rsp0 :: u64 where "offsetof_rsp0 = 4"

definition check_selectors :: "('z cpu_state_scheme, unit) kop" where
  "check_selectors =
     kseq (kassert (KERNEL_CS = 0x08) ''assert'')
     (kseq (kassert (KERNEL_DS = 0x10) ''assert'')
     (kseq (kassert (USER_CS = 0x2B) ''assert'')
     (kseq (kassert (USER_DS = 0x23) ''assert'')
     (kseq (kassert (KERNEL_CS = GDT_IDX_TO_SELECTOR GDTENTRY_KERNEL_CS OR DPL_KERNEL) ''assert'')
     (kseq (kassert (KERNEL_DS = GDT_IDX_TO_SELECTOR GDTENTRY_KERNEL_DS OR DPL_KERNEL) ''assert'')
     (kseq (kassert (USER_CS = GDT_IDX_TO_SELECTOR GDTENTRY_USER_CS OR DPL_USER) ''assert'')
     (kseq (kassert (USER_DS = GDT_IDX_TO_SELECTOR GDTENTRY_USER_DS OR DPL_USER) ''assert'')
     (kseq (kassert (SELECTOR_TSS = 0x30) ''assert'')
     (kseq (kassert (GDT_NUM_ENTRIES = 9) ''assert'')
     (kseq (kassert (sizeof_tss = TSS_MIN_SIZE) ''assert'')
     (kassert (offsetof_rsp0 = TSS_RSP0) ''assert'')))))))))))"

definition zero_tss_desc :: tss_desc_t where
  "zero_tss_desc = \<lparr>td_limit0_15 = 0, td_base0_15 = 0, td_base16_23 = 0, td_type = 0, td_dpl = 0, td_present = 0,
     td_limit16_19 = 0, td_base24_31 = 0, td_base32_63 = 0\<rparr>"

definition setup_tss_desc :: "u64 \<Rightarrow> usize \<Rightarrow> ('s, tss_desc_t) kop" where
  "setup_tss_desc t sz =
     kseq (kassert (sz \<ge> TSS_MIN_SIZE) ''assert'')
     (kreturn (zero_tss_desc
        \<lparr>td_limit0_15 := ucast (sz AND MASK 16),
         td_limit16_19 := ucast (drop_bit 16 sz AND MASK 4),
         td_base0_15 := ucast (t AND MASK 16),
         td_base16_23 := ucast (drop_bit 16 t AND MASK 8),
         td_base24_31 := ucast (drop_bit 24 t AND MASK 8),
         td_base32_63 := ucast (drop_bit 32 t AND MASK 32),
         td_dpl := ucast DPL_KERNEL,
         td_present := 1,
         td_type := ucast SYSSEGMENT_TYPE_TSS\<rparr>))"

definition zero_idt_entry :: idt_entry_t where
  "zero_idt_entry = \<lparr>id_addr0_15 = 0, id_cs = 0, id_ist = 0, id_type = 0, id_dpl = 0, id_present = 0,
     id_addr16_31 = 0, id_addr32_63 = 0\<rparr>"

definition setup_idt_entry :: "u64 \<Rightarrow> idt_entry_t" where
  "setup_idt_entry handler = zero_idt_entry
     \<lparr>id_addr0_15 := ucast (handler AND MASK 16),
      id_addr16_31 := ucast (drop_bit 16 handler AND MASK 16),
      id_addr32_63 := ucast (drop_bit 32 handler AND MASK 32),
      id_cs := ucast KERNEL_CS,
      id_dpl := ucast DPL_KERNEL,
      id_present := 1,
      id_type := ucast SYSSEGMENT_TYPE_INT_GATE\<rparr>"

definition set_gdt :: "nat \<Rightarrow> u64 \<Rightarrow> ('z cpu_state_scheme, unit) kop" where
  "set_gdt i v = kmodify (\<lambda>s. s\<lparr>gdt := (gdt s)[i := v]\<rparr>)"

definition init_gdt :: "cpu_args \<Rightarrow> ('z cpu_state_scheme, unit) kop" where
  "init_gdt a =
     kseq (kmodify (\<lambda>s. s\<lparr>gdt := replicate GDT_NUM_ENTRIES 0\<rparr>))
     (kbind (setup_tss_desc (tss_addr a) sizeof_tss) (\<lambda>tss_desc.
      kseq (set_gdt GDTENTRY_NONE 0)
      (kseq (set_gdt GDTENTRY_KERNEL_CS (SEGDESC_CODE OR push_bit SEGDESC_DPL_SHIFT DPL_KERNEL))
      (kseq (set_gdt GDTENTRY_KERNEL_DS (SEGDESC_DATA OR push_bit SEGDESC_DPL_SHIFT DPL_KERNEL))
      (kseq (set_gdt GDTENTRY_UNUSED0 0)
      (kseq (set_gdt GDTENTRY_USER_DS (SEGDESC_DATA OR push_bit SEGDESC_DPL_SHIFT DPL_USER))
      (kseq (set_gdt GDTENTRY_USER_CS (SEGDESC_CODE OR push_bit SEGDESC_DPL_SHIFT DPL_USER))
      (kseq (set_gdt GDTENTRY_TSS0 (tss_desc_qwords tss_desc ! 0))
      (kseq (set_gdt (GDTENTRY_TSS0 + 1) (tss_desc_qwords tss_desc ! 1))
      (kseq (set_gdt GDTENTRY_UNUSED1 0)
      (kseq (kmodify (\<lambda>s. s\<lparr>gdtr := (gdt_addr a, of_nat (8 * GDT_NUM_ENTRIES) - 1)\<rparr>))
      (kmodify (\<lambda>s. s\<lparr>seg_selectors := (ucast KERNEL_DS, ucast KERNEL_CS)\<rparr>)))))))))))))"

definition init_tss :: "('z cpu_state_scheme, unit) kop" where
  "init_tss =
     kseq (kmodify (\<lambda>s. s\<lparr>entry_kstack := 0, tss := \<lparr>rsp1 = 0, rsp2 = 0, ist = replicate 7 0, iomap_base = 0\<rparr>\<rparr>))
     (kseq (kmodify (\<lambda>s. s\<lparr>entry_kstack := 0\<rparr>))
     (kseq (kmodify (\<lambda>s. s\<lparr>tss := (tss s)\<lparr>iomap_base := - 1\<rparr>\<rparr>))
     (kmodify (\<lambda>s. s\<lparr>task_register := ucast SELECTOR_TSS\<rparr>))))"

definition init_idt :: "cpu_args \<Rightarrow> ('z cpu_state_scheme, unit) kop" where
  "init_idt a =
     kseq (kfor [0..<IDT_NUM_ENTRIES] (\<lambda>i. kmodify (\<lambda>s. s\<lparr>idt := (idt s)[i := setup_idt_entry (x86_vectors a i)]\<rparr>)))
     (kmodify (\<lambda>s. s\<lparr>idtr := (idt_addr a, of_nat (16 * IDT_NUM_ENTRIES) - 1)\<rparr>))"

definition init_segmentation :: "cpu_args \<Rightarrow> ('z cpu_state_scheme, unit) kop" where
  "init_segmentation a = kseq check_selectors (kseq (init_gdt a) (kseq init_tss (init_idt a)))"

section \<open>src/arch/x86_64/cpu.c\<close>

definition MSR_STAR :: u32 where "MSR_STAR = 0xC0000081"
definition MSR_LSTAR :: u32 where "MSR_LSTAR = 0xC0000082"
definition MSR_SFMASK :: u32 where "MSR_SFMASK = 0xC0000084"
definition MSR_FSBASE :: u32 where "MSR_FSBASE = 0xC0000100"
definition MSR_GSBASE :: u32 where "MSR_GSBASE = 0xC0000101"
definition MSR_KGSBASE :: u32 where "MSR_KGSBASE = 0xC0000102"
definition MSR_PAT :: u32 where "MSR_PAT = 0x277"
definition PAT_UC :: u64 where "PAT_UC = 0x00"
definition PAT_WC :: u64 where "PAT_WC = 0x01"
definition PAT_WB :: u64 where "PAT_WB = 0x06"

text \<open>The instructions move a register as two 32-bit halves.\<close>

definition x86_read_msr :: "u32 \<Rightarrow> ('z cpu_state_scheme, u64) kop" where
  "x86_read_msr idx =
     kbind (kgets (\<lambda>s. sysregs s (MSR idx))) (\<lambda>v.
     let val_hi = (ucast (drop_bit 32 v) :: u32); val_low = (ucast v :: u32)
     in kreturn (push_bit 32 (ucast val_hi) OR ucast val_low))"

definition x86_write_msr :: "u32 \<Rightarrow> u64 \<Rightarrow> ('z cpu_state_scheme, unit) kop" where
  "x86_write_msr idx val =
     (let val_hi = (ucast (drop_bit 32 val) :: u32); val_low = (ucast val :: u32)
      in write_sysreg (MSR idx) (push_bit 32 (ucast val_hi) OR ucast val_low))"

definition x86_init_cpu :: "cpu_args \<Rightarrow> ('z cpu_state_scheme, unit) kop" where
  "x86_init_cpu a =
     kseq (init_segmentation a)
     (kseq (x86_write_msr MSR_STAR (push_bit 32 SYSCALL_SELECTOR OR push_bit 48 SYSRET_SELECTOR))
     (kseq (x86_write_msr MSR_LSTAR (syscall_entry a))
     (kseq (x86_write_msr MSR_SFMASK RFLAGS_IF)
     (kseq (x86_write_msr MSR_FSBASE 0)
     (kseq (x86_write_msr MSR_PAT (push_bit 0 PAT_WB OR push_bit 8 PAT_WC OR push_bit 16 PAT_UC))
     (kseq (x86_write_msr MSR_GSBASE (per_cpu_scratch a))
     (x86_write_msr MSR_KGSBASE (per_cpu_scratch a))))))))"

section \<open>src/arch/aarch64/cpu.c and src/arch/riscv64/cpu.c\<close>

definition MAIR_RUNTIME :: u64 where "MAIR_RUNTIME = 0xFF"
definition CNTV_CTL_INTERRUPTS_ENABLED :: u64 where "CNTV_CTL_INTERRUPTS_ENABLED = BIT 0"
definition CNTV_DEADLINE :: u64 where "CNTV_DEADLINE = 0x100000"
definition STIME_DEADLINE :: u64 where "STIME_DEADLINE = 80000"

definition arm_init_cpu :: "cpu_args \<Rightarrow> ('z cpu_state_scheme, unit) kop" where
  "arm_init_cpu a = kseq (write_sysreg VBAR_EL1 (exception_table a)) (write_sysreg MAIR_EL1 MAIR_RUNTIME)"

definition arm_timer_schedule :: "('z cpu_state_scheme, unit) kop" where
  "arm_timer_schedule = write_sysreg CNTV_TVAL_EL0 CNTV_DEADLINE"

definition arm_timer_init :: "('z cpu_state_scheme, unit) kop" where
  "arm_timer_init = write_sysreg CNTV_CTL_EL0 CNTV_CTL_INTERRUPTS_ENABLED"

definition arm_init_timer :: "'z cpu_state_scheme intctl_ops \<Rightarrow> ('z cpu_state_scheme, unit) kop" where
  "arm_init_timer intc = kseq arm_timer_init (kseq arm_timer_schedule (intc_map intc ARM_TIMER_IRQ ARM_TIMER_IRQ))"

definition riscv_init_cpu :: "cpu_args \<Rightarrow> ('z cpu_state_scheme, unit) kop" where
  "riscv_init_cpu a = kseq (write_sysreg SIE (- 1)) (write_sysreg STVEC (riscv_trap a))"

definition riscv_timer_schedule :: "('z cpu_state_scheme, unit) kop" where
  "riscv_timer_schedule = kbind (kgets (\<lambda>s. sysregs s TIME)) (\<lambda>t. write_sysreg STIMECMP (t + STIME_DEADLINE))"

definition init_cpu :: "isa \<Rightarrow> cpu_args \<Rightarrow> ('z cpu_state_scheme, unit) kop" where
  "init_cpu arch a =
     (case arch of X86_64 \<Rightarrow> x86_init_cpu a | AARCH64 \<Rightarrow> arm_init_cpu a | RISCV64 \<Rightarrow> riscv_init_cpu a)"

definition init_timer :: "isa \<Rightarrow> 'z cpu_state_scheme intctl_ops \<Rightarrow> ('z cpu_state_scheme, unit) kop" where
  "init_timer arch intc =
     (case arch of X86_64 \<Rightarrow> kreturn () | AARCH64 \<Rightarrow> arm_init_timer intc | RISCV64 \<Rightarrow> riscv_timer_schedule)"

end
