(* ===== verification/Sky_Gates.thy ===== *)
theory Sky_Gates
  imports Sky_Segment
begin

text \<open>
  What the CPU makes of the tables and registers that \<open>init_cpu\<close> sets up: the decoders below read
  descriptors, gates and memory types the way the processor manuals define them, independently of the code
  that encodes them.
\<close>

section \<open>Decoders\<close>

text \<open>The fields of a 64-bit interrupt gate, from its two words.\<close>

definition gate_offset :: "u64 list \<Rightarrow> u64" where
  "gate_offset q = take_bit 16 (q ! 0) OR push_bit 16 (drop_bit 48 (q ! 0)) OR push_bit 32 (take_bit 32 (q ! 1))"

definition gate_selector :: "u64 list \<Rightarrow> u64" where
  "gate_selector q = take_bit 16 (drop_bit 16 (q ! 0))"

definition desc_type :: "u64 \<Rightarrow> u64" where "desc_type d = take_bit 5 (drop_bit 40 d)"
definition desc_dpl :: "u64 \<Rightarrow> u64" where "desc_dpl d = take_bit 2 (drop_bit 45 d)"
definition desc_present :: "u64 \<Rightarrow> bool" where "desc_present d = bit d 47"

text \<open>A descriptor of a code segment has bits 44 and 43 set; bit 53 selects 64-bit mode. One of data has only bit 44.\<close>

definition is_code64 :: "u64 \<Rightarrow> bool" where "is_code64 d \<longleftrightarrow> bit d 44 \<and> bit d 43 \<and> bit d 53 \<and> \<not> bit d 54"
definition is_writable_data :: "u64 \<Rightarrow> bool" where "is_writable_data d \<longleftrightarrow> bit d 44 \<and> \<not> bit d 43 \<and> bit d 41"

definition tss_base :: "u64 \<Rightarrow> u64 \<Rightarrow> u64" where
  "tss_base lo hi = take_bit 24 (drop_bit 16 lo) OR push_bit 24 (drop_bit 56 lo) OR push_bit 32 (take_bit 32 hi)"

definition desc_limit :: "u64 \<Rightarrow> u64" where
  "desc_limit d = take_bit 16 d OR push_bit 16 (take_bit 4 (drop_bit 48 d))"

text \<open>The descriptor that a selector names.\<close>

definition selected :: "'z cpu_state_scheme \<Rightarrow> u64 \<Rightarrow> u64" where
  "selected s sel = gdt s ! unat (drop_bit 3 sel)"

text \<open>The memory type a leaf entry selects: x86_64 by PAT, PCD and PWT among the eight bytes of the PAT register,
  aarch64 by \<open>AttrIndx\<close> among those of \<open>MAIR_EL1\<close>.\<close>

definition x86_memory_type :: "u64 \<Rightarrow> nat \<Rightarrow> u64 \<Rightarrow> u64" where
  "x86_memory_type pat level e =
     take_bit 8 (drop_bit (8 * (4 * of_bool (bit e (if level = 0 then 7 else 12)) + 2 * of_bool (bit e 4) + of_bool (bit e 3))) pat)"

definition arm_memory_type :: "u64 \<Rightarrow> u64 \<Rightarrow> u64" where
  "arm_memory_type mair e = take_bit 8 (drop_bit (8 * unat (take_bit 3 (drop_bit 2 e))) mair)"

section \<open>Encoding and decoding\<close>

text \<open>A bit beyond the width of a word is not set.\<close>

lemma bit_beyond [simp]: "LENGTH('a) \<le> n \<Longrightarrow> \<not> bit (w :: 'a::len word) n"
  by (auto dest: bit_imp_le_length)

text \<open>A bit position of a 64-bit word, by the parts of an address it can lie in.\<close>

lemma bit64_cases:
  fixes n :: nat
  assumes "n < 64"
  obtains "n < 16" | k where "n = 16 + k" "k < 8" | k where "n = 24 + k" "k < 8" | k where "n = 32 + k" "k < 32"
proof -
  consider "n < 16" | "16 \<le> n" "n < 24" | "24 \<le> n" "n < 32" | "32 \<le> n" by linarith
  then show thesis
    using assms that(1) that(2) [of "n - 16"] that(3) [of "n - 24"] that(4) [of "n - 32"] by cases auto
qed

lemma word_eq_by_parts:
  assumes "\<And>n. n < 16 \<Longrightarrow> bit a n = bit b n" "\<And>k. k < 8 \<Longrightarrow> bit a (16 + k) = bit b (16 + k)"
    "\<And>k. k < 8 \<Longrightarrow> bit a (24 + k) = bit b (24 + k)" "\<And>k. k < 32 \<Longrightarrow> bit a (32 + k) = bit b (32 + k)"
  shows "a = (b :: u64)"
proof (rule bit_word_eqI)
  fix n :: nat
  assume "n < LENGTH(64)"
  then have "n < 64" by simp
  then show "bit a n = bit b n" using assms by (cases rule: bit64_cases) auto
qed

lemma low_bits_eq:
  fixes a b :: u64
  assumes "\<And>n. n < k \<Longrightarrow> bit a n = bit b n" "\<And>n. k \<le> n \<Longrightarrow> \<not> bit a n" "\<And>n. k \<le> n \<Longrightarrow> \<not> bit b n"
  shows "a = b"
  by (rule bit_word_eqI) (use assms not_le in blast)

lemma idt_entry_fields:
  "gate_offset (idt_entry_qwords d) =
     ucast (id_addr0_15 d) OR push_bit 16 (ucast (id_addr16_31 d)) OR push_bit 32 (ucast (id_addr32_63 d))"
  "gate_selector (idt_entry_qwords d) = ucast (id_cs d)"
  "desc_type (idt_entry_qwords d ! 0) = ucast (id_type d)"
  "desc_dpl (idt_entry_qwords d ! 0) = ucast (id_dpl d)"
  "desc_present (idt_entry_qwords d ! 0) \<longleftrightarrow> bit (id_present d) 0"
proof -
  note defs = gate_offset_def gate_selector_def desc_type_def desc_dpl_def desc_present_def idt_entry_qwords_def
  show "gate_offset (idt_entry_qwords d) =
     ucast (id_addr0_15 d) OR push_bit 16 (ucast (id_addr16_31 d)) OR push_bit 32 (ucast (id_addr32_63 d))"
    "gate_selector (idt_entry_qwords d) = ucast (id_cs d)"
    unfolding defs by (rule word_eq_by_parts, simp_all add: bit_simps)+
  show "desc_type (idt_entry_qwords d ! 0) = ucast (id_type d)"
    unfolding defs by (rule low_bits_eq [of 5]) (simp_all add: bit_simps)
  show "desc_dpl (idt_entry_qwords d ! 0) = ucast (id_dpl d)"
    unfolding defs by (rule low_bits_eq [of 2]) (simp_all add: bit_simps)
  show "desc_present (idt_entry_qwords d ! 0) \<longleftrightarrow> bit (id_present d) 0"
    unfolding defs by (simp add: bit_simps)
qed

lemma tss_desc_fields:
  "tss_base (tss_desc_qwords d ! 0) (tss_desc_qwords d ! 1) =
     ucast (td_base0_15 d) OR push_bit 16 (ucast (td_base16_23 d)) OR push_bit 24 (ucast (td_base24_31 d)) OR
     push_bit 32 (ucast (td_base32_63 d))"
  "desc_limit (tss_desc_qwords d ! 0) = ucast (td_limit0_15 d) OR push_bit 16 (ucast (td_limit16_19 d))"
  "desc_type (tss_desc_qwords d ! 0) = ucast (td_type d)"
  "desc_present (tss_desc_qwords d ! 0) \<longleftrightarrow> bit (td_present d) 0"
proof -
  note defs = tss_base_def desc_limit_def desc_type_def desc_present_def tss_desc_qwords_def
  show "tss_base (tss_desc_qwords d ! 0) (tss_desc_qwords d ! 1) =
     ucast (td_base0_15 d) OR push_bit 16 (ucast (td_base16_23 d)) OR push_bit 24 (ucast (td_base24_31 d)) OR
     push_bit 32 (ucast (td_base32_63 d))"
    unfolding defs by (rule word_eq_by_parts) (simp_all add: bit_simps)
  show "desc_limit (tss_desc_qwords d ! 0) = ucast (td_limit0_15 d) OR push_bit 16 (ucast (td_limit16_19 d))"
    unfolding defs by (rule word_eq_by_parts, simp_all add: bit_simps) (auto dest: bit_imp_le_length)
  show "desc_type (tss_desc_qwords d ! 0) = ucast (td_type d)"
    unfolding defs by (rule low_bits_eq [of 5]) (simp_all add: bit_simps)
  show "desc_present (tss_desc_qwords d ! 0) \<longleftrightarrow> bit (td_present d) 0"
    unfolding defs by (simp add: bit_simps)
qed

text \<open>Cutting an address into the parts of a descriptor loses nothing.\<close>

lemma address_parts:
  fixes h :: u64
  shows "ucast (ucast (h AND MASK 16) :: u16) OR push_bit 16 (ucast (ucast (drop_bit 16 h AND MASK 16) :: u16)) OR
      push_bit 32 (ucast (ucast (drop_bit 32 h AND MASK 32) :: u32)) = h"
    and "ucast (ucast (h AND MASK 16) :: u16) OR push_bit 16 (ucast (ucast (drop_bit 16 h AND MASK 8) :: u8)) OR
      push_bit 24 (ucast (ucast (drop_bit 24 h AND MASK 8) :: u8)) OR
      push_bit 32 (ucast (ucast (drop_bit 32 h AND MASK 32) :: u32)) = h"
  by (rule word_eq_by_parts, simp_all add: bit_simps bit_MASK)+

text \<open>The two halves of a model-specific register.\<close>

lemma msr_halves: "push_bit 32 (ucast (ucast (drop_bit 32 v) :: u32)) OR ucast (ucast v :: u32) = (v :: u64)"
  by (rule word_eq_by_parts) (simp_all add: bit_simps)

section \<open>Running the set-up\<close>

lemma check_selectors_run: "check_selectors s = Inr ((), s)"
  by (simp add: check_selectors_def kop_simps KERNEL_CS_def KERNEL_DS_def USER_CS_def USER_DS_def GDT_IDX_TO_SELECTOR_def
      GDTENTRY_KERNEL_CS_def GDTENTRY_KERNEL_DS_def GDTENTRY_USER_CS_def GDTENTRY_USER_DS_def GDTENTRY_TSS0_def
      DPL_KERNEL_def DPL_USER_def SELECTOR_TSS_def GDT_NUM_ENTRIES_def sizeof_tss_def TSS_MIN_SIZE_def offsetof_rsp0_def
      TSS_RSP0_def push_bit_eq_mult)

lemma fill_idt_run:
  "n \<le> length (idt s) \<Longrightarrow> kfor [0..<n] (\<lambda>i. kmodify (\<lambda>s. s\<lparr>idt := (idt s)[i := f i]\<rparr>)) s =
     Inr ((), s\<lparr>idt := map f [0..<n] @ drop n (idt s)\<rparr>)"
proof (induction n)
  case 0
  then show ?case by (simp add: kop_simps)
next
  case (Suc n)
  then have "(map f [0..<n] @ drop n (idt s))[n := f n] = map f [0..<Suc n] @ drop (Suc n) (idt s)"
    by (simp add: list_update_append Cons_nth_drop_Suc [symmetric])
  with Suc show ?case by (simp add: kfor_append kop_simps)
qed

lemma setup_tss_desc_run:
  "setup_tss_desc t sizeof_tss s = Inr (zero_tss_desc
     \<lparr>td_limit0_15 := 104, td_limit16_19 := 0, td_base0_15 := ucast (t AND MASK 16),
      td_base16_23 := ucast (drop_bit 16 t AND MASK 8), td_base24_31 := ucast (drop_bit 24 t AND MASK 8),
      td_base32_63 := ucast (drop_bit 32 t AND MASK 32), td_dpl := 0, td_present := 1, td_type := 9\<rparr>, s)"
  by (simp add: setup_tss_desc_def kop_simps sizeof_tss_def TSS_MIN_SIZE_def DPL_KERNEL_def SYSSEGMENT_TYPE_TSS_def MASK_def BIT_def)

lemmas gdt_consts = GDTENTRY_NONE_def GDTENTRY_KERNEL_CS_def GDTENTRY_KERNEL_DS_def GDTENTRY_UNUSED0_def
  GDTENTRY_USER_DS_def GDTENTRY_USER_CS_def GDTENTRY_TSS0_def GDTENTRY_UNUSED1_def GDT_NUM_ENTRIES_def

text \<open>The task state segment, as the CPU reads its descriptor.\<close>

lemma tss_desc_correct:
  assumes "setup_tss_desc t sizeof_tss s = Inr (d, s')"
  shows "tss_base (tss_desc_qwords d ! 0) (tss_desc_qwords d ! 1) = t" "desc_limit (tss_desc_qwords d ! 0) = 104"
    "desc_type (tss_desc_qwords d ! 0) = 9" "desc_present (tss_desc_qwords d ! 0)"
  using assms unfolding setup_tss_desc_run tss_desc_fields by (auto simp: address_parts)

lemma init_gdt_run:
  obtains s' d where "init_gdt a s = Inr ((), s')" "setup_tss_desc (tss_addr a) sizeof_tss s = Inr (d, s)"
    "gdt s' = [0, SEGDESC_CODE, SEGDESC_DATA, 0, SEGDESC_DATA OR push_bit 45 3, SEGDESC_CODE OR push_bit 45 3,
      tss_desc_qwords d ! 0, tss_desc_qwords d ! 1, 0]"
    "gdtr s' = (gdt_addr a, 71)" "idt s' = idt s"
proof -
  define d where "d = fst (projr (setup_tss_desc (tss_addr a) sizeof_tss s))"
  have d: "setup_tss_desc (tss_addr a) sizeof_tss x = Inr (d, x)" for x :: "'a cpu_state_scheme"
    by (simp add: d_def setup_tss_desc_run)
  define s' where "s' = s\<lparr>gdt := [0, SEGDESC_CODE, SEGDESC_DATA, 0, SEGDESC_DATA OR push_bit 45 3, SEGDESC_CODE OR push_bit 45 3,
      tss_desc_qwords d ! 0, tss_desc_qwords d ! 1, 0], gdtr := (gdt_addr a, 71), seg_selectors := (ucast KERNEL_DS, ucast KERNEL_CS)\<rparr>"
  have "init_gdt a s = Inr ((), s')"
    by (simp add: s'_def init_gdt_def d kop_simps set_gdt_def gdt_consts DPL_KERNEL_def DPL_USER_def SEGDESC_DPL_SHIFT_def numeral_eq_Suc)
  then show thesis by (rule that [OF _ d]) (simp_all add: s'_def)
qed

lemma init_segmentation_run:
  assumes "length (idt s) = IDT_NUM_ENTRIES"
  obtains s' d where "init_segmentation a s = Inr ((), s')" "setup_tss_desc (tss_addr a) sizeof_tss s = Inr (d, s)"
    "gdt s' = [0, SEGDESC_CODE, SEGDESC_DATA, 0, SEGDESC_DATA OR push_bit 45 3, SEGDESC_CODE OR push_bit 45 3,
      tss_desc_qwords d ! 0, tss_desc_qwords d ! 1, 0]"
    "idt s' = map (\<lambda>i. setup_idt_entry (x86_vectors a i)) [0..<IDT_NUM_ENTRIES]"
    "gdtr s' = (gdt_addr a, 71)" "idtr s' = (idt_addr a, 4095)" "iomap_base (tss s') = 0xFFFF"
proof -
  obtain s1 d where g: "init_gdt a s = Inr ((), s1)" "setup_tss_desc (tss_addr a) sizeof_tss s = Inr (d, s)"
    "gdt s1 = [0, SEGDESC_CODE, SEGDESC_DATA, 0, SEGDESC_DATA OR push_bit 45 3, SEGDESC_CODE OR push_bit 45 3,
      tss_desc_qwords d ! 0, tss_desc_qwords d ! 1, 0]" "gdtr s1 = (gdt_addr a, 71)" "idt s1 = idt s"
    by (rule init_gdt_run)
  obtain s2 where t: "init_tss s1 = Inr ((), s2)" "gdt s2 = gdt s1" "gdtr s2 = gdtr s1" "idt s2 = idt s1"
    "iomap_base (tss s2) = 0xFFFF"
    by (simp add: init_tss_def kop_simps)
  define s3 where "s3 = s2\<lparr>idt := map (\<lambda>i. setup_idt_entry (x86_vectors a i)) [0..<IDT_NUM_ENTRIES],
    idtr := (idt_addr a, 4095)\<rparr>"
  have "length (idt s2) = IDT_NUM_ENTRIES" using assms g t by simp
  then have "init_idt a s2 = Inr ((), s3)"
    by (simp add: init_idt_def fill_idt_run kop_simps s3_def) (simp add: IDT_NUM_ENTRIES_def)
  then have "init_segmentation a s = Inr ((), s3)"
    using g(1) t(1) by (simp add: init_segmentation_def check_selectors_run kop_simps)
  then show thesis by (rule that [OF _ g(2)]) (use g t in \<open>simp_all add: s3_def\<close>)
qed

lemma x86_write_msr_run: "x86_write_msr i v s = Inr ((), s\<lparr>sysregs := (sysregs s)(MSR i := v)\<rparr>)"
  by (simp add: x86_write_msr_def write_sysreg_def kop_simps msr_halves Let_def)

lemmas msr_consts = MSR_STAR_def MSR_LSTAR_def MSR_SFMASK_def MSR_FSBASE_def MSR_GSBASE_def MSR_KGSBASE_def MSR_PAT_def

text \<open>The registers that \<open>x86_init_cpu\<close> leaves, the tables being those of \<open>init_segmentation\<close>.\<close>

lemma x86_init_cpu_run:
  assumes "init_segmentation a s = Inr ((), s1)"
  obtains s' where "x86_init_cpu a s = Inr ((), s')" "gdt s' = gdt s1" "idt s' = idt s1" "tss s' = tss s1"
    "gdtr s' = gdtr s1" "idtr s' = idtr s1"
    "sysregs s' (MSR MSR_STAR) = 0x001B000800000000" "sysregs s' (MSR MSR_LSTAR) = syscall_entry a"
    "sysregs s' (MSR MSR_SFMASK) = RFLAGS_IF" "sysregs s' (MSR MSR_PAT) = 0x00000106"
proof -
  define s' where "s' = s1\<lparr>sysregs := (sysregs s1)(MSR MSR_STAR := 0x001B000800000000, MSR MSR_LSTAR := syscall_entry a,
    MSR MSR_SFMASK := RFLAGS_IF, MSR MSR_FSBASE := 0, MSR MSR_PAT := 0x00000106, MSR MSR_GSBASE := per_cpu_scratch a,
    MSR MSR_KGSBASE := per_cpu_scratch a)\<rparr>"
  have "x86_init_cpu a s = Inr ((), s')"
    using assms by (simp add: s'_def x86_init_cpu_def x86_write_msr_run kop_simps SYSCALL_SELECTOR_def
        SYSRET_SELECTOR_def KERNEL_CS_def GDT_IDX_TO_SELECTOR_def GDTENTRY_UNUSED0_def DPL_USER_def PAT_WB_def PAT_WC_def PAT_UC_def)
  then show thesis by (rule that) (simp_all add: s'_def msr_consts)
qed

section \<open>Properties\<close>

text \<open>
  \<open>syscall\<close> loads the code selector from bits 32 to 47 of the register STAR and the stack selector 8 above;
  \<open>sysret\<close> to 64-bit mode loads the code selector 16 above bits 48 to 63, and the stack selector 8 above.
\<close>

definition syscall_cs :: "u64 \<Rightarrow> u64" where "syscall_cs star = take_bit 16 (drop_bit 32 star)"
definition sysret_cs :: "u64 \<Rightarrow> u64" where "sysret_cs star = drop_bit 48 star + 16"
definition sysret_ss :: "u64 \<Rightarrow> u64" where "sysret_ss star = drop_bit 48 star + 8"

definition gate_to :: "u64 \<Rightarrow> idt_entry_t \<Rightarrow> bool" where
  "gate_to h e \<longleftrightarrow> (let q = idt_entry_qwords e in gate_offset q = h \<and> gate_selector q = KERNEL_CS \<and>
     desc_type (q ! 0) = SYSSEGMENT_TYPE_INT_GATE \<and> desc_dpl (q ! 0) = 0 \<and> desc_present (q ! 0))"

text \<open>C27: \<open>init_cpu\<close> of x86_64 always returns, and read the way the processor reads them its tables say what the kernel
  means: each of the 256 gates leads to its own vector, in the kernel's code segment, with interrupts off and
  closed to user code; the selectors of inc/arch/x86_64/defs.h name present 64-bit code and writable data
  segments of privilege 0 for the kernel and 3 for user code; the task register's descriptor is the task state,
  whose port bitmap lies beyond its limit, so that user code may use no port; and \<open>syscall\<close> and \<open>sysret\<close>
  load just these selectors, with interrupts masked on entry.\<close>

theorem x86_init_cpu_correct:
  assumes "length (idt s) = IDT_NUM_ENTRIES"
  shows "runs (init_cpu X86_64 a) s (\<lambda>_ s'.
    (\<forall>i < IDT_NUM_ENTRIES. gate_to (x86_vectors a i) (idt s' ! i)) \<and>
    is_code64 (selected s' KERNEL_CS) \<and> desc_present (selected s' KERNEL_CS) \<and> desc_dpl (selected s' KERNEL_CS) = 0 \<and>
    is_writable_data (selected s' KERNEL_DS) \<and> desc_present (selected s' KERNEL_DS) \<and> desc_dpl (selected s' KERNEL_DS) = 0 \<and>
    is_code64 (selected s' USER_CS) \<and> desc_present (selected s' USER_CS) \<and> desc_dpl (selected s' USER_CS) = 3 \<and>
    is_writable_data (selected s' USER_DS) \<and> desc_present (selected s' USER_DS) \<and> desc_dpl (selected s' USER_DS) = 3 \<and>
    tss_base (selected s' SELECTOR_TSS) (selected s' (SELECTOR_TSS + 8)) = tss_addr a \<and>
    desc_type (selected s' SELECTOR_TSS) = 9 \<and> desc_present (selected s' SELECTOR_TSS) \<and>
    desc_limit (selected s' SELECTOR_TSS) < ucast (iomap_base (tss s')) \<and>
    gdtr s' = (gdt_addr a, 8 * of_nat (length (gdt s')) - 1) \<and> idtr s' = (idt_addr a, 16 * of_nat (length (idt s')) - 1) \<and>
    syscall_cs (sysregs s' (MSR MSR_STAR)) = KERNEL_CS \<and> syscall_cs (sysregs s' (MSR MSR_STAR)) + 8 = KERNEL_DS \<and>
    sysret_cs (sysregs s' (MSR MSR_STAR)) = USER_CS \<and> sysret_ss (sysregs s' (MSR MSR_STAR)) = USER_DS \<and>
    sysregs s' (MSR MSR_LSTAR) = syscall_entry a \<and> sysregs s' (MSR MSR_SFMASK) = RFLAGS_IF)"
proof -
  obtain s1 d where seg: "init_segmentation a s = Inr ((), s1)" "setup_tss_desc (tss_addr a) sizeof_tss s = Inr (d, s)"
    and gdt: "gdt s1 = [0, SEGDESC_CODE, SEGDESC_DATA, 0, SEGDESC_DATA OR push_bit 45 3, SEGDESC_CODE OR push_bit 45 3,
      tss_desc_qwords d ! 0, tss_desc_qwords d ! 1, 0]"
    and idt: "idt s1 = map (\<lambda>i. setup_idt_entry (x86_vectors a i)) [0..<IDT_NUM_ENTRIES]"
    and regs: "gdtr s1 = (gdt_addr a, 71)" "idtr s1 = (idt_addr a, 4095)" "iomap_base (tss s1) = 0xFFFF"
    by (rule init_segmentation_run [OF assms])
  obtain s' where run: "x86_init_cpu a s = Inr ((), s')" and tab: "gdt s' = gdt s1" "idt s' = idt s1" "tss s' = tss s1"
    "gdtr s' = gdtr s1" "idtr s' = idtr s1"
    and msr: "sysregs s' (MSR MSR_STAR) = 0x001B000800000000" "sysregs s' (MSR MSR_LSTAR) = syscall_entry a"
    "sysregs s' (MSR MSR_SFMASK) = RFLAGS_IF" "sysregs s' (MSR MSR_PAT) = 0x00000106"
    by (rule x86_init_cpu_run [OF seg(1)])
  have sel: "selected s' KERNEL_CS = SEGDESC_CODE" "selected s' KERNEL_DS = SEGDESC_DATA"
    "selected s' USER_CS = SEGDESC_CODE OR push_bit 45 3" "selected s' USER_DS = SEGDESC_DATA OR push_bit 45 3"
    "selected s' SELECTOR_TSS = tss_desc_qwords d ! 0" "selected s' (SELECTOR_TSS + 8) = tss_desc_qwords d ! 1"
    by (simp_all only: selected_def tab gdt)
      (simp_all add: KERNEL_CS_def KERNEL_DS_def USER_CS_def USER_DS_def SELECTOR_TSS_def GDT_IDX_TO_SELECTOR_def GDTENTRY_TSS0_def DPL_KERNEL_def)
  have "gate_to (x86_vectors a i) (idt s' ! i)" if "i < IDT_NUM_ENTRIES" for i
    using that by (simp add: tab idt gate_to_def Let_def idt_entry_fields setup_idt_entry_def zero_idt_entry_def address_parts
        KERNEL_CS_def DPL_KERNEL_def SYSSEGMENT_TYPE_INT_GATE_def)
  then show ?thesis
    using run tss_desc_correct [OF seg(2)]
    by (simp add: runs_def init_cpu_def sel tab regs msr gdt idt IDT_NUM_ENTRIES_def)
      (simp add: is_code64_def is_writable_data_def desc_present_def desc_dpl_def SEGDESC_CODE_def SEGDESC_DATA_def SEGDESC_P_def
        SEGDESC_L_def SEGDESC_W_def syscall_cs_def sysret_cs_def sysret_ss_def KERNEL_CS_def KERNEL_DS_def USER_CS_def USER_DS_def
        BIT_def)
qed

definition cpu_args_demo :: cpu_args where
  "cpu_args_demo = \<lparr>gdt_addr = 0xFFFFFFFF80010000, idt_addr = 0xFFFFFFFF80011000, tss_addr = 0xFFFFFFFF80012340,
     x86_vectors = (\<lambda>i. 0xFFFFFFFF80020000 + 16 * of_nat i), syscall_entry = 0xFFFFFFFF80030000,
     per_cpu_scratch = 0xFFFFFFFF80013000, exception_table = 0, riscv_trap = 0\<rparr>"

theorem x86_init_cpu_correct_witness:
  "\<forall>s :: cpu_state. runs (init_cpu X86_64 cpu_args_demo) (s\<lparr>idt := replicate 256 zero_idt_entry\<rparr>) (\<lambda>_ s'.
     gate_to 0xFFFFFFFF800200E0 (idt s' ! 14) \<and> sysret_cs (sysregs s' (MSR MSR_STAR)) = USER_CS)"
proof
  fix s :: cpu_state
  have len: "length (idt (s\<lparr>idt := replicate 256 zero_idt_entry\<rparr>)) = IDT_NUM_ENTRIES" by (simp add: IDT_NUM_ENTRIES_def)
  show "runs (init_cpu X86_64 cpu_args_demo) (s\<lparr>idt := replicate 256 zero_idt_entry\<rparr>) (\<lambda>_ s'.
     gate_to 0xFFFFFFFF800200E0 (idt s' ! 14) \<and> sysret_cs (sysregs s' (MSR MSR_STAR)) = USER_CS)"
    by (rule runs_mono [OF x86_init_cpu_correct [OF len]]) (auto simp: IDT_NUM_ENTRIES_def cpu_args_demo_def dest!: spec [of _ 14])
qed

text \<open>C28: The cache policies of the page table entries and the registers that give them meaning agree: once
  \<open>init_cpu\<close> has run, an x86_64 leaf without the PAT bit is write-back, write-combining or uncached memory just
  as \<open>pte_set_cache_policy\<close> was asked; on aarch64 write-back is normal memory and both other
  policies are device memory, so what is asked for as write-combining is not combined there.\<close>

theorem cache_policies_effective:
  assumes "length (idt s) = IDT_NUM_ENTRIES"
  shows "runs (init_cpu X86_64 a) s (\<lambda>_ s'. \<forall>e l pol. \<not> bit e (if l = 0 then 7 else 12) \<longrightarrow>
      x86_memory_type (sysregs s' (MSR MSR_PAT)) l (pte_set_cache_policy x86_ops e pol) =
        (case pol of CACHE_WRITEBACK \<Rightarrow> PAT_WB | CACHE_WRITECOMB \<Rightarrow> PAT_WC | CACHE_DISABLE \<Rightarrow> PAT_UC)) \<and>
    runs (init_cpu AARCH64 a) s (\<lambda>_ s'. \<forall>e pol.
      arm_memory_type (sysregs s' MAIR_EL1) (pte_set_cache_policy arm_ops e pol) =
        (case pol of CACHE_WRITEBACK \<Rightarrow> 0xFF | CACHE_WRITECOMB \<Rightarrow> 0 | CACHE_DISABLE \<Rightarrow> 0))"
proof
  obtain s1 where seg: "init_segmentation a s = Inr ((), s1)" by (rule init_segmentation_run [OF assms])
  obtain s' where run: "x86_init_cpu a s = Inr ((), s')" and pat: "sysregs s' (MSR MSR_PAT) = 0x106"
    by (rule x86_init_cpu_run [OF seg])
  have "x86_memory_type 0x106 l (x86_pte_set_cache_policy e pol) =
        (case pol of CACHE_WRITEBACK \<Rightarrow> PAT_WB | CACHE_WRITECOMB \<Rightarrow> PAT_WC | CACHE_DISABLE \<Rightarrow> PAT_UC)"
    if "\<not> bit e (if l = 0 then 7 else 12)" for e l pol
    using that by (cases "l = 0"; cases pol) (simp_all add: x86_memory_type_def x86_pte_set_cache_policy_def Let_def
        x86_PTE_PCD_def x86_PTE_PWT_def bit_simps bit_BIT PAT_WB_def PAT_WC_def PAT_UC_def)
  then show "runs (init_cpu X86_64 a) s (\<lambda>_ s'. \<forall>e l pol. \<not> bit e (if l = 0 then 7 else 12) \<longrightarrow>
      x86_memory_type (sysregs s' (MSR MSR_PAT)) l (pte_set_cache_policy x86_ops e pol) =
        (case pol of CACHE_WRITEBACK \<Rightarrow> PAT_WB | CACHE_WRITECOMB \<Rightarrow> PAT_WC | CACHE_DISABLE \<Rightarrow> PAT_UC))"
    using run by (simp add: runs_def init_cpu_def pat x86_ops_def)
next
  have "take_bit 3 (drop_bit 2 (arm_pte_set_cache_policy e pol)) = (if pol = CACHE_WRITEBACK then 0 else 1)" for e pol
    by (rule low_bits_eq [of 3])
      (cases pol; auto simp: arm_pte_set_cache_policy_def Let_def arm_consts bit_simps bit_BIT bit_MASK bit_1_iff)+
  then show "runs (init_cpu AARCH64 a) s (\<lambda>_ s'. \<forall>e pol.
      arm_memory_type (sysregs s' MAIR_EL1) (pte_set_cache_policy arm_ops e pol) =
        (case pol of CACHE_WRITEBACK \<Rightarrow> 0xFF | CACHE_WRITECOMB \<Rightarrow> 0 | CACHE_DISABLE \<Rightarrow> 0))"
    by (auto simp: runs_def init_cpu_def arm_init_cpu_def write_sysreg_def kop_simps arm_memory_type_def arm_ops_def MAIR_RUNTIME_def
        split: cache_policy.splits)
qed

theorem cache_policies_effective_witness:
  "\<forall>s :: cpu_state. runs (init_cpu X86_64 cpu_args_demo) (s\<lparr>idt := replicate 256 zero_idt_entry\<rparr>) (\<lambda>_ s'.
     x86_memory_type (sysregs s' (MSR MSR_PAT)) 2 (pte_set_cache_policy x86_ops 0x83 CACHE_WRITECOMB) = PAT_WC)"
proof
  fix s :: cpu_state
  have len: "length (idt (s\<lparr>idt := replicate 256 zero_idt_entry\<rparr>)) = IDT_NUM_ENTRIES" by (simp add: IDT_NUM_ENTRIES_def)
  note pol = cache_policies_effective [OF len, of cpu_args_demo, THEN conjunct1]
  show "runs (init_cpu X86_64 cpu_args_demo) (s\<lparr>idt := replicate 256 zero_idt_entry\<rparr>) (\<lambda>_ s'.
     x86_memory_type (sysregs s' (MSR MSR_PAT)) 2 (pte_set_cache_policy x86_ops 0x83 CACHE_WRITECOMB) = PAT_WC)"
    by (rule runs_mono [OF pol]) simp
qed

end
