(* ===== verification/Sky_Ints.thy ===== *)
theory Sky_Ints
  imports Sky_Vmproof Sky_Cpu
begin

text \<open>
  The interrupt flag in the status registers of the three ISAs (src/arch/*/cpu.c), and the cleaning of the data cache on aarch64.
  The rest of the development uses one flag \<open>ints_on\<close>; here the flag is read from the register as the code of each ISA reads it, and
  the operations on the register are shown to implement those on the flag. Of the instructions \<open>cli\<close>, \<open>sti\<close>, \<open>msr daifset\<close> and
  \<open>msr daifclr\<close> the effect on the register is part of the model.
\<close>

unbundle bit_operations_syntax

section \<open>The registers\<close>

definition x86_disable_ints :: "u64 \<Rightarrow> u64" where
  "x86_disable_ints rflags = rflags AND NOT RFLAGS_IF"

definition x86_enable_ints :: "u64 \<Rightarrow> u64" where
  "x86_enable_ints rflags = rflags OR RFLAGS_IF"

definition x86_ints_enabled :: "u64 \<Rightarrow> bool" where
  "x86_ints_enabled old_rflags \<longleftrightarrow> old_rflags AND RFLAGS_IF \<noteq> 0"

text \<open>\<open>msr daifset, imm\<close> and \<open>msr daifclr, imm\<close> set and clear the bits of \<open>DAIF\<close>, which start at bit 6.\<close>

definition daifset :: "u64 \<Rightarrow> u64 \<Rightarrow> u64" where "daifset imm daif = daif OR push_bit 6 imm"

definition daifclr :: "u64 \<Rightarrow> u64 \<Rightarrow> u64" where "daifclr imm daif = daif AND NOT (push_bit 6 imm)"

definition DAIF_IRQ :: u64 where "DAIF_IRQ = BIT 6"
definition DAIF_FIQ :: u64 where "DAIF_FIQ = BIT 7"

definition arm_disable_ints :: "u64 \<Rightarrow> u64" where
  "arm_disable_ints = daifset 0x3"

definition arm_enable_ints :: "u64 \<Rightarrow> u64" where
  "arm_enable_ints = daifclr 0x3"

definition arm_ints_enabled :: "u64 \<Rightarrow> bool" where
  "arm_ints_enabled daif \<longleftrightarrow> 0 = (daif AND DAIF_FIQ) OR (daif AND DAIF_IRQ)"

definition SSTATUS_SIE :: u64 where "SSTATUS_SIE = BIT 1"

definition riscv_disable_ints :: "u64 \<Rightarrow> u64" where
  "riscv_disable_ints sstatus = sstatus AND NOT SSTATUS_SIE"

definition riscv_enable_ints :: "u64 \<Rightarrow> u64" where
  "riscv_enable_ints sstatus = sstatus OR SSTATUS_SIE"

definition riscv_ints_enabled :: "u64 \<Rightarrow> bool" where
  "riscv_ints_enabled sstatus \<longleftrightarrow> sstatus AND SSTATUS_SIE \<noteq> 0"

text \<open>\<open>cpu_set_ints\<close> is the same text on every ISA.\<close>

definition x86_set_ints :: "bool \<Rightarrow> u64 \<Rightarrow> bool \<times> u64" where
  "x86_set_ints new_mode r =
     (let rval = x86_ints_enabled r in (rval, if new_mode then x86_enable_ints r else x86_disable_ints r))"

definition arm_set_ints :: "bool \<Rightarrow> u64 \<Rightarrow> bool \<times> u64" where
  "arm_set_ints new_mode r =
     (let rval = arm_ints_enabled r in (rval, if new_mode then arm_enable_ints r else arm_disable_ints r))"

definition riscv_set_ints :: "bool \<Rightarrow> u64 \<Rightarrow> bool \<times> u64" where
  "riscv_set_ints new_mode r =
     (let rval = riscv_ints_enabled r in (rval, if new_mode then riscv_enable_ints r else riscv_disable_ints r))"

section \<open>The flag as an interface\<close>

locale interrupt_flag =
  fixes enabled :: "u64 \<Rightarrow> bool" and set_ints :: "bool \<Rightarrow> u64 \<Rightarrow> bool \<times> u64" and flags :: u64
  assumes old_flag: "fst (set_ints b r) = enabled r"
    and new_flag: "enabled (snd (set_ints b r)) = b"
    and other_bits: "snd (set_ints b r) AND NOT flags = r AND NOT flags"
begin

text \<open>The operation on the register implements the operation on the flag.\<close>

lemma set_refines:
  assumes "ints_on s = enabled r"
  shows "cpu_set_ints b s = Inr (fst (set_ints b r), s\<lparr>ints_on := enabled (snd (set_ints b r))\<rparr>)"
  using assms by (simp add: cpu_set_ints_def cpu_ints_enabled_def cpu_enable_ints_def cpu_disable_ints_def kop_simps old_flag new_flag)

text \<open>A section that switches interrupts off and then puts back what it found, with sections inside it that do the same,
  leaves the flag as it was; inside it interrupts are off.\<close>

lemma section_restores:
  assumes "enabled r' = enabled (snd (set_ints False r))"
  shows "\<not> enabled r'" and "enabled (snd (set_ints (fst (set_ints False r)) r')) = enabled r"
  using assms by (simp_all add: old_flag new_flag)

end

text \<open>One flag in one bit.\<close>

lemma single_bit_flag:
  assumes "n < 64" and "\<And>r. enabled r \<longleftrightarrow> r AND BIT n \<noteq> 0"
    and "\<And>b r. set_ints b r = (enabled r, if b then r OR BIT n else r AND NOT (BIT n))"
  shows "interrupt_flag enabled set_ints (BIT n)"
proof
  have bit: "r AND BIT n \<noteq> 0 \<longleftrightarrow> bit r n" for r :: u64
  proof
    assume "r AND BIT n \<noteq> 0"
    then obtain m where "bit (r AND BIT n) m" using bit_eq_iff [of "r AND BIT n" 0] by auto
    then show "bit r n" by (auto simp: bit_simps bit_BIT)
  next
    assume "bit r n"
    then have "bit (r AND BIT n) n" using assms(1) by (simp add: bit_simps bit_BIT)
    then show "r AND BIT n \<noteq> 0" by auto
  qed
  fix b r
  show "fst (set_ints b r) = enabled r" by (simp add: assms(3))
  show "enabled (snd (set_ints b r)) = b" unfolding assms(2,3) bit using assms(1) by (simp add: bit_simps bit_BIT)
  show "snd (set_ints b r) AND NOT (BIT n) = r AND NOT (BIT n)" unfolding assms(3) by (rule bit_word_eqI) (auto simp: bit_simps)
qed

interpretation x86_flag: interrupt_flag x86_ints_enabled x86_set_ints RFLAGS_IF
  unfolding RFLAGS_IF_def by (rule single_bit_flag)
    (simp_all add: x86_set_ints_def x86_ints_enabled_def x86_enable_ints_def x86_disable_ints_def RFLAGS_IF_def Let_def)

interpretation riscv_flag: interrupt_flag riscv_ints_enabled riscv_set_ints SSTATUS_SIE
  unfolding SSTATUS_SIE_def by (rule single_bit_flag)
    (simp_all add: riscv_set_ints_def riscv_ints_enabled_def riscv_enable_ints_def riscv_disable_ints_def SSTATUS_SIE_def Let_def)

lemma arm_flag_bits: "arm_ints_enabled daif \<longleftrightarrow> \<not> bit daif 6 \<and> \<not> bit daif 7"
proof
  assume "arm_ints_enabled daif"
  then have "bit ((daif AND DAIF_FIQ) OR (daif AND DAIF_IRQ)) k = bit (0 :: u64) k" for k by (simp add: arm_ints_enabled_def)
  from this [of 6] this [of 7] show "\<not> bit daif 6 \<and> \<not> bit daif 7"
    by (simp add: DAIF_FIQ_def DAIF_IRQ_def bit_BIT bit_simps)
next
  assume "\<not> bit daif 6 \<and> \<not> bit daif 7"
  then have "0 = (daif AND DAIF_FIQ) OR (daif AND DAIF_IRQ)"
    by (intro bit_word_eqI) (auto simp: DAIF_FIQ_def DAIF_IRQ_def bit_BIT bit_simps)
  then show "arm_ints_enabled daif" by (simp add: arm_ints_enabled_def)
qed

lemma bit_3: "bit (3 :: u64) n \<longleftrightarrow> n = 0 \<or> n = 1"
proof -
  have "(3 :: u64) = mask 2" by (simp add: mask_eq_exp_minus_1)
  then have "bit (3 :: u64) n = bit (mask 2 :: u64) n" by simp
  also have "\<dots> \<longleftrightarrow> n < 2" by (auto simp: bit_mask_iff)
  finally show ?thesis by auto
qed

interpretation arm_flag: interrupt_flag arm_ints_enabled arm_set_ints "push_bit 6 3"
proof
  fix b r
  show "fst (arm_set_ints b r) = arm_ints_enabled r" by (simp add: arm_set_ints_def Let_def)
  show "arm_ints_enabled (snd (arm_set_ints b r)) = b"
    by (simp add: arm_flag_bits arm_set_ints_def arm_enable_ints_def arm_disable_ints_def daifset_def daifclr_def bit_simps bit_3)
  show "snd (arm_set_ints b r) AND NOT (push_bit 6 3) = r AND NOT (push_bit 6 3)"
    by (rule bit_word_eqI) (auto simp: arm_set_ints_def arm_enable_ints_def arm_disable_ints_def daifset_def daifclr_def bit_simps)
qed

text \<open>On every ISA: interrupts are off inside a section, and afterwards as before.\<close>

lemmas critical_section = x86_flag.section_restores arm_flag.section_restores riscv_flag.section_restores

lemmas set_ints_refines = x86_flag.set_refines arm_flag.set_refines riscv_flag.set_refines

text \<open>The idle thread after its first \<open>n\<close> rounds; \<open>cpu_halt\<close> waits for an interrupt and has no effect on the state.\<close>

definition thread_idle :: "nat \<Rightarrow> ('z machine_scheme, unit) kop" where
  "thread_idle n =
     kseq cpu_enable_ints (kfor [0..<n] (\<lambda>_. kbind cpu_ints_enabled (\<lambda>on. kassert on ''assert'')))"

lemma idle_never_panics: "thread_idle n s = Inr ((), s\<lparr>ints_on := True\<rparr>)"
proof -
  have "kfor xs (\<lambda>_. kbind cpu_ints_enabled (\<lambda>on. kassert on ''assert'')) (s\<lparr>ints_on := True\<rparr>) = Inr ((), s\<lparr>ints_on := True\<rparr>)" for xs :: "nat list"
    by (induction xs) (simp_all add: kop_simps cpu_ints_enabled_def)
  then show ?thesis by (simp add: thread_idle_def cpu_enable_ints_def kop_simps)
qed

section \<open>Cleaning the data cache\<close>

definition CACHE_LINE_SIZE :: u64 where "CACHE_LINE_SIZE = 64"

text \<open>The addresses that \<open>dc cvau\<close> is executed for; no result when the loop does not end.\<close>

partial_function (option) flush_loop :: "u64 \<Rightarrow> u64 \<Rightarrow> u64 list option" where
  "flush_loop stop i = (if i < stop then Option.bind (flush_loop stop (i + CACHE_LINE_SIZE)) (\<lambda>xs. Some (i # xs)) else Some [])"

definition cpu_flush_dcache :: "u64 \<Rightarrow> u64 \<Rightarrow> u64 list option" where
  "cpu_flush_dcache first stop = flush_loop stop first"

lemma flush_loop_lines:
  assumes "unat first + 64 * n < 2 ^ 64"
  shows "flush_loop (first + of_nat (64 * n)) first = Some (map (\<lambda>k. first + of_nat (64 * k)) [0..<n])"
  using assms
proof (induction n arbitrary: first)
  case 0
  then show ?case by (simp add: flush_loop.simps)
next
  case (Suc n)
  have u: "unat (first + of_nat (64 * Suc n)) = unat first + 64 * Suc n" "unat (first + 64) = unat first + 64"
    using unat_add_of_nat [of first "64 * Suc n"] unat_add_of_nat [of first 64] Suc.prems by simp_all
  then have lt: "first < first + of_nat (64 * Suc n)" by (simp add: word_less_nat_alt)
  have "flush_loop (first + 64 + of_nat (64 * n)) (first + 64) = Some (map (\<lambda>k. first + 64 + of_nat (64 * k)) [0..<n])"
    by (rule Suc.IH) (use u Suc.prems in simp)
  moreover have "first + 64 + of_nat (64 * n) = first + of_nat (64 * Suc n)" by simp
  moreover have "map (\<lambda>k. first + of_nat (64 * k)) [0..<Suc n] = first # map (\<lambda>k. first + 64 + of_nat (64 * k)) [0..<n]"
    by (simp add: upt_conv_Cons map_Suc_upt [symmetric] del: upt_Suc)
  ultimately show ?case using lt by (subst flush_loop.simps) (simp add: CACHE_LINE_SIZE_def add.assoc)
qed

text \<open>The loader cleans every byte of a page it has filled, when the page is not the last of the address space.\<close>

lemma page_flushed:
  assumes "unat p + 4096 < 2 ^ 64"
  shows "\<exists>xs. cpu_flush_dcache p (p + SMALL_PAGE_SIZE) = Some xs \<and> (\<forall>a. in_page p a \<longrightarrow> (\<exists>x \<in> set xs. unat (a - x) < 64))"
proof -
  let ?f = "\<lambda>k. p + of_nat (64 * k)"
  have "cpu_flush_dcache p (p + SMALL_PAGE_SIZE) = Some (map ?f [0..<64])"
    using flush_loop_lines [of p 64] assms by (simp add: cpu_flush_dcache_def size_consts)
  moreover have "unat (a - ?f (unat (a - p) div 64)) < 64" "unat (a - p) div 64 < 64" if "in_page p a" for a
  proof -
    let ?d = "unat (a - p)"
    have "of_nat ?d = (of_nat (64 * (?d div 64)) + of_nat (?d mod 64) :: u64)" by (simp only: of_nat_add [symmetric] mult_div_mod_eq)
    then have "a - ?f (?d div 64) = of_nat (?d mod 64)" by (simp add: algebra_simps)
    then show "unat (a - ?f (?d div 64)) < 64" by (simp add: unat_of_nat_64)
    show "?d div 64 < 64" using that by (simp add: in_page_def less_mult_imp_div_less)
  qed
  ultimately show ?thesis by force
qed

end
