(* ===== verification/Sky_Printf.thy ===== *)
theory Sky_Printf
  imports Sky_Tty
begin

text \<open>
  \<open>printf\<close> (src/kernel/printf.c) against a reference: \<open>render\<close> computes the whole text from the format and
  the arguments; the loop of the source prints exactly that text, one character at a time.
\<close>

section \<open>The reference\<close>

datatype rarg = RInt u64 | RStr "u8 list"

text \<open>Digit \<open>i\<close> from the left of the 16 hexadecimal digits of a value.\<close>

definition hex_digit :: "nat \<Rightarrow> u64 \<Rightarrow> nat" where
  "hex_digit i v = unat v div 16 ^ (15 - i) mod 16"

definition hex_text :: "u64 \<Rightarrow> u8 list" where
  "hex_text v = map (\<lambda>i. of_char (digits ! hex_digit i v)) [0..<16]"

text \<open>The text of a format; \<open>None\<close> when a percent sign ends it or an argument is missing or of the other kind.\<close>

fun render :: "u8 list \<Rightarrow> rarg list \<Rightarrow> u8 list option" where
  "render [] as = Some []"
| "render [c] as = (if c = 0x25 then None else Some [c])"
| "render (c # d # f) as =
     (if c \<noteq> 0x25 then map_option (Cons c) (render (d # f) as)
      else if d = 0x78 \<or> d = 0x58 then
        (case as of RInt v # as' \<Rightarrow> map_option ((@) (hex_text v)) (render f as') | _ \<Rightarrow> None)
      else if d = 0x73 then
        (case as of RStr xs # as' \<Rightarrow> map_option ((@) xs) (render f as') | _ \<Rightarrow> None)
      else map_option (\<lambda>r. 0x25 # d # r) (render f as))"

section \<open>Loops over characters\<close>

definition cstr_at :: "csrc \<Rightarrow> memory \<Rightarrow> nat \<Rightarrow> u8 list \<Rightarrow> bool" where
  "cstr_at str m i xs \<longleftrightarrow> cstr (\<lambda>m j. str m (i + j)) m xs"

lemma cstr_at_0: "cstr_at str m 0 xs = cstr str m xs"
  by (simp add: cstr_at_def)

lemma cstr_at_Nil [simp]: "cstr_at str m i [] \<longleftrightarrow> str m i = 0"
  by (simp add: cstr_at_def cstr_def)

lemma cstr_at_Cons [simp]: "cstr_at str m i (x # xs) \<longleftrightarrow> str m i = x \<and> x \<noteq> 0 \<and> cstr_at str m (Suc i) xs"
  by (simp add: cstr_at_def cstr_def All_less_Suc2)

text \<open>\<open>putc\<close> does not write into the characters of a string.\<close>

definition leaves :: "(u8 \<Rightarrow> ('z machine_scheme, unit) kop) \<Rightarrow> csrc \<Rightarrow> bool" where
  "leaves putc str \<longleftrightarrow> (\<forall>c. keeps (\<lambda>s. str (mem s)) (putc c))"

lemma leaves_at:
  assumes "leaves putc str" "putc c s = Inr (a, s')"
  shows "cstr_at str (mem s') i xs = cstr_at str (mem s) i xs"
proof -
  have "str (mem s') = str (mem s)"
    using keepsD [of "\<lambda>s. str (mem s)" "putc c" s a s'] assms by (simp add: leaves_def)
  then show ?thesis by (simp add: cstr_at_def cstr_def)
qed

lemma leaves_kfor: "leaves putc str \<Longrightarrow> keeps (\<lambda>s. str (mem s)) (kfor xs putc)"
  unfolding leaves_def by (intro keeps_kfor) blast

lemma puts_loop_kfor:
  assumes "leaves putc str" "cstr_at str (mem s) i xs"
  shows "puts_loop putc str i s = Some (kfor xs putc s)"
  using assms(2)
proof (induction xs arbitrary: i s)
  case Nil
  then show ?case by (subst puts_loop.simps) (simp add: kop_simps)
next
  case (Cons x xs)
  then have x: "str (mem s) i = x" "x \<noteq> 0" "cstr_at str (mem s) (Suc i) xs" by simp_all
  show ?case
  proof (cases "putc x s")
    case (Inl e)
    then show ?thesis using x by (subst puts_loop.simps) (simp add: kop_simps)
  next
    case (Inr r)
    obtain a s' where r: "r = (a, s')" by (cases r)
    have "puts_loop putc str (Suc i) s' = Some (kfor xs putc s')"
      by (rule Cons.IH) (use x(3) leaves_at [OF assms(1)] Inr r in simp)
    then show ?thesis using x Inr r by (subst puts_loop.simps) (simp add: kop_simps)
  qed
qed

section \<open>Hexadecimal\<close>

lemma hex_loop_nth:
  "n \<le> 16 \<Longrightarrow> hex_loop n v = map (\<lambda>i. of_char (digits ! unat (take_bit 4 (drop_bit (60 - 4 * i) v)))) [0..<n]"
proof (induction n arbitrary: v)
  case 0
  then show ?case by simp
next
  case (Suc n)
  have top: "take_bit 4 (drop_bit 60 v) = drop_bit 60 v"
    by (rule bit_word_eqI) (auto simp: bit_simps dest: bit_imp_le_length)
  have "take_bit 4 (drop_bit (60 - 4 * i) (push_bit 4 v)) = take_bit 4 (drop_bit (60 - 4 * Suc i) v)" if "i < n" for i
    by (rule bit_word_eqI) (use that Suc.prems in \<open>auto simp: bit_simps add.commute\<close>)
  then show ?case
    using Suc by (simp add: upt_conv_Cons map_Suc_upt [symmetric] top del: upt_Suc)
qed

lemma hex_loop_text: "hex_loop CHARS_PER_U64 v = hex_text v"
proof -
  have "unat (take_bit 4 (drop_bit (60 - 4 * i) v)) = hex_digit i v" if "i < 16" for i
  proof -
    have "unat (take_bit 4 (drop_bit (60 - 4 * i) v)) = unat v div 2 ^ (60 - 4 * i) mod 2 ^ 4"
      by (simp only: unsigned_take_bit_eq unat_drop_bit_eq) (simp add: take_bit_eq_mod drop_bit_eq_div)
    moreover have "60 - 4 * i = 4 * (15 - i)" using that by simp
    moreover have "(2 :: nat) ^ (4 * (15 - i)) = 16 ^ (15 - i)" by (simp add: power_mult)
    ultimately show ?thesis by (simp add: hex_digit_def)
  qed
  then show ?thesis by (simp add: hex_loop_nth hex_text_def CHARS_PER_U64_def)
qed

text \<open>The value of a text of hexadecimal digits.\<close>

definition digit_value :: "u8 \<Rightarrow> nat" where
  "digit_value c = (if c \<le> 0x39 then unat c - 0x30 else unat c - 0x37)"

definition hex_value :: "u8 list \<Rightarrow> nat" where
  "hex_value cs = foldl (\<lambda>a c. 16 * a + digit_value c) 0 cs"

lemma digit_value_digits:
  assumes "d < 16"
  shows "digit_value (of_char (digits ! d)) = d"
proof -
  have "d \<in> {0, 1, 2, 3, 4, 5, 6, 7, 8, 9, 10, 11, 12, 13, 14, 15}"
    using assms by (simp only: insert_iff empty_iff) presburger
  then show ?thesis by (auto simp: digits_def digit_value_def)
qed

lemma hex_value_prefix:
  "n \<le> 16 \<Longrightarrow> hex_value (map (\<lambda>i. of_char (digits ! hex_digit i v)) [0..<n]) = unat v div 16 ^ (16 - n)"
proof (induction n)
  case 0
  have "unat v < 16 ^ 16" using unat_bound_64 [of v] by simp
  then show ?case by (simp add: hex_value_def)
next
  case (Suc n)
  then have e: "16 - n = Suc (15 - n)" "16 - Suc n = 15 - n" by auto
  have "hex_value (map (\<lambda>i. of_char (digits ! hex_digit i v)) [0..<Suc n]) =
      16 * (unat v div 16 ^ (16 - n)) + hex_digit n v"
    using Suc by (simp add: hex_value_def digit_value_digits hex_digit_def)
  also have "\<dots> = unat v div 16 ^ (15 - n)"
    unfolding e hex_digit_def power_Suc2 div_mult2_eq by (rule mult_div_mod_eq)
  finally show ?case by (simp only: e)
qed

section \<open>The loop\<close>

text \<open>The arguments that are passed stand for those of the reference.\<close>

definition arg_is :: "memory \<Rightarrow> va \<Rightarrow> rarg \<Rightarrow> bool" where
  "arg_is m a r \<longleftrightarrow> (case r of RInt v \<Rightarrow> a = VaInt v | RStr xs \<Rightarrow> \<exists>str. a = VaStr str \<and> cstr str m xs)"

lemma arg_is_keeps:
  assumes "keeps (\<lambda>s. fmt (mem s)) m" "\<And>str. VaStr str \<in> set args \<Longrightarrow> keeps (\<lambda>s. str (mem s)) m" "m s = Inr (a, s')"
  shows "cstr_at fmt (mem s') i f = cstr_at fmt (mem s) i f"
    and "list_all2 (arg_is (mem s)) args as \<Longrightarrow> list_all2 (arg_is (mem s')) args as"
proof -
  have "fmt (mem s') = fmt (mem s)" using keepsD [OF assms(1,3)] by simp
  then show "cstr_at fmt (mem s') i f = cstr_at fmt (mem s) i f" by (simp add: cstr_at_def cstr_def)
  have "str (mem s') = str (mem s)" if "VaStr str \<in> set args" for str
    using keepsD [OF assms(2) [OF that] assms(3)] by simp
  then show "list_all2 (arg_is (mem s)) args as \<Longrightarrow> list_all2 (arg_is (mem s')) args as"
    unfolding list_all2_conv_all_nth by (auto simp: arg_is_def cstr_def split: rarg.splits) (metis nth_mem)+
qed

text \<open>What may be printed with \<open>putc\<close> without changing the strings that are still to be read.\<close>

definition printf_safe :: "(u8 \<Rightarrow> ('z machine_scheme, unit) kop) \<Rightarrow> csrc \<Rightarrow> va list \<Rightarrow> bool" where
  "printf_safe putc fmt args \<longleftrightarrow> leaves putc fmt \<and> (\<forall>str. VaStr str \<in> set args \<longrightarrow> leaves putc str)"

lemma printf_after:
  assumes "printf_safe putc fmt args" "kfor xs putc s = Inr (a, s')"
  shows "cstr_at fmt (mem s') i f = cstr_at fmt (mem s) i f"
    and "list_all2 (arg_is (mem s)) args as \<Longrightarrow> list_all2 (arg_is (mem s')) args as"
proof -
  have k: "keeps (\<lambda>s. fmt (mem s)) (kfor xs putc)" "\<And>str. VaStr str \<in> set args \<Longrightarrow> keeps (\<lambda>s. str (mem s)) (kfor xs putc)"
    using assms(1) by (auto simp: printf_safe_def intro: leaves_kfor)
  note after = arg_is_keeps [where m = "kfor xs putc" and s = s and a = a and args = args, OF k(1) k(2) assms(2)]
  show "cstr_at fmt (mem s') i f = cstr_at fmt (mem s) i f" by (rule after(1))
  show "list_all2 (arg_is (mem s)) args as \<Longrightarrow> list_all2 (arg_is (mem s')) args as" by (rule after(2))
qed

text \<open>A directive prints its text and drops the argument it used.\<close>

lemma printf_directive_run:
  assumes "printf_safe putc fmt args" "list_all2 (arg_is (mem s)) args as"
    "render (0x25 # d # f) as = Some out"
  obtains xs ys args' as' where
    "printf_directive putc d args s = kseq (kfor xs putc) (kreturn args') s"
    "render f as' = Some ys" "out = xs @ ys" "list_all2 (arg_is (mem s)) args' as'" "printf_safe putc fmt args'"
proof -
  consider (hex) v as' ys where "d = 0x78 \<or> d = 0x58" "as = RInt v # as'" "render f as' = Some ys" "out = hex_text v @ ys"
    | (str) xs as' ys where "d = 0x73" "as = RStr xs # as'" "render f as' = Some ys" "out = xs @ ys"
    | (other) ys where "d \<noteq> 0x78" "d \<noteq> 0x58" "d \<noteq> 0x73" "render f as = Some ys" "out = [0x25, d] @ ys"
    using assms(3) by (auto split: if_splits list.splits rarg.splits)
  then show ?thesis
  proof cases
    case hex
    with assms(2) obtain args' where a: "args = VaInt v # args'" "list_all2 (arg_is (mem s)) args' as'"
      by (auto simp: list_all2_Cons2 arg_is_def)
    show ?thesis
      by (rule that [of "hex_text v" args' as' ys])
        (use hex a assms(1) in \<open>auto simp: printf_directive_def printf_arg_hex_def print_hex_def hex_loop_text printf_safe_def\<close>)
  next
    case str
    with assms(2) obtain str args' where a: "args = VaStr str # args'" "cstr str (mem s) xs" "list_all2 (arg_is (mem s)) args' as'"
      by (auto simp: list_all2_Cons2 arg_is_def)
    have "leaves putc str" using assms(1) a(1) by (simp add: printf_safe_def)
    then have "print_str putc str s = kfor xs putc s"
      using puts_loop_kfor [of putc str s 0 xs] a(2) by (simp add: print_str_def khang_def cstr_at_0)
    then have "kseq (print_str putc str) (kreturn args') s = kseq (kfor xs putc) (kreturn args') s"
      by (simp add: kseq_def kbind_def)
    then show ?thesis
      by (intro that [of xs args' as' ys])
        (use str a assms(1) in \<open>auto simp: printf_directive_def printf_arg_str_def printf_safe_def\<close>)
  next
    case other
    show ?thesis
      by (rule that [of "[0x25, d]" args as ys])
        (use other assms in \<open>auto simp: printf_directive_def kseq_assoc kseq_def kbind_def kreturn_def split: sum.splits\<close>)
  qed
qed

lemma printf_loop_render:
  assumes "printf_safe putc fmt args" "cstr_at fmt (mem s) i f" "list_all2 (arg_is (mem s)) args as"
    "render f as = Some out"
  shows "printf_loop putc fmt i args s = Some (kfor out putc s)"
  using assms
proof (induction "length f" arbitrary: f i args as out s rule: less_induct)
  case less
  show ?case
  proof (cases f)
    case Nil
    with less.prems show ?thesis by (subst printf_loop.simps) (simp add: kop_simps)
  next
    case (Cons c f1)
    with less.prems have c: "fmt (mem s) i = c" "c \<noteq> 0" "cstr_at fmt (mem s) (Suc i) f1" by simp_all
    show ?thesis
    proof (cases "c = 0x25")
      case False
      then obtain out1 where out: "out = c # out1" "render f1 as = Some out1"
        using less.prems(4) Cons by (cases f1) (auto split: if_splits)
      show ?thesis
      proof (cases "putc c s")
        case (Inl e)
        then show ?thesis using c False by (subst printf_loop.simps) (simp add: out kop_simps)
      next
        case (Inr r)
        obtain s' where r: "putc c s = Inr ((), s')" using Inr by (cases r) auto
        then have k: "kfor [c] putc s = Inr ((), s')" by (simp add: kop_simps)
        note st = printf_after [OF less.prems(1) k]
        have "printf_loop putc fmt (Suc i) args s' = Some (kfor out1 putc s')"
          by (rule less.hyps [OF _ less.prems(1)]) (use Cons c(3) st less.prems(3) out(2) in auto)
        then show ?thesis using c False r by (subst printf_loop.simps) (simp add: out kop_simps)
      qed
    next
      case True
      with less.prems(4) Cons obtain d f2 where f1: "f1 = d # f2" by (cases f1) auto
      have d: "fmt (mem s) (Suc i) = d" "cstr_at fmt (mem s) (Suc (Suc i)) f2" using c(3) f1 by simp_all
      obtain xs ys args' as' where dir: "printf_directive putc d args s = kseq (kfor xs putc) (kreturn args') s"
        and out: "render f2 as' = Some ys" "out = xs @ ys"
        and args': "list_all2 (arg_is (mem s)) args' as'" "printf_safe putc fmt args'"
        by (rule printf_directive_run [OF less.prems(1,3), of d f2 out]) (use less.prems(4) Cons f1 True in auto)
      show ?thesis
      proof (cases "kfor xs putc s")
        case (Inl e)
        then show ?thesis
          using c True d dir by (subst printf_loop.simps) (simp add: out kfor_append kop_simps)
      next
        case (Inr r)
        obtain s' where r: "kfor xs putc s = Inr ((), s')" using Inr by (cases r) auto
        note st = printf_after [OF args'(2) r]
        have "printf_loop putc fmt (Suc (Suc i)) args' s' = Some (kfor ys putc s')"
          by (rule less.hyps [OF _ args'(2)]) (use Cons f1 d(2) st args'(1) out(1) in auto)
        then show ?thesis
          using c True d dir r by (subst printf_loop.simps) (simp add: out kfor_append kop_simps)
      qed
    qed
  qed
qed

section \<open>Properties\<close>

text \<open>C34: \<open>printf\<close> prints exactly the text of the reference, character by character through the serial port
  and the active display: every well-formed format with matching arguments makes it equal to the loop that
  sends \<open>render f as\<close>, errors of the device included, provided that printing does not write into the format
  and the string arguments. In particular it always ends when the device does.\<close>

theorem printf_renders:
  assumes "printf_safe (printf_putc ser) fmt args" "cstr fmt (mem s) f" "list_all2 (arg_is (mem s)) args as"
    "render f as = Some out"
  shows "printf ser fmt args s = kfor out (printf_putc ser) s"
  using printf_loop_render [of "printf_putc ser" fmt args s 0 f as out] assms
  by (simp add: printf_def khang_def cstr_at_0)

theorem printf_renders_witness:
  "\<forall>(ser :: disp_state uart_ops) s. printf ser (lit ''v=%x%%'') [VaInt 0x2A] s =
     kfor (map of_char ''v=000000000000002A%%'') (printf_putc ser) s"
proof (intro allI)
  fix ser :: "disp_state uart_ops" and s :: disp_state
  have "leaves putc (lit str)" for putc :: "u8 \<Rightarrow> (disp_state, unit) kop" and str
    by (simp add: leaves_def keeps_def lit_def fun_eq_iff)
  then have "printf_safe (printf_putc ser) (lit ''v=%x%%'') [VaInt 0x2A]" by (simp add: printf_safe_def)
  moreover have "cstr (lit ''v=%x%%'') (mem s) (map of_char ''v=%x%%'')" by (rule lit_cstr) simp
  moreover have "list_all2 (arg_is (mem s)) [VaInt 0x2A] [RInt 0x2A]" by (simp add: arg_is_def)
  moreover have "render (map of_char ''v=%x%%'') [RInt 0x2A] = Some (map of_char ''v=000000000000002A%%'')"
    by (simp add: hex_text_def hex_digit_def digits_def upt_rec)
  ultimately show "printf ser (lit ''v=%x%%'') [VaInt 0x2A] s =
      kfor (map of_char ''v=000000000000002A%%'') (printf_putc ser) s"
    by (rule printf_renders)
qed

text \<open>\<open>_print_hex\<close> prints 16 characters, the hexadecimal digits of the value: read back as a number in
  base 16 they give the value, so no two values print alike.\<close>

theorem print_hex_roundtrip:
  "\<exists>cs. print_hex putc v = kfor cs putc \<and> length cs = 16 \<and> hex_value cs = unat v"
  using hex_value_prefix [of 16 v]
  by (intro exI [of _ "hex_text v"]) (simp add: print_hex_def hex_loop_text hex_text_def)

end
