(* ===== verification/Sky_Panic.thy ===== *)
theory Sky_Panic
  imports Sky_Printf Sky_Segment
begin

text \<open>
  What the kernel reports before it stops: \<open>_panic_internal\<close> (src/kernel/lib.c) up to its final loop, which
  halts the CPU for good, the clearing of the variables at boot (\<open>init_bss\<close>), the listing of the ramdisk
  (\<open>tar_ls_files\<close> of src/fs/tar.c, which prints), and the register dumps \<open>cpu_dump_regs\<close> of the three ISAs (src/arch/*/cpu.c). A dump is the
  list of its \<open>printf\<close> calls: the format and the register that is printed, by its position in \<open>regs_t\<close>
  (inc/arch/*/regs.h).
\<close>

section \<open>src/arch/*/cpu.c\<close>

text \<open>The format of one call: a label of the register, and what follows the value.\<close>

definition NL :: string where "NL = [CHR 0x0A]"

definition x86_dump :: "(string \<times> nat) list" where
  "x86_dump =
     [(''RIP: 0x%X'' @ NL, 17), (''RAX: 0x%X    '', 0), (''RBX: 0x%X    '', 1), (''RCX: 0x%X    '', 2),
      (''RDX: 0x%X'' @ NL, 3), (''RDI: 0x%X    '', 4), (''RSI: 0x%X    '', 5), (''RBP: 0x%X    '', 6),
      (''RSP: 0x%X'' @ NL, 20), (''R8:  0x%X    '', 7), (''R9:  0x%X    '', 8), (''R10: 0x%X    '', 9),
      (''R11: 0x%X'' @ NL, 10), (''R12: 0x%X    '', 11), (''R13: 0x%X    '', 12), (''R14: 0x%X    '', 13),
      (''R15: 0x%X'' @ NL, 14), (''ERR: 0x%X    '', 16), (''CS:  0x%X    '', 18), (''SS:  0x%X    '', 21),
      (''RFL: 0x%X'' @ NL, 19)]"

definition arm_dump :: "(string \<times> nat) list" where
  "arm_dump =
     [(''ELR: 0x%X'' @ NL, 34), (''X0:  0x%X    '', 0), (''X1:  0x%X    '', 1), (''X2:  0x%X    '', 2),
      (''X3:  0x%X'' @ NL, 3), (''X4:  0x%X    '', 4), (''X5:  0x%X    '', 5), (''X6:  0x%X    '', 6),
      (''X7:  0x%X'' @ NL, 7), (''X8:  0x%X    '', 8), (''X9:  0x%X    '', 9), (''X10: 0x%X    '', 10),
      (''X11: 0x%X'' @ NL, 11), (''X12: 0x%X    '', 12), (''X13: 0x%X    '', 13), (''X14: 0x%X    '', 14),
      (''X15: 0x%X'' @ NL, 15), (''X16: 0x%X    '', 16), (''X17: 0x%X    '', 17), (''X18: 0x%X    '', 18),
      (''X19: 0x%X'' @ NL, 19), (''X20: 0x%X    '', 20), (''X21: 0x%X    '', 21), (''X22: 0x%X    '', 22),
      (''X23: 0x%X'' @ NL, 23), (''X24: 0x%X    '', 24), (''X25: 0x%X    '', 25), (''X26: 0x%X    '', 26),
      (''X27: 0x%X'' @ NL, 27), (''X28: 0x%X    '', 28), (''X29: 0x%X    '', 29), (''X30: 0x%X'' @ NL, 30),
      (''SP0: 0x%X    '', 31), (''ESR: 0x%X    '', 33), (''SPSR:0x%X'' @ NL, 32)]"

definition riscv_dump :: "(string \<times> nat) list" where
  "riscv_dump =
     [(''SEPC:0x%X'' @ NL, 31), (''X1:  0x%X    '', 0), (''X2:  0x%X    '', 1), (''X3:  0x%X    '', 2),
      (''X4:  0x%X'' @ NL, 3), (''X5:  0x%X    '', 4), (''X6:  0x%X    '', 5), (''X7:  0x%X    '', 6),
      (''X8:  0x%X'' @ NL, 7), (''X9:  0x%X    '', 8), (''X10: 0x%X    '', 9), (''X11: 0x%X    '', 10),
      (''X12: 0x%X'' @ NL, 11), (''X13: 0x%X    '', 12), (''X14: 0x%X    '', 13), (''X15: 0x%X    '', 14),
      (''X16: 0x%X'' @ NL, 15), (''X17: 0x%X    '', 16), (''X18: 0x%X    '', 17), (''X19: 0x%X    '', 18),
      (''X20: 0x%X'' @ NL, 19), (''X21: 0x%X    '', 20), (''X22: 0x%X    '', 21), (''X23: 0x%X    '', 22),
      (''X24: 0x%X'' @ NL, 23), (''X25: 0x%X    '', 24), (''X26: 0x%X    '', 25), (''X27: 0x%X    '', 26),
      (''X28: 0x%X'' @ NL, 27), (''X29: 0x%X    '', 28), (''X30: 0x%X    '', 29), (''X31: 0x%X    '' @ NL, 30),
      (''SSTATUS:  0x%X'' @ NL, 32), (''SCAUSE:   0x%X'' @ NL, 33), (''STVAL:    0x%X'' @ NL, 34)]"

definition dump_calls :: "isa \<Rightarrow> (string \<times> nat) list" where
  "dump_calls arch = (case arch of X86_64 \<Rightarrow> x86_dump | AARCH64 \<Rightarrow> arm_dump | RISCV64 \<Rightarrow> riscv_dump)"

definition cpu_dump_regs :: "isa \<Rightarrow> 'z disp_state_scheme uart_ops \<Rightarrow> u64 \<Rightarrow> ('z disp_state_scheme, unit) kop" where
  "cpu_dump_regs arch ser r =
     (if r = 0 then kreturn ()
      else kfor (dump_calls arch) (\<lambda>(fmt, i).
        kbind (kgets (\<lambda>s. load64 (mem s) (reg_at r i))) (\<lambda>v. printf ser (lit fmt) [VaInt v])))"

section \<open>src/kernel/lib.c\<close>

text \<open>The lines that are printed, and the whole report.\<close>

definition panic_print ::
  "isa \<Rightarrow> 'z disp_state_scheme uart_ops \<Rightarrow> u64 \<Rightarrow> csrc \<Rightarrow> va list \<Rightarrow> ('z disp_state_scheme, unit) kop" where
  "panic_print arch ser regs reason args =
     kseq (printf ser (lit ''panic: '') [])
     (kseq (printf ser reason args)
     (kseq (printf ser (lit NL) [])
     (kwhen (regs \<noteq> 0) (cpu_dump_regs arch ser regs))))"

definition panic_internal ::
  "isa \<Rightarrow> (nat \<Rightarrow> u8) \<Rightarrow> 'z disp_state_scheme uart_ops \<Rightarrow> u64 \<Rightarrow> csrc \<Rightarrow> va list \<Rightarrow> ('z disp_state_scheme, unit) kop" where
  "panic_internal arch font ser regs reason args =
     kseq cpu_disable_ints
     (kseq display_begin_panic
     (kseq (panic_print arch ser regs reason args)
     (display_finish_panic arch font)))"

text \<open>The linker provides the two ends of the region.\<close>

definition init_bss :: "u64 \<Rightarrow> u64 \<Rightarrow> ('z machine_scheme, unit) kop" where
  "init_bss bss_start bss_end = kmodify (\<lambda>s. s\<lparr>mem := memset bss_start 0 (bss_end - bss_start) (mem s)\<rparr>)"

section \<open>src/fs/tar.c\<close>

partial_function (option) tar_ls_loop ::
  "'z disp_state_scheme uart_ops \<Rightarrow> u64 \<Rightarrow> 'z disp_state_scheme \<Rightarrow> (kerr + unit \<times> 'z disp_state_scheme) option" where
  "tar_ls_loop ser h s =
     (if \<not> tar_is_valid h (mem s) then Some (Inr ((), s))
      else (case printf ser (lit (''%s'' @ NL)) [VaStr (ptr (tar_name h))] s of
          Inl e \<Rightarrow> Some (Inl e)
        | Inr (_, s') \<Rightarrow>
            (case tar_to_next h (mem s') of Inl e \<Rightarrow> Some (Inl e) | Inr n \<Rightarrow> tar_ls_loop ser n s')))"

definition tar_ls_files :: "'z disp_state_scheme uart_ops \<Rightarrow> ('z disp_state_scheme, unit) kop" where
  "tar_ls_files ser = kbind (kgets g_initrd) (\<lambda>h. khang (tar_ls_loop ser h))"

section \<open>src/kernel/kmain.c with the start of the CPU\<close>

text \<open>
  The kernel from its entry on: \<open>kmain\<close> with its calls of \<open>init_bss\<close>, \<open>init_cpu\<close> and \<open>init_timer\<close>. The ends of the
  cleared region and the addresses of the tables come from the linker.
\<close>

definition kernel_main ::
  "platform \<Rightarrow> boot_args \<Rightarrow> 'z cpu_state_scheme bus \<Rightarrow> 'z cpu_state_scheme kenv \<Rightarrow> u64 \<Rightarrow> u64 \<Rightarrow> cpu_args \<Rightarrow>
     ('z cpu_state_scheme, unit) kop" where
  "kernel_main p a b env bss_start bss_end c =
     kmain p a b env (init_bss bss_start bss_end) (init_cpu (k_arch env) c) (init_timer (k_arch env) (g_intc p b))"

end
