(* ===== verification/Sky_User.thy ===== *)
theory Sky_User
  imports Sky_Syscall
begin

text \<open>
  The user programs: the C library (user/libc/libc.c), the shell (user/shell.c) and the small programs
  (user/cat.c, ls.c, count.c, uname.c, argtest.c, hello.c). A program runs in its own memory. The system call
  instruction (user/libc/crt0_*.s) is an argument, as are the addresses at which the compiler places string
  literals and local variables. A loop that runs as long as input arrives is a partial function or, where
  it never ends, one round of it.
\<close>

record 's uenv =
  u_syscall :: "u64 \<Rightarrow> u64 list \<Rightarrow> ('s, u64) kop"
  u_lit :: "string \<Rightarrow> u64"
  u_char :: u64

section \<open>user/libc/libc.c\<close>

definition libc_memset :: "u64 \<Rightarrow> u8 \<Rightarrow> usize \<Rightarrow> memory \<Rightarrow> memory" where
  "libc_memset b c len m = fold (\<lambda>i m. m(b + of_nat i := c)) [0..<unat len] m"

definition libc_memcpy :: "u64 \<Rightarrow> u64 \<Rightarrow> usize \<Rightarrow> memory \<Rightarrow> memory" where
  "libc_memcpy dst src len m = fold (\<lambda>i m. m(dst + of_nat i := m (src + of_nat i))) [0..<unat len] m"

partial_function (option) libc_strlen_loop :: "u64 \<Rightarrow> usize \<Rightarrow> memory \<Rightarrow> usize option" where
  "libc_strlen_loop c len m = (if m c = 0 then Some len else libc_strlen_loop (c + 1) (len + 1) m)"

definition libc_strlen :: "u64 \<Rightarrow> memory \<Rightarrow> usize option" where
  "libc_strlen s m = libc_strlen_loop s 0 m"

partial_function (option) libc_strequal :: "u64 \<Rightarrow> u64 \<Rightarrow> memory \<Rightarrow> bool option" where
  "libc_strequal a b m =
     (if m a \<noteq> 0 \<and> m b \<noteq> 0 then (if m a \<noteq> m b then Some False else libc_strequal (a + 1) (b + 1) m)
      else Some (m a = m b))"

text \<open>A loop over memory, run as a step of the program.\<close>

definition on_mem :: "(memory \<Rightarrow> 'a option) \<Rightarrow> ('z machine_scheme, 'a) kop" where
  "on_mem f = kloop ''user loop'' (\<lambda>s. f (mem s))"

definition libc_exit :: "'s uenv \<Rightarrow> u64 \<Rightarrow> ('s, u64) kop" where
  "libc_exit env reason = u_syscall env (of_nat SYS_EXIT) [reason]"

definition libc_spawn :: "'s uenv \<Rightarrow> u64 \<Rightarrow> u64 \<Rightarrow> u64 \<Rightarrow> ('s, u64) kop" where
  "libc_spawn env path flags argv = u_syscall env (of_nat SYS_SPAWN) [path, flags, argv]"

text \<open>File descriptors are \<open>int\<close>.\<close>

definition libc_open :: "'s uenv \<Rightarrow> u64 \<Rightarrow> ('s, 32 word) kop" where
  "libc_open env path = kbind (u_syscall env (of_nat SYS_OPEN) [path]) (\<lambda>r. kreturn (ucast r))"

definition libc_read :: "'s uenv \<Rightarrow> 32 word \<Rightarrow> u64 \<Rightarrow> usize \<Rightarrow> ('s, usize) kop" where
  "libc_read env fd buf len = u_syscall env (of_nat SYS_READ) [scast fd, buf, len]"

definition libc_write :: "'s uenv \<Rightarrow> 32 word \<Rightarrow> u64 \<Rightarrow> usize \<Rightarrow> ('s, usize) kop" where
  "libc_write env fd buf len = u_syscall env (of_nat SYS_WRITE) [scast fd, buf, len]"

definition libc_close :: "'s uenv \<Rightarrow> 32 word \<Rightarrow> ('s, u64) kop" where
  "libc_close env fd = u_syscall env (of_nat SYS_CLOSE) [scast fd]"

definition libc_getdents :: "'s uenv \<Rightarrow> 32 word \<Rightarrow> u64 \<Rightarrow> ('s, u64) kop" where
  "libc_getdents env fd d = u_syscall env (of_nat SYS_GETDENTS) [scast fd, d]"

definition libc_uname :: "'s uenv \<Rightarrow> u64 \<Rightarrow> ('s, u64) kop" where
  "libc_uname env u = u_syscall env (of_nat SYS_UNAME) [u]"

definition libc_stdin :: "32 word" where "libc_stdin = 0"
definition libc_stdout :: "32 word" where "libc_stdout = 1"

definition libc_fdputs :: "'z machine_scheme uenv \<Rightarrow> 32 word \<Rightarrow> u64 \<Rightarrow> ('z machine_scheme, unit) kop" where
  "libc_fdputs env fd s = kbind (on_mem (libc_strlen s)) (\<lambda>n. kseq (libc_write env fd s n) (kreturn ()))"

definition libc_puts :: "'z machine_scheme uenv \<Rightarrow> u64 \<Rightarrow> ('z machine_scheme, unit) kop" where
  "libc_puts env s = kbind (on_mem (libc_strlen s)) (\<lambda>n. kseq (libc_write env libc_stdout s n) (kreturn ()))"

definition libc_putc :: "'z machine_scheme uenv \<Rightarrow> u8 \<Rightarrow> ('z machine_scheme, unit) kop" where
  "libc_putc env c =
     kseq (kmodify (\<lambda>s. s\<lparr>mem := (mem s)(u_char env := c)\<rparr>))
     (kseq (libc_write env libc_stdout (u_char env) 1) (kreturn ()))"

definition libc_print_hex :: "'z machine_scheme uenv \<Rightarrow> u64 \<Rightarrow> ('z machine_scheme, unit) kop" where
  "libc_print_hex env val = kfor (hex_loop CHARS_PER_U64 val) (libc_putc env)"

definition libc_directive :: "'z machine_scheme uenv \<Rightarrow> u8 \<Rightarrow> u64 list \<Rightarrow> ('z machine_scheme, u64 list) kop" where
  "libc_directive env d args =
     (if d = 0x78 \<or> d = 0x58 then (case args of [] \<Rightarrow> kfault ''va_arg'' | v # rest \<Rightarrow> kseq (libc_print_hex env v) (kreturn rest))
      else if d = 0x73 then (case args of [] \<Rightarrow> kfault ''va_arg'' | v # rest \<Rightarrow> kseq (libc_puts env v) (kreturn rest))
      else kseq (libc_putc env 0x25) (kseq (libc_putc env d) (kreturn args)))"

partial_function (option) libc_printf_loop ::
  "'z machine_scheme uenv \<Rightarrow> u64 \<Rightarrow> u64 list \<Rightarrow> 'z machine_scheme \<Rightarrow> (kerr + unit \<times> 'z machine_scheme) option" where
  "libc_printf_loop env i args s =
     (if mem s i = 0 then Some (Inr ((), s))
      else if mem s i \<noteq> 0x25 then
        (case libc_putc env (mem s i) s of Inl e \<Rightarrow> Some (Inl e) | Inr (_, s') \<Rightarrow> libc_printf_loop env (i + 1) args s')
      else
        (case libc_directive env (mem s (i + 1)) args s of
           Inl e \<Rightarrow> Some (Inl e) | Inr (args', s') \<Rightarrow> libc_printf_loop env (i + 2) args' s'))"

definition libc_printf :: "'z machine_scheme uenv \<Rightarrow> string \<Rightarrow> u64 list \<Rightarrow> ('z machine_scheme, unit) kop" where
  "libc_printf env fmt args = khang (libc_printf_loop env (u_lit env fmt) args)"

section \<open>user/shell.c\<close>

definition MAX_ARGS :: nat where "MAX_ARGS = 32"

text \<open>The loop that cuts the line into arguments; \<open>av\<close> is the array \<open>args\<close> and \<open>n\<close> is \<open>arg_counter\<close>.\<close>

partial_function (option) split_loop :: "u64 \<Rightarrow> u64 \<Rightarrow> nat \<Rightarrow> memory \<Rightarrow> (nat \<times> memory) option" where
  "split_loop av c n m =
     (if m c = 0 then Some (n, m)
      else
        let new = (m c = 0x20 \<and> m (c + 1) \<noteq> 0x20 \<and> m (c + 1) \<noteq> 0);
            m = (if new then store64 m (av + 8 * of_nat n) (c + 1) else m);
            n = (if new then Suc n else n);
            m = (if m c = 0x20 then m(c := 0) else m)
        in if n \<ge> MAX_ARGS then Some (n, m) else split_loop av (c + 1) n m)"

definition clear_args :: "u64 \<Rightarrow> memory \<Rightarrow> memory" where
  "clear_args av m = fold (\<lambda>i m. store64 m (av + 8 * of_nat i) 0) [0..<MAX_ARGS] m"

definition split_args :: "u64 \<Rightarrow> u64 \<Rightarrow> memory \<Rightarrow> (nat \<times> memory) option" where
  "split_args av buf m = split_loop av buf 1 (store64 (clear_args av m) av buf)"

text \<open>One command of the shell: it goes on to the next or returns.\<close>

datatype shell_next = Continue | Return u64

definition shell_spawn :: "'z machine_scheme uenv \<Rightarrow> u64 \<Rightarrow> u64 \<Rightarrow> ('z machine_scheme, shell_next) kop" where
  "shell_spawn env buf av =
     kbind (on_mem (split_args av buf)) (\<lambda>(n, m).
     kseq (kmodify (\<lambda>s. s\<lparr>mem := m\<rparr>))
     (kbind (libc_spawn env buf SPAWN_WAIT av) (\<lambda>rval.
      kseq (kwhen (0 \<noteq> rval) (libc_printf env (''%s returned error 0x%X'' @ [CHR 0x0A]) [buf, rval]))
      (kreturn Continue))))"

text \<open>\<open>strequal (buf, word)\<close> and the three commands that provoke errors.\<close>

definition is_command :: "'z machine_scheme uenv \<Rightarrow> u64 \<Rightarrow> string \<Rightarrow> ('z machine_scheme, bool) kop" where
  "is_command env buf word = on_mem (libc_strequal buf (u_lit env word))"

definition shell_tests :: "'z machine_scheme uenv \<Rightarrow> u64 \<Rightarrow> ('z machine_scheme, unit) kop" where
  "shell_tests env buf =
     kbind (is_command env buf ''crash'') (\<lambda>c.
     kseq (kwhen c (kfault ''store to 0xDEADC0DE''))
     (kbind (is_command env buf ''panic'') (\<lambda>c.
      kseq (kwhen c (kseq (libc_open env (u_lit env ''/dev/panic1'')) (libc_puts env (u_lit env ''shell: you should never see this (2)''))))
      (kbind (is_command env buf ''assertfail'') (\<lambda>c.
       kwhen c (kseq (libc_open env (u_lit env ''/dev/panic2'')) (libc_puts env (u_lit env ''shell: you should never see this (2)''))))))))"

definition shell_round :: "'z machine_scheme uenv \<Rightarrow> u64 \<Rightarrow> u64 \<Rightarrow> ('z machine_scheme, shell_next) kop" where
  "shell_round env buf av =
     kseq (libc_puts env (u_lit env ''$ ''))
     (kseq (kmodify (\<lambda>s. s\<lparr>mem := libc_memset buf 0 1024 (mem s)\<rparr>))
     (kbind (libc_read env libc_stdin buf 1024) (\<lambda>n.
       if 0 = n then kseq (libc_puts env (u_lit env (''shell: error reading from stdin'' @ [CHR 0x0A]))) (kreturn (Return 1))
       else
         kbind (kgets (\<lambda>s. mem s (buf + (n - 1)))) (\<lambda>last.
           if last \<noteq> 0x0A
           then kseq (libc_puts env (u_lit env (''shell: input was not a full line'' @ [CHR 0x0A]))) (kreturn Continue)
           else
             kseq (kmodify (\<lambda>s. s\<lparr>mem := (mem s)(buf + (n - 1) := 0)\<rparr>))
             (kbind (is_command env buf ''exit'') (\<lambda>e.
               if e then kreturn (Return 0)
               else
                 kseq (shell_tests env buf)
                 (kbind (is_command env buf '''') (\<lambda>empty.
                   if empty then kreturn Continue else shell_spawn env buf av))))))))"

partial_function (option) shell_main ::
  "'z machine_scheme uenv \<Rightarrow> u64 \<Rightarrow> u64 \<Rightarrow> 'z machine_scheme \<Rightarrow> (kerr + u64 \<times> 'z machine_scheme) option" where
  "shell_main env buf av s =
     (case shell_round env buf av s of
        Inl e \<Rightarrow> Some (Inl e)
      | Inr (r, s') \<Rightarrow> if r = Continue then shell_main env buf av s' else Some (Inr (case r of Return v \<Rightarrow> v, s')))"

section \<open>The small programs\<close>

text \<open>user/cat.c: the loop copies until a read returns nothing.\<close>

partial_function (option) cat_loop ::
  "'z machine_scheme uenv \<Rightarrow> u64 \<Rightarrow> 32 word \<Rightarrow> 'z machine_scheme \<Rightarrow> (kerr + unit \<times> 'z machine_scheme) option" where
  "cat_loop env buf fd s =
     (case libc_read env fd buf 1024 s of
        Inl e \<Rightarrow> Some (Inl e)
      | Inr (bytes_read, s1) \<Rightarrow>
          if 0 = bytes_read then Some (Inr ((), s1))
          else
            (case libc_write env libc_stdout buf bytes_read s1 of
               Inl e \<Rightarrow> Some (Inl e)
             | Inr (_, s2) \<Rightarrow> cat_loop env buf fd (s2\<lparr>mem := libc_memset buf 0 1024 (mem s2)\<rparr>)))"

definition cat_main :: "'z machine_scheme uenv \<Rightarrow> u64 \<Rightarrow> 32 word \<Rightarrow> u64 \<Rightarrow> ('z machine_scheme, u64) kop" where
  "cat_main env buf argc argv =
     (if argc <s 1 then kreturn 1
      else
        kseq (kwhen (argc \<noteq> 2)
          (kbind (kgets (\<lambda>s. load64 (mem s) argv)) (\<lambda>a0.
           kseq (libc_printf env (''usage: %s [file]'' @ [CHR 0x0A]) [a0]) (kseq (libc_exit env 1) (kreturn ())))))
        (kbind (kgets (\<lambda>s. load64 (mem s) (argv + 8))) (\<lambda>a1.
         kbind (libc_open env a1) (\<lambda>fd.
         kseq (kwhen (fd <s 0)
           (kseq (libc_printf env (''couldn'' @ [CHR 0x27] @ ''t find %s'' @ [CHR 0x0A]) [a1]) (kseq (libc_exit env 1) (kreturn ()))))
         (kseq (kmodify (\<lambda>s. s\<lparr>mem := libc_memset buf 0 1024 (mem s)\<rparr>))
         (kseq (khang (cat_loop env buf fd))
         (kseq (libc_close env fd)
         (kreturn 0))))))))"

text \<open>user/ls.c: \<open>name\<close> is one byte into a \<open>dirent_t\<close>.\<close>

partial_function (option) ls_loop ::
  "'z machine_scheme uenv \<Rightarrow> u64 \<Rightarrow> 32 word \<Rightarrow> 'z machine_scheme \<Rightarrow> (kerr + unit \<times> 'z machine_scheme) option" where
  "ls_loop env d fd s =
     (case libc_getdents env fd d s of
        Inl e \<Rightarrow> Some (Inl e)
      | Inr (r, s1) \<Rightarrow>
          if 0 = r then Some (Inr ((), s1))
          else
            (case libc_printf env (''%s'' @ [CHR 0x0A]) [d + 1] s1 of
               Inl e \<Rightarrow> Some (Inl e)
             | Inr (_, s2) \<Rightarrow> ls_loop env d fd s2))"

definition ls_main :: "'z machine_scheme uenv \<Rightarrow> u64 \<Rightarrow> ('z machine_scheme, unit) kop" where
  "ls_main env d =
     kbind (libc_open env (u_lit env ''/'')) (\<lambda>fd.
     kseq (khang (ls_loop env d fd))
     (kseq (libc_close env fd)
     (kreturn ())))"

text \<open>user/count.c: round \<open>i\<close> of its endless loop; \<open>busyloop\<close> does nothing.\<close>

definition count_round :: "'z machine_scheme uenv \<Rightarrow> usize \<Rightarrow> ('z machine_scheme, usize) kop" where
  "count_round env i = kseq (libc_printf env (''%x'' @ [CHR 0x0A]) [i]) (kreturn (i + 1))"

text \<open>user/uname.c: the fields of \<open>struct utsname\<close> are 64 bytes each.\<close>

definition uname_main :: "'z machine_scheme uenv \<Rightarrow> u64 \<Rightarrow> ('z machine_scheme, unit) kop" where
  "uname_main env u =
     kbind (libc_uname env u) (\<lambda>r.
     kseq (kwhen (0 \<noteq> r) (kseq (libc_exit env 1) (kreturn ())))
     (libc_printf env (''%s %s %s %s'' @ [CHR 0x0A]) [u, u + 192, u + 128, u + 256]))"

text \<open>user/argtest.c: \<open>i < argc\<close> compares the \<open>int\<close> as an unsigned 64-bit number.\<close>

definition argtest_main :: "'z machine_scheme uenv \<Rightarrow> 32 word \<Rightarrow> u64 \<Rightarrow> ('z machine_scheme, u64) kop" where
  "argtest_main env argc argv =
     kseq (kfor [0..<unat (scast argc :: u64)] (\<lambda>i.
       kbind (kgets (\<lambda>s. load64 (mem s) (argv + 8 * of_nat i))) (\<lambda>a.
         libc_printf env (''arg %x: %s'' @ [CHR 0x0A]) [of_nat i, a])))
     (kreturn 0)"

text \<open>user/hello.c.\<close>

definition hello_main :: "'z machine_scheme uenv \<Rightarrow> ('z machine_scheme, unit) kop" where
  "hello_main env = libc_puts env (u_lit env (''Hello, Skybolt'' @ [CHR 0x0A]))"

end
