(* ===== verification/Sky_Shell.thy ===== *)
theory Sky_Shell
  imports Sky_User
begin

text \<open>
  How the shell cuts a line into arguments (user/shell.c), against a reference on lists: the arguments of
  a line start at its first character and after every space that is followed by another character than a
  space.
\<close>

section \<open>The reference\<close>

definition gap :: "u8 list \<Rightarrow> nat \<Rightarrow> bool" where
  "gap xs i \<longleftrightarrow> xs ! i = 0x20 \<and> Suc i < length xs \<and> xs ! Suc i \<noteq> 0x20"

text \<open>The starts that are known after the first \<open>i\<close> characters, and those of the whole line.\<close>

definition starts_in :: "u8 list \<Rightarrow> nat \<Rightarrow> nat list" where
  "starts_in xs i = 0 # map Suc (filter (gap xs) [0..<i])"

definition starts :: "u8 list \<Rightarrow> nat list" where
  "starts xs = starts_in xs (length xs)"

definition word_at :: "u8 list \<Rightarrow> nat \<Rightarrow> u8 list" where
  "word_at xs p = takeWhile (\<lambda>c. c \<noteq> 0x20) (drop p xs)"

text \<open>The characters of the line once its first \<open>i\<close> have been cut, with the terminating NUL.\<close>

definition cut_char :: "u8 list \<Rightarrow> nat \<Rightarrow> nat \<Rightarrow> u8" where
  "cut_char xs i j = (if j < length xs \<and> \<not> (j < i \<and> xs ! j = 0x20) then xs ! j else 0)"

lemma starts_in_Suc: "starts_in xs (Suc i) = starts_in xs i @ (if gap xs i then [Suc i] else [])"
  by (simp add: starts_in_def)

lemma starts_in_prefix:
  assumes "i \<le> length xs"
  shows "starts xs = starts_in xs i @ map Suc (filter (gap xs) [i..<length xs])"
proof -
  have "[0..<length xs] = [0..<i] @ [i..<length xs]" using assms upt_add_eq_append [of 0 i "length xs - i"] by simp
  then show ?thesis by (simp add: starts_def starts_in_def)
qed

lemma starts_in_le: "p \<in> set (starts_in xs i) \<Longrightarrow> p \<le> i"
  by (auto simp: starts_in_def)

section \<open>The arrays in memory\<close>

text \<open>Slot \<open>k\<close> of the array of arguments.\<close>

definition slot :: "u64 \<Rightarrow> nat \<Rightarrow> u64" where "slot av k = av + 8 * of_nat k"

lemma slot_byte: "k < 32 \<Longrightarrow> i < 8 \<Longrightarrow> unat (slot av k + of_nat i - av) = 8 * k + i"
proof -
  assume "k < 32" "i < 8"
  then have "unat (of_nat (8 * k + i) :: u64) = 8 * k + i" by (intro unat_of_nat_64) simp
  then show ?thesis by (simp add: slot_def)
qed

lemma load_slot_store:
  "k < 32 \<Longrightarrow> n < 32 \<Longrightarrow> load64 (store64 m (slot av n) v) (slot av k) = (if k = n then v else load64 m (slot av k))"
  using load_store_reg [of n k m av v] by (simp add: slot_def reg_at_def)

text \<open>An address outside the array is not touched by a store to a slot.\<close>

definition off_array :: "u64 \<Rightarrow> u64 \<Rightarrow> bool" where "off_array av a \<longleftrightarrow> 256 \<le> unat (a - av)"

lemma store_slot_off:
  assumes "n < 32" "off_array av a"
  shows "store64 m (slot av n) v a = m a"
proof (rule store64_other)
  have u: "unat (of_nat (8 * n) :: u64) = 8 * n" using assms(1) by (intro unat_of_nat_64) simp
  have "unat (a - slot av n) = unat (a - av) - 8 * n"
    using unat_sub [of "of_nat (8 * n)" "a - av"] u assms by (simp add: slot_def off_array_def word_le_nat_alt diff_diff_eq)
  then show "8 \<le> unat (a - slot av n)" using assms by (simp add: off_array_def)
qed

lemma load_slot_upd:
  assumes "k < 32" "off_array av a"
  shows "load64 (m(a := v)) (slot av k) = load64 m (slot av k)"
proof (rule load64_cong)
  fix i :: nat assume "i < 8"
  then have "slot av k + of_nat i \<noteq> a" using slot_byte [OF assms(1), of i av] assms by (auto simp: off_array_def)
  then show "(m(a := v)) (slot av k + of_nat i) = m (slot av k + of_nat i)" by simp
qed

section \<open>The loop\<close>

text \<open>
  The state of the loop at character \<open>i\<close>: the characters before it are cut, the starts found so far are in the
  array, and the rest of the array is NULL; nothing else has changed since \<open>m0\<close>.
\<close>

definition split_inv :: "u64 \<Rightarrow> u64 \<Rightarrow> u8 list \<Rightarrow> memory \<Rightarrow> nat \<Rightarrow> nat \<Rightarrow> memory \<Rightarrow> bool" where
  "split_inv av buf xs m0 i n m \<longleftrightarrow> i \<le> length xs \<and> n = length (starts_in xs i) \<and>
     (\<forall>j \<le> length xs. m (buf + of_nat j) = cut_char xs i j) \<and>
     (\<forall>k < 32. load64 m (slot av k) = (if k < n then buf + of_nat (starts_in xs i ! k) else 0)) \<and>
     (\<forall>a. off_array av a \<longrightarrow> length xs \<le> unat (a - buf) \<longrightarrow> m a = m0 a)"

definition line_off :: "u64 \<Rightarrow> u64 \<Rightarrow> u8 list \<Rightarrow> bool" where
  "line_off av buf xs \<longleftrightarrow> length xs < 1024 \<and> (0::u8) \<notin> set xs \<and> (\<forall>j \<le> length xs. off_array av (buf + of_nat j))"

text \<open>One round.\<close>

lemma buf_index:
  fixes buf :: u64
  assumes "i < 1024" "j < 1024"
  shows "buf + of_nat i = buf + of_nat j \<longleftrightarrow> i = j" and "unat (buf + of_nat j - buf) = j"
proof -
  have u: "unat (of_nat i :: u64) = i" "unat (of_nat j :: u64) = j" using assms by (auto intro: unat_of_nat_64)
  then show "buf + of_nat i = buf + of_nat j \<longleftrightarrow> i = j" by (metis add_left_cancel)
  show "unat (buf + of_nat j - buf) = j" using u by simp
qed

lemma split_round:
  assumes inv: "split_inv av buf xs m0 i n m" and off: "line_off av buf xs" and i: "i < length xs" "n < 32"
  defines "c \<equiv> buf + of_nat i"
  defines "m1 \<equiv> if gap xs i then store64 m (slot av n) (c + 1) else m"
  defines "m2 \<equiv> if xs ! i = 0x20 then m1(c := 0) else m1"
  shows "split_inv av buf xs m0 (Suc i) (length (starts_in xs (Suc i))) m2" "m1 c = xs ! i"
proof -
  have len: "length xs < 1024" and offc: "\<And>j. j \<le> length xs \<Longrightarrow> off_array av (buf + of_nat j)"
    using off by (simp_all add: line_off_def)
  have n: "n = length (starts_in xs i)" and chars: "\<And>j. j \<le> length xs \<Longrightarrow> m (buf + of_nat j) = cut_char xs i j"
    and slots: "\<And>k. k < 32 \<Longrightarrow> load64 m (slot av k) = (if k < n then buf + of_nat (starts_in xs i ! k) else 0)"
    and frame: "\<And>a. off_array av a \<Longrightarrow> length xs \<le> unat (a - buf) \<Longrightarrow> m a = m0 a"
    using inv by (auto simp: split_inv_def)
  have m1: "m1 a = m a" if "off_array av a" for a using that i(2) by (simp add: m1_def store_slot_off)
  have chars1: "m1 (buf + of_nat j) = cut_char xs i j" if "j \<le> length xs" for j using that chars m1 offc by simp
  then show "m1 c = xs ! i" using i by (simp add: c_def cut_char_def)
  have chars2: "m2 (buf + of_nat j) = cut_char xs (Suc i) j" if "j \<le> length xs" for j
    using that chars1 [OF that] buf_index [of j i buf] i len by (auto simp: m2_def c_def cut_char_def less_Suc_eq)
  have "load64 m2 (slot av k) = load64 m1 (slot av k)" if "k < 32" for k
    using that load_slot_upd [OF that] offc [of i] i by (simp add: m2_def c_def)
  moreover have "load64 m1 (slot av k) = (if gap xs i \<and> k = n then c + 1 else load64 m (slot av k))" if "k < 32" for k
    using that i(2) by (simp add: m1_def load_slot_store)
  ultimately have slots2: "load64 m2 (slot av k) =
      (if k < length (starts_in xs (Suc i)) then buf + of_nat (starts_in xs (Suc i) ! k) else 0)" if "k < 32" for k
    using that slots [OF that] by (auto simp: starts_in_Suc n nth_append c_def algebra_simps)
  have frame2: "m2 a = m0 a" if "off_array av a" "length xs \<le> unat (a - buf)" for a
  proof -
    have "a \<noteq> c" using that i len buf_index(2) [of i i buf] by (auto simp: c_def)
    then show ?thesis using frame [OF that] m1 [OF that(1)] by (simp add: m2_def)
  qed
  show "split_inv av buf xs m0 (Suc i) (length (starts_in xs (Suc i))) m2"
    unfolding split_inv_def using i chars2 slots2 frame2 by simp
qed

lemma split_loop_run:
  assumes "split_inv av buf xs m0 i n m" "line_off av buf xs" "n < 32"
  shows "\<exists>i' n' m'. split_loop av (buf + of_nat i) n m = Some (n', m') \<and> split_inv av buf xs m0 i' n' m' \<and>
    (n' < 32 \<and> i' = length xs \<or> n' = 32 \<and> i' = starts_in xs i' ! 31)"
  using assms
proof (induction "length xs - i" arbitrary: i n m)
  case 0
  then have i: "i = length xs" and "m (buf + of_nat i) = 0" by (simp_all add: split_inv_def cut_char_def)
  then have "split_loop av (buf + of_nat i) n m = Some (n, m)" by (subst split_loop.simps) simp
  then show ?case using 0 i by blast
next
  case (Suc d)
  then have i: "i < length xs" by simp
  have len: "length xs < 1024" "0 \<notin> set xs" using Suc.prems(2) by (simp_all add: line_off_def)
  have n: "n = length (starts_in xs i)" using Suc.prems(1) by (simp add: split_inv_def)
  have xi: "m (buf + of_nat i) = xs ! i" "xs ! i \<noteq> 0"
    using Suc.prems(1) i len(2) nth_mem [OF i] by (auto simp: split_inv_def cut_char_def simp del: nth_mem)
  have next_char: "m (buf + of_nat i + 1) = (if Suc i < length xs then xs ! Suc i else 0)"
    using Suc.prems(1) i by (auto simp: split_inv_def cut_char_def dest!: spec [of _ "Suc i"] simp: algebra_simps)
  have nx: "Suc i < length xs \<Longrightarrow> xs ! Suc i \<noteq> 0" using len(2) by (metis nth_mem)
  define m1 where "m1 = (if gap xs i then store64 m (slot av n) (buf + of_nat i + 1) else m)"
  define m2 where "m2 = (if xs ! i = 0x20 then m1(buf + of_nat i := 0) else m1)"
  note round = split_round [OF Suc.prems(1,2) i Suc.prems(3), folded m1_def m2_def, folded m2_def]
  have new: "(xs ! i = 0x20 \<and> m (buf + of_nat i + 1) \<noteq> 0x20 \<and> m (buf + of_nat i + 1) \<noteq> 0) = gap xs i"
    using next_char nx by (auto simp: gap_def)
  have n': "(if gap xs i then Suc n else n) = length (starts_in xs (Suc i))" by (simp add: starts_in_Suc n)
  have step: "split_loop av (buf + of_nat i) n m =
      (if length (starts_in xs (Suc i)) \<ge> 32 then Some (length (starts_in xs (Suc i)), m2)
       else split_loop av (buf + of_nat (Suc i)) (length (starts_in xs (Suc i))) m2)"
    unfolding split_loop.simps [of av "buf + of_nat i" n m] Let_def xi(1) new n' slot_def [symmetric] m1_def [symmetric] round(2)
      m2_def [symmetric] MAX_ARGS_def using xi(2) by (simp add: algebra_simps)
  show ?case
  proof (cases "length (starts_in xs (Suc i)) \<ge> 32")
    case True
    then have g: "gap xs i" "n = 31" using Suc.prems(3) n by (auto simp: starts_in_Suc split: if_splits)
    then have "starts_in xs (Suc i) ! 31 = Suc i" "length (starts_in xs (Suc i)) = 32" using n by (simp_all add: starts_in_Suc nth_append)
    then show ?thesis using step round(1) by auto
  next
    case False
    then show ?thesis using step Suc.hyps(1) [OF _ round(1) Suc.prems(2)] Suc.hyps(2) by simp
  qed
qed

lemma clear_args_run:
  assumes "n \<le> 32"
  shows "off_array av a \<Longrightarrow> fold (\<lambda>i m. store64 m (slot av i) 0) [0..<n] m a = m a"
    and "k < n \<Longrightarrow> load64 (fold (\<lambda>i m. store64 m (slot av i) 0) [0..<n] m) (slot av k) = 0"
  using assms by (induction n) (auto simp: store_slot_off load_slot_store less_Suc_eq)

text \<open>The loop starts in a state of the invariant.\<close>

lemma split_start:
  assumes "cstr (ptr buf) m xs" "line_off av buf xs"
  shows "split_inv av buf xs m 0 1 (store64 (clear_args av m) av buf)"
proof -
  have s0: "av = slot av 0" by (simp add: slot_def)
  define m1 where "m1 = clear_args av m"
  have c: "m1 = fold (\<lambda>i m. store64 m (slot av i) 0) [0..<32] m" by (simp add: m1_def clear_args_def slot_def MAX_ARGS_def)
  have off: "store64 m1 av buf a = m a" if "off_array av a" for a
    using clear_args_run(1) [of 32 av a m] that store_slot_off [of 0 av a m1 buf] s0 by (simp add: c)
  have "load64 (store64 m1 (slot av 0) buf) (slot av k) = (if k < 1 then buf else 0)" if "k < 32" for k
    using that clear_args_run(2) [of 32 k av m] by (simp add: load_slot_store c)
  moreover have "store64 m1 av buf (buf + of_nat j) = cut_char xs 0 j" if "j \<le> length xs" for j
    using that assms off by (auto simp: line_off_def cut_char_def cstr_def ptr_def)
  ultimately show ?thesis using off s0 by (auto simp: split_inv_def starts_in_def m1_def [symmetric])
qed

section \<open>The arguments as strings\<close>

text \<open>A start is the beginning of the line or follows a gap.\<close>

lemma starts_in_bound: "p \<in> set (starts_in xs i) \<Longrightarrow> i \<le> length xs \<Longrightarrow> p \<le> length xs"
  using starts_in_le le_trans by blast

text \<open>Before the point up to which the line is cut an argument is a word, at that point it is the rest of the line.\<close>

lemma cut_word:
  assumes chars: "\<And>j. j \<le> length xs \<Longrightarrow> m (buf + of_nat j) = cut_char xs i j" and xs: "0 \<notin> set xs"
    and p: "p \<le> length xs" and cut: "p + length (word_at xs p) < i \<or> i = length xs"
  shows "cstr (ptr (buf + of_nat p)) m (word_at xs p)"
proof -
  have le: "p + length (word_at xs p) \<le> length xs"
    using p length_takeWhile_le [of "\<lambda>c. c \<noteq> 0x20" "drop p xs"] by (simp add: word_at_def)
  have at: "ptr (buf + of_nat p) m k = cut_char xs i (p + k)" if "p + k \<le> length xs" for k
    using chars [OF that] by (simp add: ptr_def algebra_simps)
  have nth: "word_at xs p ! k = xs ! (p + k) \<and> xs ! (p + k) \<noteq> 0x20" if "k < length (word_at xs p)" for k
    using that nth_mem [of k "word_at xs p"] p takeWhile_nth [of k "\<lambda>c. c \<noteq> 0x20" "drop p xs"]
    by (auto simp: word_at_def dest!: set_takeWhileD)
  have nz: "xs ! j \<noteq> 0" if "j < length xs" for j using xs that by (metis nth_mem)
  have "xs ! (p + length (word_at xs p)) = 0x20" if "p + length (word_at xs p) < length xs"
    using that nth_length_takeWhile [of "\<lambda>c. c \<noteq> 0x20" "drop p xs"] p by (simp add: word_at_def)
  then have last: "cut_char xs i (p + length (word_at xs p)) = 0" using cut by (auto simp: cut_char_def)
  show ?thesis
    unfolding cstr_def using at nth nz last le by (auto simp: cut_char_def)
qed

lemma cut_rest:
  assumes chars: "\<And>j. j \<le> length xs \<Longrightarrow> m (buf + of_nat j) = cut_char xs i j" and xs: "0 \<notin> set xs" and i: "i \<le> length xs"
  shows "cstr (ptr (buf + of_nat i)) m (drop i xs)"
proof -
  have "ptr (buf + of_nat i) m k = cut_char xs i (i + k)" if "i + k \<le> length xs" for k
    using chars [OF that] by (simp add: ptr_def algebra_simps)
  moreover have "xs ! j \<noteq> 0" if "j < length xs" for j using xs that by (metis nth_mem)
  ultimately show ?thesis using i by (auto simp: cstr_def cut_char_def)
qed

text \<open>Every start but the last has its whole word before the last.\<close>

lemma word_before_start:
  assumes "k < k'" "k' < length (starts_in xs i)" "i \<le> length xs"
  shows "starts_in xs i ! k + length (word_at xs (starts_in xs i ! k)) < starts_in xs i ! k'"
proof -
  let ?p = "starts_in xs i ! k" and ?q = "starts_in xs i ! k'"
  have "sorted_wrt (<) (starts_in xs i)"
    by (simp add: starts_in_def sorted_wrt_map sorted_wrt_filter)
  then have pq: "?p < ?q" using assms by (simp add: sorted_wrt_iff_nth_less)
  have "?q \<in> set (starts_in xs i)" using assms(2) by simp
  then obtain j where j: "?q = Suc j" "gap xs j" "j < i" using pq by (auto simp: starts_in_def)
  have "\<not> j - ?p < length (word_at xs ?p)"
  proof
    assume "j - ?p < length (word_at xs ?p)"
    then have "drop ?p xs ! (j - ?p) \<noteq> 0x20"
      using nth_mem [of "j - ?p" "word_at xs ?p"] takeWhile_nth [of "j - ?p" "\<lambda>c. c \<noteq> 0x20" "drop ?p xs"]
      by (auto simp: word_at_def dest!: set_takeWhileD)
    then show False using j pq assms(3) by (simp add: gap_def)
  qed
  then show ?thesis using j(1) pq by simp
qed

section \<open>The property\<close>

text \<open>C40: The shell cuts every line of at most 1023 characters, and its loop ends: argument \<open>k\<close> is the
  \<open>k\<close>-th word of the line, terminated, the remaining slots are NULL, and no memory but the line and the array is
  written. With 32 words or more the array is full: it holds 32 pointers and no NULL, and the
  last argument is the rest of the line, spaces included.\<close>

theorem split_args_correct:
  assumes line: "cstr (ptr buf) m xs" and off: "line_off av buf xs"
  shows "\<exists>m'. split_args av buf m = Some (min MAX_ARGS (length (starts xs)), m') \<and>
    (\<forall>k < min MAX_ARGS (length (starts xs)). cstr (ptr (load64 m' (slot av k))) m'
      (if k < MAX_ARGS - 1 then word_at xs (starts xs ! k) else drop (starts xs ! k) xs)) \<and>
    (\<forall>k < MAX_ARGS. length (starts xs) \<le> k \<longrightarrow> load64 m' (slot av k) = 0) \<and>
    (\<forall>a. off_array av a \<longrightarrow> length xs \<le> unat (a - buf) \<longrightarrow> m' a = m a)"
proof -
  obtain i n m' where run: "split_loop av buf 1 (store64 (clear_args av m) av buf) = Some (n, m')"
    and inv: "split_inv av buf xs m i n m'" and stop: "n < 32 \<and> i = length xs \<or> n = 32 \<and> i = starts_in xs i ! 31"
    using split_loop_run [OF split_start [OF line off] off] by auto
  have i: "i \<le> length xs" and n: "n = length (starts_in xs i)" and xs: "0 \<notin> set xs"
    and chars: "\<And>j. j \<le> length xs \<Longrightarrow> m' (buf + of_nat j) = cut_char xs i j"
    using inv off by (simp_all add: split_inv_def line_off_def)
  have pre: "starts xs ! k = starts_in xs i ! k" if "k < n" for k
    using that n by (subst starts_in_prefix [OF i]) (simp add: nth_append)
  have count: "n = min 32 (length (starts xs))"
  proof (cases "n < 32")
    case True
    then show ?thesis using stop n by (simp add: starts_def)
  next
    case False
    then show ?thesis using stop n by (subst starts_in_prefix [OF i]) simp
  qed
  have slots: "load64 m' (slot av k) = (if k < n then buf + of_nat (starts xs ! k) else 0)" if "k < 32" for k
    using inv that pre by (simp add: split_inv_def)
  have "cstr (ptr (load64 m' (slot av k))) m' (if k < 31 then word_at xs (starts xs ! k) else drop (starts xs ! k) xs)"
    if "k < n" for k
  proof -
    have k: "k < 32" "starts xs ! k \<le> length xs" using that pre n i count starts_in_bound [of "starts_in xs i ! k" xs i] by auto
    show ?thesis
    proof (cases "k < 31")
      case True
      have "starts xs ! k + length (word_at xs (starts xs ! k)) < i \<or> i = length xs"
        using stop word_before_start [of k 31 xs i] True n i pre that by auto
      then show ?thesis using True slots [OF k(1)] that cut_word [OF chars xs k(2)] by simp
    next
      case False
      then have k31: "k = 31" using k by simp
      then have "starts xs ! k = i" using stop that n pre [OF that] by simp
      then show ?thesis using k31 slots [OF k(1)] that cut_rest [OF chars xs i] by simp
    qed
  qed
  moreover have "load64 m' (slot av k) = 0" if "k < 32" "length (starts xs) \<le> k" for k using slots that count by simp
  moreover have "m' a = m a" if "off_array av a" "length xs \<le> unat (a - buf)" for a using inv that by (simp add: split_inv_def)
  moreover have "split_args av buf m = Some (n, m')" using run by (simp add: split_args_def)
  ultimately show ?thesis unfolding MAX_ARGS_def count [symmetric] by (intro exI [of _ m']) simp
qed

text \<open>The line \<open>cat a.txt\<close>.\<close>

definition shell_line :: "u8 list" where "shell_line = map of_char ''cat a.txt''"

theorem split_args_correct_witness:
  "\<exists>m'. split_args 0x8000 0x4000 (\<lambda>a. if unat (a - 0x4000) < 9 then shell_line ! unat (a - 0x4000) else 0) = Some (2, m') \<and>
     cstr (ptr (load64 m' (slot 0x8000 1))) m' (map of_char ''a.txt'') \<and> load64 m' (slot 0x8000 2) = 0"
proof -
  let ?m = "\<lambda>a. if unat (a - 0x4000) < 9 then shell_line ! unat (a - 0x4000) else (0::u8)"
  have len: "length shell_line = 9" by (simp add: shell_line_def)
  have st: "starts shell_line = [0, 4]" by (simp add: starts_def starts_in_def gap_def shell_line_def upt_rec)
  have wd: "word_at shell_line 4 = map of_char ''a.txt''" by (simp add: word_at_def shell_line_def)
  have nz: "0 \<notin> set shell_line" by (simp add: shell_line_def)
  have u: "unat (of_nat j :: u64) = j" if "j \<le> 9" for j using that by (intro unat_of_nat_64) simp
  have "cstr (ptr 0x4000) ?m shell_line"
    unfolding cstr_def using u nz len nth_mem [of _ shell_line] by (simp add: ptr_def len) (metis nth_mem len)
  moreover have "line_off 0x8000 0x4000 shell_line"
  proof -
    have "off_array 0x8000 (0x4000 + of_nat j)" if "j \<le> 9" for j
    proof -
      have "unat (0x4000 + of_nat j :: u64) = 0x4000 + j"
        using unat_add_of_nat [of "0x4000" j] that by simp
      moreover have "\<not> unat (0x8000 :: u64) \<le> unat (0x4000 + of_nat j :: u64)" using calculation that by simp
      ultimately show ?thesis using that u [OF that] by (simp add: off_array_def unat_sub_if')
    qed
    then show ?thesis using nz len by (simp add: line_off_def)
  qed
  ultimately show ?thesis
    using split_args_correct [of "0x4000" ?m shell_line "0x8000"] by (auto simp: st MAX_ARGS_def wd)
qed

end
