(* ===== verification/Sky_Thread.thy ===== *)
theory Sky_Thread
  imports Sky_Loader Sky_Sched
begin

text \<open>
  What a new user thread looks like (src/kernel/thread.c): \<open>setup_user_thread\<close> builds, at the bottom of a fresh kernel stack,
  the two frames that the first context switch pops, so that the thread starts in \<open>jump_to_user\<close> and from there in user
  mode at the entry point of the program, on a user stack that is mapped.
\<close>

section \<open>Frames on a kernel stack\<close>

definition frame_kregs :: "isa \<Rightarrow> u64 \<Rightarrow> u64" where
  "frame_kregs arch pg = STACK_BOTTOM pg - REGS_SIZE arch - KREGS_SIZE arch"

definition frame_uregs :: "isa \<Rightarrow> u64 \<Rightarrow> u64" where
  "frame_uregs arch pg = STACK_BOTTOM pg - REGS_SIZE arch"

text \<open>An address outside the stack page is far from everything inside it.\<close>

lemma outside_far:
  assumes "\<not> in_page p a" "d \<le> 4096"
  shows "4096 - d \<le> unat (a - (p + of_nat d))"
proof -
  have far: "4096 \<le> unat (a - p)" using assms(1) by (simp add: in_page_def)
  have ud: "unat (of_nat d :: u64) = d" by (rule unat_of_nat_64) (use assms(2) in simp)
  have "a - (p + of_nat d) = (a - p) - of_nat d" by simp
  also have "unat \<dots> = unat (a - p) - d" using far assms(2) ud by (subst unat_sub) (simp_all add: word_le_nat_alt)
  finally show ?thesis using far by linarith
qed

lemma frame_offsets:
  "frame_uregs arch p = p + of_nat (4080 - unat (REGS_SIZE arch))"
  "frame_kregs arch p = p + of_nat (4080 - unat (REGS_SIZE arch) - unat (KREGS_SIZE arch))"
  "unat (REGS_SIZE arch) + unat (KREGS_SIZE arch) \<le> 400"
  by (cases arch; simp add: frame_uregs_def frame_kregs_def STACK_BOTTOM_def size_consts)+

lemma reg_at_far:
  assumes "len \<le> unat (a - r)" "8 * j + 8 \<le> len"
  shows "8 \<le> unat (a - reg_at r j)"
proof -
  have lt: "len < 2 ^ 64" using assms(1) unat_bound_64 [of "a - r"] by linarith
  have u: "unat (of_nat (8 * j) :: u64) = 8 * j" by (rule unat_of_nat_64) (use lt assms(2) in linarith)
  have "a - reg_at r j = (a - r) - of_nat (8 * j)" by (simp add: reg_at_def)
  also have "unat \<dots> = unat (a - r) - 8 * j" using assms u by (subst unat_sub) (simp_all add: word_le_nat_alt)
  finally show ?thesis using assms by linarith
qed

lemma init_user_regs_frame:
  assumes "unat (REGS_SIZE arch) \<le> unat (a - r)"
  shows "init_user_regs arch r pc sp m a = m a"
  using assms reg_at_far [OF assms]
  by (cases arch)
    (simp_all add: x86_init_user_regs_def arm_init_user_regs_def riscv_init_user_regs_def Let_def store64_other memset_apply reg_positions)

text \<open>The memory that \<open>setup_user_thread\<close> leaves in the stack page.\<close>

definition push_frames :: "isa \<Rightarrow> u64 \<Rightarrow> u64 \<Rightarrow> u64 \<Rightarrow> u64 \<Rightarrow> memory \<Rightarrow> memory" where
  "push_frames arch p ra pc sp m =
     store64 (init_user_regs arch (frame_uregs arch p) pc sp
       (memset (frame_kregs arch p) 0 (KREGS_SIZE arch) (memset (frame_uregs arch p) 0 (REGS_SIZE arch) m)))
       (reg_at (frame_kregs arch p) (kern_ra arch)) ra"

lemma push_frames_frame:
  assumes "\<not> in_page p a"
  shows "push_frames arch p ra pc sp m a = m a"
proof -
  let ?u = "frame_uregs arch p" and ?k = "frame_kregs arch p"
  have R: "unat (REGS_SIZE arch) \<le> unat (a - ?u)"
    using outside_far [OF assms, of "4080 - unat (REGS_SIZE arch)"] frame_offsets(3) [of arch] unfolding frame_offsets(1) by linarith
  have K: "unat (KREGS_SIZE arch) \<le> unat (a - ?k)"
    using outside_far [OF assms, of "4080 - unat (REGS_SIZE arch) - unat (KREGS_SIZE arch)"] frame_offsets(3) [of arch]
    unfolding frame_offsets(2) by linarith
  have "8 * kern_ra arch + 8 \<le> unat (KREGS_SIZE arch)" by (cases arch) simp_all
  then have "8 \<le> unat (a - reg_at ?k (kern_ra arch))" by (rule reg_at_far [OF K])
  then show ?thesis using R K by (simp add: push_frames_def store64_other init_user_regs_frame memset_apply)
qed

primrec kregs_words :: "isa \<Rightarrow> nat" where
  "kregs_words X86_64 = 7" | "kregs_words AARCH64 = 14" | "kregs_words RISCV64 = 13"

lemma uregs_at: "reg_at (frame_uregs arch p) j = reg_at (frame_kregs arch p) (kregs_words arch + j)"
  by (cases arch) (simp_all add: reg_at_def frame_uregs_def frame_kregs_def distrib_left)

lemma push_frames_load:
  assumes "j < 36"
  shows "load64 (push_frames arch p ra pc sp m) (reg_at (frame_uregs arch p) j) =
    load64 (init_user_regs arch (frame_uregs arch p) pc sp
       (memset (frame_kregs arch p) 0 (KREGS_SIZE arch) (memset (frame_uregs arch p) 0 (REGS_SIZE arch) m))) (reg_at (frame_uregs arch p) j)"
  unfolding push_frames_def uregs_at using assms by (cases arch) (simp_all add: load_store_reg)

lemma get_reg_mode_cong:
  assumes "\<And>j. j < 36 \<Longrightarrow> load64 m (reg_at r j) = load64 m' (reg_at r j)"
  shows "get_reg_mode arch r m = get_reg_mode arch r m'"
  using assms by (cases arch) (simp_all add: x86_get_reg_mode_def arm_get_reg_mode_def riscv_get_reg_mode_def reg_positions)

lemma user_context:
  "get_reg_mode arch r (init_user_regs arch r pc sp m) = Inr MODE_USER"
  "load64 (init_user_regs arch r pc sp m) (reg_at r (pc_reg arch)) = pc"
  "load64 (init_user_regs arch r pc sp m) (reg_at r (sp_reg arch)) = sp"
  by (cases arch; simp add: x86_get_reg_mode_def x86_init_user_regs_def arm_get_reg_mode_def arm_init_user_regs_def
      riscv_get_reg_mode_def riscv_init_user_regs_def Let_def reg_positions load_store_reg load_memset_reg user_mode_bits)+

text \<open>What the first switch to the thread finds in the frames.\<close>

lemma push_frames_context:
  "load64 (push_frames arch p ra pc sp m) (reg_at (frame_kregs arch p) (kern_ra arch)) = ra"
  "get_reg_mode arch (frame_uregs arch p) (push_frames arch p ra pc sp m) = Inr MODE_USER"
  "load64 (push_frames arch p ra pc sp m) (reg_at (frame_uregs arch p) (pc_reg arch)) = pc"
  "load64 (push_frames arch p ra pc sp m) (reg_at (frame_uregs arch p) (sp_reg arch)) = sp"
proof -
  show "load64 (push_frames arch p ra pc sp m) (reg_at (frame_kregs arch p) (kern_ra arch)) = ra" by (simp add: push_frames_def)
  show "get_reg_mode arch (frame_uregs arch p) (push_frames arch p ra pc sp m) = Inr MODE_USER"
    using get_reg_mode_cong [OF push_frames_load] user_context(1) by metis
  have "pc_reg arch < 36" "sp_reg arch < 36" by (cases arch; simp add: reg_positions)+
  then show "load64 (push_frames arch p ra pc sp m) (reg_at (frame_uregs arch p) (pc_reg arch)) = pc"
    "load64 (push_frames arch p ra pc sp m) (reg_at (frame_uregs arch p) (sp_reg arch)) = sp"
    by (simp_all add: push_frames_load user_context)
qed

section \<open>A new user thread\<close>

text \<open>The task afterwards: \<open>p\<close> is the page of its kernel stack.\<close>

definition user_task :: "isa \<Rightarrow> nat \<Rightarrow> u64 \<Rightarrow> task_t \<Rightarrow> task_t" where
  "user_task arch i p x = x\<lparr>thread := (thread x)\<lparr>kstack_pg := p, th_state := THREAD_READY, uregs := frame_uregs arch p, th_task := Some i,
     sleep_reason := None, saved_sp := frame_kregs arch p, trapdepth := 0\<rparr>, taskmode := MODE_USER\<rparr>"

lemma alloc_step:
  fixes s :: "'z kheap_state_scheme"
  assumes ok: "vm_ok ops root s" and free: "Suc n \<le> card (small_free s)"
  obtains p h where "alloc_page PAGE_SMALL s = Inr (p, s\<lparr>small_kheap := h\<rparr>)" "page_ok p" "p \<notin> small_used s"
    "p \<in> used_pages h" "vm_step ops root s (s\<lparr>small_kheap := h\<rparr>)" "n \<le> card (heap_pages h - used_pages h)"
proof -
  have wf: "wf_kheap s" using ok by (simp add: vm_ok_def)
  have "small_free s \<noteq> {}" using free by (metis card.empty not_less_eq_eq zero_le)
  from small_alloc [OF wf this] obtain p h where al: "alloc_page PAGE_SMALL s = Inr (p, s\<lparr>small_kheap := h\<rparr>)"
    and p: "p \<in> small_free s" "page_ok p" and h: "used_pages h = insert p (small_used s)"
      "heap_pages h = heap_pages (small_kheap s)" "wf_kheap (s\<lparr>small_kheap := h\<rparr>)" by metis
  have fin: "finite (small_free s)" using free card.infinite by fastforce
  have "heap_pages h - used_pages h = small_free s - {p}" using h by auto
  then have fr: "n \<le> card (heap_pages h - used_pages h)" using p(1) fin free by simp
  have "vm_step ops root s (s\<lparr>small_kheap := h\<rparr>)" using ok h by (auto simp: vm_step_def vm_ok_def)
  then show thesis using that [OF al p(2) _ _ _ fr] p(1) h(1) by blast
qed

text \<open>The parts of a page table depend on memory and the heaps only.\<close>

lemma vm_ok_other [simp]:
  "vm_ok ops root (s\<lparr>task_pool := tp\<rparr>) = vm_ok ops root s" "vm_ok ops root (s\<lparr>task_links := ks\<rparr>) = vm_ok ops root s"
  by (simp_all add: vm_ok_def wf_kheap_def)

lemma vm_step_tasks:
  fixes s t :: "'z task_state_scheme"
  assumes "vm_step ops root (s\<lparr>task_pool := tp, task_links := ks\<rparr>) t"
  shows "vm_step ops root s (s\<lparr>mem := mem t, small_kheap := small_kheap t\<rparr>)"
proof -
  have "large_kheap t = large_kheap s" using arg_cong [OF vm_stepD(2) [OF assms], of large_kheap] by simp
  then show ?thesis using assms by (simp add: vm_step_def vm_ok_def wf_kheap_def)
qed

lemma kbind_klift_Inr: "kbind (klift (Inr a)) f = f a"
  by (simp add: kbind_def klift_def kop_defs fun_eq_iff)

lemma default_stack_aligned: "is_aligned DEFAULT_USER_STACK PAGE_SMALL = Inr True"
  by (simp add: DEFAULT_USER_STACK_def IS_ALIGNED_SMALL_def size_consts)

lemma setup_user_thread_run:
  fixes s :: "'z task_state_scheme"
  assumes i: "i < length (task_pool s)" and ok: "vm_ok (isa_pte arch) (pagetable (task_pool s ! i)) s"
    and none: "vm_lookup (isa_pte arch) (pagetable (task_pool s ! i)) s DEFAULT_USER_STACK = None"
    and free: "5 \<le> card (small_free s)"
  obtains p q e t where "setup_user_thread arch ra (Some i) pc s =
      Inr ((), s\<lparr>mem := push_frames arch p ra pc (STACK_BOTTOM DEFAULT_USER_STACK) (mem t), small_kheap := small_kheap t,
        task_pool := (task_pool s)[i := user_task arch i p (task_pool s ! i)], task_links := list_init (TaskLink i) (task_links s)\<rparr>)"
    "vm_step (isa_pte arch) (pagetable (task_pool s ! i)) s t" "p \<noteq> q"
    "p \<in> small_used t - small_used s" "q \<in> small_used t - small_used s"
    "p \<notin> vm_tables (isa_pte arch) (pagetable (task_pool s ! i)) t" "q \<notin> vm_tables (isa_pte arch) (pagetable (task_pool s ! i)) t"
    "pte_get_phys (isa_pte arch) e = KERN_V2P q" "isa_user arch e"
    "\<And>va. vm_lookup (isa_pte arch) (pagetable (task_pool s ! i)) t va = (if same_page PAGE_SMALL DEFAULT_USER_STACK va then Some (e, 0)
       else vm_lookup (isa_pte arch) (pagetable (task_pool s ! i)) s va)"
    "card (small_free s) - 5 \<le> card (small_free t)"
proof -
  let ?ops = "isa_pte arch" and ?x = "task_pool s ! i" and ?root = "pagetable (task_pool s ! i)"
  have n1: "Suc (card (small_free s) - 1) \<le> card (small_free s)" using free by simp
  obtain p h1 where a1: "alloc_page PAGE_SMALL s = Inr (p, s\<lparr>small_kheap := h1\<rparr>)" "page_ok p" "p \<notin> small_used s" "p \<in> used_pages h1"
    and st1: "vm_step ?ops ?root s (s\<lparr>small_kheap := h1\<rparr>)" and fr1: "card (small_free s) - 1 \<le> card (heap_pages h1 - used_pages h1)"
    by (rule alloc_step [OF ok n1])
  define x1 where "x1 = ?x\<lparr>thread := (thread ?x)\<lparr>kstack_pg := p, th_state := THREAD_READY, uregs := 0, th_task := Some i,
     sleep_reason := None, saved_sp := STACK_BOTTOM p, trapdepth := 0\<rparr>, taskmode := MODE_USER\<rparr>"
  define r where "r = s\<lparr>small_kheap := h1, task_pool := (task_pool s)[i := x1], task_links := list_init (TaskLink i) (task_links s)\<rparr>"
  have okr: "vm_ok ?ops ?root r" using vm_stepD(1) [OF st1] by (simp add: r_def vm_ok_def wf_kheap_def)
  have n2: "Suc (card (small_free s) - 2) \<le> card (small_free r)" using fr1 free by (simp add: r_def)
  obtain q h2 where a2: "alloc_page PAGE_SMALL r = Inr (q, r\<lparr>small_kheap := h2\<rparr>)" "page_ok q" "q \<notin> small_used r" "q \<in> used_pages h2"
    and st2: "vm_step ?ops ?root r (r\<lparr>small_kheap := h2\<rparr>)" and fr2: "card (small_free s) - 2 \<le> card (heap_pages h2 - used_pages h2)"
    by (rule alloc_step [OF okr n2])
  define r2 where "r2 = r\<lparr>small_kheap := h2\<rparr>"
  have okr2: "vm_ok ?ops ?root r2" using vm_stepD(1) [OF st2] by (simp add: r2_def)
  have pre: "map_pre arch ?root DEFAULT_USER_STACK (KERN_V2P q) PAGE_SMALL MODE_USER r2"
    unfolding map_pre_def using okr2 default_stack_aligned isa.table_pa_fits [OF a2(2), of arch] fr2 none free
    by (auto simp: r2_def r_def pa_fits_def)
  obtain t e where mp: "map_page ?ops ?root DEFAULT_USER_STACK (KERN_V2P q) PAGE_SMALL MODE_USER r2 = Inr ((), t)"
    and e: "pte_get_phys ?ops e = KERN_V2P q" "isa_user arch e" and st3: "vm_step ?ops ?root r2 t" and fr3: "card (small_free r2) - 3 \<le> card (small_free t)"
    and lk: "\<And>va. vm_lookup ?ops ?root t va = (if same_page PAGE_SMALL DEFAULT_USER_STACK va then Some (e, 0) else vm_lookup ?ops ?root r2 va)"
    using isa_map_page [OF pre] by (auto simp: runs_def)
  define t' where "t' = s\<lparr>mem := mem t, small_kheap := small_kheap t\<rparr>"
  have teq: "t = r2\<lparr>mem := mem t, small_kheap := small_kheap t\<rparr>" by (rule vm_stepD(2) [OF st3])
  have st: "vm_step ?ops ?root s t'"
  proof -
    have "vm_step ?ops ?root r t" using vm_step_trans [OF st2 [folded r2_def] st3] .
    then have "vm_step ?ops ?root (s\<lparr>small_kheap := h1\<rparr>) t'" unfolding r_def using vm_step_tasks by (fastforce simp: t'_def)
    then show ?thesis by (rule vm_step_trans [OF st1])
  qed
  have used: "small_used s \<subseteq> used_pages h1" "used_pages h1 \<subseteq> used_pages h2" "used_pages h2 \<subseteq> small_used t"
    using vm_stepD(4) [OF st1] vm_stepD(4) [OF st2] vm_stepD(4) [OF st3] by (simp_all add: r_def r2_def)
  have tabs: "p' \<notin> vm_tables ?ops ?root t" if "p' \<in> used_pages h2" "p' \<notin> small_used s" for p'
  proof
    assume "p' \<in> vm_tables ?ops ?root t"
    then have "p' \<in> vm_tables ?ops ?root r2" using vm_stepD(5) [OF st3] that(1) by (auto simp: r2_def)
    then show False using that(2) ok by (auto simp: r2_def r_def vm_ok_def)
  qed
  have mapped: "is_page_mapped ?ops ?root DEFAULT_USER_STACK (mem s) = Inr False" using is_page_mapped_lookup [OF ok] none by simp
  have nz: "p \<noteq> 0" using a1(2) by (auto simp: page_ok_def kern_addr_iff KERNEL_LINK_ADDRESS_def)
  have run: "setup_user_thread arch ra (Some i) pc s =
      Inr ((), s\<lparr>mem := push_frames arch p ra pc (STACK_BOTTOM DEFAULT_USER_STACK) (mem t'), small_kheap := small_kheap t',
        task_pool := (task_pool s)[i := user_task arch i p (task_pool s ! i)], task_links := list_init (TaskLink i) (task_links s)\<rparr>)"
  proof -
    define b where "b = s\<lparr>small_kheap := h1, task_pool := (task_pool s)[i := ?x\<lparr>thread := thread x1\<rparr>],
        task_links := list_init (TaskLink i) (task_links s)\<rparr>"
    have blank: "setup_blank_thread (Some i) s = Inr ((), b)"
      using a1(1) nz i by (simp add: setup_blank_thread_def kop_simps upd_task_run upd_links_def x1_def b_def)
    have mode: "upd_task (Some i) (\<lambda>x. x\<lparr>taskmode := MODE_USER\<rparr>) b = Inr ((), r)"
      using i by (simp add: b_def upd_task_run r_def x1_def)
    have rp: "task_pool r = (task_pool s)[i := x1]" "mem r = mem s" "pagetable x1 = ?root" by (simp_all add: r_def x1_def)
    have tp: "task_pool t = (task_pool s)[i := x1]" using arg_cong [OF teq, of task_pool] rp by (simp add: r2_def)
    have ri: "get_task (Some i) r = Inr (x1, r)" using i rp by (simp add: get_task_run)
    define t2 where "t2 = t\<lparr>task_pool := (task_pool s)[i := x1\<lparr>thread := (thread x1)\<lparr>saved_sp := frame_kregs arch p\<rparr>\<rparr>],
      mem := memset (frame_kregs arch p) 0 (KREGS_SIZE arch) (memset (frame_uregs arch p) 0 (REGS_SIZE arch) (mem t))\<rparr>"
    have sp: "saved_sp (thread x1) - REGS_SIZE arch = frame_uregs arch p"
      "frame_uregs arch p - KREGS_SIZE arch = frame_kregs arch p" by (simp_all add: x1_def frame_uregs_def frame_kregs_def)
    have fin: "t2\<lparr>task_pool := (task_pool s)[i := x1\<lparr>thread := (thread x1)\<lparr>saved_sp := frame_kregs arch p, uregs := frame_uregs arch p\<rparr>\<rparr>],
        mem := push_frames arch p ra pc (STACK_BOTTOM DEFAULT_USER_STACK) (mem t)\<rparr> =
      s\<lparr>mem := push_frames arch p ra pc (STACK_BOTTOM DEFAULT_USER_STACK) (mem t'), small_kheap := small_kheap t',
        task_pool := (task_pool s)[i := user_task arch i p (task_pool s ! i)], task_links := list_init (TaskLink i) (task_links s)\<rparr>"
    proof -
      have ux: "x1\<lparr>thread := (thread x1)\<lparr>saved_sp := frame_kregs arch p, uregs := frame_uregs arch p\<rparr>\<rparr> = user_task arch i p ?x"
        by (cases ?x, cases "thread ?x") (simp add: x1_def user_task_def)
      obtain mt ht where "t = r2\<lparr>mem := mt, small_kheap := ht\<rparr>" using teq by blast
      then show ?thesis unfolding ux t2_def by (simp add: r2_def r_def t'_def)
    qed
    show ?thesis
      unfolding fin [symmetric]
      using blank mode a2(1) mp mapped i rp tp ri
      by (simp add: setup_user_thread_def kbind_klift_Inr kop_simps upd_task_run r2_def Let_def sp t2_def push_frames_def)
  qed
  show thesis
    by (rule that [OF run st]) (use a1 a2 used tabs e lk fr2 fr3 in \<open>auto simp: t'_def r_def r2_def\<close>)
qed

lemma frames_fit: "unat (frame_kregs arch p - p) + unat (KREGS_SIZE arch) + unat (REGS_SIZE arch) + 16 = 4096"
  by (cases arch) (simp_all add: frame_kregs_def STACK_BOTTOM_def size_consts)

text \<open>C10: \<open>setup_user_thread\<close> prepares a thread for its first context switch. With five free pages and no page at the user stack it
  returns; the thread is ready, belongs to its task and has a new page \<open>p\<close> as its kernel stack. Its saved stack pointer is that of a
  kernel frame whose return address is \<open>jump_to_user\<close>; above it is a user frame in user mode with the entry point as program counter and
  the bottom of the user stack as stack pointer; both frames fit into the page. The user stack is mapped for user mode to another new
  page, no other translation changes, neither page holds a table, and memory changes only in tables and new pages. At most five pages
  are taken and none is released, the list node of the thread is initialised again, and apart from memory, the small heap, this entry of
  the task pool and that list node the kernel's state is the same.\<close>

theorem setup_user_thread_correct:
  fixes s :: "'z task_state_scheme"
  assumes "i < length (task_pool s)" and "vm_ok (isa_pte arch) (pagetable (task_pool s ! i)) s"
    and "vm_lookup (isa_pte arch) (pagetable (task_pool s ! i)) s DEFAULT_USER_STACK = None"
    and "5 \<le> card (small_free s)"
  shows "runs (setup_user_thread arch jump_to_user (Some i) entry) s (\<lambda>_ s'.
    let root = pagetable (task_pool s ! i); x' = task_pool s' ! i; p = kstack_pg (thread x'); kregs = saved_sp (thread x'); ur = uregs (thread x') in
    task_pool s' = (task_pool s)[i := user_task arch i p (task_pool s ! i)] \<and> ur = kregs + KREGS_SIZE arch \<and>
    unat (kregs - p) + unat (KREGS_SIZE arch) + unat (REGS_SIZE arch) + 16 = 4096 \<and>
    load64 (mem s') (reg_at kregs (kern_ra arch)) = jump_to_user \<and> get_reg_mode arch ur (mem s') = Inr MODE_USER \<and>
    load64 (mem s') (reg_at ur (pc_reg arch)) = entry \<and> load64 (mem s') (reg_at ur (sp_reg arch)) = STACK_BOTTOM DEFAULT_USER_STACK \<and>
    vm_ok (isa_pte arch) root s' \<and>
    (\<exists>q e. p \<noteq> q \<and> {p, q} \<subseteq> small_used s' - small_used s - vm_tables (isa_pte arch) root s' \<and>
      pte_get_phys (isa_pte arch) e = KERN_V2P q \<and> isa_user arch e \<and>
      (\<forall>va. vm_lookup (isa_pte arch) root s' va = (if same_page PAGE_SMALL DEFAULT_USER_STACK va then Some (e, 0)
         else vm_lookup (isa_pte arch) root s va))) \<and>
    (\<forall>a. (\<forall>r \<in> vm_tables (isa_pte arch) root s \<union> (small_used s' - small_used s). \<not> in_page r a) \<longrightarrow> mem s' a = mem s a) \<and>
    small_used s \<subseteq> small_used s' \<and> heap_pages (small_kheap s') = heap_pages (small_kheap s) \<and>
    card (small_free s) - 5 \<le> card (small_free s') \<and> task_links s' = list_init (TaskLink i) (task_links s) \<and>
    s' = s\<lparr>mem := mem s', small_kheap := small_kheap s', task_pool := task_pool s', task_links := task_links s'\<rparr>)"
proof -
  let ?ops = "isa_pte arch" and ?x = "task_pool s ! i" and ?root = "pagetable (task_pool s ! i)"
  let ?sp = "STACK_BOTTOM DEFAULT_USER_STACK"
  obtain p q e t where run: "setup_user_thread arch jump_to_user (Some i) entry s =
      Inr ((), s\<lparr>mem := push_frames arch p jump_to_user entry ?sp (mem t), small_kheap := small_kheap t,
        task_pool := (task_pool s)[i := user_task arch i p ?x], task_links := list_init (TaskLink i) (task_links s)\<rparr>)"
    and st: "vm_step ?ops ?root s t" and pq: "p \<noteq> q" "p \<in> small_used t - small_used s" "q \<in> small_used t - small_used s"
      "p \<notin> vm_tables ?ops ?root t" "q \<notin> vm_tables ?ops ?root t"
    and e: "pte_get_phys ?ops e = KERN_V2P q" "isa_user arch e"
    and lk: "\<And>va. vm_lookup ?ops ?root t va = (if same_page PAGE_SMALL DEFAULT_USER_STACK va then Some (e, 0) else vm_lookup ?ops ?root s va)"
    and few: "card (small_free s) - 5 \<le> card (small_free t)"
    by (rule setup_user_thread_run [OF assms]) blast
  let ?m = "push_frames arch p jump_to_user entry ?sp (mem t)"
  define s' where "s' = s\<lparr>mem := ?m, small_kheap := small_kheap t,
        task_pool := (task_pool s)[i := user_task arch i p ?x], task_links := list_init (TaskLink i) (task_links s)\<rparr>"
  note sd = vm_stepD [OF st]
  have "p \<in> heap_pages (small_kheap t)" using pq(2) used_in_pages by blast
  then have pok: "page_ok p" using sd(1) by (intro small_page_ok [of t]) (simp_all add: vm_ok_def)
  note dw = data_write [OF sd(1) pok pq(4), of ?m, OF push_frames_frame]
  have large: "large_kheap t = large_kheap s" using arg_cong [OF sd(2), of large_kheap] by simp
  have ok': "vm_ok ?ops ?root s'" using dw(1) large by (simp add: s'_def vm_ok_def wf_kheap_def)
  have tabs: "vm_tables ?ops ?root s' = vm_tables ?ops ?root t" and lk': "vm_lookup ?ops ?root s' va = vm_lookup ?ops ?root t va" for va
    using dw(2,3) by (simp_all add: s'_def)
  have frame: "mem s' a = mem s a" if "\<forall>r \<in> vm_tables ?ops ?root s \<union> (small_used s' - small_used s). \<not> in_page r a" for a
  proof -
    have "\<not> in_page p a" using that pq(2) by (simp add: s'_def)
    then have "mem s' a = mem t a" by (simp add: s'_def push_frames_frame)
    also have "\<dots> = mem s a" by (rule sd(6)) (use that in \<open>simp add: s'_def\<close>)
    finally show ?thesis .
  qed
  have x': "task_pool s' ! i = user_task arch i p ?x" using assms(1) by (simp add: s'_def)
  have pages: "{p, q} \<subseteq> small_used s' - small_used s - vm_tables ?ops ?root s'" using pq tabs by (simp add: s'_def)
  have fields: "kstack_pg (thread (user_task arch i p ?x)) = p" "saved_sp (thread (user_task arch i p ?x)) = frame_kregs arch p"
    "uregs (thread (user_task arch i p ?x)) = frame_uregs arch p" by (simp_all add: user_task_def)
  have m': "mem s' = ?m" and tp: "task_pool s' = (task_pool s)[i := user_task arch i p ?x]" by (simp_all add: s'_def)
  have ex: "\<exists>q e. p \<noteq> q \<and> {p, q} \<subseteq> small_used s' - small_used s - vm_tables ?ops ?root s' \<and>
      pte_get_phys ?ops e = KERN_V2P q \<and> isa_user arch e \<and>
      (\<forall>va. vm_lookup ?ops ?root s' va = (if same_page PAGE_SMALL DEFAULT_USER_STACK va then Some (e, 0) else vm_lookup ?ops ?root s va))"
    using pq(1) pages e lk lk' by (intro exI [of _ q] exI [of _ e]) simp
  have heap: "small_used s \<subseteq> small_used s'" "heap_pages (small_kheap s') = heap_pages (small_kheap s)"
      "card (small_free s) - 5 \<le> card (small_free s')" "task_links s' = list_init (TaskLink i) (task_links s)"
      "s' = s\<lparr>mem := mem s', small_kheap := small_kheap s', task_pool := task_pool s', task_links := task_links s'\<rparr>"
    using sd(3,4) few by (simp_all add: s'_def)
  have ur: "frame_uregs arch p = frame_kregs arch p + KREGS_SIZE arch" by (simp add: frame_uregs_def frame_kregs_def)
  show ?thesis
    unfolding runs_def
  proof (intro exI conjI)
    show "setup_user_thread arch jump_to_user (Some i) entry s = Inr ((), s')" using run by (simp add: s'_def)
  qed (unfold Let_def x' fields, intro conjI, rule tp, rule ur, rule frames_fit, unfold m', (rule push_frames_context)+,
      fold m', rule ok', rule ex, use frame in blast, (rule heap)+)
qed

text \<open>The example system with the example page table in task 2.\<close>

definition thread_demo :: task_state where
  "thread_demo = (sched_demo 1)\<lparr>small_kheap := small_kheap vm_demo, large_kheap := large_kheap vm_demo,
     task_pool := demo_pool[2 := (demo_task 2 THREAD_STATE_NONE)\<lparr>pagetable := vm_demo_root\<rparr>]\<rparr>"

lemma thread_demo_simps [simp]:
  "mem thread_demo = mem vm_demo" "small_kheap thread_demo = small_kheap vm_demo" "large_kheap thread_demo = large_kheap vm_demo"
  "length (task_pool thread_demo) = 2048" "pagetable (task_pool thread_demo ! 2) = vm_demo_root"
  by (simp_all add: thread_demo_def sched_demo_def vm_demo_def kheap_demo_def)

theorem setup_user_thread_correct_witness:
  "runs (setup_user_thread RISCV64 0xFFFFFF0000200000 (Some 2) 0x400000) thread_demo (\<lambda>_ s'.
     th_state (thread (task_pool s' ! 2)) = THREAD_READY \<and>
     get_reg_mode RISCV64 (uregs (thread (task_pool s' ! 2))) (mem s') = Inr MODE_USER \<and>
     load64 (mem s') (reg_at (uregs (thread (task_pool s' ! 2))) (pc_reg RISCV64)) = 0x400000)"
proof -
  have i: "2 < length (task_pool thread_demo)" by simp
  have ok: "vm_ok (isa_pte RISCV64) (pagetable (task_pool thread_demo ! 2)) thread_demo"
    using vm_demo_ok [of RISCV64] by (simp add: vm_ok_def wf_kheap_def)
  have none: "vm_lookup (isa_pte RISCV64) (pagetable (task_pool thread_demo ! 2)) thread_demo DEFAULT_USER_STACK = None"
    using vm_demo_lookup [of RISCV64] by simp
  have free: "5 \<le> card (small_free thread_demo)" using vm_demo_free by simp
  show ?thesis
  proof (rule runs_mono [OF setup_user_thread_correct [OF i ok none free]], unfold Let_def, elim conjE, intro conjI)
    fix s' :: task_state
    assume "task_pool s' = (task_pool thread_demo)[2 := user_task RISCV64 2 (kstack_pg (thread (task_pool s' ! 2))) (task_pool thread_demo ! 2)]"
    then have "task_pool s' ! 2 = user_task RISCV64 2 (kstack_pg (thread (task_pool s' ! 2))) (task_pool thread_demo ! 2)"
      using i by (metis nth_list_update_eq)
    moreover have "th_state (thread (user_task RISCV64 2 p x)) = THREAD_READY" for p x by (simp add: user_task_def)
    ultimately show "th_state (thread (task_pool s' ! 2)) = THREAD_READY" by metis
  qed assumption+
qed

end
