(* ===== verification/Sky_Reclaim.thy ===== *)
theory Sky_Reclaim
  imports Sky_Loader
begin

text \<open>
  Giving a page table back (\<open>_free_pagetable_recursive\<close> and \<open>free_pagetable\<close> of src/kernel/vm.c). The pages that the
  recursion frees are listed in its order by \<open>pt_frees\<close>; on a page table that is a tree and maps no page twice the list
  has no duplicates and consists of the tables and of the pages behind the 4 KB mappings.
\<close>

section \<open>Freeing a list of pages\<close>

definition freed :: "u64 list \<Rightarrow> 'z kheap_state_scheme \<Rightarrow> 'z kheap_state_scheme \<Rightarrow> bool" where
  "freed ps s s' \<longleftrightarrow> wf_kheap s' \<and> small_used s' = small_used s - set ps \<and> s' = s\<lparr>small_kheap := small_kheap s'\<rparr>"

lemma freed_refl: "wf_kheap s \<Longrightarrow> freed [] s s"
  by (simp add: freed_def)

lemma freed_trans:
  assumes "freed ps s s'" and "freed qs s' s''"
  shows "freed (ps @ qs) s s''"
proof -
  have "s'' = s\<lparr>small_kheap := small_kheap s''\<rparr>"
    using assms unfolding freed_def by (metis kheap_state.surjective kheap_state.update_convs(1))
  then show ?thesis using assms by (auto simp: freed_def)
qed

lemma freed_mem:
  assumes "freed ps s s'"
  shows "mem s' = mem s"
proof -
  have "mem s' = mem (s\<lparr>small_kheap := small_kheap s'\<rparr>)" using assms unfolding freed_def by metis
  then show ?thesis by simp
qed

lemma free_small_page:
  assumes "wf_kheap s" and "p \<in> small_used s"
  shows "runs (free_page p PAGE_SMALL) s (\<lambda>_. freed [p] s)"
proof -
  have u: "p \<in> used_pages (heap_of PAGE_SMALL s)" using assms(2) by (simp add: heap_of_def)
  have run: "runs (free_page p PAGE_SMALL) s (\<lambda>_ s'. used_pages (heap_of PAGE_SMALL s') = used_pages (heap_of PAGE_SMALL s) - {p} \<and>
      heap_pages (heap_of PAGE_SMALL s') = heap_pages (heap_of PAGE_SMALL s) \<and> wf_kheap s')"
    by (rule free_page_contract [OF assms(1) _ u]) simp
  then obtain s' where s': "free_page p PAGE_SMALL s = Inr ((), s')" and w: "wf_kheap s'"
    and us: "used_pages (heap_of PAGE_SMALL s') = used_pages (heap_of PAGE_SMALL s) - {p}"
    unfolding runs_def by auto
  have "\<exists>i. s' = set_alloc_map PAGE_SMALL i False s"
    using s' free_page_run [OF assms(1), of PAGE_SMALL p] by (auto split: if_splits)
  then have "s' = s\<lparr>small_kheap := small_kheap s'\<rparr>" by (auto simp: set_alloc_map_def)
  then have "freed [p] s s'" using w us by (simp add: freed_def heap_of_def)
  then show ?thesis unfolding runs_def using s' by blast
qed

text \<open>A loop whose rounds each free a list of pages frees them all, when no page occurs twice.\<close>

lemma kfor_freed:
  assumes "wf_kheap s" and "set (concat (map g is)) \<subseteq> small_used s" and "distinct (concat (map g is))"
    and "\<And>i t. i \<in> set is \<Longrightarrow> wf_kheap t \<Longrightarrow> mem t = mem s \<Longrightarrow> set (g i) \<subseteq> small_used t \<Longrightarrow> distinct (g i) \<Longrightarrow>
      runs (f i) t (\<lambda>_. freed (g i) t)"
  shows "runs (kfor is f) s (\<lambda>_. freed (concat (map g is)) s)"
  using assms
proof (induction "is" arbitrary: s)
  case Nil
  then show ?case by (simp add: freed_refl)
next
  case (Cons i "is")
  have "runs (f i) s (\<lambda>_. freed (g i) s)" using Cons.prems by simp
  then have "runs (f i) s (\<lambda>_ t. runs (kfor is f) t (\<lambda>_. freed (concat (map g (i # is))) s))"
  proof (rule runs_mono)
    fix t assume fr: "freed (g i) s t"
    have "runs (kfor is f) t (\<lambda>_. freed (concat (map g is)) t)"
      by (rule Cons.IH) (use Cons.prems fr freed_mem [OF fr] in \<open>auto simp: freed_def\<close>)
    then show "runs (kfor is f) t (\<lambda>_. freed (concat (map g (i # is))) s)"
      by (rule runs_mono) (use freed_trans [OF fr] in simp)
  qed
  then show ?case by simp
qed

section \<open>The pages of a page table\<close>

primrec pt_frees :: "pte_ops \<Rightarrow> entries \<Rightarrow> nat \<Rightarrow> u64 \<Rightarrow> u64 list" where
  "pt_frees ops E 0 t =
     concat (map (\<lambda>i. if pte_is_valid ops (E t i) then [KERN_P2V (pte_get_phys ops (E t i))] else []) [0..<512]) @ [t]"
| "pt_frees ops E (Suc l) t =
     concat (map (\<lambda>i. case child_of ops (Suc l) (E t i) of None \<Rightarrow> [] | Some c \<Rightarrow> pt_frees ops E l c) [0..<512]) @ [t]"

text \<open>The loop over the entries of a table and then the table itself, which both levels of the recursion share.\<close>

lemma table_freed:
  fixes t :: u64
  assumes "wf_kheap s" and "set (concat (map g is) @ [t]) \<subseteq> small_used s" and "distinct (concat (map g is) @ [t])"
    and "\<And>i u. i \<in> set is \<Longrightarrow> wf_kheap u \<Longrightarrow> mem u = mem s \<Longrightarrow> set (g i) \<subseteq> small_used u \<Longrightarrow> distinct (g i) \<Longrightarrow>
      runs (f i) u (\<lambda>_. freed (g i) u)"
  shows "runs (kseq (kfor is f) (free_page t PAGE_SMALL)) s (\<lambda>_. freed (concat (map g is) @ [t]) s)"
proof -
  have "runs (kfor is f) s (\<lambda>_. freed (concat (map g is)) s)" by (rule kfor_freed) (use assms in auto)
  then have "runs (kfor is f) s (\<lambda>_ u. runs (free_page t PAGE_SMALL) u (\<lambda>_. freed (concat (map g is) @ [t]) s))"
  proof (rule runs_mono)
    fix u assume fr: "freed (concat (map g is)) s u"
    have "wf_kheap u" "t \<in> small_used u" using fr assms(2,3) by (auto simp: freed_def)
    then show "runs (free_page t PAGE_SMALL) u (\<lambda>_. freed (concat (map g is) @ [t]) s)"
      by (rule runs_mono [OF free_small_page]) (rule freed_trans [OF fr])
  qed
  then show ?thesis by simp
qed

lemma free_pagetable_recursive_runs:
  assumes "wf_kheap s" and "set (pt_frees ops (ent (mem s)) l t) \<subseteq> small_used s" and "distinct (pt_frees ops (ent (mem s)) l t)"
  shows "runs (free_pagetable_recursive ops l t) s (\<lambda>_. freed (pt_frees ops (ent (mem s)) l t) s)"
  using assms
proof (induction l arbitrary: t s)
  case 0
  show ?case
    unfolding free_pagetable_recursive.simps pt_frees.simps NUM_PT_ENTRIES_eq
  proof (rule table_freed [OF 0(1) 0(2,3) [unfolded pt_frees.simps]])
    fix i and u :: "'a kheap_state_scheme"
    let ?e = "ent (mem s) t i"
    assume "wf_kheap u" and m: "mem u = mem s" and "set (if pte_is_valid ops ?e then [KERN_P2V (pte_get_phys ops ?e)] else []) \<subseteq> small_used u"
    then show "runs (kbind (kgets (\<lambda>s. load64 (mem s) (pte_addr t i))) (\<lambda>e. kwhen (pte_is_valid ops e)
        (free_page (KERN_P2V (pte_get_phys ops e)) PAGE_SMALL))) u
        (\<lambda>_. freed (if pte_is_valid ops ?e then [KERN_P2V (pte_get_phys ops ?e)] else []) u)"
      using free_small_page [of u] by (auto simp: freed_refl ent_def kwhen_def)
  qed
next
  case (Suc l)
  show ?case
    unfolding free_pagetable_recursive.simps pt_frees.simps NUM_PT_ENTRIES_eq
  proof (rule table_freed [OF Suc(2) Suc(3,4) [unfolded pt_frees.simps]])
    fix i and u :: "'a kheap_state_scheme"
    let ?e = "ent (mem s) t i"
    let ?g = "case child_of ops (Suc l) ?e of None \<Rightarrow> [] | Some c \<Rightarrow> pt_frees ops (ent (mem s)) l c"
    assume "wf_kheap u" and m: "mem u = mem s" and "set ?g \<subseteq> small_used u" "distinct ?g"
    then show "runs (kbind (kgets (\<lambda>s. load64 (mem s) (pte_addr t i))) (\<lambda>e. kwhen (pte_is_valid ops e \<and> \<not> pte_is_leaf ops e (Suc l))
        (free_pagetable_recursive ops l (KERN_P2V (pte_get_phys ops e))))) u (\<lambda>_. freed ?g u)"
      using Suc.IH [of u] by (auto simp: freed_refl ent_def [symmetric] child_of_def kwhen_def)
  qed
qed

section \<open>Which pages these are\<close>

text \<open>The page behind a 4 KB mapping, as the address in the linear map of the kernel.\<close>

definition backs :: "pte_ops \<Rightarrow> entries \<Rightarrow> nat \<Rightarrow> u64 \<Rightarrow> u64 \<Rightarrow> u64 \<Rightarrow> bool" where
  "backs ops E l t va p \<longleftrightarrow> (\<exists>e. pt_lookup ops E l t va = Some (e, 0) \<and> p = KERN_P2V (pte_get_phys ops e))"

text \<open>Every entry of a table is on the walk of an address, with the lower part of the walk as one likes.\<close>

lemma index_exists:
  assumes "i < 512" and "l \<le> 3"
  shows "\<exists>va'. get_pt_index va' l = i \<and> (\<forall>j < l. get_pt_index va' j = get_pt_index va j)"
proof -
  define va' where "va' = (take_bit (12 + 9 * l) va OR push_bit (12 + 9 * l) (of_nat i) :: u64)"
  have "take_bit 9 (drop_bit (12 + 9 * l) va') = of_nat i"
  proof (rule bit_word_eqI)
    fix n assume n: "n < LENGTH(64)"
    have "take_bit 9 i = i" by (rule take_bit_nat_eq_self) (use assms(1) in simp)
    then have "bit i n \<Longrightarrow> n < 9" using bit_take_bit_iff [of 9 i n] by simp
    then show "bit (take_bit 9 (drop_bit (12 + 9 * l) va')) n = bit (of_nat i :: u64) n"
      using n assms(2) by (auto simp: va'_def bit_simps)
  qed
  then have "get_pt_index va' l = i"
    using assms(1) by (simp add: unat_of_nat take_bit_nat_eq_self get_pt_index_def PAGE_OFFSET_BITS_def PAGE_BITS_PER_LEVEL_def MASK_eq_mask flip: take_bit_eq_mask)
  moreover have "get_pt_index va' j = get_pt_index va j" if "j < l" for j
    unfolding get_pt_index_eq using that assms(2) by (auto simp: va'_def bit_simps)
  ultimately show ?thesis by blast
qed

lemma lookup_cong: "(\<And>j. j \<le> l \<Longrightarrow> get_pt_index va j = get_pt_index va' j) \<Longrightarrow> pt_lookup ops E l t va = pt_lookup ops E l t va'"
  by (induction l arbitrary: t) (simp_all add: Let_def)

lemma backs_child:
  assumes "child_of ops (Suc l) (E t i) = Some c" and "i < 512" and "Suc l \<le> 3" and "backs ops E l c va p"
  obtains va' where "backs ops E (Suc l) t va' p" and "get_pt_index va' (Suc l) = i" and "same_path 0 l va va'"
proof -
  obtain va' where i: "get_pt_index va' (Suc l) = i" and lo: "\<forall>j < Suc l. get_pt_index va' j = get_pt_index va j"
    using index_exists [OF assms(2,3)] by blast
  have "pt_lookup ops E l c va' = pt_lookup ops E l c va" by (rule lookup_cong) (use lo in simp)
  then have "backs ops E (Suc l) t va' p"
    using assms(1,4) i by (auto simp: backs_def child_of_def Let_def split: if_splits)
  then show thesis using that i lo by (auto simp: same_path_def)
qed

lemma pt_frees_set:
  assumes "l \<le> 3"
  shows "set (pt_frees ops E l t) = pt_tables ops E l t \<union> {p. \<exists>va. backs ops E l t va p}"
  using assms
proof (induction l arbitrary: t)
  case 0
  have "(\<exists>va. backs ops E 0 t va p) \<longleftrightarrow> (\<exists>i < 512. pte_is_valid ops (E t i) \<and> p = KERN_P2V (pte_get_phys ops (E t i)))" for p
    using index_exists [of _ 0] get_pt_index_lt by (auto simp: backs_def Let_def)
  then show ?case by (auto split: if_splits)
next
  case (Suc l)
  have "(\<exists>va. backs ops E (Suc l) t va p) \<longleftrightarrow> (\<exists>i < 512. \<exists>c va. child_of ops (Suc l) (E t i) = Some c \<and> backs ops E l c va p)" for p
  proof
    assume "\<exists>va. backs ops E (Suc l) t va p"
    then obtain va where "backs ops E (Suc l) t va p" ..
    then show "\<exists>i < 512. \<exists>c va. child_of ops (Suc l) (E t i) = Some c \<and> backs ops E l c va p"
      by (intro exI [of _ "get_pt_index va (Suc l)"]) (auto simp: get_pt_index_lt backs_def child_of_def Let_def split: if_splits)
  qed (use Suc.prems backs_child in blast)
  moreover have "set (pt_frees ops E (Suc l) t) = insert t (\<Union>i < 512. case child_of ops (Suc l) (E t i) of None \<Rightarrow> {}
      | Some c \<Rightarrow> pt_tables ops E l c \<union> {p. \<exists>va. backs ops E l c va p})"
    using Suc by (auto split: option.splits)
  ultimately show ?case by (auto split: option.splits)
qed

lemma distinct_concat_upt:
  assumes "\<And>i. i < n \<Longrightarrow> distinct (g i)" and "\<And>i j. i < n \<Longrightarrow> j < n \<Longrightarrow> i \<noteq> j \<Longrightarrow> set (g i) \<inter> set (g j) = {}"
  shows "distinct (concat (map g [0..<n]))"
  using assms
proof (induction n)
  case 0
  then show ?case by simp
next
  case (Suc n)
  have "x \<notin> set (g i)" if "i < n" "x \<in> set (g n)" for i x using Suc.prems(2) [of i n] that by auto
  then show ?case using Suc by (auto simp: less_Suc_eq)
qed

text \<open>A page table that is a tree, maps no page twice and maps none of its own tables frees every page once.\<close>

lemma pt_frees_distinct:
  assumes "l \<le> 3" and "pt_wf ops E l t"
    and "\<And>va p. backs ops E l t va p \<Longrightarrow> p \<notin> pt_tables ops E l t"
    and "\<And>va va' p. backs ops E l t va p \<Longrightarrow> backs ops E l t va' p \<Longrightarrow> same_path 0 l va va'"
  shows "distinct (pt_frees ops E l t)"
  using assms
proof (induction l arbitrary: t)
  case 0
  have "i = j" if ij: "i < 512" "j < 512" and "pte_is_valid ops (E t i)" "pte_is_valid ops (E t j)"
    "KERN_P2V (pte_get_phys ops (E t i)) = KERN_P2V (pte_get_phys ops (E t j))" for i j
  proof -
    obtain va va' where "get_pt_index va 0 = i" "get_pt_index va' 0 = j" using index_exists ij by (metis le0)
    then show ?thesis using 0(4) [of va _ va'] that by (auto simp: backs_def same_path_def Let_def)
  qed
  then have "distinct (concat (map (\<lambda>i. if pte_is_valid ops (E t i) then [KERN_P2V (pte_get_phys ops (E t i))] else []) [0..<512]))"
    by (intro distinct_concat_upt) auto
  moreover have "t \<noteq> KERN_P2V (pte_get_phys ops (E t i))" if i: "i < 512" and "pte_is_valid ops (E t i)" for i
  proof -
    obtain va where "get_pt_index va 0 = i" using index_exists i by (metis le0)
    then show ?thesis using 0(3) [of va] that by (auto simp: backs_def Let_def)
  qed
  ultimately show ?case by (auto split: if_splits)
next
  case (Suc l)
  let ?g = "\<lambda>i. case child_of ops (Suc l) (E t i) of None \<Rightarrow> [] | Some c \<Rightarrow> pt_frees ops E l c"
  have child: "set (pt_frees ops E l c) = pt_tables ops E l c \<union> {p. \<exists>va. backs ops E l c va p}" for c
    using pt_frees_set Suc.prems(1) by simp
  have up: "p \<notin> pt_tables ops E (Suc l) t" if "i < 512" "child_of ops (Suc l) (E t i) = Some c" "backs ops E l c va p" for i c va p
    using backs_child [OF that(2,1) Suc.prems(1) that(3)] Suc.prems(3) by blast
  have sub: "pt_tables ops E l c \<subseteq> pt_tables ops E (Suc l) t" if "i < 512" "child_of ops (Suc l) (E t i) = Some c" for i c
    using that by (rule pt_tables_child)
  have same: "i = j \<and> same_path 0 l va va'" if i: "i < 512" "child_of ops (Suc l) (E t i) = Some c" "backs ops E l c va p"
    and j: "j < 512" "child_of ops (Suc l) (E t j) = Some d" "backs ops E l d va' p" for i j c d va va' p
  proof -
    obtain w where w: "backs ops E (Suc l) t w p" "get_pt_index w (Suc l) = i" "same_path 0 l va w"
      using backs_child [OF i(2,1) Suc.prems(1) i(3)] .
    obtain w' where w': "backs ops E (Suc l) t w' p" "get_pt_index w' (Suc l) = j" "same_path 0 l va' w'"
      using backs_child [OF j(2,1) Suc.prems(1) j(3)] .
    show ?thesis using Suc.prems(4) [OF w(1) w'(1)] w w' by (auto simp: same_path_def)
  qed
  have "distinct (concat (map ?g [0..<512]))"
  proof (rule distinct_concat_upt)
    fix i :: nat assume i: "i < 512"
    have "distinct (pt_frees ops E l c)" if c: "child_of ops (Suc l) (E t i) = Some c" for c
    proof (rule Suc.IH)
      show "l \<le> 3" using Suc.prems(1) by simp
      show "pt_wf ops E l c" by (rule pt_wf_child(1) [OF Suc.prems(2) i c])
      show "p \<notin> pt_tables ops E l c" if "backs ops E l c va p" for va p using up [OF i c that] sub [OF i c] by blast
      show "same_path 0 l va va'" if "backs ops E l c va p" "backs ops E l c va' p" for va va' p
        using same [OF i c that(1) i c that(2)] by simp
    qed
    then show "distinct (?g i)" by (simp split: option.split)
    fix j :: nat assume j: "j < 512" "i \<noteq> j"
    have "set (pt_frees ops E l c) \<inter> set (pt_frees ops E l d) = {}"
      if c: "child_of ops (Suc l) (E t i) = Some c" and d: "child_of ops (Suc l) (E t j) = Some d" for c d
      unfolding child using pt_wf_disjoint [OF Suc.prems(2) i j(1,2) c d] same [OF i c _ j(1) d] j(2)
        up [OF i c] up [OF j(1) d] sub [OF i c] sub [OF j(1) d] by blast
    then show "set (?g i) \<inter> set (?g j) = {}"
      by (cases "child_of ops (Suc l) (E t i)"; cases "child_of ops (Suc l) (E t j)") simp_all
  qed
  moreover have "t \<notin> set (?g i)" if "i < 512" for i
    using pt_wf_child(2) [OF Suc.prems(2) that] up [OF that, of _ _ t] pt_tables_self [of t ops E "Suc l"]
    by (cases "child_of ops (Suc l) (E t i)") (simp_all add: child del: pt_tables.simps, blast)
  ultimately show ?case by auto
qed

section \<open>Giving back a page table\<close>

abbreviation vm_backs :: "pte_ops \<Rightarrow> u64 \<Rightarrow> 'z kheap_state_scheme \<Rightarrow> u64 \<Rightarrow> u64 \<Rightarrow> bool" where
  "vm_backs ops root s \<equiv> backs ops (ent (mem s)) 3 root"

lemma free_pagetable_runs:
  assumes "vm_ok (isa_pte arch) root s"
    and "\<And>va p. vm_backs (isa_pte arch) root s va p \<Longrightarrow> p \<in> small_used s - vm_tables (isa_pte arch) root s"
    and "\<And>va va' p. vm_backs (isa_pte arch) root s va p \<Longrightarrow> vm_backs (isa_pte arch) root s va' p \<Longrightarrow> same_page PAGE_SMALL va va'"
  shows "runs (free_pagetable (isa_pte arch) root) s (\<lambda>_ s'. wf_kheap s' \<and> s' = s\<lparr>small_kheap := small_kheap s'\<rparr> \<and>
    small_used s' = small_used s - vm_tables (isa_pte arch) root s - {p. \<exists>va. vm_backs (isa_pte arch) root s va p})"
proof -
  let ?ops = "isa_pte arch" and ?E = "ent (mem s)"
  have three: "page_size_to_level N_PAGETABLE_LEVELS - 1 = 3" by simp
  have set: "set (pt_frees ?ops ?E 3 root) = vm_tables ?ops root s \<union> {p. \<exists>va. vm_backs ?ops root s va p}"
    by (rule pt_frees_set) simp
  have "distinct (pt_frees ?ops ?E 3 root)"
  proof (rule pt_frees_distinct)
    show "pt_wf ?ops ?E 3 root" using assms(1) by (simp add: vm_ok_def)
    show "p \<notin> vm_tables ?ops root s" if "vm_backs ?ops root s va p" for va p using assms(2) [OF that] by simp
    show "same_path 0 3 va va'" if "vm_backs ?ops root s va p" "vm_backs ?ops root s va' p" for va va' p
      using assms(3) [OF that] same_page_path [of PAGE_SMALL va va'] by simp
  qed simp
  then have "runs (free_pagetable_recursive ?ops 3 root) s (\<lambda>_. freed (pt_frees ?ops ?E 3 root) s)"
    by (intro free_pagetable_recursive_runs) (use assms(1) assms(2) set in \<open>auto simp: vm_ok_def\<close>)
  then show ?thesis
    unfolding free_pagetable_def three by (rule runs_mono) (auto simp: freed_def set)
qed

text \<open>C11: \<open>free_pagetable\<close> gives back a page table. When the table is well formed, the page behind every 4 KB mapping is in use and
  is not one of its tables, and no page is mapped at two places, it returns without a panic: released are exactly the tables and the
  pages behind 4 KB mappings, each once; pages behind larger mappings, memory and everything else stay as they are.\<close>

theorem free_pagetable_correct:
  assumes "vm_ok (isa_pte arch) root s"
    and "\<forall>va p. vm_backs (isa_pte arch) root s va p \<longrightarrow> p \<in> small_used s - vm_tables (isa_pte arch) root s"
    and "\<forall>va va' p. vm_backs (isa_pte arch) root s va p \<and> vm_backs (isa_pte arch) root s va' p \<longrightarrow> same_page PAGE_SMALL va va'"
  shows "runs (free_pagetable (isa_pte arch) root) s (\<lambda>_ s'. wf_kheap s' \<and> s' = s\<lparr>small_kheap := small_kheap s'\<rparr> \<and>
    small_used s' = small_used s - vm_tables (isa_pte arch) root s - {p. \<exists>va. vm_backs (isa_pte arch) root s va p})"
  using assms by (intro free_pagetable_runs) (blast | metis)+

theorem free_pagetable_correct_witness:
  "runs (kseq (load_seg_page (isa_pte AARCH64) vm_demo_root 0 demo_seg 0) (free_pagetable (isa_pte AARCH64) vm_demo_root)) loader_demo
     (\<lambda>_ s'. wf_kheap s' \<and> vm_demo_root \<notin> small_used s')"
proof -
  let ?ops = "isa_pte AARCH64" and ?va = "0x400000 :: u64" and ?f = "([0x61], [0x68, 0x69]) :: tfile"
  have al: "IS_ALIGNED_SMALL (p_vaddr demo_seg)" using demo_aligned by (simp add: demo_seg_def)
  have "runs (load_seg_page ?ops vm_demo_root 0 demo_seg 0) loader_demo (\<lambda>_ s'. vm_step ?ops vm_demo_root loader_demo s' \<and>
      card (small_free loader_demo) - 4 \<le> card (small_free s') \<and>
      (\<exists>p e. page_loaded AARCH64 vm_demo_root ?f (unat (p_offset demo_seg + SMALL_PAGE_SIZE * of_nat 0)) (p_vaddr demo_seg) p e loader_demo s'))"
  proof (rule load_seg_page_runs [OF loader_demo_ok loader_demo_file _ al])
    show "k = 0" if "vm_lookup ?ops vm_demo_root loader_demo (p_vaddr demo_seg) = Some (e, k)" for e k
      using that unfolding loader_demo_lookup by simp
  qed (use vm_demo_free in simp_all)
  then have "runs (load_seg_page ?ops vm_demo_root 0 demo_seg 0) loader_demo (\<lambda>_ t. runs (free_pagetable ?ops vm_demo_root) t
      (\<lambda>_ s'. wf_kheap s' \<and> vm_demo_root \<notin> small_used s'))"
  proof (rule runs_mono)
    fix t assume "vm_step ?ops vm_demo_root loader_demo t \<and> card (small_free loader_demo) - 4 \<le> card (small_free t) \<and>
      (\<exists>p e. page_loaded AARCH64 vm_demo_root ?f (unat (p_offset demo_seg + SMALL_PAGE_SIZE * of_nat 0)) (p_vaddr demo_seg) p e loader_demo t)"
    then obtain p e where ok: "vm_ok ?ops vm_demo_root t"
      and p: "p \<in> small_used t" "p \<notin> vm_tables ?ops vm_demo_root t" "pte_get_phys ?ops e = KERN_V2P p"
      and lk: "\<And>va'. vm_lookup ?ops vm_demo_root t va' = (if same_page PAGE_SMALL (p_vaddr demo_seg) va' then Some (e, 0) else None)"
      unfolding page_loaded_def loader_demo_lookup vm_step_def by blast
    have "p \<in> heap_pages (small_kheap t)" using p(1) used_in_pages by blast
    then have pok: "page_ok p" using ok by (intro small_page_ok [of t]) (simp_all add: vm_ok_def)
    have b: "vm_backs ?ops vm_demo_root t va q \<longleftrightarrow> same_page PAGE_SMALL (p_vaddr demo_seg) va \<and> q = p" for va q
      using kern_addr_back [of p] pok by (simp add: backs_def lk p(3) page_ok_def)
    show "runs (free_pagetable ?ops vm_demo_root) t (\<lambda>_ s'. wf_kheap s' \<and> vm_demo_root \<notin> small_used s')"
      by (rule runs_mono [OF free_pagetable_correct [OF ok]]) (use p(1,2) in \<open>auto simp: b same_page_def\<close>)
  qed
  then show ?thesis by simp
qed

end
