(* ===== verification/Sky_Release.thy ===== *)
theory Sky_Release
  imports Sky_Reclaim Sky_Fds Sky_Sched
begin

text \<open>
  Freeing a task (\<open>free_task\<close> of src/kernel/task.c): its descriptors are closed, the kernel's mappings removed, its page table, its
  pages and its kernel stack given back, and its children become orphans.
\<close>

section \<open>Removing the kernel's mappings\<close>

lemma reach_cong: "(\<And>j. j \<le> l \<Longrightarrow> get_pt_index va j = get_pt_index va' j) \<Longrightarrow> pt_reach ops E l t va k q = pt_reach ops E l t va' k q"
  by (induction l arbitrary: t) (simp_all split: option.split)

text \<open>Every table is on the walk of some address.\<close>

lemma table_reached: "l \<le> 3 \<Longrightarrow> q \<in> pt_tables ops E l t \<Longrightarrow> \<exists>va k. pt_reach ops E l t va k q"
proof (induction l arbitrary: t)
  case 0
  then show ?case by simp
next
  case (Suc l)
  from Suc.prems(2) show ?case
  proof (rule pt_tablesE)
    assume "q = t"
    then show ?thesis by (metis pt_reach_refl)
  next
    fix i c assume c: "i < 512" "child_of ops (Suc l) (E t i) = Some c" "q \<in> pt_tables ops E l c"
    then obtain va k where r: "pt_reach ops E l c va k q" using Suc by (meson Suc_leD)
    obtain va' where i: "get_pt_index va' (Suc l) = i" and "\<forall>j < Suc l. get_pt_index va' j = get_pt_index va j"
      using index_exists [OF c(1) Suc.prems(1)] by blast
    then have "pt_reach ops E l c va' k q" using r reach_cong [of l va' va] by (metis le_imp_less_Suc)
    then show ?thesis using c(2) i pt_reach_level [OF r] by (intro exI [of _ va'] exI [of _ k]) auto
  qed
qed

text \<open>No 4 KB page is mapped in the three linear maps of the kernel.\<close>

definition no_small :: "pte_ops \<Rightarrow> u64 \<Rightarrow> 'z kheap_state_scheme \<Rightarrow> bool" where
  "no_small ops root s \<longleftrightarrow> (\<forall>i < NUM_PT_ENTRIES. \<forall>m \<in> {KERNEL_LINK_ADDRESS, KERNEL_DEVICE_MAP, WRITE_COMB_MAP}. \<forall>e.
     vm_lookup ops root s (m + of_nat i * GIANT_PAGE_SIZE) \<noteq> Some (e, 0))"

text \<open>What removing larger mappings leaves.\<close>

definition same_small :: "pte_ops \<Rightarrow> u64 \<Rightarrow> 'z kheap_state_scheme \<Rightarrow> 'z kheap_state_scheme \<Rightarrow> bool" where
  "same_small ops root s s' \<longleftrightarrow> vm_ok ops root s' \<and> s' = s\<lparr>mem := mem s'\<rparr> \<and> vm_tables ops root s' = vm_tables ops root s \<and>
     (\<forall>va. vm_lookup ops root s' va = vm_lookup ops root s va \<or> vm_lookup ops root s' va = None) \<and>
     (\<forall>va e. vm_lookup ops root s va = Some (e, 0) \<longrightarrow> vm_lookup ops root s' va = Some (e, 0))"

lemma same_small_refl: "vm_ok ops root s \<Longrightarrow> same_small ops root s s"
  by (simp add: same_small_def)

lemma same_small_trans:
  assumes "same_small ops root s s'" and "same_small ops root s' s''"
  shows "same_small ops root s s''"
proof -
  have "s'' = s\<lparr>mem := mem s''\<rparr>"
    using assms unfolding same_small_def by (metis machine.surjective machine.update_convs(1))
  then show ?thesis using assms unfolding same_small_def by metis
qed

lemma same_small_backs: "same_small ops root s s' \<Longrightarrow> vm_backs ops root s' va p = vm_backs ops root s va p"
  unfolding backs_def same_small_def by (metis option.distinct(1))

lemma unmap_same_small:
  assumes ok: "vm_ok (isa_pte arch) root s" and big: "\<And>e. vm_lookup (isa_pte arch) root s va \<noteq> Some (e, 0)"
  shows "runs (unmap_page (isa_pte arch) root va) s (\<lambda>_. same_small (isa_pte arch) root s)"
proof (rule runs_mono [OF isa.unmap_page_runs [OF ok]])
  let ?ops = "isa_pte arch"
  fix s' assume a: "vm_step ?ops root s s' \<and> small_kheap s' = small_kheap s \<and>
      (\<forall>va' k' q'. vm_reach ?ops root s va' k' q' \<longrightarrow> vm_reach ?ops root s' va' k' q') \<and>
      (\<forall>va'. vm_lookup ?ops root s' va' = (case vm_lookup ?ops root s va of None \<Rightarrow> vm_lookup ?ops root s va'
         | Some (e, k) \<Rightarrow> if same_path k 3 va va' then None else vm_lookup ?ops root s va'))"
  note sd = vm_stepD [of ?ops root s s']
  have "vm_tables ?ops root s \<subseteq> vm_tables ?ops root s'" using table_reached [of 3] a pt_reach_tables by (metis le_refl subsetI)
  moreover have "vm_tables ?ops root s' \<subseteq> vm_tables ?ops root s" using sd(5) a by auto
  moreover have "vm_lookup ?ops root s' va' = Some (e, 0)" if l: "vm_lookup ?ops root s va' = Some (e, 0)" for va' e
  proof (cases "vm_lookup ?ops root s va")
    case None
    then show ?thesis using a l by simp
  next
    case (Some ek)
    obtain e' k where ek: "ek = (e', k)" by (cases ek)
    have "\<not> same_path k 3 va va'"
    proof
      assume sp: "same_path k 3 va va'"
      have "vm_lookup ?ops root s va' = Some (e', k)" by (rule same_leaf [OF ok _ sp]) (use Some ek in simp)
      then show False using l Some ek big by simp
    qed
    then show ?thesis using a Some ek l by simp
  qed
  moreover have "s' = s\<lparr>mem := mem s', small_kheap := small_kheap s\<rparr>" using a sd(2) by metis
  then have "s' = s\<lparr>mem := mem s'\<rparr>" by simp
  ultimately show "same_small ?ops root s s'"
    unfolding same_small_def using a sd(1) by (auto split: option.splits prod.splits)
qed

lemma no_small_step: "no_small ops root s \<Longrightarrow> same_small ops root s s' \<Longrightarrow> no_small ops root s'"
  unfolding no_small_def same_small_def by (metis option.distinct(1))

lemma unmap_kernel_same_small:
  assumes "vm_ok (isa_pte arch) root s" and "no_small (isa_pte arch) root s"
  shows "runs (unmap_kernel (isa_pte arch) root) s (\<lambda>_. same_small (isa_pte arch) root s)"
proof -
  let ?ops = "isa_pte arch"
  have one: "runs (unmap_page ?ops root (m + of_nat i * GIANT_PAGE_SIZE)) t (\<lambda>_. same_small ?ops root s)"
    if "same_small ?ops root s t" "i < NUM_PT_ENTRIES" "m \<in> {KERNEL_LINK_ADDRESS, KERNEL_DEVICE_MAP, WRITE_COMB_MAP}" for t m i
  proof (rule runs_mono [OF unmap_same_small])
    show "vm_ok ?ops root t" using that(1) by (simp add: same_small_def)
    show "vm_lookup ?ops root t (m + of_nat i * GIANT_PAGE_SIZE) \<noteq> Some (e, 0)" for e
      using no_small_step [OF assms(2) that(1)] that(2,3) unfolding no_small_def by blast
    show "same_small ?ops root s u" if "same_small ?ops root t u" for u
      by (rule same_small_trans) fact+
  qed
  show ?thesis
    unfolding unmap_kernel_def Let_def
  proof (rule runs_kfor_upt [where I = "\<lambda>_. same_small ?ops root s"])
    show "same_small ?ops root s s" by (rule same_small_refl [OF assms(1)])
    fix i t assume i: "i < NUM_PT_ENTRIES" and t: "same_small ?ops root s t"
    show "runs (kseq (unmap_page ?ops root (KERNEL_LINK_ADDRESS + of_nat i * GIANT_PAGE_SIZE))
        (kseq (unmap_page ?ops root (KERNEL_DEVICE_MAP + of_nat i * GIANT_PAGE_SIZE))
        (unmap_page ?ops root (WRITE_COMB_MAP + of_nat i * GIANT_PAGE_SIZE)))) t (\<lambda>_. same_small ?ops root s)"
      using i t by (auto intro!: runs_mono [OF one] one simp: runs_kseq)
  qed
qed

section \<open>Orphans and descriptors\<close>

definition orphan :: "nat \<Rightarrow> task_t \<Rightarrow> task_t" where
  "orphan t x = (if parent x = Some t then x\<lparr>parent := None\<rparr> else x)"

lemma orphan_fields [simp]:
  "thread (orphan t x) = thread x" "fds (orphan t x) = fds x" "pagetable (orphan t x) = pagetable x" "t_valid (orphan t x) = t_valid x"
  by (simp_all add: orphan_def)

lemma keeps_orphan_body: "keeps task_links (orphan_body t l)"
  by (simp add: orphan_body_def keeps_intros)

lemma orphans_run:
  assumes "sched_inv xs s"
  shows "list_for_each task_links ListHead (orphan_body (Some t)) s = Inr ((), s\<lparr>task_pool := pool_map (orphan t) xs (task_pool s)\<rparr>)"
proof -
  have d: "dlist (task_links s) ListHead (map TaskLink xs)" using assms by (simp add: sched_inv_def)
  have "kfor (map TaskLink xs) (orphan_body (Some t)) s = Inr ((), s\<lparr>task_pool := pool_map (orphan t) xs (task_pool s)\<rparr>)"
  proof (rule kfor_pool [where P = "\<lambda>i x. th_task (thread x) = Some i" and R = "\<lambda>_. True"])
    fix i and s :: "'a task_state_scheme"
    assume "i < length (task_pool s)" and "th_task (thread (task_pool s ! i)) = Some i"
    then show "orphan_body (Some t) (TaskLink i) s = Inr ((), s\<lparr>task_pool := (task_pool s)[i := orphan t (task_pool s ! i)]\<rparr>)"
      by (simp add: orphan_body_def kop_simps get_task_run upd_task_run orphan_def)
  qed (use sched_inv_distinct [OF assms] sched_inv_task [OF assms] in auto)
  moreover have "list_for_each task_links ListHead (orphan_body (Some t)) s = kfor (map TaskLink xs) (orphan_body (Some t)) s"
    by (rule list_for_each_kfor [where lk = task_links]) (use d keepsD [OF keeps_orphan_body] in blast)+
  ultimately show ?thesis by simp
qed

text \<open>The files that the descriptors of a task refer to.\<close>

definition task_files :: "task_t \<Rightarrow> nat set" where
  "task_files x = {f. \<exists>j < TASK_NUM_FILES. fds x ! j = Some f}"

lemma close_fds_runs:
  assumes inv: "fd_inv s" and t: "t < length (task_pool s)" "t_valid (task_pool s ! t)"
  shows "runs (kfor [0..<TASK_NUM_FILES] (close_fd (Some t))) s (\<lambda>_ s'. \<exists>ft. s' = s\<lparr>filetab := ft\<rparr> \<and> fs_inv s' \<and>
    open_files s' = open_files s - (task_files (task_pool s ! t) - stdio_files s))"
proof -
  let ?x = "task_pool s ! t"
  define I where "I j u \<longleftrightarrow> (\<exists>ft. u = s\<lparr>filetab := ft\<rparr>) \<and> fs_inv u \<and>
      open_files u = open_files s - ({f. \<exists>i < j. fds ?x ! i = Some f} - stdio_files s)" for j and u :: "'a task_state_scheme"
  have "runs (kfor [0..<TASK_NUM_FILES] (close_fd (Some t))) s (\<lambda>_. I TASK_NUM_FILES)"
  proof (rule runs_kfor_upt)
    show "I 0 s" using inv by (auto simp: I_def fd_inv_def intro: exI [of _ "filetab s"])
    fix j u assume j: "j < TASK_NUM_FILES" and I: "I j u"
    then obtain ft where u: "u = s\<lparr>filetab := ft\<rparr>" and fs: "fs_inv u"
      and op: "open_files u = open_files s - ({f. \<exists>i < j. fds ?x ! i = Some f} - stdio_files s)" by (auto simp: I_def)
    have len: "j < length (fds ?x)" using inv t(1) j by (simp add: fd_inv_def)
    show "runs (close_fd (Some t) j) u (\<lambda>_. I (Suc j))"
    proof (cases "fds ?x ! j")
      case None
      then have "close_fd (Some t) j u = Inr ((), u)" using t len by (simp add: close_fd_def u kop_simps get_task_run)
      moreover have "I (Suc j) u" using I None by (auto simp: I_def less_Suc_eq)
      ultimately show ?thesis by (simp add: runs_def)
    next
      case (Some f)
      have ref: "fd_refers s t j f" using t j Some by (simp add: fd_refers_def)
      have "f \<in> stdio_files s" if "i < j" "fds ?x ! i = Some f" for i
      proof -
        have "fd_refers s t i f" using that t j by (simp add: fd_refers_def)
        then show ?thesis using ref inv that(1) unfolding fd_inv_def by blast
      qed
      moreover have "f \<in> open_files s" using ref inv unfolding fd_inv_def by blast
      ultimately have f: "f \<in> open_files u" by (auto simp: op)
      obtain x where run: "file_close f u = Inr ((), u\<lparr>filetab := (filetab u)[f := x]\<rparr>)" by (rule file_close_run [OF fs f])
      have sf: "stdio_files u = stdio_files s" by (simp add: u stdio_files_def file_is_stdio_def)
      have "fs_inv (u\<lparr>filetab := (filetab u)[f := x]\<rparr>)"
        "open_files (u\<lparr>filetab := (filetab u)[f := x]\<rparr>) = (if f \<in> stdio_files s then open_files u else open_files u - {f})"
        using file_close_runs [OF fs f] run by (simp_all add: runs_def sf)
      moreover have "\<exists>ft'. u\<lparr>filetab := (filetab u)[f := x]\<rparr> = s\<lparr>filetab := ft'\<rparr>"
        by (intro exI [of _ "(filetab u)[f := x]"]) (simp add: u)
      ultimately have "I (Suc j) (u\<lparr>filetab := (filetab u)[f := x]\<rparr>)" using Some unfolding I_def by (auto simp: op less_Suc_eq)
      then show ?thesis using run Some t len by (simp add: runs_def close_fd_def kop_simps get_task_run u)
    qed
  qed
  then show ?thesis by (rule runs_mono) (auto simp: I_def task_files_def)
qed

section \<open>Freeing a task\<close>

text \<open>The pages that task \<open>x\<close> owns are in use, each for one purpose: its page table is a tree, every page mapped by a 4 KB entry is mapped
  at one place only and is no table, and the kernel stack is neither.\<close>

definition task_pages :: "isa \<Rightarrow> task_t \<Rightarrow> 'z kheap_state_scheme \<Rightarrow> u64 set" where
  "task_pages arch x s = insert (kstack_pg (thread x))
     (vm_tables (isa_pte arch) (pagetable x) s \<union> {p. \<exists>va. vm_backs (isa_pte arch) (pagetable x) s va p})"

definition owns_pages :: "isa \<Rightarrow> task_t \<Rightarrow> 'z kheap_state_scheme \<Rightarrow> bool" where
  "owns_pages arch x s \<longleftrightarrow> vm_ok (isa_pte arch) (pagetable x) s \<and> no_small (isa_pte arch) (pagetable x) s \<and>
     (\<forall>va p. vm_backs (isa_pte arch) (pagetable x) s va p \<longrightarrow> p \<in> small_used s - vm_tables (isa_pte arch) (pagetable x) s) \<and>
     (\<forall>va va' p. vm_backs (isa_pte arch) (pagetable x) s va p \<and> vm_backs (isa_pte arch) (pagetable x) s va' p \<longrightarrow>
        same_page PAGE_SMALL va va') \<and>
     kstack_pg (thread x) \<noteq> 0 \<and> kstack_pg (thread x) \<in> small_used s - vm_tables (isa_pte arch) (pagetable x) s \<and>
     (\<forall>va. \<not> vm_backs (isa_pte arch) (pagetable x) s va (kstack_pg (thread x)))"

text \<open>The memory part: the kernel's mappings, the page table and the kernel stack.\<close>

lemma release_memory:
  fixes s :: "'z task_state_scheme"
  assumes own: "owns_pages arch x s"
  obtains m h h' where "unmap_kernel (isa_pte arch) (pagetable x) s = Inr ((), s\<lparr>mem := m\<rparr>)"
    "free_pagetable (isa_pte arch) (pagetable x) (s\<lparr>mem := m\<rparr>) = Inr ((), s\<lparr>mem := m, small_kheap := h\<rparr>)"
    "free_page (kstack_pg (thread x)) PAGE_SMALL (s\<lparr>mem := m, small_kheap := h\<rparr>) = Inr ((), s\<lparr>mem := m, small_kheap := h'\<rparr>)"
    "wf_kheap (s\<lparr>mem := m, small_kheap := h'\<rparr>)" "used_pages h' = small_used s - task_pages arch x s"
proof -
  let ?ops = "isa_pte arch" and ?root = "pagetable x" and ?k = "kstack_pg (thread x)"
  note o = own [unfolded owns_pages_def]
  obtain s3 where s3: "unmap_kernel ?ops ?root s = Inr ((), s3)" and sm: "same_small ?ops ?root s s3"
    using unmap_kernel_same_small [of arch ?root s] o unfolding runs_def by auto
  have e3: "s3 = s\<lparr>mem := mem s3\<rparr>" "vm_ok ?ops ?root s3" "vm_tables ?ops ?root s3 = vm_tables ?ops ?root s"
    using sm by (simp_all add: same_small_def)
  have u3: "small_used s3 = small_used s" by (subst e3(1)) simp
  note b = same_small_backs [OF sm]
  have "runs (free_pagetable ?ops ?root) s3 (\<lambda>_ s'. wf_kheap s' \<and> s' = s3\<lparr>small_kheap := small_kheap s'\<rparr> \<and>
    small_used s' = small_used s3 - vm_tables ?ops ?root s3 - {p. \<exists>va. vm_backs ?ops ?root s3 va p})"
  proof (rule free_pagetable_runs [OF e3(2)])
    show "p \<in> small_used s3 - vm_tables ?ops ?root s3" if "vm_backs ?ops ?root s3 va p" for va p
      using that o unfolding b u3 e3(3) by blast
    show "same_page PAGE_SMALL va va'" if "vm_backs ?ops ?root s3 va p" "vm_backs ?ops ?root s3 va' p" for va va' p
      using that o unfolding b by metis
  qed
  then obtain s4 where s4: "free_pagetable ?ops ?root s3 = Inr ((), s4)" and w4: "wf_kheap s4" and e4: "s4 = s3\<lparr>small_kheap := small_kheap s4\<rparr>"
    and u4: "small_used s4 = small_used s - vm_tables ?ops ?root s - {p. \<exists>va. vm_backs ?ops ?root s va p}"
    unfolding runs_def b u3 e3(3) by auto
  have "runs (free_page ?k PAGE_SMALL) s4 (\<lambda>_. freed [?k] s4)"
    by (rule free_small_page [OF w4]) (use o u4 in blast)
  then obtain s5 where s5: "free_page ?k PAGE_SMALL s4 = Inr ((), s5)" and f5: "freed [?k] s4 s5" unfolding runs_def by auto
  have e4': "s4 = s\<lparr>mem := mem s3, small_kheap := small_kheap s4\<rparr>" by (subst e4, subst e3(1)) simp
  have "s5 = s4\<lparr>small_kheap := small_kheap s5\<rparr>" using f5 by (simp add: freed_def)
  then have e5: "s5 = s\<lparr>mem := mem s3, small_kheap := small_kheap s5\<rparr>" by (subst \<open>s5 = s4\<lparr>small_kheap := small_kheap s5\<rparr>\<close>, subst e4') simp
  have "used_pages (small_kheap s5) = small_used s - task_pages arch x s"
    using f5 u4 by (auto simp: freed_def task_pages_def)
  then show thesis using that s3 s4 s5 e3(1) e4' e5 f5 unfolding freed_def by metis
qed

definition released :: "task_t \<Rightarrow> task_t" where
  "released x = x\<lparr>thread := (thread x)\<lparr>kstack_pg := 0\<rparr>, taskmode := CPU_MODE_UNDEFINED, t_valid := False\<rparr>"

text \<open>When the files of a task that is no longer in use are closed the descriptor tables stay sound.\<close>

lemma fd_inv_release:
  assumes inv: "fd_inv s" and fs: "fs_inv s'" and len: "length (task_pool s') = length (task_pool s)"
    and f: "\<And>i. i < length (task_pool s) \<Longrightarrow> fds (task_pool s' ! i) = fds (task_pool s ! i)"
    and v: "\<And>i. i < length (task_pool s) \<Longrightarrow> t_valid (task_pool s' ! i) \<Longrightarrow> i \<noteq> t \<and> t_valid (task_pool s ! i)"
    and sf: "stdio_files s' = stdio_files s" and t: "t < length (task_pool s)" "t_valid (task_pool s ! t)"
    and op: "open_files s' = open_files s - (task_files (task_pool s ! t) - stdio_files s)"
  shows "fd_inv s'"
  unfolding fd_inv_def
proof (intro conjI allI impI)
  have ref: "fd_refers s i j g \<and> i \<noteq> t" if "fd_refers s' i j g" for i j g
    using that f v len by (auto simp: fd_refers_def)
  show "length (fds (task_pool s' ! i)) = TASK_NUM_FILES" if "i < length (task_pool s')" for i
    using that f inv len by (simp add: fd_inv_def)
  show "g \<in> open_files s'" if "fd_refers s' i j g" for i j g
  proof -
    note r = ref [OF that]
    have "g \<in> stdio_files s" if g: "g \<in> task_files (task_pool s ! t)"
    proof -
      obtain j' where "fd_refers s t j' g" using g t by (auto simp: task_files_def fd_refers_def)
      then show ?thesis using r inv unfolding fd_inv_def by blast
    qed
    then show ?thesis using r inv unfolding op fd_inv_def by blast
  qed
  show "g \<in> stdio_files s' \<or> i = i' \<and> j = j'" if "fd_refers s' i j g \<and> fd_refers s' i' j' g" for i j g i' j'
    using ref [of i j g] ref [of i' j' g] that inv unfolding sf fd_inv_def by blast
qed (rule fs)

text \<open>C12: \<open>free_task\<close> gives back everything a task has. For a task that is not running, whose pages are its own, it returns; released are
  exactly its kernel stack, its tables and the pages mapped by 4 KB entries, and exactly its files that are not console files; the
  slot is no longer in use, its listed children lose their parent and no other task changes; the heap and the descriptor
  tables of the remaining tasks stay sound, and the task list is untouched.\<close>

theorem free_task_correct:
  fixes s :: "'z task_state_scheme"
  assumes "sched_inv xs s" and "fd_inv s" and "runs_task c s" and "c \<noteq> t"
    and "t < MAX_TASKS" and "t_valid (task_pool s ! t)" and "owns_pages arch (task_pool s ! t) s"
  shows "runs (free_task (isa_pte arch) (Some t)) s (\<lambda>_ s'. wf_kheap s' \<and> fd_inv s' \<and> task_links s' = task_links s \<and>
    small_used s' = small_used s - task_pages arch (task_pool s ! t) s \<and>
    open_files s' = open_files s - (task_files (task_pool s ! t) - stdio_files s) \<and>
    (\<forall>i < MAX_TASKS. let x = if i \<in> set xs then orphan t (task_pool s ! i) else task_pool s ! i in
       task_pool s' ! i = (if i = t then released x else x)))"
proof -
  let ?ops = "isa_pte arch" and ?x = "task_pool s ! t"
  define P where "P = pool_map (orphan t) xs (task_pool s)"
  define s1 where "s1 = s\<lparr>task_pool := P\<rparr>"
  have len: "length (task_pool s) = MAX_TASKS" using assms(1) by (simp add: sched_inv_def)
  have P: "length P = MAX_TASKS" "\<And>i. i < MAX_TASKS \<Longrightarrow> P ! i = (if i \<in> set xs then orphan t (task_pool s ! i) else task_pool s ! i)"
    using pool_map_nth [OF sched_inv_distinct [OF assms(1)]] len by (simp_all add: P_def)
  have same: "fds (P ! i) = fds (task_pool s ! i)" "t_valid (P ! i) = t_valid (task_pool s ! i)" "pagetable (P ! i) = pagetable (task_pool s ! i)"
    "thread (P ! i) = thread (task_pool s ! i)" if "i < MAX_TASKS" for i using P(2) [OF that] by simp_all
  have "fd_refers s1 i j f = fd_refers s i j f" for i j f using same [of i] len P(1) by (auto simp: fd_refers_def s1_def)
  then have inv1: "fd_inv s1" using assms(2) same len P(1) unfolding fd_inv_def by (simp add: s1_def)
  obtain ft where cl: "kfor [0..<TASK_NUM_FILES] (close_fd (Some t)) s1 = Inr ((), s1\<lparr>filetab := ft\<rparr>)"
    and fs2: "fs_inv (s1\<lparr>filetab := ft\<rparr>)" and op2: "open_files (s1\<lparr>filetab := ft\<rparr>) = open_files s - (task_files ?x - stdio_files s)"
    using close_fds_runs [OF inv1, of t] assms(5,6) P(1) same [OF assms(5)] by (auto simp: runs_def s1_def task_files_def)
  define s2 where "s2 = s1\<lparr>filetab := ft\<rparr>"
  have own: "owns_pages arch (P ! t) s2" and tp: "task_pages arch (P ! t) s2 = task_pages arch ?x s"
    using assms(7) same [OF assms(5)] by (simp_all add: owns_pages_def task_pages_def s2_def s1_def vm_ok_def wf_kheap_def no_small_def)
  obtain m h h' where rm: "unmap_kernel ?ops (pagetable (P ! t)) s2 = Inr ((), s2\<lparr>mem := m\<rparr>)"
    "free_pagetable ?ops (pagetable (P ! t)) (s2\<lparr>mem := m\<rparr>) = Inr ((), s2\<lparr>mem := m, small_kheap := h\<rparr>)"
    "free_page (kstack_pg (thread (P ! t))) PAGE_SMALL (s2\<lparr>mem := m, small_kheap := h\<rparr>) = Inr ((), s2\<lparr>mem := m, small_kheap := h'\<rparr>)"
    "wf_kheap (s2\<lparr>mem := m, small_kheap := h'\<rparr>)" "used_pages h' = small_used s2 - task_pages arch (P ! t) s2"
    by (rule release_memory [OF own])
  define s' where "s' = s2\<lparr>mem := m, small_kheap := h', task_pool := P[t := released (P ! t)]\<rparr>"
  have p2: "task_pool s2 = P" by (simp add: s2_def s1_def)
  have k: "kstack_pg (thread (P ! t)) \<noteq> 0" using own by (simp add: owns_pages_def)
  have run: "free_task ?ops (Some t) s = Inr ((), s')"
    using rm(1-3) cl k assms(4,5) P(1) orphans_run [OF assms(1)] current_task_run [OF assms(3)]
    by (simp add: free_task_def free_thread_def kop_simps P_def [symmetric] s1_def [symmetric] s2_def [symmetric])
      (simp add: kop_simps get_task_run upd_task_run p2 s'_def released_def)
  have pool: "task_pool s' ! i = (if i = t then released (P ! t) else P ! i)" if "i < MAX_TASKS" for i
    using that P(1) by (simp add: s'_def)
  have files: "fs_inv s' = fs_inv s2" "open_files s' = open_files s2"
    by (simp_all add: s'_def fs_inv_def files_ok_def open_files_def stdio_files_def file_is_stdio_def)
  have "fd_inv s'"
  proof (rule fd_inv_release [OF assms(2)])
    show "fds (task_pool s' ! i) = fds (task_pool s ! i)" if "i < length (task_pool s)" for i
      using that same pool len by (simp add: released_def)
    show "i \<noteq> t \<and> t_valid (task_pool s ! i)" if "i < length (task_pool s)" "t_valid (task_pool s' ! i)" for i
      using that same pool len by (simp add: released_def split: if_splits)
    show "fs_inv s'" "open_files s' = open_files s - (task_files ?x - stdio_files s)" using fs2 op2 files by (simp_all add: s2_def)
  qed (use assms(5,6) len P(1) in \<open>simp_all add: s'_def s2_def s1_def stdio_files_def file_is_stdio_def\<close>)
  moreover have "wf_kheap s'" using rm(4) by (simp add: s'_def wf_kheap_def)
  moreover have "small_used s' = small_used s - task_pages arch ?x s" using rm(5) tp by (simp add: s'_def s2_def s1_def)
  moreover have "open_files s' = open_files s - (task_files ?x - stdio_files s)" using op2 files by (simp add: s2_def)
  moreover have "task_links s' = task_links s" by (simp add: s'_def s2_def s1_def)
  ultimately show ?thesis unfolding runs_def using run pool P(2) by (auto simp: Let_def)
qed

section \<open>An example\<close>

text \<open>The example system while task 2 runs; task 1 has an empty page table in the first page of the heap and its kernel stack in the second.\<close>

abbreviation demo_stack :: u64 where "demo_stack \<equiv> 0xFFFFFF0010001000"

definition release_demo :: task_state where
  "release_demo = fds_demo\<lparr>cur_thread := Some (TaskThread 2),
     small_kheap := (small_kheap vm_demo)\<lparr>alloc_map := (alloc_map (small_kheap vm_demo))[1 := True]\<rparr>,
     task_pool := (task_pool fds_demo)[1 := (task_pool fds_demo ! 1)\<lparr>pagetable := vm_demo_root,
       thread := (thread (task_pool fds_demo ! 1))\<lparr>kstack_pg := demo_stack\<rparr>\<rparr>]\<rparr>"

lemma release_demo_heap: "small_used release_demo = {vm_demo_root, demo_stack}" "wf_kheap release_demo" "mem release_demo = mem vm_demo"
proof -
  have "length (alloc_map (small_kheap vm_demo)) = 1024" "heap_page (small_kheap vm_demo) 1 = demo_stack"
    by (simp_all add: vm_demo_def kheap_demo_def fresh_heap_def heap_page_def)
  then show "small_used release_demo = {vm_demo_root, demo_stack}"
    using used_pages_insert [of 1 "small_kheap vm_demo"] vm_demo_used by (auto simp: release_demo_def)
  have large: "large_kheap fds_demo = large_kheap vm_demo" by (simp add: fds_demo_def sched_demo_def vm_demo_def)
  show "wf_kheap release_demo"
    using vm_demo_ok large by (simp add: release_demo_def vm_ok_def wf_kheap_def)
  show "mem release_demo = mem vm_demo" by (simp add: release_demo_def fds_demo_def sched_demo_def vm_demo_def kheap_demo_def)
qed

lemma release_demo_task: "task_pool release_demo ! 1 = (demo_task 1 THREAD_READY)\<lparr>fds := (replicate 16 (Some 1))[5 := Some 0], pagetable := vm_demo_root,
    thread := (thread (demo_task 1 THREAD_READY))\<lparr>kstack_pg := demo_stack\<rparr>\<rparr>"
  by (simp add: release_demo_def fds_demo_def)

lemma release_demo_pages: "owns_pages arch (task_pool release_demo ! 1) release_demo"
  "task_pages arch (task_pool release_demo ! 1) release_demo = {vm_demo_root, demo_stack}"
proof -
  note z = zero_table [of vm_demo_root "ent (mem vm_demo)" "isa_pte arch", OF vm_demo_page vm_demo_zero isa.zero_invalid]
  show "owns_pages arch (task_pool release_demo ! 1) release_demo"
    "task_pages arch (task_pool release_demo ! 1) release_demo = {vm_demo_root, demo_stack}"
    unfolding release_demo_task using z release_demo_heap by (auto simp: owns_pages_def task_pages_def vm_ok_def no_small_def backs_def)
qed

lemma release_demo_inv: "sched_inv [3, 2, 1, 0] release_demo" "fd_inv release_demo" "runs_task 2 release_demo"
  "stdio_files release_demo = {1}" "open_files release_demo = {0, 1}"
proof -
  show "sched_inv [3, 2, 1, 0] release_demo"
    by (auto simp: sched_inv_def release_demo_def fds_demo_def sched_demo_def MAX_TASKS_def dlist_def demo_links_def demo_task_def)
  have len: "length (task_pool fds_demo) = 2048" by (simp add: fds_demo_def)
  have r: "fd_refers release_demo i j f = fd_refers fds_demo i j f" for i j f
    using len by (auto simp: fd_refers_def release_demo_def nth_list_update)
  have f: "fs_inv release_demo = fs_inv fds_demo" "stdio_files release_demo = stdio_files fds_demo" "open_files release_demo = open_files fds_demo"
    by (simp_all add: release_demo_def fs_inv_def files_ok_def open_files_def stdio_files_def file_is_stdio_def)
  then show "stdio_files release_demo = {1}" "open_files release_demo = {0, 1}" using fds_demo_inv by simp_all
  have "length (fds (task_pool release_demo ! i)) = length (fds (task_pool fds_demo ! i))" if "i < 2048" for i
    using that len by (simp add: release_demo_def nth_list_update)
  then show "fd_inv release_demo" using fds_demo_inv(1) len unfolding fd_inv_def r f by (simp add: release_demo_def)
  show "runs_task 2 release_demo" by (simp add: runs_task_def release_demo_def fds_demo_def sched_demo_def demo_task_def)
qed

theorem free_task_correct_witness:
  "runs (free_task (isa_pte RISCV64) (Some 1)) release_demo
     (\<lambda>_ s'. small_used s' = {} \<and> open_files s' = {1} \<and> \<not> t_valid (task_pool s' ! 1))"
proof (rule runs_mono [OF free_task_correct [OF release_demo_inv(1-3)]])
  show "t_valid (task_pool release_demo ! 1)" unfolding release_demo_task by (simp add: demo_task_def)
  show "owns_pages RISCV64 (task_pool release_demo ! 1) release_demo" by (rule release_demo_pages)
  have files: "0 \<in> task_files (task_pool release_demo ! 1)"
    unfolding release_demo_task by (auto simp: task_files_def TASK_NUM_FILES_def intro: exI [of _ 5])
  fix s' assume "wf_kheap s' \<and> fd_inv s' \<and> task_links s' = task_links release_demo \<and>
    small_used s' = small_used release_demo - task_pages RISCV64 (task_pool release_demo ! 1) release_demo \<and>
    open_files s' = open_files release_demo - (task_files (task_pool release_demo ! 1) - stdio_files release_demo) \<and>
    (\<forall>i < MAX_TASKS. let x = if i \<in> set [3, 2, 1, 0] then orphan 1 (task_pool release_demo ! i) else task_pool release_demo ! i in
       task_pool s' ! i = (if i = 1 then released x else x))"
  then have s': "small_used s' = {vm_demo_root, demo_stack} - {vm_demo_root, demo_stack}"
    "open_files s' = {0, 1} - (task_files (task_pool release_demo ! 1) - {1})"
    "\<exists>x. task_pool s' ! 1 = released x"
    unfolding release_demo_pages(2) release_demo_heap(1) release_demo_inv(4,5) by (auto simp: MAX_TASKS_def Let_def)
  then show "small_used s' = {} \<and> open_files s' = {1} \<and> \<not> t_valid (task_pool s' ! 1)"
    using files by (auto simp: released_def)
qed (simp_all add: MAX_TASKS_def)

end
