(* ===== verification/Sky_Trap.thy ===== *)
theory Sky_Trap
  imports Sky_Fds
begin

text \<open>
  Entering and leaving the kernel (\<open>thread_trap_enter\<close> and \<open>thread_trap_exit\<close> of src/kernel/scheduler.c). Traps nest: a system call can be
  interrupted. The abstract specification is a monitor over the events of one thread, with the depth of the nesting, the frame of the
  outermost trap and the stack for the next entry as its state; the code implements it and panics exactly where it refuses.
\<close>

section \<open>The monitor\<close>

datatype trap_event = TrapEnter u64 | TrapExit

text \<open>The stack that the next trap from this thread will use, set when the last trap is left.\<close>

primrec exit_kstack :: "isa \<Rightarrow> task_t \<Rightarrow> u64 \<Rightarrow> u64" where
  "exit_kstack X86_64 x k = STACK_BOTTOM (kstack_pg (thread x))"
| "exit_kstack AARCH64 x k = k"
| "exit_kstack RISCV64 x k = (if taskmode x = MODE_KERN then 0 else STACK_BOTTOM (kstack_pg (thread x)))"

text \<open>The outermost trap comes from the mode of the task, every other one from the kernel.\<close>

fun monitor :: "isa \<Rightarrow> memory \<Rightarrow> task_t \<Rightarrow> trap_event \<Rightarrow> nat \<times> u64 \<times> u64 \<Rightarrow> (nat \<times> u64 \<times> u64) option" where
  "monitor arch m x (TrapEnter r) (d, f, k) =
     (if d + 1 < 2 ^ 64 \<and> get_reg_mode arch r m = Inr (if d = 0 then taskmode x else MODE_KERN)
      then Some (d + 1, if d = 0 then r else f, k) else None)"
| "monitor arch m x TrapExit (d, f, k) =
     (if d = 0 then None else Some (d - 1, f, if d = 1 then exit_kstack arch x k else k))"

primrec monitors :: "isa \<Rightarrow> memory \<Rightarrow> task_t \<Rightarrow> trap_event list \<Rightarrow> nat \<times> u64 \<times> u64 \<Rightarrow> (nat \<times> u64 \<times> u64) option" where
  "monitors arch m x [] st = Some st"
| "monitors arch m x (e # es) st = Option.bind (monitor arch m x e st) (monitors arch m x es)"

section \<open>The code\<close>

primrec trap_step :: "isa \<Rightarrow> trap_event \<Rightarrow> ('z task_state_scheme, unit) kop" where
  "trap_step arch (TrapEnter r) = thread_trap_enter arch r"
| "trap_step arch TrapExit = thread_trap_exit arch"

text \<open>The state of the monitor in the state of the kernel, and the kernel's state with the monitor's part replaced.\<close>

definition trap_abs :: "nat \<Rightarrow> 'z task_state_scheme \<Rightarrow> nat \<times> u64 \<times> u64" where
  "trap_abs c s = (let th = thread (task_pool s ! c) in (unat (trapdepth th), uregs th, entry_kstack s))"

fun trap_put :: "nat \<Rightarrow> nat \<times> u64 \<times> u64 \<Rightarrow> 'z task_state_scheme \<Rightarrow> 'z task_state_scheme" where
  "trap_put c (d, f, k) s =
     s\<lparr>task_pool := (task_pool s)[c := (task_pool s ! c)\<lparr>thread := (thread (task_pool s ! c))\<lparr>trapdepth := of_nat d, uregs := f\<rparr>\<rparr>],
       entry_kstack := k\<rparr>"

lemma trap_put_fields:
  assumes "runs_task c s"
  shows "runs_task c (trap_put c st s)" "mem (trap_put c st s) = mem s"
    "taskmode (task_pool (trap_put c st s) ! c) = taskmode (task_pool s ! c)"
    "kstack_pg (thread (task_pool (trap_put c st s) ! c)) = kstack_pg (thread (task_pool s ! c))"
    "fst st < 2 ^ 64 \<Longrightarrow> trap_abs c (trap_put c st s) = st"
    "trap_put c st' (trap_put c st s) = trap_put c st' s"
  using assms by (cases st; cases st'; simp add: runs_task_def trap_abs_def Let_def unat_of_nat_64)+

lemma trap_put_abs: "trap_put c (trap_abs c s) s = s"
  by (simp add: trap_abs_def Let_def)

lemma monitor_depth: "monitor arch m x e st = Some st' \<Longrightarrow> fst st < 2 ^ 64 \<Longrightarrow> fst st' < 2 ^ 64"
  by (cases e; cases st) (auto split: if_splits)

lemma monitor_cong: "taskmode x' = taskmode x \<Longrightarrow> kstack_pg (thread x') = kstack_pg (thread x) \<Longrightarrow> monitor arch m x' e st = monitor arch m x e st"
  by (cases e; cases st; cases arch) simp_all

lemma mode_error: "get_reg_mode arch r m = Inl e \<Longrightarrow> \<exists>msg. e = Panic msg"
  by (cases arch) (auto simp: x86_get_reg_mode_def arm_get_reg_mode_def riscv_get_reg_mode_def split: if_splits)

lemma last_depth:
  fixes t :: u64
  shows "unat t + 1 < 2 ^ 64 \<longleftrightarrow> t + 1 \<noteq> 0" and "t + 1 \<noteq> 0 \<Longrightarrow> unat (t + 1) = unat t + 1"
  and "of_nat (unat t + 1) = t + 1" and "t \<noteq> 0 \<Longrightarrow> of_nat (unat t - 1) = t - 1" and "unat t = 1 \<longleftrightarrow> t = 1"
proof -
  show a: "t + 1 \<noteq> 0 \<Longrightarrow> unat (t + 1) = unat t + 1" by (metis Suc_eq_plus1 unatSuc add.commute)
  show "unat t + 1 < 2 ^ 64 \<longleftrightarrow> t + 1 \<noteq> 0" using a unat_bound_64 [of "t + 1"] unat_add_of_nat [of t 1] by (cases "t + 1 = 0") auto
  show "of_nat (unat t + 1) = t + 1" by simp
  show "t \<noteq> 0 \<Longrightarrow> of_nat (unat t - 1) = t - 1" by (simp add: of_nat_diff unat_gt_0 Suc_leI)
  show "unat t = 1 \<longleftrightarrow> t = 1" by (simp add: word_unat_eq_iff)
qed

lemma monitors_cong:
  assumes "taskmode x' = taskmode x" and "kstack_pg (thread x') = kstack_pg (thread x)"
  shows "monitors arch m x' es st = monitors arch m x es st"
proof (induction es arbitrary: st)
  case (Cons e es)
  then show ?case by (cases "monitor arch m x e st") (simp_all add: monitor_cong [OF assms])
qed simp

text \<open>Entering and leaving on the thread of task \<open>c\<close>.\<close>

lemma trap_enter_run:
  fixes s :: "'z task_state_scheme"
  assumes cur: "runs_task c s" and md: "taskmode (task_pool s ! c) \<in> {MODE_USER, MODE_KERN}"
  shows "thread_trap_enter arch r s =
    (let x = task_pool s ! c; t = trapdepth (thread x) in
     if t + 1 = 0 then Inl (Panic ''assert'')
     else case get_reg_mode arch r (mem s) of Inl e \<Rightarrow> Inl e
       | Inr q \<Rightarrow> if q = (if t = 0 then taskmode x else MODE_KERN)
           then Inr ((), trap_put c (unat t + 1, if t = 0 then r else uregs (thread x), entry_kstack s) s) else Inl (Panic ''assert''))"
proof -
  let ?x = "task_pool s ! c" and ?t = "trapdepth (thread (task_pool s ! c))"
  have c: "c < length (task_pool s)" "cur_thread s = Some (TaskThread c)" "th_task (thread ?x) = Some c" using cur by (simp_all add: runs_task_def)
  note run = thread_trap_enter_def current_thread_def upd_thread_def get_thread_def upd_task_run get_task_run
  consider "?t + 1 = 0" | "?t = 0" | "?t + 1 \<noteq> 0" "?t \<noteq> 0" by blast
  then show ?thesis
  proof cases
    case 1
    then show ?thesis using c by (simp add: run kop_defs Let_def)
  next
    case 2
    then show ?thesis using c md by (cases "get_reg_mode arch r (mem s)") (auto simp: run kop_defs Let_def add.commute [of 1])
  next
    case 3
    then show ?thesis using c md by (cases "get_reg_mode arch r (mem s)") (auto simp: run kop_defs Let_def add.commute [of 1])
  qed
qed

lemma trap_exit_run:
  fixes s :: "'z task_state_scheme"
  assumes cur: "runs_task c s" and md: "taskmode (task_pool s ! c) \<in> {MODE_USER, MODE_KERN}"
  shows "thread_trap_exit arch s =
    (let x = task_pool s ! c; t = trapdepth (thread x) in
     if t = 0 then Inl (Panic ''assert'')
     else Inr ((), trap_put c (unat t - 1, uregs (thread x), if t = 1 then exit_kstack arch x (entry_kstack s) else entry_kstack s) s))"
proof -
  let ?x = "task_pool s ! c" and ?t = "trapdepth (thread (task_pool s ! c))"
  have c: "c < length (task_pool s)" "cur_thread s = Some (TaskThread c)" "th_task (thread ?x) = Some c" using cur by (simp_all add: runs_task_def)
  note run = thread_trap_exit_def current_thread_def upd_thread_def get_thread_def upd_task_run get_task_run
  consider "?t = 0" | "?t = 1" | "?t \<noteq> 0" "?t - 1 \<noteq> 0" by force
  then show ?thesis
  proof cases
    case 1
    then show ?thesis using c by (simp add: run kop_defs Let_def)
  next
    case 2
    then show ?thesis using c md by (cases arch) (auto simp: run kop_defs Let_def)
  next
    case 3
    then have "?t \<noteq> 1" "of_nat (unat ?t - 1) = ?t - 1" using last_depth(4) by auto
    with 3 c md show ?thesis by (simp add: run kop_defs Let_def)
  qed
qed

lemma trap_step_monitor:
  fixes s :: "'z task_state_scheme"
  assumes cur: "runs_task c s" and md: "taskmode (task_pool s ! c) \<in> {MODE_USER, MODE_KERN}"
  shows "case monitor arch (mem s) (task_pool s ! c) e (trap_abs c s) of
      None \<Rightarrow> \<exists>msg. trap_step arch e s = Inl (Panic msg)
    | Some st \<Rightarrow> trap_step arch e s = Inr ((), trap_put c st s)"
proof (cases e)
  case (TrapEnter r)
  let ?t = "trapdepth (thread (task_pool s ! c))"
  note run = trap_enter_run [OF assms, of arch r, unfolded Let_def]
  show ?thesis
  proof (cases "get_reg_mode arch r (mem s)")
    case (Inl e)
    then show ?thesis using mode_error [OF Inl] run TrapEnter by (auto simp: trap_abs_def Let_def)
  next
    case (Inr q)
    then show ?thesis
      using run TrapEnter last_depth(1) [of ?t]
      by (simp add: trap_abs_def Let_def unat_eq_0 del: trap_put.simps split: if_splits)
  qed
next
  case TrapExit
  then show ?thesis
    using trap_exit_run [OF assms, of arch] last_depth(5) [of "trapdepth (thread (task_pool s ! c))"]
    by (simp add: trap_abs_def Let_def unat_eq_0 del: trap_put.simps)
qed

text \<open>C26: Nested traps. For a sequence of trap entries and exits of the running thread, in any nesting, the kernel does what the monitor says: it
  panics exactly when the monitor refuses (an exit without an entry, a frame of the wrong mode, a depth beyond 64 bits), and
  otherwise the depth of the nesting, the frame of the outermost trap and the stack for the next entry are the monitor's and nothing
  else of the kernel's state changes.\<close>

theorem trap_nesting_correct:
  fixes s :: "'z task_state_scheme"
  assumes "runs_task c s" and "taskmode (task_pool s ! c) \<in> {MODE_USER, MODE_KERN}"
  shows "case monitors arch (mem s) (task_pool s ! c) es (trap_abs c s) of
      None \<Rightarrow> \<exists>msg. kfor es (trap_step arch) s = Inl (Panic msg)
    | Some st \<Rightarrow> kfor es (trap_step arch) s = Inr ((), trap_put c st s)"
  using assms
proof (induction es arbitrary: s)
  case Nil
  then show ?case by (simp add: trap_put_abs kop_simps del: trap_put.simps)
next
  case (Cons e es)
  let ?m = "mem s" and ?x = "task_pool s ! c"
  note one = trap_step_monitor [OF Cons.prems, of arch e]
  show ?case
  proof (cases "monitor arch ?m ?x e (trap_abs c s)")
    case None
    then show ?thesis using one by (auto simp: kop_simps)
  next
    case (Some st)
    let ?s = "trap_put c st s"
    have run: "trap_step arch e s = Inr ((), ?s)" using one Some by simp
    have "fst (trap_abs c s) < 2 ^ 64" using unat_bound_64 [of "trapdepth (thread ?x)"] by (simp add: trap_abs_def Let_def)
    then have lt: "fst st < 2 ^ 64" by (rule monitor_depth [OF Some])
    note put = trap_put_fields [OF Cons.prems(1), where st = st]
    have same: "monitors arch ?m (task_pool ?s ! c) es st = monitors arch ?m ?x es st"
      by (rule monitors_cong [OF put(3,4)])
    have "case monitors arch (mem ?s) (task_pool ?s ! c) es (trap_abs c ?s) of
        None \<Rightarrow> \<exists>msg. kfor es (trap_step arch) ?s = Inl (Panic msg)
      | Some st' \<Rightarrow> kfor es (trap_step arch) ?s = Inr ((), trap_put c st' ?s)"
      by (rule Cons.IH [OF put(1)]) (use Cons.prems(2) put(3) in simp)
    then show ?thesis
      unfolding put(2) put(5) [OF lt] same using Some run put(6) by (auto simp: kop_simps simp del: trap_put.simps split: option.splits)
  qed
qed

text \<open>A system call of a user task with an interrupt inside it: the frame at \<open>0x1000\<close> is a user frame, that at \<open>0x8000\<close> a kernel frame.\<close>

definition trap_demo :: task_state where
  "trap_demo = (sched_demo 1)\<lparr>mem := store64 (\<lambda>_. 0) (reg_at 0x8000 riscv_sstatus) (BIT 8)\<rparr>"

lemma trap_demo_modes: "get_reg_mode RISCV64 0x1000 (mem trap_demo) = Inr MODE_USER" "get_reg_mode RISCV64 0x8000 (mem trap_demo) = Inr MODE_KERN"
proof -
  have "load64 (mem trap_demo) (reg_at 0x1000 riscv_sstatus) = 0"
  proof (rule load64_zero)
    fix k :: nat assume "k < 8"
    then have "k = 0 \<or> k = 1 \<or> k = 2 \<or> k = 3 \<or> k = 4 \<or> k = 5 \<or> k = 6 \<or> k = 7" by presburger
    then show "mem trap_demo (reg_at 0x1000 riscv_sstatus + of_nat k) = 0"
      by (elim disjE) (simp_all add: trap_demo_def store64_other reg_at_def riscv_sstatus_def)
  qed
  then show "get_reg_mode RISCV64 0x1000 (mem trap_demo) = Inr MODE_USER"
    by (simp add: riscv_get_reg_mode_def SSTATUS_GET_SPP_def RISCV_MODE_U_def)
  have "load64 (mem trap_demo) (reg_at 0x8000 riscv_sstatus) = BIT 8" by (simp add: trap_demo_def)
  then show "get_reg_mode RISCV64 0x8000 (mem trap_demo) = Inr MODE_KERN"
    by (simp add: riscv_get_reg_mode_def SSTATUS_GET_SPP_def RISCV_MODE_U_def RISCV_MODE_S_def BIT_def MASK_def)
qed

theorem trap_nesting_correct_witness:
  "kfor [TrapEnter 0x1000, TrapEnter 0x8000, TrapExit, TrapExit] (trap_step RISCV64) trap_demo =
     Inr ((), trap_put 1 (0, 0x1000, STACK_BOTTOM 0) trap_demo) \<and>
   (\<exists>msg. kfor [TrapEnter 0x8000] (trap_step RISCV64) trap_demo = Inl (Panic msg))"
proof -
  have run: "runs_task 1 trap_demo" by (simp add: runs_task_def trap_demo_def sched_demo_def demo_task_def)
  have x: "task_pool trap_demo ! 1 = demo_task 1 THREAD_READY" by (simp add: trap_demo_def sched_demo_def)
  have md: "taskmode (task_pool trap_demo ! 1) \<in> {MODE_USER, MODE_KERN}" unfolding x by (simp add: demo_task_def)
  have abs: "trap_abs 1 trap_demo = (0, 0, 0)" unfolding trap_abs_def x by (simp add: trap_demo_def sched_demo_def demo_task_def)
  note nest = trap_nesting_correct [OF run md, where arch = RISCV64, unfolded x abs]
  have "monitors RISCV64 (mem trap_demo) (demo_task 1 THREAD_READY) [TrapEnter 0x1000, TrapEnter 0x8000, TrapExit, TrapExit] (0, 0, 0) =
      Some (0, 0x1000, STACK_BOTTOM 0)"
    "monitors RISCV64 (mem trap_demo) (demo_task 1 THREAD_READY) [TrapEnter 0x8000] (0, 0, 0) = None"
    by (simp_all add: trap_demo_modes demo_task_def del: get_reg_mode.simps)
  then show ?thesis
    using nest [of "[TrapEnter 0x1000, TrapEnter 0x8000, TrapExit, TrapExit]"] nest [of "[TrapEnter 0x8000]"]
    by (simp only: option.case simp_thms)
qed

end
