(* ===== verification/Sky_View.thy ===== *)
theory Sky_View
  imports Sky_Syscall
begin

text \<open>
  What the scheduler sees of the kernel's state: the task list, the current and the idle thread, and of
  each task whether it is in use, whose thread it has and the state of that thread. The operations on
  memory, page tables, files and registers are shown to leave this view alone, the operations on one task
  to leave the rest of it alone.
\<close>

section \<open>What the scheduler sees\<close>

text \<open>The part of the state on which the scheduler's invariant depends.\<close>

definition task_view :: "task_t \<Rightarrow> bool \<times> nat option \<times> thread_state" where
  "task_view x = (t_valid x, th_task (thread x), th_state (thread x))"

definition sched_view :: "'z task_state_scheme \<Rightarrow>
    lref links \<times> tref option \<times> nat option \<times> (bool \<times> nat option \<times> thread_state) list" where
  "sched_view s = (task_links s, cur_thread s, idle_task s, map task_view (task_pool s))"

lemma sched_view_updates [simp]:
  "sched_view (s\<lparr>mem := m\<rparr>) = sched_view s" "sched_view (s\<lparr>ints_on := b\<rparr>) = sched_view s"
  "sched_view (s\<lparr>small_kheap := h\<rparr>) = sched_view s" "sched_view (s\<lparr>large_kheap := h\<rparr>) = sched_view s"
  "sched_view (s\<lparr>pt_regs := r\<rparr>) = sched_view s" "sched_view (s\<lparr>filetab := ft\<rparr>) = sched_view s"
  "sched_view (s\<lparr>entry_kstack := e\<rparr>) = sched_view s"
  by (simp_all add: sched_view_def)

lemma keeps_upd_task_view [keeps_intros]:
  assumes "\<And>x. task_view (f x) = task_view x"
  shows "keeps sched_view (upd_task t f)"
proof -
  have "map task_view (p[i := f (p ! i)]) = map task_view p" if "i < length p" for i and p :: "task_t list"
    using that assms by (simp add: list_eq_iff_nth_eq nth_list_update)
  then show ?thesis
    by (auto simp: keeps_def upd_task_def get_task_def kop_defs sched_view_def split: option.splits if_splits)
qed

text \<open>Loops: an operation repeated keeps what each round keeps.\<close>

lemma keeps_khang:
  assumes "\<And>s a s'. f s = Some (Inr (a, s')) \<Longrightarrow> g s' = g s"
  shows "keeps g (khang f)"
  using assms by (auto simp: keeps_def khang_def split: option.splits)

lemma for_each_keeps:
  fixes lk :: "'s \<Rightarrow> 'r links"
  assumes "for_each_loop lk h body pos s = Some r" "\<forall>p. keeps g (body p)" "r = Inr (a, s')"
  shows "g s' = g s"
proof -
  have "(\<forall>p. keeps g (body p)) \<longrightarrow> (\<forall>a s'. r = Inr (a, s') \<longrightarrow> g s' = g s)"
  proof (rule for_each_loop.raw_induct [OF _ assms(1),
        where P = "\<lambda>lk h body pos s r. (\<forall>p. keeps g (body p)) \<longrightarrow> (\<forall>a s'. r = Inr (a, s') \<longrightarrow> g s' = g s)"])
    fix loop :: "('s \<Rightarrow> 'r links) \<Rightarrow> 'r \<Rightarrow> ('r \<Rightarrow> ('s, unit) kop) \<Rightarrow> 'r option \<Rightarrow> 's \<Rightarrow> (kerr + unit \<times> 's) option"
      and lk h body pos s r
    assume IH: "\<And>lk h body pos s r. loop lk h body pos s = Some r \<Longrightarrow>
        (\<forall>p. keeps g (body p)) \<longrightarrow> (\<forall>a s'. r = Inr (a, s') \<longrightarrow> g s' = g s)"
      and eq: "(case pos of None \<Rightarrow> Some (Inl (Fault ''list: NULL''))
        | Some p \<Rightarrow> if p = h then Some (Inr ((), s))
            else (case body p s of Inl e \<Rightarrow> Some (Inl e) | Inr (u, s') \<Rightarrow> loop lk h body (next_of (lk s') p) s')) = Some r"
    show "(\<forall>p. keeps g (body p)) \<longrightarrow> (\<forall>a s'. r = Inr (a, s') \<longrightarrow> g s' = g s)"
    proof (intro impI allI)
      fix a s' assume k: "\<forall>p. keeps g (body p)" and r: "r = Inr (a, s')"
      show "g s' = g s"
        using eq r IH k keepsD [OF spec [OF k]]
        by (auto split: option.splits if_splits sum.splits)
    qed
  qed
  then show ?thesis using assms(2,3) by blast
qed

lemma keeps_list_for_each [keeps_intros]: "(\<And>p. keeps g (body p)) \<Longrightarrow> keeps g (list_for_each lk h body)"
  unfolding list_for_each_def list_for_each_from_def
  by (intro keeps_intros keeps_khang) (rule for_each_keeps, assumption, blast, rule refl)

section \<open>Operations the scheduler does not see\<close>

text \<open>Memory, page tables, files and the registers of the CPU.\<close>

lemma keeps_filesys [keeps_intros]:
  "keeps g m \<Longrightarrow> keeps g n \<Longrightarrow> keeps g (case fs of TarFs \<Rightarrow> m | StdioFs \<Rightarrow> n)"
  by (cases fs) simp_all

lemma keeps_get_heap [keeps_intros]: "keeps g (get_heap_for_type k)"
  by (cases k) (simp_all add: get_heap_for_type_def keeps_intros)

lemma keeps_alloc_page [keeps_intros]: "keeps sched_view (alloc_page k)"
  by (simp add: alloc_page_def keeps_intros set_alloc_map_def)

lemma keeps_free_page [keeps_intros]: "keeps sched_view (free_page p k)"
  by (simp add: free_page_def Let_def keeps_intros set_alloc_map_def)

lemma keeps_pte_update [keeps_intros]: "keeps sched_view (pte_update e f)"
  by (simp add: pte_update_def keeps_intros)

lemma keeps_alloc_pagetable [keeps_intros]: "keeps sched_view alloc_pagetable"
  by (simp add: alloc_pagetable_def keeps_intros)

lemma keeps_map_page_loop [keeps_intros]: "keeps sched_view (map_page_loop ops va l n pt)"
  by (induction n arbitrary: pt) (simp_all add: Let_def keeps_intros)

lemma keeps_map_page [keeps_intros]: "keeps sched_view (map_page ops pt va pa sz priv)"
  by (simp add: map_page_def Let_def keeps_intros)

lemma keeps_page_set_cache_policy [keeps_intros]: "keeps sched_view (page_set_cache_policy ops pt va pol)"
  by (simp add: page_set_cache_policy_def keeps_intros)

lemma keeps_unmap_page [keeps_intros]: "keeps sched_view (unmap_page ops pt va)"
  by (simp add: unmap_page_def keeps_intros)

lemma keeps_map_kernel [keeps_intros]: "keeps sched_view (map_kernel ops pt)"
  by (simp add: map_kernel_def Let_def keeps_intros)

lemma keeps_unmap_kernel [keeps_intros]: "keeps sched_view (unmap_kernel ops pt)"
  by (simp add: unmap_kernel_def Let_def keeps_intros)

lemma keeps_free_pagetable_recursive [keeps_intros]: "keeps sched_view (free_pagetable_recursive ops n pt)"
  by (induction n arbitrary: pt) (simp_all add: keeps_intros)

lemma keeps_free_pagetable [keeps_intros]: "keeps sched_view (free_pagetable ops pt)"
  by (simp add: free_pagetable_def keeps_intros)

lemma keeps_files [keeps_intros]:
  "keeps g (get_file f)" "keeps sched_view (upd_file f h)" "keeps sched_view file_alloc" "keeps sched_view (file_free f)"
  "keeps g (file_fs f)"
  by (simp_all add: get_file_def upd_file_def file_alloc_def file_free_def file_fs_def keeps_intros)

lemma keeps_file_open [keeps_intros]: "keeps sched_view (file_open path)"
  by (simp add: file_open_def tar_open_def stdio_open_def find_display_file_def is_display_active_def Let_def keeps_intros)

lemma keeps_file_dup [keeps_intros]: "keeps sched_view (file_dup f)" "keeps sched_view (dup_fd x i)"
  by (simp_all add: dup_fd_def file_dup_def tar_dup_def stdio_dup_def keeps_intros)

lemma keeps_file_close [keeps_intros]: "keeps sched_view (file_close f)"
  by (simp add: file_close_def tar_close_def stdio_close_def keeps_intros)

lemma keeps_tar_read_at [keeps_intros]: "keeps sched_view (tar_read_at f b n off)"
  by (simp add: tar_read_at_def tar_read_raw_def Let_def keeps_intros)

lemma keeps_load_elf [keeps_intros]: "keeps sched_view (load_elf arch h lc pt elf)" "keeps sched_view (elf_entrypoint e elf)"
  by (simp_all add: load_elf_def load_seg_def load_seg_page_def elf_entrypoint_def Let_def keeps_intros)

lemma keeps_threads [keeps_intros]: "keeps g (get_thread th)" "keeps g current_thread" "keeps g current_task"
  by (auto simp: get_thread_def current_thread_def current_task_def keeps_intros split: option.split tref.split)

lemma keeps_pagetable_regs [keeps_intros]: "keeps sched_view (cpu_set_pagetable arch pt)"
  by (cases arch) (simp_all add: cpu_set_pagetable.simps x86_cpu_set_pagetable_def arm_cpu_set_pagetable_def
      riscv_cpu_set_pagetable_def keeps_intros)

lemma keeps_entry_kstack [keeps_intros]: "keeps sched_view (cpu_set_entry_kstack arch th)"
  by (cases arch) (simp_all add: keeps_intros)

lemma keeps_ints [keeps_intros]: "keeps sched_view (cpu_set_ints b)" "keeps g assert_ints_off"
  by (simp_all add: cpu_set_ints_def cpu_ints_enabled_def cpu_enable_ints_def cpu_disable_ints_def assert_ints_off_def keeps_intros)

lemma keeps_copyin [keeps_intros]: "keeps sched_view (copyin ops t b va n)"
  by (simp add: copyin_def access_ok_def keeps_intros)

lemma keeps_copyin_one: "keeps sched_view (copyin_one_arg ops pt pg av argc c)"
  by (simp add: copyin_one_arg_def keeps_intros)

lemma copyin_args_keeps:
  fixes s :: "'z task_state_scheme"
  assumes "copyin_args_loop ops pt pg av argc c s = Some r" "r = Inr (a, s')"
  shows "sched_view s' = sched_view s"
proof -
  have "\<forall>a s'. r = Inr (a, s') \<longrightarrow> sched_view s' = sched_view s"
    by (rule copyin_args_loop.raw_induct [OF _ assms(1),
        where P = "\<lambda>ops pt pg av argc c (s :: 'z task_state_scheme) r. \<forall>a s'. r = Inr (a, s') \<longrightarrow> sched_view s' = sched_view s"])
      (auto split: if_splits sum.splits option.splits prod.splits dest!: keepsD [OF keeps_copyin_one])
  then show ?thesis using assms(2) by blast
qed

lemma keeps_copyin_args_loop [keeps_intros]: "keeps sched_view (khang (copyin_args_loop ops pt pg av argc c))"
  by (rule keeps_khang) (rule copyin_args_keeps, assumption, rule refl)

lemma keeps_set_reg_args [keeps_intros]: "keeps sched_view (set_reg_args arch r n)"
  by (simp add: set_reg_args_def keeps_intros)

lemma keeps_copyin_args [keeps_intros]: "keeps sched_view (copyin_args arch t av)"
  by (simp add: copyin_args_def Let_def keeps_intros)

section \<open>Operations on one task\<close>

text \<open>The view with one task and its link hidden: what an operation on a task that is not in the list keeps.\<close>

fun hide where
  "hide i (k, c, d, vs) = (c, d, length vs, \<lambda>j. if j = i then None else Some (vs ! j),
     (next_of k)(TaskLink i := None), (prev_of k)(TaskLink i := None))"

definition others_view where "others_view i s = hide i (sched_view s)"

lemma keeps_others: "keeps sched_view m \<Longrightarrow> keeps (others_view i) m"
  by (simp add: keeps_def others_view_def)

lemma keeps_others_upd_task [keeps_intros]: "keeps (others_view i) (upd_task (Some i) f)"
  by (auto simp: keeps_def upd_task_def get_task_def kop_defs others_view_def sched_view_def fun_eq_iff map_update
      split: if_splits)

lemma keeps_others_links [keeps_intros]:
  assumes "\<And>k. (next_of (f k))(TaskLink i := None) = (next_of k)(TaskLink i := None)"
    "\<And>k. (prev_of (f k))(TaskLink i := None) = (prev_of k)(TaskLink i := None)"
  shows "keeps (others_view i) (upd_links (\<lambda>k. Inr (f k)))"
  using assms by (auto simp: keeps_def upd_links_def kop_defs others_view_def sched_view_def)

text \<open>The part of the scheduler's invariant that holds from the first task on: the list and whose threads it holds.\<close>

definition list_inv :: "nat list \<Rightarrow> 'z task_state_scheme \<Rightarrow> bool" where
  "list_inv xs s \<longleftrightarrow> length (task_pool s) = MAX_TASKS \<and> dlist (task_links s) ListHead (map TaskLink xs) \<and>
     (\<forall>i \<in> set xs. i < MAX_TASKS \<and> t_valid (task_pool s ! i) \<and> th_task (thread (task_pool s ! i)) = Some i)"

lemma sched_inv_list:
  "sched_inv xs s \<longleftrightarrow> list_inv xs s \<and> (\<exists>d \<in> set xs. idle_task s = Some d \<and> state_of s d = THREAD_READY) \<and>
     (\<exists>c \<in> set xs. cur_thread s = Some (TaskThread c))"
  by (auto simp: sched_inv_def list_inv_def state_of_def)

lemma list_inv_task: "list_inv xs s \<Longrightarrow> i \<in> set xs \<Longrightarrow> i < length (task_pool s) \<and> th_task (thread (task_pool s ! i)) = Some i"
  by (auto simp: list_inv_def)

text \<open>The invariant of the tasks of the list survives whatever happens to other tasks.\<close>

lemma list_inv_others:
  assumes "list_inv xs s" "i \<notin> set xs" "others_view i s' = others_view i s"
  shows "list_inv xs s'" "cur_thread s' = cur_thread s" "idle_task s' = idle_task s"
    "length (task_pool s') = length (task_pool s)" "j \<in> set xs \<Longrightarrow> task_view (task_pool s' ! j) = task_view (task_pool s ! j)"
proof -
  have eqs: "cur_thread s' = cur_thread s" "idle_task s' = idle_task s" "length (task_pool s') = length (task_pool s)"
    and tv: "(\<lambda>j. if j = i then None else Some (map task_view (task_pool s') ! j)) =
      (\<lambda>j. if j = i then None else Some (map task_view (task_pool s) ! j))"
    and lk: "(next_of (task_links s'))(TaskLink i := None) = (next_of (task_links s))(TaskLink i := None)"
      "(prev_of (task_links s'))(TaskLink i := None) = (prev_of (task_links s))(TaskLink i := None)"
    using assms(3) by (simp_all add: others_view_def sched_view_def)
  then show "cur_thread s' = cur_thread s" "idle_task s' = idle_task s" "length (task_pool s') = length (task_pool s)" by auto
  have tvj: "task_view (task_pool s' ! j) = task_view (task_pool s ! j)" if "j \<in> set xs" for j
  proof -
    have j: "j < length (task_pool s)" "j \<noteq> i" using list_inv_task [OF assms(1) that] assms(2) that by auto
    then show ?thesis using fun_cong [OF tv, of j] eqs(3) by simp
  qed
  then show "j \<in> set xs \<Longrightarrow> task_view (task_pool s' ! j) = task_view (task_pool s ! j)" .
  have off: "next_of (task_links s') l = next_of (task_links s) l" "prev_of (task_links s') l = prev_of (task_links s) l"
    if "l \<noteq> TaskLink i" for l
    using fun_cong [OF lk(1), of l] fun_cong [OF lk(2), of l] that by auto
  have "dlist (task_links s') ListHead (map TaskLink xs)"
  proof -
    have d: "dlist (task_links s) ListHead (map TaskLink xs)" using assms(1) by (simp add: list_inv_def)
    have "linked (task_links s') (ListHead # map TaskLink xs @ [ListHead]) = linked (task_links s) (ListHead # map TaskLink xs @ [ListHead])"
    proof (rule linked_cong)
      have ne: "l \<noteq> TaskLink i" if "l \<in> set (ListHead # map TaskLink xs @ [ListHead])" for l using that assms(2) by auto
      show "next_of (task_links s') l = next_of (task_links s) l" if "l \<in> set (butlast (ListHead # map TaskLink xs @ [ListHead]))" for l
        by (rule off, rule ne) (rule in_set_butlastD [OF that])
      show "prev_of (task_links s') l = prev_of (task_links s) l" if "l \<in> set (tl (ListHead # map TaskLink xs @ [ListHead]))" for l
        by (rule off, rule ne) (use that in auto)
    qed
    then show ?thesis using d by (simp add: dlist_def)
  qed
  then show "list_inv xs s'"
    using assms(1) tvj eqs by (auto simp: list_inv_def task_view_def)
qed

lemma list_inv_view:
  fixes s s' :: "'z task_state_scheme"
  assumes "list_inv xs s" "sched_view s' = sched_view s"
  shows "list_inv xs s'" "j \<in> set xs \<Longrightarrow> task_view (task_pool s' ! j) = task_view (task_pool s ! j)"
proof -
  have tv: "map task_view (task_pool s') = map task_view (task_pool s)" and lk: "task_links s' = task_links s"
    using assms(2) by (simp_all add: sched_view_def)
  have len: "length (task_pool s') = length (task_pool s)" using arg_cong [OF tv, of length] by simp
  have "task_view (task_pool s' ! j) = task_view (task_pool s ! j)" if "j < length (task_pool s)" for j
    using arg_cong [OF tv, of "\<lambda>v. v ! j"] that len by simp
  then have j: "task_view (task_pool s' ! j) = task_view (task_pool s ! j)" if "j \<in> set xs" for j
    using that list_inv_task [OF assms(1)] by blast
  then show "j \<in> set xs \<Longrightarrow> task_view (task_pool s' ! j) = task_view (task_pool s ! j)" .
  show "list_inv xs s'" using assms(1) j lk len by (auto simp: list_inv_def task_view_def)
qed

lemma keeps_free_task: "keeps (others_view i) (free_task ops (Some i))"
proof -
  have o: "keeps (others_view i) (list_for_each task_links ListHead (orphan_body (Some i)))"
    by (rule keeps_others) (auto simp: orphan_body_def task_view_def intro!: keeps_intros)
  have c: "keeps (others_view i) (close_fd (Some i) n)" for n
    by (rule keeps_others) (simp add: close_fd_def keeps_intros)
  show ?thesis
    unfolding free_task_def free_thread_def
    by (intro keeps_intros o c keeps_others [OF keeps_unmap_kernel] keeps_others [OF keeps_free_pagetable] keeps_others [OF keeps_free_page])
qed

end
