(* ===== verification/Sky_Steps.thy ===== *)
theory Sky_Steps
  imports Sky_View
begin

text \<open>
  The kernel as a transition system. A thread runs inside the kernel until it gives up the CPU; what it
  does to the scheduler's data up to the context switch is one step. The steps are the operations of the
  source: creating tasks, switching, sleeping, waking, exiting and interrupting. The invariant of the
  reachable states is proved by rule induction; it is stated for runs of any length and any order of the
  steps.
\<close>

section \<open>New tasks\<close>

text \<open>Two facts about the task under construction, both functions of the view.\<close>

definition slot_valid :: "nat \<Rightarrow> 'z task_state_scheme \<Rightarrow> bool" where
  "slot_valid i s \<longleftrightarrow> i < length (task_pool s) \<and> t_valid (task_pool s ! i)"

definition slot_ready :: "nat \<Rightarrow> 'z task_state_scheme \<Rightarrow> bool" where
  "slot_ready i s \<longleftrightarrow> i < length (task_pool s) \<and> task_view (task_pool s ! i) = (True, Some i, THREAD_READY)"

lemma slot_of_view:
  "slot_valid i s = (let vs = snd (snd (snd (sched_view s))) in i < length vs \<and> fst (vs ! i))"
  "slot_ready i s = (let vs = snd (snd (snd (sched_view s))) in i < length vs \<and> vs ! i = (True, Some i, THREAD_READY))"
  by (auto simp: slot_valid_def slot_ready_def sched_view_def task_view_def Let_def)

lemma keeps_slot: "keeps sched_view m \<Longrightarrow> keeps (slot_valid i) m" "keeps sched_view m \<Longrightarrow> keeps (slot_ready i) m"
  by (simp_all add: keeps_def slot_of_view)

lemma keeps_slot_upd_task [keeps_intros]: "(\<And>x. t_valid (f x) = t_valid x) \<Longrightarrow> keeps (slot_valid i) (upd_task t f)"
  by (auto simp: keeps_def upd_task_def get_task_def kop_defs slot_valid_def nth_list_update split: option.splits if_splits)

text \<open>\<open>create_empty_task\<close> takes a task that was not in use and touches no other.\<close>

lemma create_empty_task_view:
  fixes s :: "'z task_state_scheme"
  assumes "create_empty_task arch name s = Inr (r, s')"
  obtains i where "r = Some i" "\<not> slot_valid i s" "slot_valid i s'" "others_view i s' = others_view i s"
proof -
  obtain i where i: "find_from (\<lambda>i. length (task_pool s) \<le> i \<or> \<not> t_valid (task_pool s ! i)) 0 MAX_TASKS = Some i"
    using assms by (auto simp: create_empty_task_def kop_simps split: option.splits)
  define rest :: "('z task_state_scheme, nat option) kop" where "rest = kseq (upd_task (Some i) (\<lambda>x. x\<lparr>fds := replicate TASK_NUM_FILES None\<rparr>))
     (kseq (upd_task (Some i) (\<lambda>x. x\<lparr>parent := None, waiting_child := None, child_exit_code := 0, pending_sigint := False,
        thread := (thread x)\<lparr>th_state := THREAD_STATE_NONE\<rparr>, taskmode := CPU_MODE_UNDEFINED\<rparr>))
     (kbind alloc_pagetable (\<lambda>pt.
     kseq (upd_task (Some i) (\<lambda>x. x\<lparr>pagetable := pt\<rparr>))
     (kseq (kassert (pt \<noteq> 0) ''assert'')
     (kseq (map_kernel (isa_pte arch) pt)
     (kbind (kgets (\<lambda>s. copy_name name (mem s))) (\<lambda>nm.
     kseq (upd_task (Some i) (\<lambda>x. x\<lparr>taskname := nm\<rparr>))
     (kreturn (Some i)))))))))"
  define front :: "('z task_state_scheme, unit) kop" where "front = kseq (upd_task (Some i) (\<lambda>_. zero_task))
    (kseq (upd_links (\<lambda>k. Inr (k\<lparr>next_of := (next_of k)(TaskLink i := None), prev_of := (prev_of k)(TaskLink i := None)\<rparr>)))
    (upd_task (Some i) (\<lambda>x. x\<lparr>t_valid := True\<rparr>)))"
  have run: "kseq front rest s = Inr (r, s')"
    using assms i by (simp add: create_empty_task_def kop_simps Let_def front_def rest_def kseq_assoc)
  then obtain s1 where f: "front s = Inr ((), s1)" and b: "rest s1 = Inr (r, s')" by (auto elim!: kseq_InrE)
  have kf: "keeps (others_view i) front"
    unfolding front_def by (intro keeps_intros) (simp_all add: fun_eq_iff)
  have kr: "keeps (others_view i) rest"
    unfolding rest_def by (intro keeps_intros keeps_others [OF keeps_map_kernel] keeps_others [OF keeps_alloc_pagetable])
  have "r = Some i" using b by (auto simp: rest_def kop_simps elim!: kseq_InrE kbind_InrE)
  moreover have "\<not> slot_valid i s" using find_from_Some [OF i] by (auto simp: slot_valid_def)
  moreover have "slot_valid i s1"
    using f by (auto simp: front_def slot_valid_def upd_task_def get_task_def kop_simps elim!: kseq_InrE kbind_InrE split: if_splits)
  moreover have "keeps (slot_valid i) rest"
    unfolding rest_def by (intro keeps_intros keeps_slot [OF keeps_map_kernel] keeps_slot [OF keeps_alloc_pagetable]) simp_all
  then have "slot_valid i s' = slot_valid i s1" using b by (rule keepsD)
  moreover have "others_view i s' = others_view i s" using keepsD [OF kf f] keepsD [OF kr b] by simp
  ultimately show thesis by (intro that) simp_all
qed

text \<open>A thread that has been set up is ready and belongs to its task.\<close>

lemma setup_blank_view:
  assumes "setup_blank_thread (Some i) s = Inr (u, s')" "slot_valid i s"
  shows "slot_ready i s'" "others_view i s' = others_view i s"
proof -
  have "keeps (others_view i) (setup_blank_thread (Some i))"
    unfolding setup_blank_thread_def
    by (intro keeps_intros keeps_others [OF keeps_alloc_page]) (simp_all add: list_init_def fun_eq_iff)
  then show "others_view i s' = others_view i s" using assms(1) by (rule keepsD)
  obtain pg s1 where a: "alloc_page PAGE_SMALL s = Inr (pg, s1)"
    and r: "kseq (upd_task (Some i) (\<lambda>x. x\<lparr>thread := (thread x)\<lparr>kstack_pg := pg, th_state := THREAD_READY, uregs := 0,
        th_task := Some i, sleep_reason := None, saved_sp := STACK_BOTTOM pg, trapdepth := 0\<rparr>\<rparr>))
      (kseq (upd_links (\<lambda>k. Inr (list_init (TaskLink (the (Some i))) k))) (kassert (0 \<noteq> pg) ''assert'')) s1 = Inr (u, s')"
    using assms(1) unfolding setup_blank_thread_def by (rule kbind_InrE)
  have "slot_valid i s1" using keepsD [OF keeps_slot(1) [OF keeps_alloc_page] a] assms(2) by simp
  then show "slot_ready i s'"
    using r by (auto simp: slot_valid_def slot_ready_def task_view_def upd_task_def get_task_def upd_links_def kop_simps
        split: if_splits elim!: kseq_InrE kbind_InrE)
qed

lemma setup_then:
  assumes "kseq (setup_blank_thread (Some i)) rest s = Inr (a, s')" "slot_valid i s" "keeps sched_view rest"
  shows "slot_ready i s' \<and> others_view i s' = others_view i s"
proof -
  obtain u s1 where b: "setup_blank_thread (Some i) s = Inr (u, s1)" and r: "rest s1 = Inr (a, s')"
    using assms(1) by (rule kseq_InrE)
  show ?thesis
    using setup_blank_view [OF b assms(2)] keepsD [OF keeps_slot(2) [OF assms(3)] r] keepsD [OF keeps_others [OF assms(3)] r] by simp
qed

lemma setup_kernel_view:
  assumes "setup_kernel_thread arch (Some i) e s = Inr (u, s')" "slot_valid i s"
  shows "slot_ready i s' \<and> others_view i s' = others_view i s"
  by (rule setup_then [OF assms(1) [unfolded setup_kernel_thread_def] assms(2)]) (simp add: Let_def keeps_intros task_view_def)

lemma setup_user_view:
  assumes "setup_user_thread arch j (Some i) e s = Inr (u, s')" "slot_valid i s"
  shows "slot_ready i s' \<and> others_view i s' = others_view i s"
  by (rule setup_then [OF assms(1) [unfolded setup_user_thread_def] assms(2)]) (simp add: Let_def keeps_intros task_view_def)

text \<open>A task that is ready enters the list at its front.\<close>

lemma list_add_view:
  assumes "upd_links (list_add (TaskLink i) ListHead) s = Inr (u, s')" "list_inv xs s" "i \<notin> set xs" "slot_ready i s"
  shows "list_inv (i # xs) s'" "task_pool s' = task_pool s" "cur_thread s' = cur_thread s" "idle_task s' = idle_task s"
proof -
  have "dlist (task_links s) ListHead (map TaskLink xs)" using assms(2) by (simp add: list_inv_def)
  moreover have "TaskLink i \<notin> set (map TaskLink xs)" using assms(3) by auto
  ultimately obtain k where k: "list_add (TaskLink i) ListHead (task_links s) = Inr k" "dlist k ListHead (map TaskLink (i # xs))"
    using list_add_dlist [of "task_links s" ListHead "map TaskLink xs" "TaskLink i"] by auto
  then have s': "s' = s\<lparr>task_links := k\<rparr>" using assms(1) by (simp add: upd_links_def kop_simps)
  show "list_inv (i # xs) s'" "task_pool s' = task_pool s" "cur_thread s' = cur_thread s" "idle_task s' = idle_task s"
    using assms(2,4) k(2) by (auto simp: s' list_inv_def slot_ready_def task_view_def)
qed

section \<open>The invariant\<close>

text \<open>
  The list of tasks is well formed, its threads belong to their tasks, the idle thread is ready, the thread
  that runs is in the list and ready, and at most one task of the list has ended and waits to be freed.
\<close>

definition kinv :: "nat list \<Rightarrow> 'z task_state_scheme \<Rightarrow> bool" where
  "kinv xs s \<longleftrightarrow> sched_inv xs s \<and>
     (\<exists>c \<in> set xs. cur_thread s = Some (TaskThread c) \<and> state_of s c = THREAD_READY) \<and>
     (\<forall>i \<in> set xs. \<forall>j \<in> set xs. state_of s i = THREAD_ZOMBIE \<and> state_of s j = THREAD_ZOMBIE \<longrightarrow> i = j)"

definition same_tasks :: "nat list \<Rightarrow> 'z task_state_scheme \<Rightarrow> 'z task_state_scheme \<Rightarrow> bool" where
  "same_tasks xs s s' \<longleftrightarrow> cur_thread s' = cur_thread s \<and> idle_task s' = idle_task s \<and>
     (\<forall>j \<in> set xs. task_view (task_pool s' ! j) = task_view (task_pool s ! j))"

lemma kinv_same: "kinv xs s \<Longrightarrow> list_inv xs s' \<Longrightarrow> same_tasks xs s s' \<Longrightarrow> kinv xs s'"
  by (auto simp: kinv_def sched_inv_list same_tasks_def state_of_def task_view_def)

lemma kinv_cons: "kinv xs s \<Longrightarrow> list_inv (i # xs) s' \<Longrightarrow> same_tasks xs s s' \<Longrightarrow> slot_ready i s' \<Longrightarrow> kinv (i # xs) s'"
  by (auto simp: kinv_def sched_inv_list same_tasks_def state_of_def task_view_def slot_ready_def)

lemma view_same:
  fixes s s' :: "'z task_state_scheme"
  assumes "list_inv xs s" "sched_view s' = sched_view s"
  shows "list_inv xs s'" "same_tasks xs s s'"
  using list_inv_view [OF assms] assms(2) by (auto simp: same_tasks_def sched_view_def)

lemma kinv_list: "kinv xs s \<Longrightarrow> list_inv xs s"
  by (simp add: kinv_def sched_inv_list)

lemma kinv_view:
  fixes s s' :: "'z task_state_scheme"
  shows "kinv xs s \<Longrightarrow> sched_view s' = sched_view s \<Longrightarrow> kinv xs s'"
  using kinv_same view_same kinv_list by blast

lemma others_same:
  assumes "list_inv xs s" "i \<notin> set xs" "others_view i s' = others_view i s"
  shows "list_inv xs s'" "same_tasks xs s s'"
  using list_inv_others [OF assms] by (auto simp: same_tasks_def)

lemma slot_not_listed: "list_inv xs s \<Longrightarrow> \<not> slot_valid i s \<Longrightarrow> i \<notin> set xs"
  by (auto simp: list_inv_def slot_valid_def)

lemma spawn_kernel_view:
  fixes s :: "'z task_state_scheme"
  assumes s: "list_inv xs s" and run: "task_spawn_kernel arch nm path e s = Inr (r, s')"
  shows "\<exists>i. r = Some i \<and> i \<notin> set xs \<and> list_inv (i # xs) s' \<and> same_tasks xs s s' \<and> slot_ready i s'"
proof -
  obtain t s1 where c: "create_empty_task arch nm s = Inr (t, s1)"
    and rest: "(if t = None then kreturn None
       else
         kbind (file_open path) (\<lambda>f0.
         kseq (set_fd t FD_STDIN f0)
         (kbind (file_open path) (\<lambda>f1.
         kseq (set_fd t FD_STDOUT f1)
         (kbind (file_open path) (\<lambda>f2.
         kseq (set_fd t FD_STDERR f2)
         (kseq (setup_kernel_thread arch t e)
         (kseq (upd_links (list_add (TaskLink (the t)) ListHead))
         (kreturn t))))))))) s1 = Inr (r, s')"
    using run unfolding task_spawn_kernel_def by (rule kbind_InrE)
  obtain i where i: "t = Some i" "\<not> slot_valid i s" "slot_valid i s1" "others_view i s1 = others_view i s"
    by (rule create_empty_task_view [OF c])
  define opens :: "('z task_state_scheme, unit) kop" where "opens =
     kbind (file_open path) (\<lambda>f0. kseq (set_fd t FD_STDIN f0)
     (kbind (file_open path) (\<lambda>f1. kseq (set_fd t FD_STDOUT f1)
     (kbind (file_open path) (\<lambda>f2. set_fd t FD_STDERR f2)))))"
  have ko: "keeps sched_view opens" by (simp add: opens_def set_fd_def keeps_intros task_view_def)
  have "kseq opens (kseq (setup_kernel_thread arch t e) (kseq (upd_links (list_add (TaskLink i) ListHead)) (kreturn t))) s1 = Inr (r, s')"
    using rest i(1) by (simp add: opens_def kseq_def kbind_assoc)
  then obtain u1 s2 where o: "opens s1 = Inr (u1, s2)"
    and r2: "kseq (setup_kernel_thread arch t e) (kseq (upd_links (list_add (TaskLink i) ListHead)) (kreturn t)) s2 = Inr (r, s')"
    by (rule kseq_InrE)
  from r2 obtain u2 s3 where k: "setup_kernel_thread arch (Some i) e s2 = Inr (u2, s3)"
    and r3: "kseq (upd_links (list_add (TaskLink i) ListHead)) (kreturn t) s3 = Inr (r, s')"
    unfolding i(1) by (rule kseq_InrE)
  from r3 obtain u3 s4 where a: "upd_links (list_add (TaskLink i) ListHead) s3 = Inr (u3, s4)"
    and r4: "kreturn t s4 = Inr (r, s')" by (rule kseq_InrE)
  have "s' = s4" and r: "r = Some i" using r4 i(1) by (simp_all add: kop_simps)
  have ni: "i \<notin> set xs" using slot_not_listed [OF s i(2)] .
  have "slot_valid i s2" using keepsD [OF keeps_slot(1) [OF ko] o] i(3) by simp
  then have s3: "slot_ready i s3" "others_view i s3 = others_view i s"
    using setup_kernel_view [OF k] keepsD [OF keeps_others [OF ko] o] i(4) by auto
  note o3 = others_same [OF s ni s3(2)]
  note add = list_add_view [OF a o3(1) ni s3(1)]
  have "same_tasks xs s s4" using o3(2) add by (simp add: same_tasks_def)
  moreover have "slot_ready i s4" using s3(1) add by (simp add: slot_ready_def)
  ultimately show ?thesis using add(1) ni r \<open>s' = s4\<close> by blast
qed

lemma create_user_view:
  fixes s :: "'z task_state_scheme"
  assumes s: "list_inv xs s" and run: "create_user_task_elf arch j fr exe s = Inr (r, s')"
  shows "case r of None \<Rightarrow> list_inv xs s' \<and> same_tasks xs s s'
    | Some i \<Rightarrow> i \<notin> set xs \<and> slot_ready i s' \<and> others_view i s' = others_view i s"
proof -
  obtain elf s1 where op: "file_open exe s = Inr (elf, s1)" and rest: "(case elf of None \<Rightarrow> kreturn None
       | Some f \<Rightarrow>
           kbind (create_empty_task arch exe) (\<lambda>t.
           kbind (get_task t) (\<lambda>x.
           kseq (kassert (fds x ! FD_STDIN = None) ''assert'')
           (kseq (kassert (fds x ! FD_STDOUT = None) ''assert'')
           (kseq (kassert (fds x ! FD_STDERR = None) ''assert'')
           (kbind (load_elf arch (at_header fr) (at_loadcmd fr) (pagetable x) f) (\<lambda>load_success.
             if \<not> load_success then kseq (free_task (isa_pte arch) t) (kreturn None)
             else
               kbind (elf_entrypoint (at_entry fr) f) (\<lambda>entry.
               kseq (setup_user_thread arch j t entry)
               (kseq (file_close f)
               (kreturn t)))))))))) s1 = Inr (r, s')"
    using run unfolding create_user_task_elf_def by (rule kbind_InrE)
  have v1: "sched_view s1 = sched_view s" using keepsD [OF keeps_file_open op] .
  note s1 = view_same [OF s v1]
  show ?thesis
  proof (cases elf)
    case None
    then show ?thesis using rest s1 by (auto simp: kop_simps)
  next
    case (Some f)
    then obtain t s2 where c: "create_empty_task arch exe s1 = Inr (t, s2)" and r2: "kbind (get_task t) (\<lambda>x.
           kseq (kassert (fds x ! FD_STDIN = None) ''assert'')
           (kseq (kassert (fds x ! FD_STDOUT = None) ''assert'')
           (kseq (kassert (fds x ! FD_STDERR = None) ''assert'')
           (kbind (load_elf arch (at_header fr) (at_loadcmd fr) (pagetable x) f) (\<lambda>load_success.
             if \<not> load_success then kseq (free_task (isa_pte arch) t) (kreturn None)
             else
               kbind (elf_entrypoint (at_entry fr) f) (\<lambda>entry.
               kseq (setup_user_thread arch j t entry)
               (kseq (file_close f)
               (kreturn t)))))))) s2 = Inr (r, s')"
      using rest by (auto elim: kbind_InrE)
    obtain i where i: "t = Some i" "\<not> slot_valid i s1" "slot_valid i s2" "others_view i s2 = others_view i s1"
      by (rule create_empty_task_view [OF c])
    have ni: "i \<notin> set xs" using slot_not_listed [OF s1(1) i(2)] .
    define load :: "('z task_state_scheme, bool) kop" where "load = kbind (get_task t) (\<lambda>x.
           kseq (kassert (fds x ! FD_STDIN = None) ''assert'')
           (kseq (kassert (fds x ! FD_STDOUT = None) ''assert'')
           (kseq (kassert (fds x ! FD_STDERR = None) ''assert'')
           (load_elf arch (at_header fr) (at_loadcmd fr) (pagetable x) f))))"
    have kl: "keeps sched_view load" by (simp add: load_def keeps_intros)
    have "kbind load (\<lambda>ok. if \<not> ok then kseq (free_task (isa_pte arch) t) (kreturn None)
             else
               kbind (elf_entrypoint (at_entry fr) f) (\<lambda>entry.
               kseq (setup_user_thread arch j t entry) (kseq (file_close f) (kreturn t)))) s2 = Inr (r, s')"
      using r2 by (simp add: load_def kbind_assoc kseq_def)
    then obtain ok s3 where l: "load s2 = Inr (ok, s3)" and r3: "(if \<not> ok then kseq (free_task (isa_pte arch) t) (kreturn None)
             else
               kbind (elf_entrypoint (at_entry fr) f) (\<lambda>entry.
               kseq (setup_user_thread arch j t entry) (kseq (file_close f) (kreturn t)))) s3 = Inr (r, s')"
      by (rule kbind_InrE)
    have v3: "slot_valid i s3" "others_view i s3 = others_view i s"
      using keepsD [OF keeps_slot(1) [OF kl] l] keepsD [OF keeps_others [OF kl] l] i v1 by (simp_all add: others_view_def)
    show ?thesis
    proof (cases ok)
      case False
      then obtain u where fr: "free_task (isa_pte arch) (Some i) s3 = Inr (u, s')" and r: "r = None"
        using r3 i(1) by (auto simp: kop_simps elim!: kseq_InrE)
      have "others_view i s' = others_view i s" using keepsD [OF keeps_free_task fr] v3(2) by simp
      then show ?thesis using others_same [OF s ni] r by simp
    next
      case True
      then have "kbind (elf_entrypoint (at_entry fr) f) (\<lambda>entry.
          kseq (setup_user_thread arch j (Some i) entry) (kseq (file_close f) (kreturn (Some i)))) s3 = Inr (r, s')"
        using r3 i(1) by simp
      then obtain en s4 where en: "elf_entrypoint (at_entry fr) f s3 = Inr (en, s4)"
        and r4: "kseq (setup_user_thread arch j (Some i) en) (kseq (file_close f) (kreturn (Some i))) s4 = Inr (r, s')"
        by (rule kbind_InrE)
      from r4 obtain u s5 where su: "setup_user_thread arch j (Some i) en s4 = Inr (u, s5)"
        and r5: "kseq (file_close f) (kreturn (Some i)) s5 = Inr (r, s')"
        by (rule kseq_InrE)
      from r5 obtain v where cl: "file_close f s5 = Inr (v, s')" and r: "r = Some i"
        by (rule kseq_InrE) (simp add: kop_simps)
      have "slot_valid i s4" "others_view i s4 = others_view i s"
        using keepsD [OF keeps_slot(1) [OF keeps_load_elf(2)] en] keepsD [OF keeps_others [OF keeps_load_elf(2)] en] v3 by auto
      then have "slot_ready i s'" "others_view i s' = others_view i s"
        using setup_user_view [OF su] keepsD [OF keeps_slot(2) [OF keeps_file_close] cl] keepsD [OF keeps_others [OF keeps_file_close] cl]
        by auto
      then show ?thesis using r ni by simp
    qed
  qed
qed

lemma spawn_user_kinv:
  fixes s :: "'z task_state_scheme"
  assumes inv: "kinv xs s" and run: "spawn_user_task env fr path av cur s = Inr (r, s')"
  shows "kinv xs s' \<or> (\<exists>i. i \<notin> set xs \<and> kinv (i # xs) s')"
proof -
  have s: "list_inv xs s" using inv by (rule kinv_list)
  define tail :: "nat option \<Rightarrow> ('z task_state_scheme, bool) kop" where "tail t =
      kseq (upd_task t (\<lambda>x. x\<lparr>parent := cur\<rparr>))
          (kbind (get_task cur) (\<lambda>c.
          kbind (dup_fd c FD_STDIN) (\<lambda>f0.
          kseq (set_fd t FD_STDIN f0)
          (kbind (dup_fd c FD_STDOUT) (\<lambda>f1.
          kseq (set_fd t FD_STDOUT f1)
          (kbind (dup_fd c FD_STDERR) (\<lambda>f2.
          kseq (set_fd t FD_STDERR f2)
          (kseq (kassert (f0 \<noteq> None) ''assert'')
          (kseq (kassert (f1 \<noteq> None) ''assert'')
          (kseq (kassert (f2 \<noteq> None) ''assert'')
          (copyin_args (k_arch env) t av)))))))))))" for t
  have kt: "keeps sched_view (tail t)" for t by (simp add: tail_def set_fd_def keeps_intros task_view_def)
  have "kbind (create_user_task_elf (k_arch env) (k_jump_to_user env) fr path) (\<lambda>t.
        if t = None then kreturn None
        else kbind (tail t) (\<lambda>ok.
            if \<not> ok then
              kseq (upd_task t (\<lambda>x. x\<lparr>thread := (thread x)\<lparr>th_state := THREAD_ZOMBIE\<rparr>\<rparr>))
              (kseq (free_task (isa_pte (k_arch env)) t)
              (kreturn None))
            else
              kseq (upd_links (list_add (TaskLink (the t)) ListHead))
              (kreturn t))) s = Inr (r, s')"
    using run by (simp add: spawn_user_task_def Let_def tail_def kbind_assoc kseq_def cong: if_cong)
  then obtain t s1 where c: "create_user_task_elf (k_arch env) (k_jump_to_user env) fr path s = Inr (t, s1)"
    and rest: "(if t = None then kreturn None
        else kbind (tail t) (\<lambda>ok.
            if \<not> ok then
              kseq (upd_task t (\<lambda>x. x\<lparr>thread := (thread x)\<lparr>th_state := THREAD_ZOMBIE\<rparr>\<rparr>))
              (kseq (free_task (isa_pte (k_arch env)) t)
              (kreturn None))
            else
              kseq (upd_links (list_add (TaskLink (the t)) ListHead))
              (kreturn t))) s1 = Inr (r, s')"
    by (rule kbind_InrE)
  note view = create_user_view [OF s c]
  show ?thesis
  proof (cases t)
    case None
    then show ?thesis using view rest kinv_same [OF inv] by (auto simp: kop_simps)
  next
    case (Some i)
    then have ni: "i \<notin> set xs" and r1: "slot_ready i s1" and o1: "others_view i s1 = others_view i s" using view by auto
    obtain ok s2 where tl: "tail (Some i) s1 = Inr (ok, s2)" and r2: "(if \<not> ok then
              kseq (upd_task (Some i) (\<lambda>x. x\<lparr>thread := (thread x)\<lparr>th_state := THREAD_ZOMBIE\<rparr>\<rparr>))
              (kseq (free_task (isa_pte (k_arch env)) (Some i))
              (kreturn None))
            else
              kseq (upd_links (list_add (TaskLink i) ListHead))
              (kreturn (Some i))) s2 = Inr (r, s')"
      using rest Some by (auto elim: kbind_InrE cong: if_cong)
    have s2: "slot_ready i s2" "others_view i s2 = others_view i s"
      using keepsD [OF keeps_slot(2) [OF kt] tl] keepsD [OF keeps_others [OF kt] tl] r1 o1 by auto
    show ?thesis
    proof (cases ok)
      case False
      then obtain s3 where z: "upd_task (Some i) (\<lambda>x. x\<lparr>thread := (thread x)\<lparr>th_state := THREAD_ZOMBIE\<rparr>\<rparr>) s2 = Inr ((), s3)"
        and f: "free_task (isa_pte (k_arch env)) (Some i) s3 = Inr ((), s')"
        using r2 by (auto simp: kop_simps elim!: kseq_InrE)
      have "others_view i s' = others_view i s"
        using keepsD [OF keeps_free_task f] keepsD [OF keeps_others_upd_task z] s2(2) by simp
      then show ?thesis using kinv_same [OF inv] others_same [OF s ni] by blast
    next
      case True
      then obtain s3 where a: "upd_links (list_add (TaskLink i) ListHead) s2 = Inr ((), s3)" and "s' = s3"
        using r2 by (auto simp: kop_simps elim!: kseq_InrE)
      note o2 = others_same [OF s ni s2(2)]
      note add = list_add_view [OF a o2(1) ni s2(1)]
      have "same_tasks xs s s3" using o2(2) add by (simp add: same_tasks_def)
      moreover have "slot_ready i s3" using s2(1) add by (simp add: slot_ready_def)
      ultimately show ?thesis using kinv_cons [OF inv add(1)] ni \<open>s' = s3\<close> by blast
    qed
  qed
qed

section \<open>Loops that remove elements\<close>

lemma for_each_safe_partial:
  assumes step: "\<And>ds x xs s u s'. I ds (x # xs) s \<Longrightarrow> dlist (lk s) h (ds @ x # xs) \<Longrightarrow> body x s = Inr (u, s') \<Longrightarrow>
      \<exists>ds'. dlist (lk s') h (ds' @ xs) \<and> I ds' xs s'"
    and "for_each_safe_loop lk h body (Some (hd (xs @ [h]))) (next_of (lk s) (hd (xs @ [h]))) s = Some (Inr (u, s'))"
    and "dlist (lk s) h (ds @ xs)" and "I ds xs s"
  shows "\<exists>ds'. I ds' [] s'"
  using assms(2-)
proof (induction xs arbitrary: ds s)
  case Nil
  then show ?case by (auto simp: for_each_safe_loop.simps)
next
  case (Cons x xs)
  have nx: "next_of (lk s) x = Some (hd (xs @ [h]))" by (rule dlist_next [OF Cons.prems(2)])
  have ne: "x \<noteq> h" using Cons.prems(2) by (auto simp: dlist_def)
  obtain v s1 where run: "body x s = Inr (v, s1)"
    and loop: "for_each_safe_loop lk h body (Some (hd (xs @ [h]))) (next_of (lk s1) (hd (xs @ [h]))) s1 = Some (Inr (u, s'))"
    using Cons.prems(1) nx ne by (auto simp: for_each_safe_loop.simps [of lk h body "Some x"] split: sum.splits)
  then show ?case using step [OF Cons.prems(3,2) run] Cons.IH [OF loop] by blast
qed

lemma list_for_each_safe_partial:
  assumes run: "list_for_each_safe lk h body s = Inr (u, s')"
    and step: "\<And>ds x xs s u s'. I ds (x # xs) s \<Longrightarrow> dlist (lk s) h (ds @ x # xs) \<Longrightarrow> body x s = Inr (u, s') \<Longrightarrow>
      \<exists>ds'. dlist (lk s') h (ds' @ xs) \<and> I ds' xs s'"
    and d: "dlist (lk s) h xs" and "I [] xs s"
  shows "\<exists>ds'. I ds' [] s'"
proof -
  have "next_of (lk s) h = Some (hd (xs @ [h]))" using d by (cases xs) (auto simp: dlist_def)
  then have "for_each_safe_loop lk h body (Some (hd (xs @ [h]))) (next_of (lk s) (hd (xs @ [h]))) s = Some (Inr (u, s'))"
    using run by (auto simp: list_for_each_safe_def kop_simps khang_def split: option.splits)
  then show ?thesis by (rule for_each_safe_partial [where I = I and ds = "[]", rotated]) (use step assms(3,4) in auto)
qed

lemma for_each_safe_keeps:
  fixes lk :: "'s \<Rightarrow> 'r links"
  assumes "for_each_safe_loop lk h body pos tmp s = Some r" "\<forall>p. keeps g (body p)" "r = Inr (a, s')"
  shows "g s' = g s"
proof -
  have "(\<forall>p. keeps g (body p)) \<longrightarrow> (\<forall>a s'. r = Inr (a, s') \<longrightarrow> g s' = g s)"
  proof (rule for_each_safe_loop.raw_induct [OF _ assms(1),
        where P = "\<lambda>lk h body pos tmp s r. (\<forall>p. keeps g (body p)) \<longrightarrow> (\<forall>a s'. r = Inr (a, s') \<longrightarrow> g s' = g s)"])
    fix loop :: "('s \<Rightarrow> 'r links) \<Rightarrow> 'r \<Rightarrow> ('r \<Rightarrow> ('s, unit) kop) \<Rightarrow> 'r option \<Rightarrow> 'r option \<Rightarrow> 's \<Rightarrow> (kerr + unit \<times> 's) option"
      and lk h body pos tmp s r
    assume IH: "\<And>lk h body pos tmp s r. loop lk h body pos tmp s = Some r \<Longrightarrow>
        (\<forall>p. keeps g (body p)) \<longrightarrow> (\<forall>a s'. r = Inr (a, s') \<longrightarrow> g s' = g s)"
      and eq: "(case pos of None \<Rightarrow> Some (Inl (Fault ''list: NULL''))
        | Some p \<Rightarrow> if p = h then Some (Inr ((), s))
            else (case body p s of Inl e \<Rightarrow> Some (Inl e) | Inr (u, s') \<Rightarrow>
              (case tmp of None \<Rightarrow> Some (Inl (Fault ''list: NULL'')) | Some t \<Rightarrow> loop lk h body tmp (next_of (lk s') t) s'))) = Some r"
    show "(\<forall>p. keeps g (body p)) \<longrightarrow> (\<forall>a s'. r = Inr (a, s') \<longrightarrow> g s' = g s)"
    proof (intro impI allI)
      fix a s' assume k: "\<forall>p. keeps g (body p)" and r: "r = Inr (a, s')"
      show "g s' = g s"
        using eq r IH k keepsD [OF spec [OF k]] by (auto split: option.splits if_splits sum.splits)
    qed
  qed
  then show ?thesis using assms(2,3) by blast
qed

lemma keeps_list_for_each_safe [keeps_intros]: "(\<And>p. keeps g (body p)) \<Longrightarrow> keeps g (list_for_each_safe lk h body)"
  unfolding list_for_each_safe_def
  by (intro keeps_intros keeps_khang) (rule for_each_safe_keeps, assumption, blast, rule refl)

lemma keeps_interrupt: "keeps sched_view (task_interrupt_by_tty tty)"
  by (simp add: task_interrupt_by_tty_def interrupt_body_def task_send_sigkill_def task_view_def keeps_intros)

section \<open>Switching\<close>

text \<open>Freeing what has ended: every other task of the list stays as it is.\<close>

definition survives :: "'z task_state_scheme \<Rightarrow> nat \<Rightarrow> bool" where
  "survives s i \<longleftrightarrow> cur_thread s = Some (TaskThread i) \<or> state_of s i \<noteq> THREAD_ZOMBIE"

lemma list_inv_del:
  assumes "upd_links (list_del (TaskLink i)) s = Inr (u, s')" "list_inv (as @ i # bs) s"
  shows "list_inv (as @ bs) s'" "same_tasks xs s s'" "i \<notin> set (as @ bs)"
proof -
  have d: "dlist (task_links s) ListHead (map TaskLink as @ TaskLink i # map TaskLink bs)" using assms(2) by (simp add: list_inv_def)
  then obtain k where k: "list_del (TaskLink i) (task_links s) = Inr k" "dlist k ListHead (map TaskLink (as @ bs))"
    using list_del_dlist by fastforce
  then have s': "s' = s\<lparr>task_links := k\<rparr>" using assms(1) by (simp add: upd_links_def kop_simps)
  show "list_inv (as @ bs) s'" "same_tasks xs s s'"
    using assms(2) k(2) by (auto simp: s' list_inv_def same_tasks_def)
  show "i \<notin> set (as @ bs)" using d by (auto simp: dlist_def)
qed

lemma same_tasks_trans: "same_tasks xs s s1 \<Longrightarrow> same_tasks ys s1 s2 \<Longrightarrow> set ys \<subseteq> set xs \<Longrightarrow> same_tasks ys s s2"
  by (auto simp: same_tasks_def)

lemma same_tasks_state: "same_tasks xs s s' \<Longrightarrow> i \<in> set xs \<Longrightarrow> state_of s' i = state_of s i"
  by (auto simp: same_tasks_def state_of_def task_view_def)

lemma reap_body_view:
  assumes run: "reap_body ops (TaskLink i) s = Inr (u, s')" and inv: "list_inv (as @ i # bs) s"
  shows "if survives s i then s' = s else list_inv (as @ bs) s' \<and> same_tasks (as @ bs) s s'"
proof -
  have i: "i < length (task_pool s)" "th_task (thread (task_pool s ! i)) = Some i" using list_inv_task [OF inv] by auto
  show ?thesis
  proof (cases "survives s i")
    case True
    then show ?thesis
      using run i by (auto simp: reap_body_def current_thread_def kop_simps get_task_run survives_def state_of_def)
  next
    case False
    then have "kseq (upd_links (list_del (TaskLink i))) (free_task ops (Some i)) s = Inr (u, s')"
      using run i by (auto simp: reap_body_def current_thread_def kop_simps get_task_run survives_def state_of_def)
    then obtain v s1 where d: "upd_links (list_del (TaskLink i)) s = Inr (v, s1)" and f: "free_task ops (Some i) s1 = Inr (u, s')"
      by (rule kseq_InrE)
    note del = list_inv_del [OF d inv]
    note fr = others_same [OF del(1,3) keepsD [OF keeps_free_task f]]
    show ?thesis using False fr same_tasks_trans [OF del(2) fr(2) subset_refl] by simp
  qed
qed

lemma reap_zombies_view:
  fixes s :: "'z task_state_scheme"
  assumes inv: "list_inv xs s" and run: "reap_zombies ops s = Inr (u, s')"
  shows "list_inv (filter (survives s) xs) s'" "same_tasks (filter (survives s) xs) s s'"
proof -
  define I where "I ds ls t \<longleftrightarrow> (\<exists>as bs. xs = as @ bs \<and> ds = map TaskLink (filter (survives s) as) \<and> ls = map TaskLink bs \<and>
      list_inv (filter (survives s) as @ bs) t \<and> same_tasks (filter (survives s) as @ bs) s t)" for ds ls and t :: "'z task_state_scheme"
  have loop: "list_for_each_safe task_links ListHead (reap_body ops) s = Inr (u, s')"
    using run by (auto simp: reap_zombies_def assert_ints_off_def cpu_ints_enabled_def kop_simps elim!: kseq_InrE split: if_splits)
  have "\<exists>ds. I ds [] s'"
  proof (rule list_for_each_safe_partial [OF loop, where xs = "map TaskLink xs" and I = I])
    show "dlist (task_links s) ListHead (map TaskLink xs)" using inv by (simp add: list_inv_def)
    show "I [] (map TaskLink xs) s"
      unfolding I_def by (rule exI [of _ "[]"], rule exI [of _ xs]) (use inv in \<open>simp add: same_tasks_def\<close>)
    fix ds x ls v and t t' :: "'z task_state_scheme"
    assume "I ds (x # ls) t" and b: "reap_body ops x t = Inr (v, t')"
    then obtain as i bs where e: "xs = as @ i # bs" "ds = map TaskLink (filter (survives s) as)" "x = TaskLink i" "ls = map TaskLink bs"
      and t: "list_inv (filter (survives s) as @ i # bs) t" "same_tasks (filter (survives s) as @ i # bs) s t"
      by (auto simp: I_def)
    have sv: "survives t i = survives s i" using same_tasks_state [OF t(2), of i] t(2) by (simp add: survives_def same_tasks_def)
    let ?as = "as @ [i]"
    have "list_inv (filter (survives s) ?as @ bs) t' \<and> same_tasks (filter (survives s) ?as @ bs) s t'"
      using reap_body_view [OF b [unfolded e(3)] t(1)] t sv same_tasks_trans [OF t(2), of "filter (survives s) as @ bs" t']
      by (cases "survives s i") auto
    then show "\<exists>ds'. dlist (task_links t') ListHead (ds' @ ls) \<and> I ds' ls t'"
      unfolding I_def using e by (intro exI [of _ "map TaskLink (filter (survives s) ?as)"] conjI exI [of _ ?as] exI [of _ bs])
        (auto simp: list_inv_def)
  qed
  then show "list_inv (filter (survives s) xs) s'" "same_tasks (filter (survives s) xs) s s'" by (auto simp: I_def)
qed

text \<open>
  The context switch itself saves the callee's registers and changes the stack; what runs next is the rest
  of the thread switched to, which makes the next steps. In a step it does nothing.
\<close>

definition cswitch_done :: "'z task_state_scheme cswitch_op" where "cswitch_done prev next = kreturn ()"

lemma switchto_view:
  fixes s :: "'z task_state_scheme"
  assumes run: "switchto arch cswitch_done (Some (TaskThread i)) s = Inr (u, s')"
  shows "sched_view s' = (task_links s, Some (TaskThread i), idle_task s, map task_view (task_pool s))"
    "i < length (task_pool s)" "state_of s i = THREAD_READY"
proof -
  define front :: "('z task_state_scheme, thread_t) kop" where "front = kbind current_thread (\<lambda>prev. kseq assert_ints_off
     (kseq (cpu_set_entry_kstack arch (Some (TaskThread i))) (get_thread (Some (TaskThread i)))))"
  define rear :: "thread_t \<Rightarrow> ('z task_state_scheme, unit) kop" where "rear n = kbind (get_task (th_task n)) (\<lambda>t.
     kseq (cpu_set_pagetable arch (pagetable t)) (kassert (THREAD_READY = th_state n) ''assert''))" for n
  have kf: "keeps sched_view front" and kb: "keeps sched_view (rear n)" for n by (simp_all add: front_def rear_def keeps_intros)
  have "kbind front (\<lambda>n. kseq (rear n) (kseq (kmodify (\<lambda>s. s\<lparr>cur_thread := Some (TaskThread i)\<rparr>)) (kreturn ()))) s = Inr (u, s')"
    using run by (simp add: switchto_def cswitch_done_def front_def rear_def kbind_assoc kseq_def)
  then obtain n s1 where f: "front s = Inr (n, s1)"
    and r: "kseq (rear n) (kseq (kmodify (\<lambda>s. s\<lparr>cur_thread := Some (TaskThread i)\<rparr>)) (kreturn ())) s1 = Inr (u, s')"
    by (rule kbind_InrE)
  from r obtain v s2 where b: "rear n s1 = Inr (v, s2)" and s': "s' = s2\<lparr>cur_thread := Some (TaskThread i)\<rparr>"
    by (rule kseq_InrE) (simp add: kop_simps)
  have v1: "sched_view s1 = sched_view s" and v2: "sched_view s2 = sched_view s"
    using keepsD [OF kf f] keepsD [OF kb b] by simp_all
  then show "sched_view s' = (task_links s, Some (TaskThread i), idle_task s, map task_view (task_pool s))"
    by (simp add: s' sched_view_def)
  have n: "i < length (task_pool s1)" "n = thread (task_pool s1 ! i)"
    using f by (auto simp: front_def get_thread_def get_task_def kop_simps split: if_splits elim!: kseq_InrE kbind_InrE)
  have st: "th_state n = THREAD_READY"
    using b by (auto simp: rear_def kop_simps split: if_splits elim!: kseq_InrE kbind_InrE)
  have pool: "map task_view (task_pool s1) = map task_view (task_pool s)" using v1 by (simp add: sched_view_def)
  show i: "i < length (task_pool s)" using n(1) arg_cong [OF pool, of length] by simp
  show "state_of s i = THREAD_READY"
    using st n arg_cong [OF pool, of "\<lambda>v. v ! i"] i by (simp add: state_of_def task_view_def)
qed

lemma find_runnable_ready:
  assumes "sched_inv xs s"
  obtains t where "t \<in> set xs" "find_runnable_thread s = Inr (Some (TaskThread t), s)" "state_of s t = THREAD_READY"
proof -
  obtain c where c: "cur_thread s = Some (TaskThread c)" using assms by (auto simp: sched_inv_def)
  obtain d where d: "d \<in> set xs" "idle_task s = Some d" "state_of s d = THREAD_READY" using assms by (auto simp: sched_inv_list)
  have set_rr: "set (rr_order xs c) = set xs"
    using rr_order_set [OF find_runnable_rr(2) [OF assms c] sched_inv_distinct [OF assms]] by blast
  have "pick s (rr_order xs c) \<in> set xs \<and> state_of s (pick s (rr_order xs c)) = THREAD_READY"
  proof (cases "find (can_run s) (rr_order xs c)")
    case None
    then show ?thesis using d by (simp add: pick_def)
  next
    case (Some t)
    then have "t \<in> set (rr_order xs c)" "can_run s t" by (metis find_Some_iff nth_mem)+
    then show ?thesis using Some set_rr by (simp add: pick_def can_run_def)
  qed
  then show thesis using that find_runnable_rr(1) [OF assms c] by blast
qed

lemma list_inv_view_eq:
  fixes s s' :: "'z task_state_scheme"
  assumes "sched_view s' = (task_links s, c, d, map task_view (task_pool s))" "list_inv xs s"
  shows "list_inv xs s'"
proof -
  let ?s = "s\<lparr>cur_thread := c, idle_task := d\<rparr>"
  have "list_inv xs ?s" using assms(2) by (simp add: list_inv_def)
  moreover have "sched_view s' = sched_view ?s" using assms(1) by (simp add: sched_view_def)
  ultimately show ?thesis by (rule list_inv_view(1))
qed

lemma sched_inv_same: "sched_inv xs s \<Longrightarrow> set ys \<subseteq> set xs \<Longrightarrow> list_inv ys s' \<Longrightarrow> same_tasks ys s s' \<Longrightarrow>
    (\<And>i. i \<in> set xs \<Longrightarrow> survives s i \<Longrightarrow> i \<in> set ys) \<Longrightarrow> sched_inv ys s'"
  unfolding sched_inv_list
proof (elim conjE bexE, intro conjI)
  fix d c
  assume a: "set ys \<subseteq> set xs" "list_inv ys s'" "same_tasks ys s s'" "\<And>i. i \<in> set xs \<Longrightarrow> survives s i \<Longrightarrow> i \<in> set ys"
    "d \<in> set xs" "idle_task s = Some d" "state_of s d = THREAD_READY" "c \<in> set xs" "cur_thread s = Some (TaskThread c)"
  have m: "d \<in> set ys" "c \<in> set ys" using a by (auto simp: survives_def)
  show "list_inv ys s'" by (fact a)
  show "\<exists>d \<in> set ys. idle_task s' = Some d \<and> state_of s' d = THREAD_READY"
    using m a same_tasks_state [OF a(3) m(1)] by (auto simp: same_tasks_def)
  show "\<exists>c \<in> set ys. cur_thread s' = Some (TaskThread c)" using m a by (auto simp: same_tasks_def)
qed

text \<open>Whatever the current thread has become, after the switch a ready thread runs and only its predecessor may be a zombie.\<close>

lemma switchto_kinv:
  assumes inv: "list_inv xs s" "d \<in> set xs" "idle_task s = Some d" "state_of s d = THREAD_READY" and t: "t \<in> set xs"
    and one: "\<And>i j. i \<in> set xs \<Longrightarrow> j \<in> set xs \<Longrightarrow> state_of s i = THREAD_ZOMBIE \<Longrightarrow> state_of s j = THREAD_ZOMBIE \<Longrightarrow> i = j"
    and run: "switchto arch cswitch_done (Some (TaskThread t)) s = Inr (u, s')"
  shows "kinv xs s'"
proof -
  note sw = switchto_view [OF run]
  have l: "list_inv xs s'" by (rule list_inv_view_eq [OF sw(1) inv(1)])
  have len: "length (task_pool s') = length (task_pool s)" using sw(1) by (auto simp: sched_view_def dest: map_eq_imp_length_eq)
  have c: "cur_thread s' = Some (TaskThread t)" "idle_task s' = idle_task s" using sw(1) by (simp_all add: sched_view_def)
  have st: "state_of s' i = state_of s i" if "i \<in> set xs" for i
  proof -
    have "i < length (task_pool s)" using list_inv_task [OF inv(1) that] by simp
    moreover have "map task_view (task_pool s') = map task_view (task_pool s)" using sw(1) by (simp add: sched_view_def)
    ultimately show ?thesis using len by (metis nth_map state_of_def task_view_def prod.inject)
  qed
  have "sched_inv xs s'" unfolding sched_inv_list using l c inv(2-4) st t by auto
  moreover have "state_of s' t = THREAD_READY" using st [OF t] sw(3) by simp
  moreover have "\<forall>i \<in> set xs. \<forall>j \<in> set xs. state_of s' i = THREAD_ZOMBIE \<and> state_of s' j = THREAD_ZOMBIE \<longrightarrow> i = j"
    using one st by simp
  ultimately show ?thesis unfolding kinv_def using t c(1) by blast
qed

lemma scheduler_switch_kinv:
  fixes s :: "'z task_state_scheme"
  assumes inv: "sched_inv xs s" and run: "scheduler_switch arch cswitch_done s = Inr (b, s')"
  shows "kinv (filter (survives s) xs) s'"
proof -
  obtain o1 s1 where i: "cpu_set_ints False s = Inr (o1, s1)"
    and r1: "kseq assert_ints_off (kseq (reap_zombies (isa_pte arch)) (kbind find_runnable_thread (\<lambda>next.
      kseq (switchto arch cswitch_done next) (kreturn o1)))) s1 = Inr (b, s')"
    using run unfolding scheduler_switch_def by (rule kbind_InrE)
  from r1 obtain u1 s2 where a: "assert_ints_off s1 = Inr (u1, s2)"
    and r2: "kseq (reap_zombies (isa_pte arch)) (kbind find_runnable_thread (\<lambda>next.
      kseq (switchto arch cswitch_done next) (kreturn o1))) s2 = Inr (b, s')" by (rule kseq_InrE)
  from r2 obtain u2 s3 where z: "reap_zombies (isa_pte arch) s2 = Inr (u2, s3)"
    and r3: "kbind find_runnable_thread (\<lambda>next. kseq (switchto arch cswitch_done next) (kreturn o1)) s3 = Inr (b, s')"
    by (rule kseq_InrE)
  have v2: "sched_view s2 = sched_view s"
    using keepsD [OF keeps_ints(1) i] keepsD [OF keeps_ints(2) a, where g = sched_view] by simp
  have l: "list_inv xs s" using inv by (simp add: sched_inv_list)
  note s2 = view_same [OF l v2]
  have sv: "filter (survives s2) xs = filter (survives s) xs"
    using s2(2) same_tasks_state [OF s2(2)] by (intro filter_cong) (auto simp: survives_def same_tasks_def)
  let ?ys = "filter (survives s) xs"
  note s3 = reap_zombies_view [OF s2(1) z, unfolded sv]
  have same: "same_tasks ?ys s s3" by (rule same_tasks_trans [OF s2(2) s3(2)]) auto
  have inv3: "sched_inv ?ys s3" by (rule sched_inv_same [OF inv _ s3(1) same]) auto
  obtain t where t: "t \<in> set ?ys" "find_runnable_thread s3 = Inr (Some (TaskThread t), s3)"
    by (rule find_runnable_ready [OF inv3])
  have "kseq (switchto arch cswitch_done (Some (TaskThread t))) (kreturn o1) s3 = Inr (b, s')" using r3 t(2) by (simp add: kop_simps)
  then obtain u3 s4 where sw: "switchto arch cswitch_done (Some (TaskThread t)) s3 = Inr (u3, s4)" and "kreturn o1 s4 = Inr (b, s')"
    by (rule kseq_InrE)
  then have sw': "switchto arch cswitch_done (Some (TaskThread t)) s3 = Inr (u3, s')" by (simp add: kop_simps)
  obtain d where d: "d \<in> set ?ys" "idle_task s3 = Some d" "state_of s3 d = THREAD_READY" using inv3 by (auto simp: sched_inv_list)
  have zom: "cur_thread s = Some (TaskThread i)" if "i \<in> set ?ys" "state_of s3 i = THREAD_ZOMBIE" for i
    using that same_tasks_state [OF same that(1)] by (auto simp: survives_def)
  have one: "i = j" if "i \<in> set ?ys" "j \<in> set ?ys" "state_of s3 i = THREAD_ZOMBIE" "state_of s3 j = THREAD_ZOMBIE" for i j
    using zom [OF that(1,3)] zom [OF that(2,4)] by simp
  show ?thesis by (rule switchto_kinv [OF s3(1) d t(1) one sw'])
qed

section \<open>Sleeping, waking and ending\<close>

text \<open>The current thread may stop being ready before it switches, unless it is the idle thread.\<close>

lemma sched_inv_set_state:
  assumes inv: "sched_inv xs s" and "idle_task s \<noteq> Some c"
    and run: "upd_task (Some c) (\<lambda>x. x\<lparr>thread := (thread x)\<lparr>th_state := st\<rparr>\<rparr>) s = Inr (u, s')"
  shows "sched_inv xs s'" "cur_thread s' = cur_thread s" "idle_task s' = idle_task s"
proof -
  have c: "c < length (task_pool s)"
    using run by (cases "c < length (task_pool s)") (simp_all add: upd_task_def get_task_def kop_simps)
  then have s': "s' = s\<lparr>task_pool := (task_pool s)[c := (task_pool s ! c)\<lparr>thread := (thread (task_pool s ! c))\<lparr>th_state := st\<rparr>\<rparr>]\<rparr>"
    using run by (simp add: upd_task_run)
  show "sched_inv xs s'" unfolding s'
    by (rule sched_inv_pool [OF inv]) (use inv c assms(2) in \<open>auto simp: sched_inv_def nth_list_update\<close>)
  show "cur_thread s' = cur_thread s" "idle_task s' = idle_task s" by (simp_all add: s')
qed

lemma sched_inv_view:
  fixes s s' :: "'z task_state_scheme"
  assumes "sched_inv xs s" "sched_view s' = sched_view s"
  shows "sched_inv xs s'"
proof -
  have "list_inv xs s" using assms(1) by (simp add: sched_inv_list)
  note v = view_same [OF this assms(2)]
  show ?thesis by (rule sched_inv_same [OF assms(1) _ v]) auto
qed

lemma sleep_begin_inv:
  assumes "sched_inv xs s" "idle_task s \<noteq> Some c" "sleep_begin (Some (TaskThread c)) res s = Inr (u, s')"
  shows "sched_inv xs s'"
proof -
  obtain v s1 where a: "upd_task (Some c) (\<lambda>x. x\<lparr>thread := (thread x)\<lparr>th_state := THREAD_SLEEPING\<rparr>\<rparr>) s = Inr (v, s1)"
    and b: "upd_task (Some c) (\<lambda>x. x\<lparr>thread := (thread x)\<lparr>sleep_reason := Some res\<rparr>\<rparr>) s1 = Inr (u, s')"
    using assms(3) by (auto simp: sleep_begin_def upd_thread_def elim: kseq_InrE)
  have k: "keeps sched_view (upd_task (Some c) (\<lambda>x. x\<lparr>thread := (thread x)\<lparr>sleep_reason := Some res\<rparr>\<rparr>))"
    by (simp add: keeps_intros task_view_def)
  show ?thesis using sched_inv_view [OF sched_inv_set_state(1) [OF assms(1,2) a] keepsD [OF k b]] .
qed

lemma wakeup_view:
  assumes inv: "sched_inv xs s" and run: "wakeup res s = Inr (u, s')"
  shows "s' = s\<lparr>task_pool := pool_map (awake res) xs (task_pool s)\<rparr>" "sched_inv xs s'"
proof -
  obtain c where c: "cur_thread s = Some c" using inv by (auto simp: sched_inv_def)
  have "\<not> ints_on s"
    using run c by (auto simp: wakeup_def current_thread_def assert_ints_off_def cpu_ints_enabled_def kop_simps split: if_splits)
  with wakeup_run [OF inv, of res] run show s': "s' = s\<lparr>task_pool := pool_map (awake res) xs (task_pool s)\<rparr>" by simp
  show "sched_inv xs s'" unfolding s' by (rule sched_inv_map [OF inv]) (simp add: awake_def)
qed

lemma wakeup_kinv:
  assumes inv: "kinv xs s" and run: "wakeup res s = Inr (u, s')"
  shows "kinv xs s'"
proof -
  have si: "sched_inv xs s" using inv by (simp add: kinv_def)
  note w = wakeup_view [OF si run]
  have st: "state_of s' i = (if state_of s i = THREAD_SLEEPING \<and> sleep_reason (thread (task_pool s ! i)) = Some res
      then THREAD_READY else state_of s i)" if "i \<in> set xs" for i
    using that sched_inv_task [OF si that] by (simp add: w(1) state_of_def pool_map_nth [OF sched_inv_distinct [OF si]] awake_def)
  have cur: "cur_thread s' = cur_thread s" by (simp add: w(1))
  show ?thesis using inv w(2) st cur unfolding kinv_def by (auto split: if_splits)
qed

lemma task_exit_begin_inv:
  fixes s :: "'z task_state_scheme"
  assumes inv: "sched_inv xs s" and c: "idle_task s \<noteq> Some c" and run: "task_exit_begin (Some c) reason s = Inr (u, s')"
  shows "sched_inv xs s'"
proof -
  define tell :: "task_t \<Rightarrow> ('z task_state_scheme, unit) kop" where "tell x = (if parent x = None then kreturn ()
        else
          kbind (get_task (parent x)) (\<lambda>p.
            kwhen (THREAD_SLEEPING = th_state (thread p) \<and> Some c = waiting_child p)
              (kseq (upd_task (parent x) (\<lambda>p. p\<lparr>waiting_child := None\<rparr>))
              (kseq (upd_task (parent x) (\<lambda>p. p\<lparr>child_exit_code := reason\<rparr>))
              (wakeup (WaitingChild (the (parent x))))))))" for x
  obtain x s1 where g: "get_task (Some c) s = Inr (x, s1)"
    and r: "kseq (tell x) (upd_task (Some c) (\<lambda>x. x\<lparr>thread := (thread x)\<lparr>th_state := THREAD_ZOMBIE\<rparr>\<rparr>)) s1 = Inr (u, s')"
    using run unfolding task_exit_begin_def tell_def by (rule kbind_InrE)
  have "s1 = s" using g by (auto simp: get_task_def kop_simps split: if_splits)
  from r [unfolded this] obtain v s2 where t: "tell x s = Inr (v, s2)"
    and z: "upd_task (Some c) (\<lambda>x. x\<lparr>thread := (thread x)\<lparr>th_state := THREAD_ZOMBIE\<rparr>\<rparr>) s2 = Inr (u, s')" by (rule kseq_InrE)
  have s2: "sched_inv xs s2 \<and> idle_task s2 = idle_task s"
  proof (cases "s2 = s")
    case True
    then show ?thesis using inv by simp
  next
    case False
    then obtain w1 w2 s3 s4 where a: "upd_task (parent x) (\<lambda>p. p\<lparr>waiting_child := None\<rparr>) s = Inr (w1, s3)"
      and b: "upd_task (parent x) (\<lambda>p. p\<lparr>child_exit_code := reason\<rparr>) s3 = Inr (w2, s4)"
      and w: "wakeup (WaitingChild (the (parent x))) s4 = Inr (v, s2)"
      using t by (auto simp: tell_def kop_simps get_task_def split: if_splits option.splits elim!: kseq_InrE kbind_InrE)
    have k: "keeps sched_view (upd_task (parent x) (\<lambda>p. p\<lparr>waiting_child := None\<rparr>))"
      "keeps sched_view (upd_task (parent x) (\<lambda>p. p\<lparr>child_exit_code := reason\<rparr>))"
      by (simp_all add: keeps_intros task_view_def)
    have v4: "sched_view s4 = sched_view s" using keepsD [OF k(1) a] keepsD [OF k(2) b] by simp
    note s4 = sched_inv_view [OF inv v4]
    show ?thesis using wakeup_view [OF s4 w] v4 by (simp add: sched_view_def)
  qed
  show ?thesis by (rule sched_inv_set_state(1) [OF conjunct1 [OF s2] _ z]) (use s2 c in simp)
qed

section \<open>The start\<close>

text \<open>While the first tasks are created, every task of the list is ready.\<close>

definition boot_inv :: "nat list \<Rightarrow> 'z task_state_scheme \<Rightarrow> bool" where
  "boot_inv xs s \<longleftrightarrow> list_inv xs s \<and> (\<forall>i \<in> set xs. state_of s i = THREAD_READY)"

lemma boot_spawn:
  fixes s :: "'z task_state_scheme"
  assumes "boot_inv xs s" "task_spawn_kernel arch nm path e s = Inr (r, s')"
  obtains i where "r = Some i" "boot_inv (i # xs) s'" "idle_task s' = idle_task s"
proof -
  have "list_inv xs s" using assms(1) by (simp add: boot_inv_def)
  from spawn_kernel_view [OF this assms(2)] obtain i where i: "r = Some i" "list_inv (i # xs) s'" "same_tasks xs s s'" "slot_ready i s'"
    by blast
  have "boot_inv (i # xs) s'"
    using assms(1) i same_tasks_state [OF i(3)] by (auto simp: boot_inv_def slot_ready_def task_view_def state_of_def)
  then show thesis using that [of i] i by (simp add: same_tasks_def)
qed

lemma boot_spawns:
  fixes s :: "'z task_state_scheme"
  assumes "boot_inv xs s"
    and "kfor ns (\<lambda>n. kbind (task_spawn_kernel arch (nm n) (path n) e) (\<lambda>_. kreturn ())) s = Inr (u, s')"
  shows "\<exists>ys. boot_inv (ys @ xs) s' \<and> idle_task s' = idle_task s"
  using assms
proof (induction ns arbitrary: xs s)
  case Nil
  then show ?case by (intro exI [of _ "[]"]) (auto simp: kop_simps)
next
  case (Cons n ns)
  then have "kseq (kbind (task_spawn_kernel arch (nm n) (path n) e) (\<lambda>_. kreturn ()))
      (kfor ns (\<lambda>n. kbind (task_spawn_kernel arch (nm n) (path n) e) (\<lambda>_. kreturn ()))) s = Inr (u, s')" by simp
  then obtain v s1 where a: "kbind (task_spawn_kernel arch (nm n) (path n) e) (\<lambda>_. kreturn ()) s = Inr (v, s1)"
    and r: "kfor ns (\<lambda>n. kbind (task_spawn_kernel arch (nm n) (path n) e) (\<lambda>_. kreturn ())) s1 = Inr (u, s')" by (rule kseq_InrE)
  from a obtain t where sp: "task_spawn_kernel arch (nm n) (path n) e s = Inr (t, s1)" by (rule kbind_InrE) (simp add: kop_simps)
  obtain i where i: "boot_inv (i # xs) s1" "idle_task s1 = idle_task s" by (rule boot_spawn [OF Cons.prems(1) sp])
  obtain ys where "boot_inv (ys @ i # xs) s'" "idle_task s' = idle_task s1" using Cons.IH [OF i(1) r] by blast
  then show ?case using i(2) by (intro exI [of _ "ys @ [i]"]) simp
qed

lemma boot_inv_upd [simp]: "boot_inv xs (s\<lparr>idle_task := d\<rparr>) = boot_inv xs s" "boot_inv xs (s\<lparr>cur_thread := c\<rparr>) = boot_inv xs s"
  by (simp_all add: boot_inv_def list_inv_def state_of_def)

lemma init_task_list_inv:
  fixes s :: "'z task_state_scheme"
  assumes len: "length (task_pool s) = MAX_TASKS" and run: "init_task_list env s = Inr (root, s')"
  obtains xs r d where "boot_inv xs s'" "root = Some r" "r \<in> set xs" "idle_task s' = Some d" "d \<in> set xs"
proof -
  define more :: "('z task_state_scheme, unit) kop" where "more = kbind is_display_active (\<lambda>active.
    kwhen active
      (kbind (task_spawn_kernel (k_arch env) (lit ''renderer'') (lit ''/dev/null'') (k_thread_display_update env)) (\<lambda>_.
       kfor [0..<NUM_DISPLAYS] (\<lambda>i.
         kbind (task_spawn_kernel (k_arch env) (lit ''display_root'') (lit (display_path i)) (k_thread_root env)) (\<lambda>_.
         kreturn ())))))"
  define s0 where "s0 = s\<lparr>task_links := list_init ListHead (task_links s)\<rparr>"
  have b0: "boot_inv [] s0" using len list_init_dlist by (simp add: s0_def boot_inv_def list_inv_def)
  define rest :: "('z task_state_scheme, nat option) kop" where "rest = kbind (task_spawn_kernel (k_arch env) (lit ''root'') (lit ''/dev/serial'') (k_thread_root env)) (\<lambda>root_task.
      kbind (task_spawn_kernel (k_arch env) (lit ''idle'') (lit ''/dev/null'') (k_thread_idle env)) (\<lambda>idle.
      kseq (kmodify (\<lambda>s. s\<lparr>idle_task := idle\<rparr>)) (kbind is_display_active (\<lambda>active.
      kseq
        (kwhen active
          (kbind (task_spawn_kernel (k_arch env) (lit ''renderer'') (lit ''/dev/null'') (k_thread_display_update env)) (\<lambda>_.
           kfor [0..<NUM_DISPLAYS] (\<lambda>i.
             kbind (task_spawn_kernel (k_arch env) (lit ''display_root'') (lit (display_path i)) (k_thread_root env)) (\<lambda>_.
             kreturn ())))))
      (kreturn root_task)))))"
  have rest_more: "rest = kbind (task_spawn_kernel (k_arch env) (lit ''root'') (lit ''/dev/serial'') (k_thread_root env)) (\<lambda>root_task.
      kbind (task_spawn_kernel (k_arch env) (lit ''idle'') (lit ''/dev/null'') (k_thread_idle env)) (\<lambda>idle.
      kseq (kmodify (\<lambda>s. s\<lparr>idle_task := idle\<rparr>)) (kseq more (kreturn root_task))))"
    by (simp add: rest_def more_def kseq_def kbind_assoc)
  have r0: "rest s0 = Inr (root, s')"
    using run unfolding init_task_list_def Let_def rest_def [symmetric]
    by (cases "cur_thread s = None") (simp_all add: s0_def current_thread_def upd_links_def kop_simps)
  have "kbind (task_spawn_kernel (k_arch env) (lit ''root'') (lit ''/dev/serial'') (k_thread_root env)) (\<lambda>root_task.
      kbind (task_spawn_kernel (k_arch env) (lit ''idle'') (lit ''/dev/null'') (k_thread_idle env)) (\<lambda>idle.
      kseq (kmodify (\<lambda>s. s\<lparr>idle_task := idle\<rparr>)) (kseq more (kreturn root_task)))) s0 = Inr (root, s')"
    using r0 unfolding rest_more .
  then obtain t s1 where t: "task_spawn_kernel (k_arch env) (lit ''root'') (lit ''/dev/serial'') (k_thread_root env) s0 = Inr (t, s1)"
    and r1: "kbind (task_spawn_kernel (k_arch env) (lit ''idle'') (lit ''/dev/null'') (k_thread_idle env)) (\<lambda>idle.
      kseq (kmodify (\<lambda>s. s\<lparr>idle_task := idle\<rparr>)) (kseq more (kreturn t))) s1 = Inr (root, s')" by (rule kbind_InrE)
  from r1 obtain d s2 where d: "task_spawn_kernel (k_arch env) (lit ''idle'') (lit ''/dev/null'') (k_thread_idle env) s1 = Inr (d, s2)"
    and r2: "kseq (kmodify (\<lambda>s. s\<lparr>idle_task := d\<rparr>)) (kseq more (kreturn t)) s2 = Inr (root, s')" by (rule kbind_InrE)
  obtain i where i: "t = Some i" "boot_inv [i] s1" by (rule boot_spawn [OF b0 t])
  obtain j where j: "d = Some j" "boot_inv [j, i] s2" by (rule boot_spawn [OF i(2) d])
  have "kseq more (kreturn t) (s2\<lparr>idle_task := d\<rparr>) = Inr (root, s')" using r2 by (simp add: kop_simps)
  then obtain u where m: "more (s2\<lparr>idle_task := d\<rparr>) = Inr (u, s')" and rt: "root = t" by (rule kseq_InrE) (simp add: kop_simps)
  have b2: "boot_inv [j, i] (s2\<lparr>idle_task := d\<rparr>)" using j(2) by simp
  have "\<exists>ys. boot_inv (ys @ [j, i]) s' \<and> idle_task s' = d"
  proof (cases "s' = s2\<lparr>idle_task := d\<rparr>")
    case True
    then show ?thesis using b2 by (intro exI [of _ "[]"]) simp
  next
    case False
    then have "kbind (task_spawn_kernel (k_arch env) (lit ''renderer'') (lit ''/dev/null'') (k_thread_display_update env)) (\<lambda>_.
       kfor [0..<NUM_DISPLAYS] (\<lambda>i.
         kbind (task_spawn_kernel (k_arch env) (lit ''display_root'') (lit (display_path i)) (k_thread_root env)) (\<lambda>_.
         kreturn ()))) (s2\<lparr>idle_task := d\<rparr>) = Inr (u, s')"
      using m by (auto simp: more_def is_display_active_def kop_simps split: if_splits)
    then obtain w s3 where sp: "task_spawn_kernel (k_arch env) (lit ''renderer'') (lit ''/dev/null'') (k_thread_display_update env)
        (s2\<lparr>idle_task := d\<rparr>) = Inr (w, s3)"
      and fr: "kfor [0..<NUM_DISPLAYS] (\<lambda>i.
         kbind (task_spawn_kernel (k_arch env) (lit ''display_root'') (lit (display_path i)) (k_thread_root env)) (\<lambda>_.
         kreturn ())) s3 = Inr (u, s')" by (rule kbind_InrE)
    obtain l where l: "boot_inv (l # [j, i]) s3" "idle_task s3 = d" by (rule boot_spawn [OF b2 sp]) simp
    then obtain ys where "boot_inv (ys @ l # [j, i]) s'" "idle_task s' = idle_task s3" using boot_spawns [OF l(1) fr] by blast
    then show ?thesis using l(2) by (intro exI [of _ "ys @ [l]"]) simp
  qed
  then show thesis using that i(1) j(1) rt by auto
qed

text \<open>\<open>init_scheduler\<close> up to its context switch establishes the invariant, with the root thread current.\<close>

lemma boot_kinv:
  assumes "length (task_pool s) = MAX_TASKS" and "init_task_list env s = Inr (root, s1)"
    and "switchto (k_arch env) cswitch_done (map_option TaskThread root) (s1\<lparr>cur_thread := Some ScratchThread\<rparr>) = Inr (u, s')"
  shows "\<exists>xs. kinv xs s'"
proof -
  obtain xs r d where b: "boot_inv xs s1" "root = Some r" "r \<in> set xs" "idle_task s1 = Some d" "d \<in> set xs"
    by (rule init_task_list_inv [OF assms(1,2)])
  let ?s = "s1\<lparr>cur_thread := Some ScratchThread\<rparr>"
  have b': "boot_inv xs ?s" using b(1) by simp
  have sw: "switchto (k_arch env) cswitch_done (Some (TaskThread r)) ?s = Inr (u, s')" using assms(3) b(2) by simp
  have "kinv xs s'" by (rule switchto_kinv [OF _ b(5) _ _ b(3) _ sw]) (use b' b in \<open>auto simp: boot_inv_def\<close>)
  then show ?thesis by blast
qed

section \<open>Invariants of transition systems\<close>

text \<open>What every step keeps holds in every state reachable from one where it holds.\<close>

locale step_invariant =
  fixes step :: "'s \<Rightarrow> 's \<Rightarrow> bool" and inv :: "'s \<Rightarrow> bool"
  assumes step_inv: "step s s' \<Longrightarrow> inv s \<Longrightarrow> inv s'"
begin

lemma reachable_inv: "rtranclp step s s' \<Longrightarrow> inv s \<Longrightarrow> inv s'"
  by (induction rule: rtranclp_induct) (use step_inv in blast)+

end

section \<open>Steps of the kernel\<close>

text \<open>System calls and traps that do not reach the scheduler.\<close>

lemma keeps_upd_thread [keeps_intros]:
  "(\<And>x. th_task (f x) = th_task x \<and> th_state (f x) = th_state x) \<Longrightarrow> keeps sched_view (upd_thread th f)"
  by (auto simp: upd_thread_def task_view_def sched_view_def keeps_intros split: option.split tref.split)

lemma keeps_sys_open [keeps_intros]: "keeps sched_view (sys_open env path)"
  by (simp add: sys_open_def access_ok_cur_def access_ok_def find_free_fd_def cur_task_data_def set_fd_def keeps_intros task_view_def)

lemma keeps_sys_close [keeps_intros]: "keeps sched_view (sys_close fd)"
  by (simp add: sys_close_def fd_valid_def fd_file_def cur_task_data_def set_fd_def keeps_intros task_view_def)

lemma keeps_trap [keeps_intros]: "keeps sched_view (thread_trap_enter arch r)" "keeps sched_view (thread_trap_exit arch)"
  by (simp_all add: thread_trap_enter_def thread_trap_exit_def Let_def keeps_intros)

text \<open>
  The steps. A thread that sleeps, waits for a child or exits does so and switches in one step, because
  the thread that runs next is another one. The idle thread neither sleeps nor exits: its body only halts,
  it makes no system call, and its standard input is /dev/null, which is no terminal.
\<close>

inductive kstep :: "'z task_state_scheme kenv \<Rightarrow> 'z task_state_scheme \<Rightarrow> 'z task_state_scheme \<Rightarrow> bool" for env where
  yield: "scheduler_switch (k_arch env) cswitch_done s = Inr (b, s') \<Longrightarrow> kstep env s s'"
| sleeps: "cur_thread s = Some (TaskThread c) \<Longrightarrow> idle_task s \<noteq> Some c \<Longrightarrow>
    kseq (sleep_begin (Some (TaskThread c)) res) (scheduler_switch (k_arch env) cswitch_done) s = Inr (b, s') \<Longrightarrow> kstep env s s'"
| waits: "cur_thread s = Some (TaskThread c) \<Longrightarrow> idle_task s \<noteq> Some c \<Longrightarrow>
    kseq (upd_task (Some c) (\<lambda>x. x\<lparr>waiting_child := child\<rparr>))
    (kseq (upd_task (Some c) (\<lambda>x. x\<lparr>thread := (thread x)\<lparr>th_state := THREAD_SLEEPING\<rparr>\<rparr>))
    (kseq (sleep_begin (Some (TaskThread c)) (WaitingChild c))
    (scheduler_switch (k_arch env) cswitch_done))) s = Inr (b, s') \<Longrightarrow> kstep env s s'"
| exits: "cur_thread s = Some (TaskThread c) \<Longrightarrow> idle_task s \<noteq> Some c \<Longrightarrow>
    kseq (task_exit_begin (Some c) reason) (scheduler_switch (k_arch env) cswitch_done) s = Inr (b, s') \<Longrightarrow> kstep env s s'"
| wakes: "wakeup res s = Inr (u, s') \<Longrightarrow> kstep env s s'"
| interrupts: "task_interrupt_by_tty tty s = Inr (u, s') \<Longrightarrow> kstep env s s'"
| spawns_kernel: "task_spawn_kernel (k_arch env) nm path entry s = Inr (t, s') \<Longrightarrow> kstep env s s'"
| spawns_user: "cur_thread s = Some (TaskThread c) \<Longrightarrow> spawn_user_task env fr path argv (Some c) s = Inr (t, s') \<Longrightarrow> kstep env s s'"
| opens: "sys_open env upath s = Inr (r, s') \<Longrightarrow> kstep env s s'"
| closes: "sys_close fd s = Inr (r, s') \<Longrightarrow> kstep env s s'"
| enters: "thread_trap_enter (k_arch env) regs s = Inr (u, s') \<Longrightarrow> kstep env s s'"
| leaves: "thread_trap_exit (k_arch env) s = Inr (u, s') \<Longrightarrow> kstep env s s'"

lemma kinv_sched: "kinv xs s \<Longrightarrow> sched_inv xs s"
  by (simp add: kinv_def)

lemma switch_kinv:
  assumes "sched_inv xs s" "scheduler_switch arch cswitch_done s = Inr (b, s')"
  shows "\<exists>ys. kinv ys s'"
  using scheduler_switch_kinv [OF assms] by blast

lemma waits_inv:
  fixes s :: "'z task_state_scheme"
  assumes inv: "sched_inv xs s" and c: "idle_task s \<noteq> Some c"
    and run: "kseq (upd_task (Some c) (\<lambda>x. x\<lparr>waiting_child := child\<rparr>))
      (kseq (upd_task (Some c) (\<lambda>x. x\<lparr>thread := (thread x)\<lparr>th_state := THREAD_SLEEPING\<rparr>\<rparr>))
      (kseq (sleep_begin (Some (TaskThread c)) (WaitingChild c))
      (scheduler_switch arch cswitch_done))) s = Inr (b, s')"
  shows "\<exists>ys. kinv ys s'"
proof -
  from run obtain u s1 where a: "upd_task (Some c) (\<lambda>x. x\<lparr>waiting_child := child\<rparr>) s = Inr (u, s1)"
    and r1: "kseq (upd_task (Some c) (\<lambda>x. x\<lparr>thread := (thread x)\<lparr>th_state := THREAD_SLEEPING\<rparr>\<rparr>))
      (kseq (sleep_begin (Some (TaskThread c)) (WaitingChild c)) (scheduler_switch arch cswitch_done)) s1 = Inr (b, s')"
    by (rule kseq_InrE)
  from r1 obtain v s2 where z: "upd_task (Some c) (\<lambda>x. x\<lparr>thread := (thread x)\<lparr>th_state := THREAD_SLEEPING\<rparr>\<rparr>) s1 = Inr (v, s2)"
    and r2: "kseq (sleep_begin (Some (TaskThread c)) (WaitingChild c)) (scheduler_switch arch cswitch_done) s2 = Inr (b, s')"
    by (rule kseq_InrE)
  from r2 obtain w s3 where sl: "sleep_begin (Some (TaskThread c)) (WaitingChild c) s2 = Inr (w, s3)"
    and sw: "scheduler_switch arch cswitch_done s3 = Inr (b, s')" by (rule kseq_InrE)
  have k: "keeps sched_view (upd_task (Some c) (\<lambda>x. x\<lparr>waiting_child := child\<rparr>))" by (simp add: keeps_intros task_view_def)
  note v1 = keepsD [OF k a]
  have c1: "idle_task s1 \<noteq> Some c" using v1 c by (simp add: sched_view_def)
  note s2 = sched_inv_set_state [OF sched_inv_view [OF inv v1] c1 z]
  have "sched_inv xs s3" by (rule sleep_begin_inv [OF s2(1) _ sl]) (use s2(3) c1 in simp)
  then show ?thesis using sw by (rule switch_kinv)
qed

lemma kstep_kinv:
  fixes s :: "'z task_state_scheme"
  assumes "kstep env s s'" and inv: "kinv xs s"
  shows "\<exists>ys. kinv ys s'"
  using assms(1)
proof (cases rule: kstep.cases)
  case yield
  then show ?thesis using switch_kinv [OF kinv_sched [OF inv]] by blast
next
  case (sleeps c res b)
  from sleeps(3) show ?thesis
    by (rule kseq_InrE) (rule switch_kinv, rule sleep_begin_inv [OF kinv_sched [OF inv] sleeps(2)])
next
  case waits
  then show ?thesis using waits_inv [OF kinv_sched [OF inv]] by blast
next
  case (exits c reason b)
  from exits(3) show ?thesis
    by (rule kseq_InrE) (rule switch_kinv, rule task_exit_begin_inv [OF kinv_sched [OF inv] exits(2)])
next
  case wakes
  then show ?thesis using wakeup_kinv [OF inv] by blast
next
  case interrupts
  then show ?thesis using kinv_view [OF inv keepsD [OF keeps_interrupt]] by blast
next
  case spawns_kernel
  then show ?thesis using spawn_kernel_view [OF kinv_list [OF inv]] kinv_cons [OF inv] by blast
next
  case spawns_user
  then show ?thesis using spawn_user_kinv [OF inv] by blast
next
  case opens
  then show ?thesis using kinv_view [OF inv keepsD [OF keeps_sys_open]] by blast
next
  case closes
  then show ?thesis using kinv_view [OF inv keepsD [OF keeps_sys_close]] by blast
next
  case enters
  then show ?thesis using kinv_view [OF inv keepsD [OF keeps_trap(1)]] by blast
next
  case leaves
  then show ?thesis using kinv_view [OF inv keepsD [OF keeps_trap(2)]] by blast
qed

interpretation kernel: step_invariant "kstep env" "\<lambda>s. \<exists>xs. kinv xs s" for env :: "'z task_state_scheme kenv"
  by unfold_locales (use kstep_kinv in blast)

text \<open>C1: The kernel's invariant. In every state reachable by any sequence of switches, sleeps, waits for a
  child, exits, wakeups, terminal interrupts, creations of kernel and user tasks, opens, closes and traps,
  the task list is a well-formed circular list of valid tasks that own their threads, the idle task is in
  it and ready, the thread that runs is in it and ready, at most one task has ended and waits to be freed,
  and the scheduler's search still finds a ready thread of the list.\<close>

theorem kernel_invariant:
  assumes "rtranclp (kstep env) s s'" and "kinv xs s"
  shows "\<exists>ys. kinv ys s' \<and> (\<exists>t \<in> set ys. find_runnable_thread s' = Inr (Some (TaskThread t), s') \<and> state_of s' t = THREAD_READY)"
proof -
  have "\<exists>xs. kinv xs s" using assms(2) by blast
  with assms(1) have "\<exists>ys. kinv ys s'" by (rule kernel.reachable_inv)
  then obtain ys where ys: "kinv ys s'" by blast
  obtain t where "t \<in> set ys" "find_runnable_thread s' = Inr (Some (TaskThread t), s')" "state_of s' t = THREAD_READY"
    by (rule find_runnable_ready [OF kinv_sched [OF ys]])
  with ys show ?thesis by blast
qed

lemma sched_demo_kinv: "kinv [3, 2, 1, 0] (sched_demo 1)"
  using sched_demo_inv [of 1] by (auto simp: kinv_def state_of_def sched_demo_def demo_task_def)

theorem kernel_invariant_witness:
  "\<forall>env. \<exists>s' ys. kstep env (sched_demo 1) s' \<and> kinv ys s' \<and> state_of s' 3 = THREAD_READY"
proof
  fix env
  let ?p = "pool_map (awake (TtyInput SerialTty)) [3, 2, 1, 0] (task_pool (sched_demo 1))"
  let ?s = "(sched_demo 1)\<lparr>task_pool := ?p\<rparr>"
  have "wakeup (TtyInput SerialTty) (sched_demo 1) = Inr ((), ?s)"
    by (rule wakeup_run [OF sched_demo_inv]) (simp_all add: sched_demo_def)
  then have st: "kstep env (sched_demo 1) ?s" by (rule kstep.wakes)
  have "state_of ?s 3 = THREAD_READY"
    by (simp add: state_of_def pool_map_nth sched_demo_def demo_task_def awake_def)
  then show "\<exists>s' ys. kstep env (sched_demo 1) s' \<and> kinv ys s' \<and> state_of s' 3 = THREAD_READY"
    using st kernel_invariant [OF r_into_rtranclp [of "kstep env", OF st] sched_demo_kinv] by blast
qed

end
