(* ===== verification/Spec2Isabelle.thy ===== *)
theory Spec2Isabelle
  imports Sky_Alias Sky_Open Sky_Keys Sky_Gates Sky_Ints Sky_Panic Sky_Shell Sky_Thread Sky_Release Sky_Trap Sky_Steps
begin

text \<open>
  Skybolt, a small preemptive UNIX-like operating system for x86_64, aarch64 and riscv64: a verification development
  of its C code.

  \<^bold>\<open>The program.\<close> \<open>kmain\<close> (src/kernel/kmain.c) starts the CPU, the page heap, virtual memory, the ramdisk, the
  consoles, the displays, interrupts and the timer, and then the scheduler, which never returns. From then
  on the kernel runs in threads: the root threads start a shell on each console, user programs trap into the
  kernel for system calls, the timer and the keyboard interrupt them. The layers, from below:

    \<^item> memory: bytes, the string routines (src/kernel/lib.c), pages of two sizes (src/kernel/kheap.c) and four-level
      page tables (src/kernel/vm.c) whose entries differ per ISA (src/arch/*/pte.c);
    \<^item> files: a table of open files (src/kernel/file.c) that dispatches to the ramdisk (src/fs/tar.c) or the console
      devices (src/kernel/stdio.c);
    \<^item> consoles: UART drivers (src/io/serial), displays (src/graphics), the keyboard (src/io/keyboard), terminals
      with line editing (src/kernel/tty.c) and \<open>printf\<close> (src/kernel/printf.c);
    \<^item> tasks: threads, sleeping and waking, the scheduler (src/kernel/thread.c, task.c, sleep.c, scheduler.c), the ELF
      loader and the arguments of programs (src/kernel/elf.c, arg.c);
    \<^item> the border to user programs: checked access to their memory (src/kernel/copyio.c), system calls, exceptions,
      interrupts and the trap handlers (src/kernel/syscall.c, exception.c, interrupt.c, src/arch/*/trap.c);
    \<^item> user programs: a C library, a shell and small tools (user/).

  \<^bold>\<open>The model.\<close> A C function that reads or writes kernel state is a \<open>kop\<close>, a function from the state to an error or a
  result and the new state (\<open>Sky_Prelude\<close>). The errors are \<open>Panic\<close> (the kernel's own \<open>panic\<close> and \<open>assert\<close>), \<open>Fault\<close>
  (following NULL, an index out of range: what the C code must not do) and \<open>Hang\<close> (a loop that does not end).
  The state is a record that each layer extends: memory and the interrupt flag, the heaps, the registers of
  the page table, the file table, the tasks, the terminals and displays, the CPU's own tables. Words have the width they
  have in C, so wrap-around is kept. A pointer to an element of a static array is an index, NULL is \<open>None\<close>; memory that the
  code addresses by number is a function from 64-bit addresses to bytes. The links of the intrusive list are kept as
  pointers, so that aliasing is part of the model.

  \<^bold>\<open>The theories\<close>, with the sources they model and what they show:

    \<^item> \<open>Sky_Prelude\<close>: the monad, loops, the weakest-precondition rules (\<open>runs\<close>), the frame rules (\<open>keeps\<close>), words and searches.
    \<^item> \<open>Sky_Defs\<close> (inc/defs.h) and \<open>Sky_Lib\<close> (src/kernel/lib.c): address arithmetic, memory and C strings.
    \<^item> \<open>Sky_Kheap\<close> (src/kernel/kheap.c): allocation returns an unused aligned page of its heap and marks exactly that page,
      freeing undoes it and refuses every other address; locale \<open>page_allocator\<close>, interpreted for both heaps.
    \<^item> \<open>Sky_Pte\<close> (src/arch/*/pte.c): the entries of the three ISAs satisfy the laws of locale \<open>pte_laws\<close>.
    \<^item> \<open>Sky_Vm\<close> (src/kernel/vm.c), \<open>Sky_Ptree\<close>, \<open>Sky_Vmproof\<close>, \<open>Sky_Kmap\<close>: page tables as trees; mapping a page maps this page,
      changes no other translation and no memory outside new and touched tables; unmapping; the kernel's mappings, and that the MMU finds them from the registers of each ISA (\<open>mmu_lookup\<close>,
      written from the architecture manuals).
    \<^item> \<open>Sky_List\<close> (inc/list.h): the pointer operations implement a sequence; loops over a list that may shrink.
    \<^item> \<open>Sky_File\<close>, \<open>Sky_Tar\<close>, \<open>Sky_Stdio\<close> (src/kernel/file.c, src/fs/tar.c, src/kernel/stdio.c): looking up, reading and listing the
      archive; the reference counts of open files; locale \<open>filesystem\<close>, interpreted for both file systems.
    \<^item> \<open>Sky_Cpu\<close>, \<open>Sky_Ints\<close>, \<open>Sky_Segment\<close>, \<open>Sky_Gates\<close>, \<open>Sky_Panic\<close> (src/arch/*/cpu.c, src/arch/x86_64/segment.c): saved registers,
      the interrupt flag in the registers of each ISA (locale \<open>interrupt_flag\<close>, interpreted for the three), the start
      of the CPU, the panic report; the descriptors are read back the way the processor reads them.
    \<^item> \<open>Sky_Task\<close>, \<open>Sky_Sched\<close> (src/kernel/task.c, sleep.c, scheduler.c): the search for the next thread is round robin and
      starves no ready thread; waking and interrupting reach exactly the threads they name.
    \<^item> \<open>Sky_Display\<close>, \<open>Sky_Text\<close>, \<open>Sky_Tty\<close>, \<open>Sky_Line\<close>, \<open>Sky_Printf\<close> (src/graphics, src/kernel/tty.c, serial.c, printf.c): the text grid, the
      terminal as an editor of one line (over locale \<open>serial_port\<close>, interpreted for both UART drivers) and \<open>printf\<close> as a
      renderer.
    \<^item> \<open>Sky_Device\<close>, \<open>Sky_Keyboard\<close>, \<open>Sky_Keys\<close>, \<open>Sky_Boot\<close> (src/io, src/platform, src/kernel/kmain.c): drivers over a bus, the keyboard
      decoder against the events of a US keyboard written down on its own (\<open>us_rows\<close>), the platforms and the order of the start.
    \<^item> \<open>Sky_Proc\<close>, \<open>Sky_Access\<close>, \<open>Sky_Alias\<close>, \<open>Sky_Syscall\<close>, \<open>Sky_Fds\<close>, \<open>Sky_Open\<close> (src/kernel/copyio.c, arg.c, elf.c, thread.c, syscall.c, exception.c,
      interrupt.c, src/arch/*/trap.c): what the access check decides and what it misses (ranges that wrap, and the
      addresses from \<open>2 ^ 47\<close> to \<open>2 ^ 48\<close>, where it accepts the kernel's mappings: \<open>access_ok_kernel_alias\<close>), copying to user memory,
      opening every path and closing with the descriptor tables of all tasks.
    \<^item> \<open>Sky_Trap\<close> (src/kernel/scheduler.c): nested traps against a monitor of depth, outermost frame and entry stack.
    \<^item> \<open>Sky_Loader\<close>, \<open>Sky_Thread\<close>, \<open>Sky_Reclaim\<close>, \<open>Sky_Release\<close> (src/kernel/elf.c, thread.c, vm.c, task.c): the address space of a program from its start
      to its end. Loading a segment gives every page its bytes of the file in a page of its own; a new user thread gets a
      kernel stack with the two frames the context switch expects and a user stack; freeing the task returns exactly
      the tables, the mapped pages, the kernel stack and the files.
    \<^item> \<open>Sky_View\<close>, \<open>Sky_Steps\<close>: the kernel as a transition system over these operations, and the invariant of its
      reachable states by rule induction (locale \<open>step_invariant\<close>). \<open>boot_kinv\<close> shows that \<open>init_scheduler\<close> establishes it.
    \<^item> \<open>Sky_User\<close>, \<open>Sky_Shell\<close> (user/): the programs and the shell's splitting of a line.

  \<^bold>\<open>Loops.\<close> Loops over a fixed range are folds or primitive recursions. A loop whose end depends on the state is a
  \<open>partial_function\<close> into \<open>option\<close>; no result is the error \<open>Hang\<close>. That such loops end on well-formed data is proved with the
  functional property of the operation, for instance for the list loops, the search in the archive, the access
  check and the shell. The recursion over page tables is bounded by their four levels, as in the source. There is no
  fuel. Loops that never end are modelled by one round (the root threads, the redraw thread, \<open>count\<close>) or by their first \<open>n\<close>
  rounds (the idle thread).

  \<^bold>\<open>Arguments.\<close> What the C code does not contain is an argument: the context switch and the other assembly, the bus
  the drivers talk to, the addresses the linker chooses, the font, the places of buffers on the C stack (record
  \<open>kenv\<close> in \<open>Sky_Proc\<close>, \<open>uenv\<close> in \<open>Sky_User\<close>, \<open>cpu_args\<close> in \<open>Sky_Segment\<close>).

  \<^bold>\<open>Limits of the model.\<close> Memory is indexed by virtual address: that a user page is also visible in the linear map of
  the kernel is not part of it, nor are the TLB and the caches, so flushing has no effect. Interrupts arrive between
  the operations of \<open>Sky_Steps\<close>, not inside them; the kernel switches them off around the scheduler's data. The steps
  contain a thread's operations up to the context switch; what a thread does afterwards is further steps.

  \<^bold>\<open>Not modelled.\<close> The font table (src/graphics/font.c), which is data; the assembly files; the linker scripts and the
  Makefile; the declarations of headers without code of their own.

  \<^bold>\<open>What is left.\<close> Bounds on the polling of the drivers; the programs \<open>cat\<close> and \<open>ls\<close> from the shell to the archive.
\<close>

end
